(* ===== verification/Prelude.thy ===== *)
theory Prelude
  imports Main "HOL-Library.Sublist"
begin

text \<open>
  Shared vocabulary of the development.

  \<^item> Rust's \<^verbatim>\<open>char\<close> is a Unicode scalar value (\<open>uchar\<close>, its number) and a \<^verbatim>\<open>str\<close> is
    the list of its scalar values (\<open>ustr\<close>); string literals of the source are written with
    \<open>lit\<close>. Where the source counts bytes, the model counts the UTF-8 length of the scalar values
    (theory \<open>Utf8\<close>).
  \<^item> \<^verbatim>\<open>Result\<close> is the datatype \<open>result\<close>, every \<^verbatim>\<open>?\<close> a case split on it.
  \<^item> The functions of the Rust standard library that the modelled code calls on strings and
    slices (\<^verbatim>\<open>trim\<close>, \<^verbatim>\<open>strip_prefix\<close>, \<^verbatim>\<open>split\<close>, \<^verbatim>\<open>lines\<close>, \<^verbatim>\<open>join\<close>, \<^verbatim>\<open>find\<close>, \<^verbatim>\<open>sort_by\<close>) are
    defined here once, with the lemmas on them that the components share.
\<close>

named_theorems rust_std \<open>defining equations of the Rust standard library functions\<close>
named_theorems trim_rules \<open>facts on trimming\<close>

section \<open>Results\<close>

datatype ('e, 'a) result = Err 'e | Ok 'a

fun is_ok :: "('e, 'a) result \<Rightarrow> bool" where
  "is_ok (Ok _) = True"
| "is_ok (Err _) = False"

lemma is_ok_iff: "is_ok r \<longleftrightarrow> (\<exists>a. r = Ok a)"
  by (cases r) auto

text \<open>
  Where the source can panic (a slice out of range, an arithmetic underflow, a failed
  \<^verbatim>\<open>expect\<close>), the error type is \<open>'e fault\<close>: \<open>Panic\<close> next to the errors the code returns.
\<close>

datatype 'e fault = Panic | Fail 'e

fun lift_fault :: "('e, 'a) result \<Rightarrow> ('e fault, 'a) result" where
  "lift_fault (Ok a) = Ok a"
| "lift_fault (Err e) = Err (Fail e)"

lemma lift_fault_simps [simp]:
  "lift_fault r = Ok a \<longleftrightarrow> r = Ok a"
  "lift_fault r \<noteq> Err Panic"
  "lift_fault r = Err (Fail e) \<longleftrightarrow> r = Err e"
  by (cases r; auto)+

text \<open>\<^verbatim>\<open>&xs[a..b]\<close> and \<^verbatim>\<open>&xs[a..]\<close>.\<close>

definition slice :: "nat \<Rightarrow> nat \<Rightarrow> 'a list \<Rightarrow> ('e fault, 'a list) result" where
  "slice a b xs = (if a \<le> b \<and> b \<le> length xs then Ok (take (b - a) (drop a xs)) else Err Panic)"

definition slice_from :: "nat \<Rightarrow> 'a list \<Rightarrow> ('e fault, 'a list) result" where
  "slice_from a xs = (if a \<le> length xs then Ok (drop a xs) else Err Panic)"

lemma slice_from_Ok [simp]: "a \<le> length xs \<Longrightarrow> slice_from a xs = Ok (drop a xs)"
  by (simp add: slice_from_def)

text \<open>\<^verbatim>\<open>Vec::insert\<close>, which panics when the index is past the end.\<close>

definition vec_insert :: "nat \<Rightarrow> 'a \<Rightarrow> 'a list \<Rightarrow> ('e fault, 'a list) result" where
  "vec_insert i x xs = (if i \<le> length xs then Ok (take i xs @ x # drop i xs) else Err Panic)"

text \<open>\<^verbatim>\<open>iter().map(f).collect::<Result<Vec<_>, _>>()\<close>: the first error, or every value in order.\<close>

fun collect_results :: "('a \<Rightarrow> ('e, 'b) result) \<Rightarrow> 'a list \<Rightarrow> ('e, 'b list) result" where
  "collect_results f [] = Ok []"
| "collect_results f (x # xs) =
     (case f x of
        Err e \<Rightarrow> Err e
      | Ok y \<Rightarrow> (case collect_results f xs of Err e \<Rightarrow> Err e | Ok ys \<Rightarrow> Ok (y # ys)))"

lemma collect_results_Ok:
  "collect_results f xs = Ok ys \<longleftrightarrow> list_all2 (\<lambda>x y. f x = Ok y) xs ys"
proof (induction xs arbitrary: ys)
  case Nil
  then show ?case by auto
next
  case (Cons x xs)
  show ?case
  proof (cases "f x")
    case (Ok y)
    then have "collect_results f (x # xs) = Ok ys \<longleftrightarrow>
        (\<exists>zs. ys = y # zs \<and> collect_results f xs = Ok zs)"
      by (auto split: result.splits)
    then show ?thesis using Ok by (auto simp: Cons.IH list_all2_Cons1)
  qed (auto simp: list_all2_Cons1)
qed

section \<open>Characters and strings\<close>

type_synonym uchar = int
type_synonym ustr = "uchar list"

definition lit :: "string \<Rightarrow> ustr" where
  [simp]: "lit s = map of_char s"

text \<open>\<^verbatim>\<open>char::is_whitespace\<close>: the scalar values with the Unicode property \<^verbatim>\<open>White_Space\<close>.\<close>

definition is_whitespace :: "uchar \<Rightarrow> bool" where
  "is_whitespace c \<longleftrightarrow>
     9 \<le> c \<and> c \<le> 13 \<or> c = 32 \<or> c = 0x85 \<or> c = 0xA0 \<or> c = 0x1680
     \<or> 0x2000 \<le> c \<and> c \<le> 0x200A \<or> c = 0x2028 \<or> c = 0x2029 \<or> c = 0x202F \<or> c = 0x205F \<or> c = 0x3000"

definition is_ascii_digit :: "uchar \<Rightarrow> bool" where
  "is_ascii_digit c \<longleftrightarrow> 48 \<le> c \<and> c \<le> 57"

definition is_ascii_alphanumeric :: "uchar \<Rightarrow> bool" where
  "is_ascii_alphanumeric c \<longleftrightarrow>
     48 \<le> c \<and> c \<le> 57 \<or> 65 \<le> c \<and> c \<le> 90 \<or> 97 \<le> c \<and> c \<le> 122"

definition to_ascii_lowercase_char :: "uchar \<Rightarrow> uchar" where
  "to_ascii_lowercase_char c = (if 65 \<le> c \<and> c \<le> 90 then c + 32 else c)"

definition to_ascii_lowercase :: "ustr \<Rightarrow> ustr" where
  "to_ascii_lowercase = map to_ascii_lowercase_char"

definition eq_ignore_ascii_case :: "ustr \<Rightarrow> ustr \<Rightarrow> bool" where
  "eq_ignore_ascii_case a b \<longleftrightarrow> to_ascii_lowercase a = to_ascii_lowercase b"

abbreviation newline :: uchar where "newline \<equiv> 10"
abbreviation carriage_return :: uchar where "carriage_return \<equiv> 13"

text \<open>The decimal rendering of a number in \<^verbatim>\<open>format!\<close>.\<close>

fun to_decimal :: "nat \<Rightarrow> ustr" where
  "to_decimal n = (if n < 10 then [48 + int n] else to_decimal (n div 10) @ [48 + int (n mod 10)])"

declare to_decimal.simps [simp del]

subsection \<open>Trimming\<close>

definition trim_start :: "ustr \<Rightarrow> ustr" where
  "trim_start s = dropWhile is_whitespace s"

definition trim_end_matches :: "('a \<Rightarrow> bool) \<Rightarrow> 'a list \<Rightarrow> 'a list" where
  "trim_end_matches p s = rev (dropWhile p (rev s))"

definition trim_end :: "ustr \<Rightarrow> ustr" where
  "trim_end s = trim_end_matches is_whitespace s"

definition trim :: "ustr \<Rightarrow> ustr" where
  "trim s = trim_end (trim_start s)"

lemmas trim_defs = trim_start_def trim_end_def trim_end_matches_def trim_def

lemma trim_end_matches_append:
  "trim_end_matches p (xs @ ys) =
     (if \<forall>y\<in>set ys. p y then trim_end_matches p xs else xs @ trim_end_matches p ys)"
  by (auto simp: trim_end_matches_def dropWhile_append)

lemma trim_end_matches_decomp:
  "\<exists>w. s = trim_end_matches p s @ w \<and> (\<forall>c\<in>set w. p c)"
proof -
  have "s = rev (dropWhile p (rev s)) @ rev (takeWhile p (rev s))"
    by (metis rev_append rev_rev_ident takeWhile_dropWhile_id)
  then show ?thesis
    by (metis set_rev set_takeWhileD trim_end_matches_def)
qed

lemma trim_end_matches_last:
  "trim_end_matches p s = [] \<or> \<not> p (last (trim_end_matches p s))"
  by (metis hd_dropWhile last_rev rev_is_Nil_conv trim_end_matches_def)

lemma trim_end_matches_id [simp]: "s = [] \<or> \<not> p (last s) \<Longrightarrow> trim_end_matches p s = s"
  by (cases s rule: rev_cases) (auto simp: trim_end_matches_def)

lemma set_trim_end_matches: "set (trim_end_matches p s) \<subseteq> set s"
  by (metis Un_upper1 set_append trim_end_matches_decomp)

lemma dropWhile_hd_id [simp]: "s = [] \<or> \<not> p (hd s) \<Longrightarrow> dropWhile p s = s"
  by (cases s) auto

lemma trim_start_trim_end: "trim_start (trim_end s) = trim_end (trim_start s)"
proof -
  obtain t w where s: "s = t @ w" and t: "t = trim_end s" and w: "\<forall>c\<in>set w. is_whitespace c"
    using trim_end_matches_decomp unfolding trim_end_def by metis
  have last: "t = [] \<or> \<not> is_whitespace (last t)"
    unfolding t trim_end_def by (rule trim_end_matches_last)
  show ?thesis
  proof (cases "t = []")
    case True
    with s w have ws: "trim_start s = []" by (simp add: trim_start_def)
    from True t have "trim_end s = []" by simp
    then show ?thesis unfolding ws by (simp add: trim_defs)
  next
    case False
    with last have nws: "\<not> is_whitespace (last t)" by simp
    then have ne: "trim_start t \<noteq> []"
      using False by (auto simp: trim_start_def dropWhile_eq_Nil_conv)
    have "trim_start s = trim_start t @ w"
      using False nws unfolding s trim_start_def
      by (metis dropWhile_append1 last_in_set)
    moreover have "last (trim_start t) = last t"
      using ne unfolding trim_start_def by (metis last_appendR takeWhile_dropWhile_id)
    ultimately have "trim_end (trim_start s) = trim_start t"
      using w nws by (simp add: trim_end_def trim_end_matches_append)
    then show ?thesis by (simp add: t)
  qed
qed

lemma trim_eq_of_trim_end: "trim_end s = trim_end t \<Longrightarrow> trim s = trim t"
  by (metis trim_def trim_start_trim_end)

lemma set_trim: "set (trim s) \<subseteq> set s"
  using set_trim_end_matches[of is_whitespace "trim_start s"]
  by (auto simp: trim_def trim_end_def trim_start_def dest: set_dropWhileD)

text \<open>A string is its own trimming when its first and last characters are not white space.\<close>

definition trimmed :: "ustr \<Rightarrow> bool" where
  "trimmed s \<longleftrightarrow> s = [] \<or> \<not> is_whitespace (hd s) \<and> \<not> is_whitespace (last s)"

lemma trim_trimmed [simp, trim_rules]: "trimmed s \<Longrightarrow> trim s = s"
  by (auto simp: trimmed_def trim_def trim_start_def trim_end_def)

lemma trimmed_trim [trim_rules]: "trimmed (trim s)"
proof -
  have "trim s = [] \<or> \<not> is_whitespace (last (trim s))"
    unfolding trim_def trim_end_def by (rule trim_end_matches_last)
  moreover have "trim s = [] \<or> \<not> is_whitespace (hd (trim s))"
  proof -
    have eq: "trim s = dropWhile is_whitespace (trim_end s)"
      by (metis trim_def trim_start_def trim_start_trim_end)
    show ?thesis unfolding eq by (metis dropWhile_eq_Nil_conv hd_dropWhile)
  qed
  ultimately show ?thesis by (auto simp: trimmed_def)
qed

subsection \<open>Prefixes, suffixes and substrings\<close>

definition starts_with :: "'a list \<Rightarrow> 'a list \<Rightarrow> bool" where
  [simp]: "starts_with s p \<longleftrightarrow> prefix p s"

definition ends_with :: "'a list \<Rightarrow> 'a list \<Rightarrow> bool" where
  [simp]: "ends_with s p \<longleftrightarrow> suffix p s"

definition strip_prefix :: "'a list \<Rightarrow> 'a list \<Rightarrow> 'a list option" where
  "strip_prefix s p = (if prefix p s then Some (drop (length p) s) else None)"

definition strip_suffix :: "'a list \<Rightarrow> 'a list \<Rightarrow> 'a list option" where
  "strip_suffix s p = (if suffix p s then Some (take (length s - length p) s) else None)"

lemma strip_prefix_Some: "strip_prefix s p = Some r \<longleftrightarrow> s = p @ r"
  by (auto simp: strip_prefix_def prefix_def)

lemma strip_prefix_append [simp]: "strip_prefix (p @ r) p = Some r"
  by (simp add: strip_prefix_Some)

lemma strip_suffix_Some: "strip_suffix s p = Some r \<longleftrightarrow> s = r @ p"
  by (auto simp: strip_suffix_def suffix_def)

text \<open>\<^verbatim>\<open>str::split_once(c)\<close> and \<^verbatim>\<open>str::rsplit_once(c)\<close>.\<close>

definition split_once :: "'a \<Rightarrow> 'a list \<Rightarrow> ('a list \<times> 'a list) option" where
  "split_once c s =
     (if c \<in> set s then Some (takeWhile (\<lambda>x. x \<noteq> c) s, tl (dropWhile (\<lambda>x. x \<noteq> c) s)) else None)"

definition rsplit_once :: "'a \<Rightarrow> 'a list \<Rightarrow> ('a list \<times> 'a list) option" where
  "rsplit_once c s = map_option (\<lambda>(after, before). (rev before, rev after)) (split_once c (rev s))"

definition all_digits :: "ustr \<Rightarrow> bool" where
  "all_digits s \<longleftrightarrow> s \<noteq> [] \<and> list_all is_ascii_digit s"

text \<open>\<^verbatim>\<open>str::find\<close>: the offset of the first occurrence of a string.\<close>

fun find_sub :: "'a list \<Rightarrow> 'a list \<Rightarrow> nat option" where
  "find_sub [] n = (if n = [] then Some 0 else None)"
| "find_sub (x # xs) n = (if prefix n (x # xs) then Some 0 else map_option Suc (find_sub xs n))"

definition contains_sub :: "'a list \<Rightarrow> 'a list \<Rightarrow> bool" where
  "contains_sub s n \<longleftrightarrow> find_sub s n \<noteq> None"

lemma find_sub_Some:
  "find_sub s n = Some i \<longleftrightarrow> prefix n (drop i s) \<and> i \<le> length s \<and> (\<forall>j<i. \<not> prefix n (drop j s))"
proof (induction s arbitrary: i)
  case Nil
  then show ?case by auto
next
  case (Cons x xs)
  show ?case
  proof (cases "prefix n (x # xs)")
    case True
    then show ?thesis by (cases i) (auto simp del: prefix_Cons)
  next
    case False
    then show ?thesis
      by (cases i) (auto simp: Cons.IH All_less_Suc2 simp del: prefix_Cons)
  qed
qed

lemma find_sub_None: "find_sub s n = None \<longleftrightarrow> (\<forall>j\<le>length s. \<not> prefix n (drop j s))"
proof (induction s)
  case Nil
  then show ?case by auto
next
  case (Cons x xs)
  have "(\<forall>j\<le>length (x # xs). \<not> prefix n (drop j (x # xs))) \<longleftrightarrow>
      \<not> prefix n (x # xs) \<and> (\<forall>j\<le>length xs. \<not> prefix n (drop j xs))"
    by (simp add: less_Suc_eq_le [symmetric] All_less_Suc2 del: prefix_Cons)
  then show ?case by (simp add: Cons.IH del: prefix_Cons)
qed

lemma find_sub_bound: "find_sub s n = Some i \<Longrightarrow> i + length n \<le> length s"
  by (fastforce simp: find_sub_Some dest: prefix_length_le)

subsection \<open>Splitting and joining\<close>

text \<open>\<^verbatim>\<open>str::split(c)\<close>: the pieces between the separators, at least one.\<close>

fun split_char :: "'a \<Rightarrow> 'a list \<Rightarrow> 'a list list" where
  "split_char c [] = [[]]"
| "split_char c (x # xs) =
     (if x = c then [] # split_char c xs
      else (case split_char c xs of [] \<Rightarrow> [[x]] | p # ps \<Rightarrow> (x # p) # ps))"

text \<open>\<^verbatim>\<open>[String]::join(sep)\<close>.\<close>

fun join :: "'a list \<Rightarrow> 'a list list \<Rightarrow> 'a list" where
  "join sep [] = []"
| "join sep [p] = p"
| "join sep (p # q # ps) = p @ sep @ join sep (q # ps)"

lemma split_char_nonempty [simp]: "split_char c s \<noteq> []"
  by (cases s) (auto split: list.splits)

lemma join_split_char: "join [c] (split_char c s) = s"
proof (induction s)
  case (Cons x s)
  obtain p ps where ps: "split_char c s = p # ps" by (meson list.exhaust split_char_nonempty)
  show ?case
  proof (cases "x = c")
    case True
    with Cons ps show ?thesis by simp
  next
    case False
    with Cons ps show ?thesis by (cases ps) auto
  qed
qed simp

lemma split_char_free: "c \<notin> set p \<Longrightarrow> split_char c p = [p]"
  by (induction p) auto

lemma split_char_append_sep:
  "c \<notin> set p \<Longrightarrow> split_char c (p @ c # s) = p # split_char c s"
  by (induction p) auto

lemma split_char_join:
  "ps \<noteq> [] \<Longrightarrow> \<forall>p\<in>set ps. c \<notin> set p \<Longrightarrow> split_char c (join [c] ps) = ps"
  by (induction "[c]" ps rule: join.induct) (auto simp: split_char_free split_char_append_sep)

lemma split_char_pieces: "p \<in> set (split_char c s) \<Longrightarrow> c \<notin> set p"
  by (induction s arbitrary: p) (auto split: if_splits list.splits)

lemma join_append:
  "ps \<noteq> [] \<Longrightarrow> qs \<noteq> [] \<Longrightarrow> join sep (ps @ qs) = join sep ps @ sep @ join sep qs"
proof (induction sep ps rule: join.induct)
  case (2 sep p)
  then show ?case by (cases qs) auto
qed auto

text \<open>
  \<^verbatim>\<open>str::lines\<close>: split at line feeds, each together with a carriage return before it; the last
  line ending is optional and a carriage return with no line feed after it stays.
\<close>

definition strip_cr :: "ustr \<Rightarrow> ustr" where
  "strip_cr l = (case strip_suffix l [carriage_return] of Some r \<Rightarrow> r | None \<Rightarrow> l)"

definition str_lines :: "ustr \<Rightarrow> ustr list" where
  "str_lines s = (let ps = split_char newline s in
     map strip_cr (butlast ps) @ (if last ps = [] then [] else [last ps]))"

text \<open>A line that survives being joined with line feeds and read back by \<open>str_lines\<close>.\<close>

definition plain_line :: "ustr \<Rightarrow> bool" where
  "plain_line l \<longleftrightarrow> newline \<notin> set l \<and> (l = [] \<or> last l \<noteq> carriage_return)"

lemma strip_cr_id: "l = [] \<or> last l \<noteq> carriage_return \<Longrightarrow> strip_cr l = l"
  by (auto simp: strip_cr_def strip_suffix_def suffix_def)

lemma lines_join:
  assumes "ls \<noteq> []" and "list_all plain_line ls" and "last ls \<noteq> []"
  shows "str_lines (join [newline] ls) = ls"
proof -
  have "split_char newline (join [newline] ls) = ls"
    using assms by (intro split_char_join) (auto simp: list_all_iff plain_line_def)
  moreover have "map strip_cr (butlast ls) = butlast ls"
    using assms(2) by (intro map_idI strip_cr_id) (auto simp: list_all_iff plain_line_def dest: in_set_butlastD)
  ultimately show ?thesis
    using assms(1,3) by (simp add: str_lines_def)
qed

section \<open>Input and output errors\<close>

text \<open>
  \<^verbatim>\<open>std::io::Error\<close>: its kind, of which the constructors are those the modelled operations produce
  or inspect, and its message.
\<close>

datatype io_error_kind =
    NotFound | AlreadyExists | NotADirectory | IsADirectory | DirectoryNotEmpty | ResourceBusy
  | InvalidInput | InvalidData | OtherKind

record io_error =
  err_kind :: io_error_kind
  err_message :: ustr

end
