(* ===== verification/Patch_Parser.thy ===== *)
theory Patch_Parser
  imports Prelude
begin

text \<open>
  The patch parser of \<^verbatim>\<open>src/apply-patch/src/parser.rs\<close>. Each Rust function is one definition; its
  loops are the recursive functions named after it with suffix \<open>_loop\<close>. Slices and indexing can
  panic in Rust, so those functions return a \<open>fault\<close>, and \<open>parse_patch_text_no_panic\<close> proves that the
  panic never happens. The printer for the grammar of the module comment and the
  round trip are in theory \<open>Patch_Roundtrip\<close>.
\<close>

section \<open>Data\<close>

definition BEGIN_PATCH_MARKER :: ustr where "BEGIN_PATCH_MARKER = lit ''*** Begin Patch''"
definition END_PATCH_MARKER :: ustr where "END_PATCH_MARKER = lit ''*** End Patch''"
definition ADD_FILE_MARKER :: ustr where "ADD_FILE_MARKER = lit ''*** Add File: ''"
definition DELETE_FILE_MARKER :: ustr where "DELETE_FILE_MARKER = lit ''*** Delete File: ''"
definition UPDATE_FILE_MARKER :: ustr where "UPDATE_FILE_MARKER = lit ''*** Update File: ''"
definition MOVE_TO_MARKER :: ustr where "MOVE_TO_MARKER = lit ''*** Move to: ''"
definition EOF_MARKER :: ustr where "EOF_MARKER = lit ''*** End of File''"
definition CHANGE_CONTEXT_MARKER :: ustr where "CHANGE_CONTEXT_MARKER = lit ''@@ ''"
definition EMPTY_CHANGE_CONTEXT_MARKER :: ustr where "EMPTY_CHANGE_CONTEXT_MARKER = lit ''@@''"

lemmas marker_defs =
  BEGIN_PATCH_MARKER_def END_PATCH_MARKER_def ADD_FILE_MARKER_def DELETE_FILE_MARKER_def
  UPDATE_FILE_MARKER_def MOVE_TO_MARKER_def EOF_MARKER_def CHANGE_CONTEXT_MARKER_def
  EMPTY_CHANGE_CONTEXT_MARKER_def

definition PARSE_IN_STRICT_MODE :: bool where "PARSE_IN_STRICT_MODE = False"

abbreviation quoted :: "ustr \<Rightarrow> ustr" where "quoted s \<equiv> [39] @ s @ [39]"

datatype parse_error =
    InvalidPatchError ustr
  | InvalidHunkError ustr nat

record update_file_chunk =
  change_context :: "ustr option"
  old_lines :: "ustr list"
  new_lines :: "ustr list"
  is_end_of_file :: bool

datatype hunk =
    AddFile ustr ustr
  | DeleteFile ustr
  | UpdateFile ustr "ustr option" "update_file_chunk list"

record apply_patch_args =
  args_patch :: ustr
  args_hunks :: "hunk list"
  args_workdir :: "ustr option"

datatype parse_mode = Strict | Lenient | Streaming

text \<open>\<^verbatim>\<open>Hunk::path\<close>: the path a hunk affects, the destination for a rename.\<close>

fun hunk_path :: "hunk \<Rightarrow> ustr" where
  "hunk_path (AddFile path _) = path"
| "hunk_path (DeleteFile path) = path"
| "hunk_path (UpdateFile _ (Some path) _) = path"
| "hunk_path (UpdateFile path None _) = path"

section \<open>Chunks\<close>

text \<open>The loop over the diff lines of a chunk; \<open>n\<close> is \<^verbatim>\<open>parsed_lines\<close>.\<close>

fun parse_update_file_chunk_loop ::
  "nat \<Rightarrow> ustr list \<Rightarrow> update_file_chunk \<Rightarrow> nat \<Rightarrow> (parse_error, update_file_chunk \<times> nat) result"
where
  "parse_update_file_chunk_loop line_number [] chunk n = Ok (chunk, n)"
| "parse_update_file_chunk_loop line_number (line # rest) chunk n =
     (if line = EOF_MARKER then
        (if n = 0
         then Err (InvalidHunkError (lit ''Update hunk does not contain any lines'') (line_number + 1))
         else Ok (chunk\<lparr>is_end_of_file := True\<rparr>, n + 1))
      else case line of
        [] \<Rightarrow> parse_update_file_chunk_loop line_number rest
                (chunk\<lparr>old_lines := old_lines chunk @ [[]], new_lines := new_lines chunk @ [[]]\<rparr>) (n + 1)
      | c # cs \<Rightarrow>
          if c = 32 then parse_update_file_chunk_loop line_number rest
                (chunk\<lparr>old_lines := old_lines chunk @ [cs], new_lines := new_lines chunk @ [cs]\<rparr>) (n + 1)
          else if c = 43 then parse_update_file_chunk_loop line_number rest
                (chunk\<lparr>new_lines := new_lines chunk @ [cs]\<rparr>) (n + 1)
          else if c = 45 then parse_update_file_chunk_loop line_number rest
                (chunk\<lparr>old_lines := old_lines chunk @ [cs]\<rparr>) (n + 1)
          else if n = 0 then
            Err (InvalidHunkError
              (lit ''Unexpected line found in update hunk: '' @ quoted line
               @ lit ''. Every line should start with '' @ quoted (lit '' '')
               @ lit '' (context line), '' @ quoted (lit ''+'') @ lit '' (added line), or ''
               @ quoted (lit ''-'') @ lit '' (removed line)'') (line_number + 1))
          else Ok (chunk, n))"

text \<open>The context marker of a chunk and the number of lines it takes (\<^verbatim>\<open>start_index\<close>).\<close>

definition parse_change_context ::
  "ustr \<Rightarrow> nat \<Rightarrow> bool \<Rightarrow> (parse_error, ustr option \<times> nat) result" where
  "parse_change_context first line_number allow_missing_context =
     (if first = EMPTY_CHANGE_CONTEXT_MARKER then Ok (None, 1)
      else case strip_prefix first CHANGE_CONTEXT_MARKER of
        Some context \<Rightarrow> Ok (Some context, 1)
      | None \<Rightarrow>
          if \<not> allow_missing_context then
            Err (InvalidHunkError
              (lit ''Expected update hunk to start with a @@ context marker, got: '' @ quoted first)
              line_number)
          else Ok (None, 0))"

definition parse_update_file_chunk ::
  "ustr list \<Rightarrow> nat \<Rightarrow> bool \<Rightarrow> (parse_error, update_file_chunk \<times> nat) result" where
  "parse_update_file_chunk ls line_number allow_missing_context =
     (case ls of
        [] \<Rightarrow> Err (InvalidHunkError (lit ''Update hunk does not contain any lines'') line_number)
      | first # _ \<Rightarrow>
        (case parse_change_context first line_number allow_missing_context of
           Err e \<Rightarrow> Err e
         | Ok (context, start_index) \<Rightarrow>
             if start_index \<ge> length ls then
               Err (InvalidHunkError (lit ''Update hunk does not contain any lines'') (line_number + 1))
             else
               (case parse_update_file_chunk_loop line_number (drop start_index ls)
                  \<lparr>change_context = context, old_lines = [], new_lines = [], is_end_of_file = False\<rparr> 0 of
                  Err e \<Rightarrow> Err e
                | Ok (chunk, parsed_lines) \<Rightarrow> Ok (chunk, parsed_lines + start_index))))"

definition chunk_nonempty :: "update_file_chunk \<Rightarrow> bool" where
  "chunk_nonempty c \<longleftrightarrow> old_lines c \<noteq> [] \<or> new_lines c \<noteq> []"

lemma chunk_loop_progress:
  assumes "parse_update_file_chunk_loop ln ls chunk n = Ok (chunk', n')"
    and "n = 0 \<or> chunk_nonempty chunk"
  shows "n \<le> n' \<and> n' \<le> n + length ls \<and> (n' = 0 \<or> chunk_nonempty chunk') \<and> (ls \<noteq> [] \<longrightarrow> 0 < n')"
  using assms
proof (induction ln ls chunk n rule: parse_update_file_chunk_loop.induct)
  case (2 line_number line rest chunk n)
  show ?case
  proof (cases "line = EOF_MARKER")
    case True
    with "2.prems" show ?thesis by (auto simp: chunk_nonempty_def split: if_splits)
  next
    case False
    note IH = "2.IH" [OF False]
    show ?thesis
    proof (cases line)
      case Nil
      from IH(1) [OF this] "2.prems" False Nil show ?thesis
        by (auto simp: chunk_nonempty_def)
    next
      case (Cons c cs)
      then show ?thesis
        using "2.prems" False IH(2) [OF Cons] IH(3) [OF Cons] IH(4) [OF Cons]
        by (auto simp: chunk_nonempty_def split: if_splits)
    qed
  qed
qed (simp add: chunk_nonempty_def)

lemma parse_update_file_chunk_progress:
  assumes "parse_update_file_chunk ls line_number amc = Ok (chunk, n)"
  shows "0 < n \<and> n \<le> length ls \<and> chunk_nonempty chunk"
proof -
  from assms obtain first rest ctx si where ls: "ls = first # rest"
      and hd: "parse_change_context first line_number amc = Ok (ctx, si)"
    by (auto simp: parse_update_file_chunk_def split: list.splits result.splits)
  with assms obtain m where
      loop: "parse_update_file_chunk_loop line_number (drop si ls)
        \<lparr>change_context = ctx, old_lines = [], new_lines = [], is_end_of_file = False\<rparr> 0 = Ok (chunk, m)"
      and si: "si < length ls" and n: "n = m + si"
    by (auto simp: parse_update_file_chunk_def split: result.splits if_splits)
  from chunk_loop_progress [OF loop] si n show ?thesis by auto
qed

lemma chunk_loop_error:
  "parse_update_file_chunk_loop ln ls c n = Err e \<Longrightarrow> \<exists>m k. e = InvalidHunkError m k"
  by (induction ln ls c n rule: parse_update_file_chunk_loop.induct)
    (auto split: if_splits list.splits)

lemma parse_update_file_chunk_error:
  assumes "parse_update_file_chunk ls line_number amc = Err e"
  shows "\<exists>m k. e = InvalidHunkError m k"
  using assms
  by (auto simp: parse_update_file_chunk_def parse_change_context_def split: list.splits result.splits
        if_splits option.splits dest: chunk_loop_error)

section \<open>Hunks\<close>

text \<open>The loop over the \<^verbatim>\<open>+\<close> lines of an added file.\<close>

fun add_file_loop :: "ustr list \<Rightarrow> ustr \<Rightarrow> nat \<Rightarrow> ustr \<times> nat" where
  "add_file_loop [] contents n = (contents, n)"
| "add_file_loop (add_line # rest) contents n =
     (case strip_prefix add_line (lit ''+'') of
        Some line_to_add \<Rightarrow> add_file_loop rest (contents @ line_to_add @ [newline]) (n + 1)
      | None \<Rightarrow> (contents, n))"

text \<open>The loop over the chunks of an updated file; \<open>n\<close> is \<^verbatim>\<open>parsed_lines\<close>.\<close>

function update_file_loop ::
  "ustr list \<Rightarrow> nat \<Rightarrow> bool \<Rightarrow> nat \<Rightarrow> update_file_chunk list
   \<Rightarrow> (parse_error fault, update_file_chunk list \<times> nat) result"
where
  "update_file_loop [] line_number allow_incomplete n chunks = Ok (chunks, n)"
| "update_file_loop (l # ls) line_number allow_incomplete n chunks =
     (if trim l = [] then update_file_loop ls line_number allow_incomplete (n + 1) chunks
      else if starts_with l (lit ''*'') then Ok (chunks, n)
      else if allow_incomplete \<and> l = lit ''@'' then Ok (chunks, n)
      else case parse_update_file_chunk (l # ls) (line_number + n) (chunks = []) of
        Ok (chunk, chunk_lines) \<Rightarrow>
          (case slice_from chunk_lines (l # ls) of
             Err e \<Rightarrow> Err e
           | Ok remaining_lines \<Rightarrow>
               update_file_loop remaining_lines line_number allow_incomplete (n + chunk_lines)
                 (chunks @ [chunk]))
      | Err err \<Rightarrow>
          (case err of
             InvalidHunkError _ _ \<Rightarrow>
               if allow_incomplete \<and> chunks \<noteq> [] then Ok (chunks, n) else Err (Fail err)
           | _ \<Rightarrow> Err (Fail err)))"
  by pat_completeness auto
termination
  by (relation "measure (\<lambda>(ls, _). length ls)")
    (auto simp: slice_from_def dest: parse_update_file_chunk_progress split: if_splits)

text \<open>\<^verbatim>\<open>remaining_lines.first().and_then(|x| x.strip_prefix(MOVE_TO_MARKER))\<close>.\<close>

definition move_line :: "ustr list \<Rightarrow> ustr option" where
  "move_line ls = (case ls of [] \<Rightarrow> None | x # _ \<Rightarrow> strip_prefix x MOVE_TO_MARKER)"

text \<open>The branch of \<^verbatim>\<open>parse_one_hunk\<close> for an updated file; \<open>ls\<close> are the lines after the header.\<close>

definition parse_update_hunk ::
  "ustr \<Rightarrow> ustr list \<Rightarrow> nat \<Rightarrow> bool \<Rightarrow> (parse_error fault, hunk \<times> nat) result" where
  "parse_update_hunk path ls line_number allow_incomplete =
     (case update_file_loop (if move_line ls \<noteq> None then drop 1 ls else ls) line_number
             allow_incomplete (if move_line ls \<noteq> None then 2 else 1) [] of
        Err e \<Rightarrow> Err e
      | Ok (chunks, parsed_lines) \<Rightarrow>
          if chunks = [] then
            Err (Fail (InvalidHunkError
              (lit ''Update file hunk for path '' @ quoted path @ lit '' is empty'') line_number))
          else Ok (UpdateFile path (move_line ls) chunks, parsed_lines))"

definition parse_one_hunk ::
  "ustr list \<Rightarrow> nat \<Rightarrow> bool \<Rightarrow> (parse_error fault, hunk \<times> nat) result" where
  "parse_one_hunk ls line_number allow_incomplete =
     (case ls of
        [] \<Rightarrow> Err Panic
      | line0 # tail_lines \<Rightarrow>
        (let first_line = trim line0 in
         case strip_prefix first_line ADD_FILE_MARKER of
           Some path \<Rightarrow>
             (let (contents, parsed_lines) = add_file_loop tail_lines [] 1
              in Ok (AddFile path contents, parsed_lines))
         | None \<Rightarrow>
         (case strip_prefix first_line DELETE_FILE_MARKER of
           Some path \<Rightarrow> Ok (DeleteFile path, 1)
         | None \<Rightarrow>
         (case strip_prefix first_line UPDATE_FILE_MARKER of
           Some path \<Rightarrow> parse_update_hunk path tail_lines line_number allow_incomplete
         | None \<Rightarrow>
             Err (Fail (InvalidHunkError
               (quoted first_line @ lit '' is not a valid hunk header. Valid hunk headers: ''
                @ quoted (lit ''*** Add File: {path}'') @ lit '', ''
                @ quoted (lit ''*** Delete File: {path}'') @ lit '', ''
                @ quoted (lit ''*** Update File: {path}'')) line_number))))))"

fun hunk_well_formed :: "hunk \<Rightarrow> bool" where
  "hunk_well_formed (UpdateFile _ _ chunks) = (chunks \<noteq> [] \<and> list_all chunk_nonempty chunks)"
| "hunk_well_formed _ = True"

lemma add_file_loop_count: "snd (add_file_loop ls c n) \<le> n + length ls \<and> n \<le> snd (add_file_loop ls c n)"
proof (induction ls c n rule: add_file_loop.induct)
  case (2 add_line rest contents n)
  show ?case
  proof (cases "strip_prefix add_line (lit ''+'')")
    case (Some r)
    from "2.IH" [OF this] Some show ?thesis by (auto simp del: lit_def)
  qed (auto simp del: lit_def)
qed auto

lemma update_file_loop_progress:
  assumes "update_file_loop ls ln ai n chunks = Ok (chunks', n')" and "list_all chunk_nonempty chunks"
  shows "n \<le> n' \<and> n' \<le> n + length ls \<and> list_all chunk_nonempty chunks'"
  using assms
proof (induction ls ln ai n chunks rule: update_file_loop.induct)
  case (2 l ls ln ai n chunks)
  show ?case
  proof (cases "trim l = [] \<or> starts_with l (lit ''*'') \<or> ai \<and> l = lit ''@''")
    case True
    with "2.prems" "2.IH"(1) show ?thesis by (auto simp del: lit_def split: if_splits)
  next
    case False
    show ?thesis
    proof (cases "parse_update_file_chunk (l # ls) (ln + n) (chunks = [])")
      case (Err e)
      with "2.prems" False show ?thesis by (auto simp del: lit_def split: parse_error.splits if_splits)
    next
      case (Ok r)
      obtain c k where r: "r = (c, k)" by fastforce
      note prog = parse_update_file_chunk_progress [OF Ok [unfolded r]]
      then have k: "k \<le> length (l # ls)" by simp
      note sl = slice_from_Ok [OF k]
      have run: "update_file_loop (drop k (l # ls)) ln ai (n + k) (chunks @ [c]) = Ok (chunks', n')"
        using "2.prems" False Ok r k by (auto simp del: lit_def)
      have "n + k \<le> n' \<and> n' \<le> n + k + length (drop k (l # ls)) \<and> list_all chunk_nonempty chunks'"
        using "2.IH"(2) [OF _ _ _ Ok r [symmetric] sl run] False prog "2.prems"(2)
        by (auto simp del: lit_def)
      with prog show ?thesis by auto
    qed
  qed
qed auto

lemma update_file_loop_no_panic: "update_file_loop ls ln ai n chunks \<noteq> Err Panic"
proof (induction ls ln ai n chunks rule: update_file_loop.induct)
  case (2 l ls ln ai n chunks)
  show ?case
  proof (cases "trim l = [] \<or> starts_with l (lit ''*'') \<or> ai \<and> l = lit ''@''")
    case True
    with "2.IH"(1) show ?thesis by (auto simp del: lit_def)
  next
    case False
    show ?thesis
    proof (cases "parse_update_file_chunk (l # ls) (ln + n) (chunks = [])")
      case (Err e)
      with False show ?thesis by (auto simp del: lit_def split: parse_error.splits)
    next
      case (Ok r)
      obtain c k where r: "r = (c, k)" by fastforce
      from parse_update_file_chunk_progress [OF Ok [unfolded r]]
      have k: "k \<le> length (l # ls)" by simp
      note sl = slice_from_Ok [OF k]
      from "2.IH"(2) [OF _ _ _ Ok r [symmetric] sl] False Ok r k show ?thesis
        by (auto simp del: lit_def)
    qed
  qed
qed auto

lemma parse_update_hunk_progress:
  assumes "parse_update_hunk path ls ln ai = Ok (h, n)"
  shows "0 < n \<and> n \<le> Suc (length ls) \<and> hunk_well_formed h"
proof -
  from assms obtain chunks where
      run: "update_file_loop (if move_line ls \<noteq> None then drop 1 ls else ls) ln ai
              (if move_line ls \<noteq> None then 2 else 1) [] = Ok (chunks, n)"
      and h: "h = UpdateFile path (move_line ls) chunks" "chunks \<noteq> []"
    by (auto simp: parse_update_hunk_def split: result.splits if_splits)
  have "move_line ls \<noteq> None \<Longrightarrow> ls \<noteq> []" by (auto simp: move_line_def)
  with update_file_loop_progress [OF run] h show ?thesis
    by (cases ls) (auto split: if_splits)
qed

lemma parse_one_hunk_cases:
  assumes "ls \<noteq> []"
  obtains (add) path where
      "parse_one_hunk ls ln ai = Ok (AddFile path (fst (add_file_loop (tl ls) [] 1)),
         snd (add_file_loop (tl ls) [] 1))"
    | (delete) path where "parse_one_hunk ls ln ai = Ok (DeleteFile path, 1)"
    | (update) path where "parse_one_hunk ls ln ai = parse_update_hunk path (tl ls) ln ai"
    | (invalid) m where "parse_one_hunk ls ln ai = Err (Fail (InvalidHunkError m ln))"
proof -
  obtain l0 ts where "ls = l0 # ts" using assms by (meson list.exhaust)
  then show thesis
    using add delete update invalid
    by (fastforce simp: parse_one_hunk_def Let_def split_beta simp del: lit_def split: option.splits)
qed

lemma parse_one_hunk_progress:
  assumes "parse_one_hunk ls ln ai = Ok (h, n)"
  shows "0 < n \<and> n \<le> length ls \<and> hunk_well_formed h"
proof -
  obtain l0 ts where ls: "ls = l0 # ts" using assms by (auto simp: parse_one_hunk_def split: list.splits)
  then have "ls \<noteq> []" by simp
  then show ?thesis
  proof (cases rule: parse_one_hunk_cases [of ls ln ai])
    case (add path)
    with assms ls add_file_loop_count [of "tl ls" "[]" 1] show ?thesis by auto
  next
    case (update path)
    with assms ls parse_update_hunk_progress [of path "tl ls" ln ai h n] show ?thesis by auto
  qed (use assms ls in auto)
qed

lemma parse_one_hunk_no_panic:
  assumes "ls \<noteq> []"
  shows "parse_one_hunk ls ln ai \<noteq> Err Panic"
  using assms
proof (cases rule: parse_one_hunk_cases [of ls ln ai])
  case (update path)
  then show ?thesis
    by (auto simp: parse_update_hunk_def update_file_loop_no_panic split: result.splits)
qed auto

section \<open>Boundaries and the whole patch\<close>

definition check_start_and_end_lines_strict ::
  "ustr option \<Rightarrow> ustr option \<Rightarrow> (parse_error, unit) result" where
  "check_start_and_end_lines_strict first_line last_line =
     (let first_line = map_option trim first_line; last_line = map_option trim last_line in
      if first_line = Some BEGIN_PATCH_MARKER \<and> last_line = Some END_PATCH_MARKER then Ok ()
      else if first_line \<noteq> None \<and> first_line \<noteq> Some BEGIN_PATCH_MARKER then
        Err (InvalidPatchError (lit ''The first line of the patch must be '' @ quoted (lit ''*** Begin Patch'')))
      else
        Err (InvalidPatchError (lit ''The last line of the patch must be '' @ quoted (lit ''*** End Patch''))))"

definition check_patch_boundaries_strict ::
  "ustr list \<Rightarrow> (parse_error fault, ustr list \<times> ustr list) result" where
  "check_patch_boundaries_strict ls =
     (let (first_line, last_line) =
        (case ls of
           [] \<Rightarrow> (None, None)
         | [first] \<Rightarrow> (Some first, Some first)
         | first # rest \<Rightarrow> (Some first, Some (last rest)))
      in case check_start_and_end_lines_strict first_line last_line of
           Err e \<Rightarrow> Err (Fail e)
         | Ok _ \<Rightarrow>
             if length ls = 0 then Err Panic
             else (case slice 1 (length ls - 1) ls of Err e \<Rightarrow> Err e | Ok body \<Rightarrow> Ok (ls, body)))"

definition check_patch_boundaries_lenient ::
  "ustr list \<Rightarrow> (parse_error fault, ustr list \<times> ustr list) result" where
  "check_patch_boundaries_lenient original_lines =
     (case check_patch_boundaries_strict original_lines of
        Ok ls \<Rightarrow> Ok ls
      | Err original_parse_error \<Rightarrow>
          (case original_lines of
             first # (rest0 # rests) \<Rightarrow>
               (let last_line = last (rest0 # rests) in
                if (first = lit ''<<EOF'' \<or> first = lit ''<<'' @ quoted (lit ''EOF'')
                    \<or> first = lit ''<<'' @ [34] @ lit ''EOF'' @ [34])
                   \<and> ends_with last_line (lit ''EOF'')
                   \<and> length original_lines \<ge> 4
                then
                  (case slice 1 (length original_lines - 1) original_lines of
                     Err e \<Rightarrow> Err e
                   | Ok inner_lines \<Rightarrow> check_patch_boundaries_strict inner_lines)
                else Err original_parse_error)
           | _ \<Rightarrow> Err original_parse_error))"

definition check_patch_boundaries_streaming ::
  "ustr list \<Rightarrow> (parse_error fault, ustr list \<times> ustr list) result" where
  "check_patch_boundaries_streaming original_lines =
     (case original_lines of
        first # _ \<Rightarrow>
          if trim first = BEGIN_PATCH_MARKER then
            (case (if trim (last original_lines) = END_PATCH_MARKER
                   then slice 1 (length original_lines - 1) original_lines
                   else slice_from 1 original_lines) of
               Err e \<Rightarrow> Err e
             | Ok body_lines \<Rightarrow> Ok (original_lines, body_lines))
          else check_patch_boundaries_strict original_lines
      | [] \<Rightarrow> check_patch_boundaries_strict original_lines)"

text \<open>The \<^verbatim>\<open>while\<close> loop of \<^verbatim>\<open>parse_patch_text\<close>.\<close>

function parse_hunks_loop ::
  "ustr list \<Rightarrow> nat \<Rightarrow> bool \<Rightarrow> hunk list \<Rightarrow> (parse_error fault, hunk list) result"
where
  "parse_hunks_loop remaining_lines line_number allow_incomplete hs =
     (if remaining_lines = [] then Ok hs
      else case parse_one_hunk remaining_lines line_number allow_incomplete of
        Err e \<Rightarrow> Err e
      | Ok (hunk, hunk_lines) \<Rightarrow>
          (case slice_from hunk_lines remaining_lines of
             Err e \<Rightarrow> Err e
           | Ok rest \<Rightarrow>
               parse_hunks_loop rest (line_number + hunk_lines) allow_incomplete (hs @ [hunk])))"
  by pat_completeness auto
termination
  by (relation "measure (\<lambda>(ls, _). length ls)")
    (auto simp: slice_from_def dest: parse_one_hunk_progress split: if_splits)

declare parse_hunks_loop.simps [simp del]

definition parse_patch_text :: "ustr \<Rightarrow> parse_mode \<Rightarrow> (parse_error fault, apply_patch_args) result" where
  "parse_patch_text patch mode =
     (let ls = str_lines (trim patch) in
      case (case mode of
              Strict \<Rightarrow> check_patch_boundaries_strict ls
            | Lenient \<Rightarrow> check_patch_boundaries_lenient ls
            | Streaming \<Rightarrow> check_patch_boundaries_streaming ls) of
        Err e \<Rightarrow> Err e
      | Ok (patch_lines, hunk_lines) \<Rightarrow>
          (case parse_hunks_loop hunk_lines 2 (mode = Streaming) [] of
             Err e \<Rightarrow> Err e
           | Ok hs \<Rightarrow>
               Ok \<lparr>args_patch = join [newline] patch_lines, args_hunks = hs, args_workdir = None\<rparr>))"

definition parse_patch :: "ustr \<Rightarrow> (parse_error fault, apply_patch_args) result" where
  "parse_patch patch = parse_patch_text patch (if PARSE_IN_STRICT_MODE then Strict else Lenient)"

definition parse_patch_streaming :: "ustr \<Rightarrow> (parse_error fault, apply_patch_args) result" where
  "parse_patch_streaming patch = parse_patch_text patch Streaming"

section \<open>Properties of the parser\<close>

lemma parse_hunks_loop_no_panic: "parse_hunks_loop ls ln ai hs \<noteq> Err Panic"
proof (induction ls ln ai hs rule: parse_hunks_loop.induct)
  case (1 ls ln ai hs)
  show ?case
  proof (cases "ls = []")
    case False
    show ?thesis
    proof (cases "parse_one_hunk ls ln ai")
      case (Err e)
      with False parse_one_hunk_no_panic [OF False, of ln ai] show ?thesis
        by (auto simp: parse_hunks_loop.simps [of ls])
    next
      case (Ok r)
      obtain h n where r: "r = (h, n)" by fastforce
      from parse_one_hunk_progress [OF Ok [unfolded r]] have n: "n \<le> length ls" by simp
      from "1.IH" [OF False Ok r [symmetric] slice_from_Ok [OF n]] False Ok r n show ?thesis
        by (auto simp: parse_hunks_loop.simps [of ls])
    qed
  qed (simp add: parse_hunks_loop.simps)
qed

lemma parse_hunks_loop_well_formed:
  assumes "parse_hunks_loop ls ln ai hs = Ok hs'" and "list_all hunk_well_formed hs"
  shows "list_all hunk_well_formed hs'"
  using assms
proof (induction ls ln ai hs rule: parse_hunks_loop.induct)
  case (1 ls ln ai hs)
  show ?case
  proof (cases "ls = []")
    case True
    with "1.prems" show ?thesis by (simp add: parse_hunks_loop.simps)
  next
    case False
    with "1.prems" obtain h n where one: "parse_one_hunk ls ln ai = Ok (h, n)"
      by (auto simp: parse_hunks_loop.simps [of ls] split: result.splits)
    note prog = parse_one_hunk_progress [OF one]
    then have n: "n \<le> length ls" by simp
    from "1.prems"(1) False one n
    have "parse_hunks_loop (drop n ls) (ln + n) ai (hs @ [h]) = Ok hs'"
      by (simp add: parse_hunks_loop.simps [of ls])
    from "1.IH" [OF False one refl slice_from_Ok [OF n] this] prog "1.prems"(2) show ?thesis by simp
  qed
qed

lemma markers_differ: "BEGIN_PATCH_MARKER \<noteq> END_PATCH_MARKER"
  by (simp add: marker_defs)

lemma check_strict_Ok:
  assumes "check_start_and_end_lines_strict first_line last_line = Ok u"
  shows "map_option trim first_line = Some BEGIN_PATCH_MARKER
    \<and> map_option trim last_line = Some END_PATCH_MARKER"
  using assms by (auto simp: check_start_and_end_lines_strict_def Let_def split: if_splits)

lemma check_boundaries_strict_no_panic: "check_patch_boundaries_strict ls \<noteq> Err Panic"
proof (cases ls)
  case Nil
  then show ?thesis
    by (simp add: check_patch_boundaries_strict_def check_start_and_end_lines_strict_def)
next
  case (Cons f ts)
  show ?thesis
  proof (cases ts)
    case Nil
    have "check_start_and_end_lines_strict (Some f) (Some f) \<noteq> Ok u" for u
      using check_strict_Ok [of "Some f" "Some f" u] markers_differ by auto
    with Cons Nil show ?thesis
      by (auto simp: check_patch_boundaries_strict_def split: result.splits)
  next
    case (Cons g us)
    with \<open>ls = f # ts\<close> show ?thesis
      by (auto simp: check_patch_boundaries_strict_def slice_def split: result.splits)
  qed
qed

lemma check_boundaries_lenient_no_panic: "check_patch_boundaries_lenient ls \<noteq> Err Panic"
  using check_boundaries_strict_no_panic
  by (auto simp: check_patch_boundaries_lenient_def slice_def Let_def simp del: lit_def
      split: result.splits list.splits)

lemma check_boundaries_streaming_no_panic: "check_patch_boundaries_streaming ls \<noteq> Err Panic"
proof (cases ls)
  case Nil
  then show ?thesis
    by (simp add: check_patch_boundaries_streaming_def check_boundaries_strict_no_panic)
next
  case (Cons f ts)
  have "ts \<noteq> []" if "trim f = BEGIN_PATCH_MARKER" "trim (last ls) = END_PATCH_MARKER"
    using that Cons markers_differ by auto
  with Cons check_boundaries_strict_no_panic [of ls] show ?thesis
    by (cases ts) (auto simp: check_patch_boundaries_streaming_def slice_def)
qed

lemma parse_patch_text_faultless: "parse_patch_text patch mode \<noteq> Err Panic"
  using check_boundaries_strict_no_panic check_boundaries_lenient_no_panic
    check_boundaries_streaming_no_panic parse_hunks_loop_no_panic
  by (auto simp: parse_patch_text_def Let_def split: result.splits parse_mode.splits)

text \<open>
  parsing never panics. Whatever the text, no slice or index of the strict, lenient or streaming
  parser is out of range: the result is a list of hunks or one of the two parse errors.
\<close>

theorem parse_patch_no_panic:
  "parse_patch patch \<noteq> Err Panic \<and> parse_patch_streaming patch \<noteq> Err Panic"
  by (simp add: parse_patch_def parse_patch_streaming_def parse_patch_text_faultless)

text \<open>
  C40: every hunk the parser returns can be applied meaningfully: an update has at least one chunk and
  every chunk has at least one removed, added or context line.
\<close>

theorem parse_patch_text_well_formed:
  assumes "parse_patch_text patch mode = Ok args"
  shows "list_all hunk_well_formed (args_hunks args)"
  using assms parse_hunks_loop_well_formed
  by (fastforce simp: parse_patch_text_def Let_def split: result.splits)

definition sample_patch :: ustr where
  "sample_patch = lit ''*** Begin Patch'' @ [10] @ lit ''*** Update File: a.txt'' @ [10]
     @ lit ''@@'' @ [10] @ lit ''-x'' @ [10] @ lit ''+y'' @ [10] @ lit ''*** End Patch''"

theorem parse_patch_text_well_formed_witness:
  "\<exists>args. parse_patch_text sample_patch Strict = Ok args \<and> list_all hunk_well_formed (args_hunks args)"
proof -
  have "is_ok (parse_patch_text sample_patch Strict)" by code_simp
  then obtain args where "parse_patch_text sample_patch Strict = Ok args" by (auto simp: is_ok_iff)
  with parse_patch_text_well_formed [OF this] show ?thesis by blast
qed

end
