(* ===== verification/Patch_Roundtrip.thy ===== *)
theory Patch_Roundtrip
  imports Patch_Parser
begin

text \<open>
  A printer for the patch grammar in the header comment of \<^verbatim>\<open>src/apply-patch/src/parser.rs\<close> and the
  round trip through the parser: parsing the printed form of any list of printable hunks gives the
  hunks back, in the strict mode, in the lenient mode with and without a heredoc wrapper, and in the
  streaming mode.
\<close>

section \<open>The printer\<close>

definition render_context :: "ustr option \<Rightarrow> ustr" where
  "render_context ctx = (case ctx of
     None \<Rightarrow> EMPTY_CHANGE_CONTEXT_MARKER | Some c \<Rightarrow> CHANGE_CONTEXT_MARKER @ c)"

definition render_chunk :: "update_file_chunk \<Rightarrow> ustr list" where
  "render_chunk c = render_context (change_context c)
     # map (Cons 45) (old_lines c) @ map (Cons 43) (new_lines c)
     @ (if is_end_of_file c then [EOF_MARKER] else [])"

fun render_hunk :: "hunk \<Rightarrow> ustr list" where
  "render_hunk (AddFile path contents) =
     (ADD_FILE_MARKER @ path) # map (Cons 43) (butlast (split_char newline contents))"
| "render_hunk (DeleteFile path) = [DELETE_FILE_MARKER @ path]"
| "render_hunk (UpdateFile path move_path chunks) =
     (UPDATE_FILE_MARKER @ path)
     # (case move_path of None \<Rightarrow> [] | Some p \<Rightarrow> [MOVE_TO_MARKER @ p])
     @ concat (map render_chunk chunks)"

definition render_patch_lines :: "hunk list \<Rightarrow> ustr list" where
  "render_patch_lines hs = BEGIN_PATCH_MARKER # concat (map render_hunk hs) @ [END_PATCH_MARKER]"

definition render_patch :: "hunk list \<Rightarrow> ustr" where
  "render_patch hs = join [newline] (render_patch_lines hs)"

text \<open>
  What the line-based format can express: names without line breaks that do not end in white space,
  contents that are empty or end in a line feed, lines without line breaks.
\<close>

definition printable_path :: "ustr \<Rightarrow> bool" where
  "printable_path p \<longleftrightarrow> p \<noteq> [] \<and> newline \<notin> set p \<and> \<not> is_whitespace (last p)"

definition printable_chunk :: "update_file_chunk \<Rightarrow> bool" where
  "printable_chunk c \<longleftrightarrow> chunk_nonempty c \<and> list_all plain_line (old_lines c)
     \<and> list_all plain_line (new_lines c)
     \<and> (case change_context c of None \<Rightarrow> True | Some l \<Rightarrow> plain_line l)"

fun printable_hunk :: "hunk \<Rightarrow> bool" where
  "printable_hunk (AddFile path contents) =
     (printable_path path \<and> last (split_char newline contents) = []
      \<and> list_all plain_line (split_char newline contents))"
| "printable_hunk (DeleteFile path) = printable_path path"
| "printable_hunk (UpdateFile path move_path chunks) =
     (printable_path path \<and> (case move_path of None \<Rightarrow> True | Some p \<Rightarrow> printable_path p)
      \<and> chunks \<noteq> [] \<and> list_all printable_chunk chunks)"

section \<open>Chunks\<close>

text \<open>A line at which a chunk ends: the start of the next chunk or of the next hunk.\<close>

definition chunk_stop :: "ustr list \<Rightarrow> bool" where
  "chunk_stop rest \<longleftrightarrow>
     (case rest of [] \<Rightarrow> True
      | l # _ \<Rightarrow> l \<noteq> [] \<and> hd l \<notin> {32, 43, 45} \<and> l \<noteq> EOF_MARKER)"

lemma EOF_MARKER_cons: "EOF_MARKER \<noteq> []" "EOF_MARKER \<noteq> 45 # l" "EOF_MARKER \<noteq> 43 # l"
  by (simp_all add: marker_defs)

lemma loop_old:
  "parse_update_file_chunk_loop ln (map (Cons 45) ls @ rest) c n =
   parse_update_file_chunk_loop ln rest (c\<lparr>old_lines := old_lines c @ ls\<rparr>) (n + length ls)"
  by (induction ls arbitrary: c n) (simp_all add: EOF_MARKER_cons [symmetric])

lemma loop_new:
  "parse_update_file_chunk_loop ln (map (Cons 43) ls @ rest) c n =
   parse_update_file_chunk_loop ln rest (c\<lparr>new_lines := new_lines c @ ls\<rparr>) (n + length ls)"
  by (induction ls arbitrary: c n) (simp_all add: EOF_MARKER_cons [symmetric])

lemma loop_stop:
  "chunk_stop rest \<Longrightarrow> 0 < n \<Longrightarrow> parse_update_file_chunk_loop ln rest c n = Ok (c, n)"
  by (cases rest) (auto simp: chunk_stop_def split: list.splits)

lemma parse_change_context_print:
  "parse_change_context (render_context ctx) ln amc = Ok (ctx, 1)"
proof (cases ctx)
  case None
  then show ?thesis by (simp add: render_context_def parse_change_context_def)
next
  case (Some c)
  have "CHANGE_CONTEXT_MARKER @ c \<noteq> EMPTY_CHANGE_CONTEXT_MARKER" by (simp add: marker_defs)
  with Some show ?thesis by (simp add: render_context_def parse_change_context_def)
qed

lemma parse_printed_chunk:
  assumes "printable_chunk c" and "chunk_stop rest"
  shows "parse_update_file_chunk (render_chunk c @ rest) ln amc = Ok (c, length (render_chunk c))"
proof -
  let ?e = "\<lparr>change_context = change_context c, old_lines = [], new_lines = [], is_end_of_file = False\<rparr>"
  have ne: "0 < length (old_lines c) + length (new_lines c)"
    using assms(1) by (simp add: printable_chunk_def chunk_nonempty_def)
  have "parse_update_file_chunk_loop ln
      (map (Cons 45) (old_lines c) @ map (Cons 43) (new_lines c)
       @ (if is_end_of_file c then [EOF_MARKER] else []) @ rest) ?e 0 =
      Ok (c, length (render_chunk c) - 1)"
    using ne assms(2) by (auto simp: loop_old loop_new loop_stop render_chunk_def)
  moreover have "render_chunk c @ rest = render_context (change_context c)
      # (map (Cons 45) (old_lines c) @ map (Cons 43) (new_lines c)
       @ (if is_end_of_file c then [EOF_MARKER] else []) @ rest)"
    by (simp add: render_chunk_def)
  ultimately show ?thesis
    using ne
    by (simp add: parse_update_file_chunk_def parse_change_context_print)
      (auto simp: render_chunk_def)
qed

section \<open>Hunks\<close>

text \<open>A line at which a hunk ends: nothing, or the header of the next hunk.\<close>

definition hunk_stop :: "ustr list \<Rightarrow> bool" where
  "hunk_stop rest \<longleftrightarrow> (case rest of [] \<Rightarrow> True | l # _ \<Rightarrow> prefix (lit ''*** '') l \<and> l \<noteq> EOF_MARKER \<and> trim l \<noteq> [])"

lemma hunk_stop_chunk_stop: "hunk_stop rest \<Longrightarrow> chunk_stop rest"
  by (auto simp: hunk_stop_def chunk_stop_def prefix_def split: list.splits)

lemma render_context_cons: "\<exists>cs. render_context ctx = 64 # 64 # cs"
  by (simp add: render_context_def marker_defs split: option.splits)

lemma chunk_stop_render_chunk: "chunk_stop (render_chunk c @ rest)"
proof -
  obtain cs where "render_context (change_context c) = 64 # 64 # cs" using render_context_cons by blast
  then show ?thesis by (simp add: chunk_stop_def render_chunk_def marker_defs)
qed

lemma trim_Cons_nonws: "\<not> is_whitespace c \<Longrightarrow> trim (c # cs) \<noteq> []"
  by (auto simp: trim_def trim_start_def trim_end_def trim_end_matches_def dropWhile_eq_Nil_conv)

lemma update_file_loop_stop:
  "hunk_stop rest \<Longrightarrow> update_file_loop rest ln ai n chunks = Ok (chunks, n)"
  by (cases rest) (auto simp: hunk_stop_def prefix_def)

lemma update_file_loop_chunks:
  assumes "list_all printable_chunk cs" and "hunk_stop rest"
  shows "update_file_loop (concat (map render_chunk cs) @ rest) ln ai n chunks =
    Ok (chunks @ cs, n + length (concat (map render_chunk cs)))"
  using assms(1)
proof (induction cs arbitrary: n chunks)
  case Nil
  then show ?case using update_file_loop_stop [OF assms(2)] by simp
next
  case (Cons c cs)
  let ?rest = "concat (map render_chunk cs) @ rest"
  obtain xs where ctx: "render_context (change_context c) = 64 # 64 # xs" using render_context_cons by blast
  then obtain ls where pc: "render_chunk c = (64 # 64 # xs) # ls" by (simp add: render_chunk_def)
  have stop: "chunk_stop ?rest"
    by (cases cs) (use assms(2) in \<open>auto simp: hunk_stop_chunk_stop chunk_stop_render_chunk\<close>)
  have parse: "parse_update_file_chunk (render_chunk c @ ?rest) (ln + n) (chunks = []) =
      Ok (c, length (render_chunk c))"
    using Cons.prems stop by (intro parse_printed_chunk) auto
  have nws: "trim (64 # 64 # xs) \<noteq> []"
    by (rule trim_Cons_nonws) (simp add: is_whitespace_def)
  have "update_file_loop (render_chunk c @ ?rest) ln ai n chunks =
      update_file_loop ?rest ln ai (n + length (render_chunk c)) (chunks @ [c])"
    using parse nws by (simp add: pc)
  also have "\<dots> = Ok (chunks @ c # cs, n + length (render_chunk c) + length (concat (map render_chunk cs)))"
    using Cons by simp
  finally show ?case by simp
qed


lemma trim_marker_path:
  assumes "printable_path p" and "m \<noteq> []" and "\<not> is_whitespace (hd m)"
  shows "trim (m @ p) = m @ p"
  using assms by (intro trim_trimmed) (auto simp: trimmed_def printable_path_def)

lemma nonws_star: "\<not> is_whitespace 42"
  by (simp add: is_whitespace_def)

lemma strip_other_marker:
  "strip_prefix (DELETE_FILE_MARKER @ p) ADD_FILE_MARKER = None"
  "strip_prefix (UPDATE_FILE_MARKER @ p) ADD_FILE_MARKER = None"
  "strip_prefix (UPDATE_FILE_MARKER @ p) DELETE_FILE_MARKER = None"
  by (simp_all add: strip_prefix_def marker_defs)

lemma file_markers_cons:
  "ADD_FILE_MARKER \<noteq> []" "hd ADD_FILE_MARKER = 42"
  "DELETE_FILE_MARKER \<noteq> []" "hd DELETE_FILE_MARKER = 42"
  "UPDATE_FILE_MARKER \<noteq> []" "hd UPDATE_FILE_MARKER = 42"
  by (simp_all add: marker_defs)

lemmas trim_file_marker =
  trim_marker_path [OF _ file_markers_cons(1), simplified file_markers_cons(2), OF _ nonws_star]
  trim_marker_path [OF _ file_markers_cons(3), simplified file_markers_cons(4), OF _ nonws_star]
  trim_marker_path [OF _ file_markers_cons(5), simplified file_markers_cons(6), OF _ nonws_star]

lemma add_file_loop_lines:
  assumes "hunk_stop rest"
  shows "add_file_loop (map (Cons 43) ls @ rest) c n =
    (c @ concat (map (\<lambda>l. l @ [newline]) ls), n + length ls)"
proof (induction ls arbitrary: c n)
  case Nil
  show ?case using assms
    by (cases rest) (auto simp: hunk_stop_def prefix_def strip_prefix_def)
next
  case (Cons l ls)
  then show ?case by (simp add: strip_prefix_def)
qed

lemma concat_unlines: "concat (map (\<lambda>l. l @ [c]) ls) = join [c] (ls @ [[]])"
proof (induction ls)
  case (Cons l ls)
  then show ?case by (cases ls) auto
qed simp

lemma unlines_split:
  assumes "last (split_char c s) = []"
  shows "concat (map (\<lambda>l. l @ [c]) (butlast (split_char c s))) = s"
proof -
  have "butlast (split_char c s) @ [[]] = split_char c s"
    using assms by (metis append_butlast_last_id split_char_nonempty)
  then show ?thesis by (simp add: concat_unlines join_split_char)
qed

lemma move_line_chunks:
  assumes "cs \<noteq> []"
  shows "move_line (concat (map render_chunk cs) @ rest) = None"
proof -
  obtain c cs' where cs: "cs = c # cs'" using assms by (meson list.exhaust)
  obtain xs where "render_context (change_context c) = 64 # 64 # xs" using render_context_cons by blast
  then show ?thesis by (simp add: cs move_line_def render_chunk_def strip_prefix_def marker_defs)
qed

lemma parse_printed_hunk:
  assumes "printable_hunk h" and "hunk_stop rest"
  shows "parse_one_hunk (render_hunk h @ rest) ln ai = Ok (h, length (render_hunk h))"
proof (cases h)
  case (AddFile p c)
  with assms show ?thesis
    by (simp add: parse_one_hunk_def trim_file_marker add_file_loop_lines unlines_split)
next
  case (DeleteFile p)
  with assms show ?thesis
    by (simp add: parse_one_hunk_def trim_file_marker strip_other_marker)
next
  case (UpdateFile p mp cs)
  let ?body = "concat (map render_chunk cs)"
  have loop: "update_file_loop (?body @ rest) ln ai n [] = Ok (cs, n + length ?body)" for n
    using assms UpdateFile by (simp add: update_file_loop_chunks)
  have "parse_update_hunk p ((case mp of None \<Rightarrow> [] | Some q \<Rightarrow> [MOVE_TO_MARKER @ q]) @ ?body @ rest) ln ai
      = Ok (h, length (render_hunk h))"
  proof (cases mp)
    case None
    with assms UpdateFile loop move_line_chunks [of cs rest] show ?thesis
      by (simp add: parse_update_hunk_def)
  next
    case (Some q)
    then have "move_line ((MOVE_TO_MARKER @ q) # ?body @ rest) = Some q" by (simp add: move_line_def)
    with assms UpdateFile loop Some show ?thesis by (simp add: parse_update_hunk_def)
  qed
  with assms UpdateFile show ?thesis
    by (simp add: parse_one_hunk_def trim_file_marker strip_other_marker)
qed

lemma hunk_stop_render_hunk:
  assumes "printable_hunk h"
  shows "hunk_stop (render_hunk h @ rest)"
  using assms
  by (cases h)
    (simp_all add: hunk_stop_def trim_file_marker prefix_def file_markers_cons, simp_all add: marker_defs)

lemma parse_printed_hunks:
  assumes "list_all printable_hunk hs"
  shows "parse_hunks_loop (concat (map render_hunk hs)) ln ai acc = Ok (acc @ hs)"
  using assms
proof (induction hs arbitrary: ln acc)
  case Nil
  then show ?case by (simp add: parse_hunks_loop.simps)
next
  case (Cons h hs)
  have stop: "hunk_stop (concat (map render_hunk hs))"
    by (cases hs) (use Cons.prems hunk_stop_render_hunk in \<open>auto simp: hunk_stop_def\<close>)
  have one: "parse_one_hunk (render_hunk h @ concat (map render_hunk hs)) ln ai =
      Ok (h, length (render_hunk h))"
    using Cons.prems stop by (intro parse_printed_hunk) auto
  have "render_hunk h @ concat (map render_hunk hs) \<noteq> []" by (cases h) auto
  with one Cons show ?case
    by (simp add: parse_hunks_loop.simps [of "render_hunk h @ concat (map render_hunk hs)"])
qed

section \<open>The whole patch\<close>

lemma printable_path_plain: "printable_path p \<Longrightarrow> plain_line p"
  by (auto simp: printable_path_def plain_line_def is_whitespace_def)

lemma marker_plain:
  "plain_line BEGIN_PATCH_MARKER" "plain_line END_PATCH_MARKER" "plain_line EOF_MARKER"
  "plain_line EMPTY_CHANGE_CONTEXT_MARKER"
  "plain_line p \<Longrightarrow> plain_line (ADD_FILE_MARKER @ p)"
  "plain_line p \<Longrightarrow> plain_line (DELETE_FILE_MARKER @ p)"
  "plain_line p \<Longrightarrow> plain_line (UPDATE_FILE_MARKER @ p)"
  "plain_line p \<Longrightarrow> plain_line (MOVE_TO_MARKER @ p)"
  "plain_line p \<Longrightarrow> plain_line (CHANGE_CONTEXT_MARKER @ p)"
  "plain_line p \<Longrightarrow> plain_line (43 # p)"
  "plain_line p \<Longrightarrow> plain_line (45 # p)"
  by (auto simp: plain_line_def marker_defs)

lemma render_chunk_plain: "printable_chunk c \<Longrightarrow> list_all plain_line (render_chunk c)"
  by (auto simp: printable_chunk_def render_chunk_def render_context_def list_all_iff marker_plain
      split: option.splits)

lemma render_hunk_plain: "printable_hunk h \<Longrightarrow> list_all plain_line (render_hunk h)"
  using render_chunk_plain
  by (cases h)
    (auto simp: list_all_iff marker_plain printable_path_plain split: option.splits dest: in_set_butlastD)

lemma render_patch_lines_plain:
  "list_all printable_hunk hs \<Longrightarrow> list_all plain_line (render_patch_lines hs)"
  using render_hunk_plain by (auto simp: render_patch_lines_def list_all_iff marker_plain)

lemma hd_join: "p \<noteq> [] \<Longrightarrow> hd (join sep (p # ps)) = hd p"
  by (cases ps) auto

lemma last_join: "q \<noteq> [] \<Longrightarrow> last (join sep (ps @ [q])) = last q"
  by (cases "ps = []") (auto simp: join_append)

lemma join_nonempty: "p \<noteq> [] \<Longrightarrow> join sep (p # ps) \<noteq> []"
  by (cases ps) auto

text \<open>Lines that start and end with a non-blank line are read back from their text unchanged.\<close>

lemma str_lines_trim_join:
  assumes "list_all plain_line (f # m @ [l])"
    and "f \<noteq> []" "\<not> is_whitespace (hd f)" "l \<noteq> []" "\<not> is_whitespace (last l)"
  shows "str_lines (trim (join [newline] (f # m @ [l]))) = f # m @ [l]"
proof -
  let ?t = "join [newline] (f # m @ [l])"
  have "hd ?t = hd f" using assms(2) by (rule hd_join)
  moreover have "last ?t = last l" using last_join [of l "[newline]" "f # m"] assms(4) by simp
  ultimately have "trimmed ?t" using assms(2,3,5) by (simp add: trimmed_def)
  then have "trim ?t = ?t" by simp
  then show ?thesis using lines_join [of "f # m @ [l]"] assms(1,4) by simp
qed

lemma boundary_marker_facts:
  "BEGIN_PATCH_MARKER \<noteq> []" "\<not> is_whitespace (hd BEGIN_PATCH_MARKER)"
  "END_PATCH_MARKER \<noteq> []" "\<not> is_whitespace (last END_PATCH_MARKER)"
  "trim BEGIN_PATCH_MARKER = BEGIN_PATCH_MARKER" "trim END_PATCH_MARKER = END_PATCH_MARKER"
  by (simp_all add: marker_defs is_whitespace_def trimmed_def)

lemma check_strict_rendered:
  "check_patch_boundaries_strict (render_patch_lines hs) =
     Ok (render_patch_lines hs, concat (map render_hunk hs))"
proof -
  obtain x xs where x: "concat (map render_hunk hs) @ [END_PATCH_MARKER] = x # xs"
    by (meson append_is_Nil_conv list.exhaust not_Cons_self2)
  have last: "last (x # xs) = END_PATCH_MARKER" by (metis last_snoc x)
  have "slice 1 (length (render_patch_lines hs) - 1) (render_patch_lines hs)
      = (Ok (concat (map render_hunk hs)) :: (parse_error fault, ustr list) result)"
    by (simp add: slice_def render_patch_lines_def)
  then show ?thesis
    using x last
    by (simp add: check_patch_boundaries_strict_def render_patch_lines_def
        check_start_and_end_lines_strict_def boundary_marker_facts)
qed

lemma check_rendered:
  "check_patch_boundaries_lenient (render_patch_lines hs) =
     Ok (render_patch_lines hs, concat (map render_hunk hs))"
  "check_patch_boundaries_streaming (render_patch_lines hs) =
     Ok (render_patch_lines hs, concat (map render_hunk hs))"
proof -
  show "check_patch_boundaries_lenient (render_patch_lines hs) =
     Ok (render_patch_lines hs, concat (map render_hunk hs))"
    by (simp add: check_patch_boundaries_lenient_def check_strict_rendered)
  show "check_patch_boundaries_streaming (render_patch_lines hs) =
     Ok (render_patch_lines hs, concat (map render_hunk hs))"
    by (simp add: check_patch_boundaries_streaming_def render_patch_lines_def boundary_marker_facts
        slice_def)
qed

lemma str_lines_rendered:
  assumes "list_all printable_hunk hs"
  shows "str_lines (trim (render_patch hs)) = render_patch_lines hs"
  using assms render_patch_lines_plain [OF assms]
    str_lines_trim_join [OF _ boundary_marker_facts(1,2,3,4)]
  unfolding render_patch_def render_patch_lines_def by blast

text \<open>
  C19: round trip. Parsing the printed form of printable hunks gives back exactly these hunks and the
  printed text, in every parse mode.
\<close>

theorem parse_render_roundtrip:
  assumes "list_all printable_hunk hs"
  shows "parse_patch_text (render_patch hs) mode =
    Ok \<lparr>args_patch = render_patch hs, args_hunks = hs, args_workdir = None\<rparr>"
proof -
  have "join [newline] (render_patch_lines hs) = render_patch hs" by (simp add: render_patch_def)
  then show ?thesis
    unfolding parse_patch_text_def str_lines_rendered [OF assms] Let_def
    by (cases mode) (simp_all add: check_strict_rendered check_rendered parse_printed_hunks [OF assms])
qed

definition sample_hunks :: "hunk list" where
  "sample_hunks =
     [AddFile (lit ''a.txt'') (lit ''hello'' @ [10]),
      DeleteFile (lit ''b.txt''),
      UpdateFile (lit ''c.txt'') (Some (lit ''d.txt''))
        [\<lparr>change_context = Some (lit ''fn main''), old_lines = [lit ''x''], new_lines = [lit ''y'', []],
          is_end_of_file = True\<rparr>]]"

theorem parse_render_roundtrip_witness:
  "list_all printable_hunk sample_hunks \<and>
   parse_patch_text (render_patch sample_hunks) Strict =
     Ok \<lparr>args_patch = render_patch sample_hunks, args_hunks = sample_hunks, args_workdir = None\<rparr>"
proof -
  have "list_all printable_hunk sample_hunks" by code_simp
  with parse_render_roundtrip [OF this, of Strict] show ?thesis by blast
qed

text \<open>
  lenient mode accepts a patch wrapped in a heredoc. The wrapper lines \<^verbatim>\<open><<'EOF'\<close> and
  \<^verbatim>\<open>EOF\<close> are dropped and the hunks inside are parsed as if they had been passed alone, and everything strict
  mode accepts is accepted by lenient mode with the same result.
\<close>

theorem lenient_heredoc:
  assumes "list_all printable_hunk hs" and "hs \<noteq> []"
  shows "parse_patch (join [newline] ((lit ''<<'' @ quoted (lit ''EOF'')) # render_patch_lines hs @ [lit ''EOF'']))
      = Ok \<lparr>args_patch = render_patch hs, args_hunks = hs, args_workdir = None\<rparr>
    \<and> (\<forall>patch args. parse_patch_text patch Strict = Ok args \<longrightarrow> parse_patch patch = Ok args)"
proof
  let ?open = "lit ''<<'' @ quoted (lit ''EOF'')" and ?close = "lit ''EOF''"
  let ?L = "?open # render_patch_lines hs @ [?close]"
  have plain: "list_all plain_line ?L"
    using render_patch_lines_plain [OF assms(1)] by (auto simp: plain_line_def)
  have lines: "str_lines (trim (join [newline] ?L)) = ?L"
    by (rule str_lines_trim_join [OF plain]) (simp_all add: is_whitespace_def)
  obtain h hs' where hs: "hs = h # hs'" using assms(2) by (meson list.exhaust)
  have "render_hunk h \<noteq> []" by (cases h) auto
  then have len: "4 \<le> length ?L" by (simp add: render_patch_lines_def hs Suc_le_eq)
  have strict: "check_patch_boundaries_strict ?L =
      Err (Fail (InvalidPatchError
        (lit ''The first line of the patch must be '' @ quoted (lit ''*** Begin Patch''))))"
  proof -
    have "trim ?open \<noteq> BEGIN_PATCH_MARKER"
      by (simp add: marker_defs trimmed_def is_whitespace_def)
    then show ?thesis
      by (simp add: check_patch_boundaries_strict_def check_start_and_end_lines_strict_def
          render_patch_lines_def Let_def del: lit_def)
  qed
  have inner: "slice 1 (length ?L - 1) ?L = Ok (render_patch_lines hs)"
    by (simp add: slice_def)
  have "check_patch_boundaries_lenient ?L = Ok (render_patch_lines hs, concat (map render_hunk hs))"
  proof -
    obtain r rs where r: "render_patch_lines hs @ [?close] = r # rs"
      by (meson append_is_Nil_conv list.exhaust not_Cons_self2)
    have last: "last (r # rs) = ?close" by (metis last_snoc r)
    have "check_patch_boundaries_lenient ?L =
       (case slice 1 (length ?L - 1) ?L of
          Err e \<Rightarrow> Err e | Ok inner_lines \<Rightarrow> check_patch_boundaries_strict inner_lines)"
      unfolding check_patch_boundaries_lenient_def strict
      using len last by (simp add: r Let_def del: lit_def)
    also have "\<dots> = check_patch_boundaries_strict (render_patch_lines hs)"
      unfolding inner by simp
    finally show ?thesis by (simp add: check_strict_rendered)
  qed
  then show "parse_patch (join [newline] ?L) =
      Ok \<lparr>args_patch = render_patch hs, args_hunks = hs, args_workdir = None\<rparr>"
    unfolding parse_patch_def parse_patch_text_def lines Let_def PARSE_IN_STRICT_MODE_def
    by (simp add: parse_printed_hunks [OF assms(1)] render_patch_def)
  show "\<forall>patch args. parse_patch_text patch Strict = Ok args \<longrightarrow> parse_patch patch = Ok args"
    by (auto simp: parse_patch_def parse_patch_text_def PARSE_IN_STRICT_MODE_def Let_def
        check_patch_boundaries_lenient_def split: result.splits)
qed

theorem lenient_heredoc_witness:
  "list_all printable_hunk sample_hunks \<and> sample_hunks \<noteq> [] \<and>
   parse_patch (join [newline]
     ((lit ''<<'' @ quoted (lit ''EOF'')) # render_patch_lines sample_hunks @ [lit ''EOF'']))
   = Ok \<lparr>args_patch = render_patch sample_hunks, args_hunks = sample_hunks, args_workdir = None\<rparr>"
proof -
  have h: "list_all printable_hunk sample_hunks" "sample_hunks \<noteq> []" by code_simp+
  from lenient_heredoc [OF h] h show ?thesis by blast
qed

end
