(* ===== verification/Seek_Sequence.thy ===== *)
theory Seek_Sequence
  imports Prelude
begin

text \<open>
  The fuzzy line search of \<^verbatim>\<open>src/apply-patch/src/seek_sequence.rs\<close>: four passes of decreasing
  strictness over the same range of start positions. The inner loops that compare line by line
  are \<open>lines_match_by\<close>; the shared lemma \<open>lines_match_by_window\<close> turns them into an equality of
  mapped windows, from which soundness, completeness and the order of the passes follow.
\<close>

section \<open>Definitions\<close>

definition normalise_char :: "uchar \<Rightarrow> uchar" where
  "normalise_char c =
     (if c \<in> {0x2010, 0x2011, 0x2012, 0x2013, 0x2014, 0x2015, 0x2212} then 45
      else if c \<in> {0x2018, 0x2019, 0x201A, 0x201B} then 39
      else if c \<in> {0x201C, 0x201D, 0x201E, 0x201F} then 34
      else if c \<in> {0x00A0, 0x2002, 0x2003, 0x2004, 0x2005, 0x2006, 0x2007, 0x2008, 0x2009, 0x200A,
                   0x202F, 0x205F, 0x3000} then 32
      else c)"

definition normalise :: "ustr \<Rightarrow> ustr" where
  "normalise s = map normalise_char (trim s)"

text \<open>The body of each of the last three loops: compare every pattern line at position \<open>i\<close>.\<close>

definition lines_match_by :: "(ustr \<Rightarrow> ustr) \<Rightarrow> ustr list \<Rightarrow> ustr list \<Rightarrow> nat \<Rightarrow> bool" where
  "lines_match_by f lines pattern i =
     list_all (\<lambda>(p_idx, pat). f (lines ! (i + p_idx)) = f pat) (enumerate 0 pattern)"

definition seek_sequence :: "ustr list \<Rightarrow> ustr list \<Rightarrow> nat \<Rightarrow> bool \<Rightarrow> nat option" where
  "seek_sequence lines pattern start eof =
     (if pattern = [] then Some start
      else if length pattern > length lines then None
      else
        let search_start = (if eof \<and> length lines \<ge> length pattern
                            then length lines - length pattern else start);
            range = [search_start ..< Suc (length lines - length pattern)]
        in case find (\<lambda>i. take (length pattern) (drop i lines) = pattern) range of
             Some i \<Rightarrow> Some i
           | None \<Rightarrow>
           (case find (lines_match_by trim_end lines pattern) range of
             Some i \<Rightarrow> Some i
           | None \<Rightarrow>
           (case find (lines_match_by trim lines pattern) range of
             Some i \<Rightarrow> Some i
           | None \<Rightarrow> find (lines_match_by normalise lines pattern) range)))"

section \<open>Windows\<close>

definition window :: "'a list \<Rightarrow> nat \<Rightarrow> nat \<Rightarrow> 'a list" where
  "window xs i n = take n (drop i xs)"

lemma length_window [simp]: "i + n \<le> length xs \<Longrightarrow> length (window xs i n) = n"
  by (simp add: window_def)

lemma lines_match_by_window:
  assumes "i + length pattern \<le> length lines"
  shows "lines_match_by f lines pattern i \<longleftrightarrow>
    map f (window lines i (length pattern)) = map f pattern"
  using assms
  by (auto simp: lines_match_by_def window_def list_all_length list_eq_iff_nth_eq nth_enumerate_eq)

text \<open>Equality after one normalisation is preserved by the next, more permissive one.\<close>

lemma map_trim_eq: "map trim_end xs = map trim_end ys \<Longrightarrow> map trim xs = map trim ys"
  by (induction xs ys rule: list_induct2') (auto intro: trim_eq_of_trim_end)

lemma map_normalise_eq: "map trim xs = map trim ys \<Longrightarrow> map normalise xs = map normalise ys"
  by (induction xs ys rule: list_induct2') (auto simp: normalise_def)

lemmas fuzzier = map_trim_eq [THEN map_normalise_eq] map_normalise_eq

section \<open>The search range\<close>

definition seek_range :: "ustr list \<Rightarrow> ustr list \<Rightarrow> nat \<Rightarrow> bool \<Rightarrow> nat list" where
  "seek_range lines pattern start eof =
     [if eof then length lines - length pattern else start ..<
      Suc (length lines - length pattern)]"

lemma in_seek_range:
  "length pattern \<le> length lines \<Longrightarrow>
   i \<in> set (seek_range lines pattern start eof) \<longleftrightarrow>
   i + length pattern \<le> length lines \<and> (if eof then i + length pattern = length lines else start \<le> i)"
  by (auto simp: seek_range_def)

lemma find_range_Some:
  assumes "find P [a..<b] = Some i"
  shows "P i \<and> a \<le> i \<and> i < b \<and> (\<forall>j. a \<le> j \<and> j < i \<longrightarrow> \<not> P j)"
proof -
  from assms obtain k where k: "k < b - a" "P (a + k)" "i = a + k" "\<forall>j<k. \<not> P (a + j)"
    by (auto simp: find_Some_iff)
  have "\<not> P j" if "a \<le> j" "j < i" for j
    using that k(3,4) by (metis add_less_cancel_left le_Suc_ex)
  with k show ?thesis by auto
qed

lemma find_hit: "find P xs = Some x \<Longrightarrow> x \<in> set xs \<and> P x"
  by (auto simp: find_Some_iff)

lemma find_range_cong:
  "(\<And>i. i \<in> set xs \<Longrightarrow> P i = Q i) \<Longrightarrow> find P xs = find Q xs"
  by (rule find_cong) auto

text \<open>The function, read as four searches for equal windows over one range.\<close>

lemma seek_sequence_windows:
  fixes start :: nat and eof :: bool
  assumes "pattern \<noteq> []" and "length pattern \<le> length lines"
  defines "W \<equiv> \<lambda>i. window lines i (length pattern)"
  defines "R \<equiv> seek_range lines pattern start eof"
  shows "seek_sequence lines pattern start eof =
     (case find (\<lambda>i. W i = pattern) R of Some i \<Rightarrow> Some i | None \<Rightarrow>
     (case find (\<lambda>i. map trim_end (W i) = map trim_end pattern) R of Some i \<Rightarrow> Some i | None \<Rightarrow>
     (case find (\<lambda>i. map trim (W i) = map trim pattern) R of Some i \<Rightarrow> Some i | None \<Rightarrow>
      find (\<lambda>i. map normalise (W i) = map normalise pattern) R)))"
proof -
  have R: "i + length pattern \<le> length lines" if "i \<in> set R" for i
    using that assms(2) by (simp add: R_def in_seek_range)
  have eq: "find (lines_match_by f lines pattern) R =
      find (\<lambda>i. map f (W i) = map f pattern) R" for f
    by (rule find_range_cong) (simp add: lines_match_by_window R W_def)
  show ?thesis
    using assms(1,2) unfolding seek_sequence_def eq [symmetric]
    unfolding W_def R_def window_def seek_range_def Let_def
    by (cases eof) (simp_all del: upt_Suc)
qed

section \<open>Properties\<close>

text \<open>Every hit satisfies the most permissive comparison and lies in the search range.\<close>

lemma seek_sequence_hit:
  assumes "seek_sequence lines pattern start eof = Some i" and "pattern \<noteq> []"
  shows "i \<in> set (seek_range lines pattern start eof) \<and> length pattern \<le> length lines \<and>
    map normalise (window lines i (length pattern)) = map normalise pattern"
proof -
  have len: "length pattern \<le> length lines"
    using assms by (auto simp: seek_sequence_def split: if_splits)
  show ?thesis
    using assms(1) len unfolding seek_sequence_windows [OF assms(2) len]
    by (auto split: option.splits dest!: find_hit dest: fuzzier)
qed

lemma seek_sequence_bound:
  assumes "seek_sequence lines pattern start eof = Some i" and "start \<le> length lines"
  shows "i + length pattern \<le> length lines"
proof (cases "pattern = []")
  case True
  with assms show ?thesis by (simp add: seek_sequence_def)
next
  case False
  from seek_sequence_hit [OF assms(1) False] show ?thesis by (auto simp: in_seek_range)
qed

lemma seek_sequence_ge_start:
  assumes "seek_sequence lines pattern start False = Some i"
  shows "start \<le> i"
proof (cases "pattern = []")
  case True
  with assms show ?thesis by (simp add: seek_sequence_def)
next
  case False
  from seek_sequence_hit [OF assms False] show ?thesis by (auto simp: in_seek_range)
qed

text \<open>
  a non-empty pattern is only ever found at a position where it fits in the file, at or after
  the requested start (at the very end of the file when \<^verbatim>\<open>eof\<close> is set), and where every line agrees
  with the pattern after trimming and normalising typographic punctuation.
\<close>

theorem seek_sequence_sound:
  assumes "seek_sequence lines pattern start eof = Some i" and "pattern \<noteq> []"
  shows "i + length pattern \<le> length lines
    \<and> (if eof then i = length lines - length pattern else start \<le> i)
    \<and> (\<forall>k<length pattern. normalise (lines ! (i + k)) = normalise (pattern ! k))"
proof -
  note hit = seek_sequence_hit [OF assms]
  then have r: "i + length pattern \<le> length lines"
      "if eof then i + length pattern = length lines else start \<le> i"
    by (auto simp: in_seek_range)
  have "normalise (lines ! (i + k)) = normalise (pattern ! k)" if "k < length pattern" for k
    using arg_cong [of _ _ "\<lambda>l. l ! k", OF hit [THEN conjunct2, THEN conjunct2]] r(1) that
    by (simp add: window_def)
  with r show ?thesis by auto
qed

theorem seek_sequence_sound_witness:
  "seek_sequence [lit ''a'', lit ''  b ''] [lit ''b''] 0 False = Some 1
   \<and> normalise (lit ''  b '') = normalise (lit ''b'')"
proof -
  have e: "seek_sequence [lit ''a'', lit ''  b ''] [lit ''b''] 0 False = Some 1"
    by code_simp
  show ?thesis using e seek_sequence_sound [OF e] by simp
qed

text \<open>
  The search covers its range, which with \<open>eof\<close> is the last possible position alone: it fails exactly when no position
  of the range agrees with the pattern under the most permissive comparison, and the first position that
  agrees exactly wins.
\<close>

lemma seek_range_searched:
  assumes "pattern \<noteq> []" and "length pattern \<le> length lines"
  shows "(seek_sequence lines pattern start eof = None \<longleftrightarrow>
      (\<forall>i\<in>set (seek_range lines pattern start eof).
         map normalise (window lines i (length pattern)) \<noteq> map normalise pattern))
    \<and> (\<forall>i\<in>set (seek_range lines pattern start eof).
         window lines i (length pattern) = pattern \<longrightarrow>
         (\<exists>j\<le>i. seek_sequence lines pattern start eof = Some j
            \<and> window lines j (length pattern) = pattern
            \<and> (\<forall>k\<in>set (seek_range lines pattern start eof).
                 k < j \<longrightarrow> window lines k (length pattern) \<noteq> pattern)))"
    (is "?A \<and> ?B")
proof
  let ?R = "seek_range lines pattern start eof" and ?W = "\<lambda>i. window lines i (length pattern)"
  have "\<forall>i\<in>set ?R. map normalise (?W i) \<noteq> map normalise pattern"
    if "seek_sequence lines pattern start eof = None"
    using that unfolding seek_sequence_windows [OF assms]
    by (auto split: option.splits simp: find_None_iff)
  then show ?A
    using seek_sequence_hit [OF _ assms(1)] by (metis not_Some_eq)
  show ?B
  proof (intro ballI impI)
    fix i assume i: "i \<in> set ?R" "?W i = pattern"
    then obtain j where j: "find (\<lambda>i. ?W i = pattern) ?R = Some j"
      by (metis (mono_tags, lifting) find_None_iff not_Some_eq)
    then have "seek_sequence lines pattern start eof = Some j"
      unfolding seek_sequence_windows [OF assms] by simp
    moreover note find_range_Some [OF j [unfolded seek_range_def]]
    ultimately show "\<exists>j\<le>i. seek_sequence lines pattern start eof = Some j \<and> ?W j = pattern \<and>
        (\<forall>k\<in>set ?R. k < j \<longrightarrow> ?W k \<noteq> pattern)"
      using i by (intro exI[of _ j]) (auto simp: seek_range_def not_less [symmetric])
  qed
qed

text \<open>
  C34: A search that is not tied to the end of the file misses nothing and prefers exact matches. It fails exactly when
  no position from the start on agrees with the pattern under the most permissive comparison, and when some
  position agrees exactly, the result is the first that does.
\<close>

theorem seek_sequence_complete:
  assumes "pattern \<noteq> []"
  shows "(seek_sequence lines pattern start False = None \<longleftrightarrow>
      (\<forall>i. start \<le> i \<and> i + length pattern \<le> length lines \<longrightarrow>
         map normalise (window lines i (length pattern)) \<noteq> map normalise pattern))
    \<and> (\<forall>i. start \<le> i \<and> i + length pattern \<le> length lines \<and> window lines i (length pattern) = pattern \<longrightarrow>
         (\<exists>j\<le>i. seek_sequence lines pattern start False = Some j \<and> start \<le> j
            \<and> window lines j (length pattern) = pattern
            \<and> (\<forall>k. start \<le> k \<and> k < j \<longrightarrow> window lines k (length pattern) \<noteq> pattern)))"
proof (cases "length pattern \<le> length lines")
  case False
  then have "seek_sequence lines pattern start False = None" using assms by (simp add: seek_sequence_def)
  with False show ?thesis by auto
next
  case True
  have r: "i \<in> set (seek_range lines pattern start False) \<longleftrightarrow> start \<le> i \<and> i + length pattern \<le> length lines" for i
    using True by (auto simp: seek_range_def)
  note found = seek_range_searched [OF assms True, of start False, unfolded Ball_def r]
  show ?thesis
  proof (intro conjI allI impI)
    fix i assume "start \<le> i \<and> i + length pattern \<le> length lines \<and> window lines i (length pattern) = pattern"
    moreover from this obtain j where "j \<le> i" "seek_sequence lines pattern start False = Some j" "window lines j (length pattern) = pattern"
        "\<forall>k. start \<le> k \<and> k + length pattern \<le> length lines \<longrightarrow> k < j \<longrightarrow> window lines k (length pattern) \<noteq> pattern"
      using found by blast
    moreover from this(2) have "start \<le> j" using seek_sequence_hit [OF _ assms, of lines start False j] r by blast
    ultimately show "\<exists>j\<le>i. seek_sequence lines pattern start False = Some j \<and> start \<le> j \<and> window lines j (length pattern) = pattern
        \<and> (\<forall>k. start \<le> k \<and> k < j \<longrightarrow> window lines k (length pattern) \<noteq> pattern)" by fastforce
  qed (use found in blast)
qed

theorem seek_sequence_complete_witness:
  "\<exists>j\<le>1. seek_sequence [lit '' x'', lit ''x''] [lit ''x''] 0 False = Some j
     \<and> window [lit '' x'', lit ''x''] j (length [lit ''x'']) = [lit ''x'']"
proof -
  let ?l = "[lit '' x'', lit ''x'']" and ?p = "[lit ''x'']"
  have "(0::nat) \<le> 1 \<and> 1 + length ?p \<le> length ?l \<and> window ?l 1 (length ?p) = ?p" by code_simp
  then show ?thesis using seek_sequence_complete [of ?p ?l 0] by blast
qed

end
