(* ===== verification/Replacements.thy ===== *)
theory Replacements
  imports Seek_Sequence Patch_Parser
begin

text \<open>
  How the chunks of an update hunk become new file contents: \<^verbatim>\<open>compute_replacements\<close>,
  \<^verbatim>\<open>apply_replacements\<close> and the text handling of \<^verbatim>\<open>derive_new_contents_from_chunks\<close> in
  \<^verbatim>\<open>src/apply-patch/src/lib.rs\<close>. A replacement is \<open>(start_index, old_len, new_lines)\<close>.
  \<open>Vec::insert\<close> panics beyond the end of the vector, so applying replacements returns a fault.
\<close>

section \<open>Definitions\<close>

type_synonym replacement = "nat \<times> nat \<times> ustr list"

datatype apply_patch_error =
    ParseErr parse_error
  | IoErr ustr io_error
  | ComputeReplacements ustr
  | ImplicitInvocation

definition last_is_empty :: "ustr list \<Rightarrow> bool" where
  "last_is_empty ls \<longleftrightarrow> ls \<noteq> [] \<and> last ls = []"

text \<open>The \<^verbatim>\<open>change_context\<close> of a chunk moves the line index just after its line.\<close>

definition seek_context ::
  "ustr list \<Rightarrow> ustr \<Rightarrow> ustr option \<Rightarrow> nat \<Rightarrow> (apply_patch_error, nat) result" where
  "seek_context original_lines path context line_index =
     (case context of
        None \<Rightarrow> Ok line_index
      | Some ctx_line \<Rightarrow>
          (case seek_sequence original_lines [ctx_line] line_index False of
             Some idx \<Rightarrow> Ok (idx + 1)
           | None \<Rightarrow> Err (ComputeReplacements
               (lit ''Failed to find context '' @ quoted ctx_line @ lit '' in '' @ path))))"

text \<open>
  The search for the old lines, with the retry without the trailing empty line; the result is the
  position, the number of lines to remove and the lines to insert.
\<close>

definition locate_old_lines ::
  "ustr list \<Rightarrow> update_file_chunk \<Rightarrow> nat \<Rightarrow> replacement option" where
  "locate_old_lines original_lines chunk line_index =
     (case seek_sequence original_lines (old_lines chunk) line_index (is_end_of_file chunk) of
        Some start_idx \<Rightarrow> Some (start_idx, length (old_lines chunk), new_lines chunk)
      | None \<Rightarrow>
          if last_is_empty (old_lines chunk) then
            let pattern = butlast (old_lines chunk);
                new_slice = (if last_is_empty (new_lines chunk)
                             then butlast (new_lines chunk) else new_lines chunk)
            in map_option (\<lambda>start_idx. (start_idx, length pattern, new_slice))
                 (seek_sequence original_lines pattern line_index (is_end_of_file chunk))
          else None)"

text \<open>The loop over the chunks.\<close>

fun compute_replacements_loop ::
  "ustr list \<Rightarrow> ustr \<Rightarrow> update_file_chunk list \<Rightarrow> nat \<Rightarrow> (apply_patch_error, replacement list) result"
where
  "compute_replacements_loop original_lines path [] line_index = Ok []"
| "compute_replacements_loop original_lines path (chunk # chunks) line_index =
     (case seek_context original_lines path (change_context chunk) line_index of
        Err e \<Rightarrow> Err e
      | Ok line_index \<Rightarrow>
          if old_lines chunk = [] then
            let insertion_idx = (if last_is_empty original_lines
                                 then length original_lines - 1 else length original_lines)
            in (case compute_replacements_loop original_lines path chunks line_index of
                  Err e \<Rightarrow> Err e
                | Ok rs \<Rightarrow> Ok ((insertion_idx, 0, new_lines chunk) # rs))
          else
            (case locate_old_lines original_lines chunk line_index of
               None \<Rightarrow> Err (ComputeReplacements
                 (lit ''Failed to find expected lines in '' @ path @ lit '':'' @ [newline]
                  @ join [newline] (old_lines chunk)))
             | Some (start_idx, old_len, new_slice) \<Rightarrow>
                 (case compute_replacements_loop original_lines path chunks (start_idx + old_len) of
                    Err e \<Rightarrow> Err e
                  | Ok rs \<Rightarrow> Ok ((start_idx, old_len, new_slice) # rs))))"

text \<open>\<^verbatim>\<open>sort_by\<close> is a stable sort, as \<open>sort_key\<close> is.\<close>

definition compute_replacements ::
  "ustr list \<Rightarrow> ustr \<Rightarrow> update_file_chunk list \<Rightarrow> (apply_patch_error, replacement list) result" where
  "compute_replacements original_lines path chunks =
     (case compute_replacements_loop original_lines path chunks 0 of
        Err e \<Rightarrow> Err e
      | Ok rs \<Rightarrow> Ok (sort_key fst rs))"

text \<open>\<^verbatim>\<open>Vec::remove\<close> (called below only with an index in range) and \<^verbatim>\<open>Vec::insert\<close>.\<close>

definition vec_remove :: "nat \<Rightarrow> 'a list \<Rightarrow> 'a list" where
  "vec_remove i xs = take i xs @ drop (Suc i) xs"

fun remove_old_lines :: "nat \<Rightarrow> nat \<Rightarrow> 'a list \<Rightarrow> 'a list" where
  "remove_old_lines start_idx 0 xs = xs"
| "remove_old_lines start_idx (Suc n) xs =
     remove_old_lines start_idx n (if start_idx < length xs then vec_remove start_idx xs else xs)"

fun insert_new_lines :: "nat \<Rightarrow> 'a list \<Rightarrow> 'a list \<Rightarrow> ('e fault, 'a list) result" where
  "insert_new_lines i [] xs = Ok xs"
| "insert_new_lines i (y # ys) xs =
     (case vec_insert i y xs of Err e \<Rightarrow> Err e | Ok xs' \<Rightarrow> insert_new_lines (Suc i) ys xs')"

fun apply_replacements_loop ::
  "ustr list \<Rightarrow> replacement list \<Rightarrow> (apply_patch_error fault, ustr list) result" where
  "apply_replacements_loop ls [] = Ok ls"
| "apply_replacements_loop ls ((start_idx, old_len, new_segment) # rs) =
     (case insert_new_lines start_idx new_segment (remove_old_lines start_idx old_len ls) of
        Err e \<Rightarrow> Err e
      | Ok ls' \<Rightarrow> apply_replacements_loop ls' rs)"

definition apply_replacements ::
  "ustr list \<Rightarrow> replacement list \<Rightarrow> (apply_patch_error fault, ustr list) result" where
  "apply_replacements ls replacements = apply_replacements_loop ls (rev replacements)"

text \<open>The lines of a file: the empty piece after the last line feed is dropped.\<close>

definition split_contents :: "ustr \<Rightarrow> ustr list" where
  "split_contents original_contents =
     (let original_lines = split_char newline original_contents
      in if last_is_empty original_lines then butlast original_lines else original_lines)"

definition join_contents :: "ustr list \<Rightarrow> ustr" where
  "join_contents result_lines =
     join [newline] (if \<not> last_is_empty result_lines then result_lines @ [[]] else result_lines)"

text \<open>The part of \<^verbatim>\<open>derive_new_contents_from_chunks\<close> after the file has been read.\<close>

definition derive_new_contents ::
  "ustr \<Rightarrow> ustr \<Rightarrow> update_file_chunk list \<Rightarrow> (apply_patch_error fault, ustr) result" where
  "derive_new_contents original_contents path chunks =
     (let original_lines = split_contents original_contents
      in case lift_fault (compute_replacements original_lines path chunks) of
           Err e \<Rightarrow> Err e
         | Ok replacements \<Rightarrow>
             (case apply_replacements original_lines replacements of
                Err e \<Rightarrow> Err e
              | Ok result_lines \<Rightarrow> Ok (join_contents result_lines)))"

section \<open>Applying replacements\<close>

lemma remove_old_lines_eq:
  "start_idx \<le> length xs \<Longrightarrow>
   remove_old_lines start_idx n xs = take start_idx xs @ drop (start_idx + n) xs"
proof (induction n arbitrary: xs)
  case (Suc n)
  show ?case
  proof (cases "start_idx < length xs")
    case True
    then have "start_idx \<le> length (vec_remove start_idx xs)" by (simp add: vec_remove_def)
    with Suc.IH True show ?thesis by (simp add: vec_remove_def min_def add.commute)
  qed (use Suc in simp)
qed simp

lemma insert_new_lines_eq:
  "i \<le> length xs \<Longrightarrow> insert_new_lines i ys xs = Ok (take i xs @ ys @ drop i xs)"
proof (induction ys arbitrary: i xs)
  case (Cons y ys)
  then have "vec_insert i y xs = Ok (take i xs @ y # drop i xs)" for e by (simp add: vec_insert_def)
  with Cons show ?case by (simp add: vec_insert_def)
qed simp

lemma apply_replacements_loop_Cons:
  "s \<le> length ls \<Longrightarrow>
   apply_replacements_loop ls ((s, n, new) # rs) =
   apply_replacements_loop (take s ls @ new @ drop (s + n) ls) rs"
  by (simp add: remove_old_lines_eq insert_new_lines_eq)

lemma apply_replacements_loop_no_panic:
  "sorted_wrt (\<lambda>x y. fst y \<le> fst x) rs \<Longrightarrow> \<forall>r\<in>set rs. fst r \<le> length ls \<Longrightarrow>
   \<exists>ls'. apply_replacements_loop ls rs = Ok ls'"
proof (induction rs arbitrary: ls)
  case (Cons r rs)
  obtain s n new where r: "r = (s, n, new)" by (cases r)
  with Cons.prems have "s \<le> length ls" "\<forall>r\<in>set rs. fst r \<le> s" by auto
  then show ?case unfolding r apply_replacements_loop_Cons [OF \<open>s \<le> length ls\<close>]
    using Cons.prems by (intro Cons.IH) auto
qed simp

text \<open>The reference: copy the lines between the replaced regions, in one pass from the left.\<close>

fun splice :: "nat \<Rightarrow> ustr list \<Rightarrow> replacement list \<Rightarrow> ustr list" where
  "splice pos ls [] = drop pos ls"
| "splice pos ls ((s, n, new) # rs) = window ls pos (s - pos) @ new @ splice (s + n) ls rs"

definition before :: "replacement \<Rightarrow> replacement \<Rightarrow> bool" where
  "before x y \<longleftrightarrow> fst x + fst (snd x) \<le> fst y"

lemma splice_snoc:
  "\<forall>r\<in>set rs. pos \<le> fst r \<and> fst r + fst (snd r) \<le> s \<Longrightarrow> sorted_wrt before rs \<Longrightarrow>
   pos \<le> s \<Longrightarrow> s \<le> length ls \<Longrightarrow>
   splice pos ls (rs @ [(s, n, new)]) = splice pos (take s ls) rs @ new @ drop (s + n) ls"
proof (induction rs arbitrary: pos)
  case Nil
  then show ?case by (simp add: window_def drop_take)
next
  case (Cons r rs)
  obtain a m seg where r: "r = (a, m, seg)" by (cases r)
  have "splice (a + m) ls (rs @ [(s, n, new)]) = splice (a + m) (take s ls) rs @ new @ drop (s + n) ls"
    using Cons.prems r by (intro Cons.IH) (auto simp: before_def)
  moreover have "window ls pos (a - pos) = window (take s ls) pos (a - pos)"
    using Cons.prems r by (simp add: window_def drop_take min_absorb1 diff_le_mono)
  ultimately show ?case by (simp add: r)
qed

lemma splice_prefix:
  "\<forall>r\<in>set rs. pos \<le> fst r \<and> fst r + fst (snd r) \<le> length ls \<Longrightarrow> sorted_wrt before rs \<Longrightarrow>
   pos \<le> length ls \<Longrightarrow> splice pos (ls @ rest) rs = splice pos ls rs @ rest"
proof (induction rs arbitrary: pos)
  case (Cons r rs)
  obtain a m seg where r: "r = (a, m, seg)" by (cases r)
  have "splice (a + m) (ls @ rest) rs = splice (a + m) ls rs @ rest"
    using Cons.prems r by (intro Cons.IH) (auto simp: before_def)
  then show ?case using Cons.prems r by (simp add: window_def)
qed simp

text \<open>Replacements that do not overlap, applied from the back, are spliced in.\<close>

lemma apply_replacements_splice:
  assumes "sorted_wrt before rs" and "\<forall>r\<in>set rs. fst r + fst (snd r) \<le> length ls"
  shows "apply_replacements ls rs = Ok (splice 0 ls rs)"
  using assms unfolding apply_replacements_def
proof (induction rs arbitrary: ls rule: rev_induct)
  case (snoc r rs)
  obtain s n new where r: "r = (s, n, new)" by (cases r)
  have so: "sorted_wrt before rs" and ends: "\<forall>r\<in>set rs. before r (s, n, new)"
    using snoc.prems(1) r by (simp_all add: sorted_wrt_append)
  then have ends: "\<forall>r\<in>set rs. fst r + fst (snd r) \<le> s" by (simp add: before_def)
  have s: "s \<le> length ls" using snoc.prems(2) r by simp
  let ?rest = "new @ drop (s + n) ls"
  have "apply_replacements_loop ls (rev (rs @ [r])) = apply_replacements_loop (take s ls @ ?rest) (rev rs)"
    using s by (simp add: r apply_replacements_loop_Cons del: apply_replacements_loop.simps)
  also have "\<dots> = Ok (splice 0 (take s ls @ ?rest) rs)"
    using ends s by (intro snoc.IH so) fastforce
  also have "splice 0 (take s ls @ ?rest) rs = splice 0 (take s ls) rs @ ?rest"
    using ends s so by (intro splice_prefix) (auto simp: min_def)
  also have "\<dots> = splice 0 ls (rs @ [r])"
    using splice_snoc [of rs 0 s ls n new] ends s so by (simp add: r)
  finally show ?case .
qed simp

section \<open>Computed replacements\<close>

text \<open>Where a chunk is found, in terms of the line index from which it is searched.\<close>

lemma seek_context_bound:
  assumes "seek_context ls path ctx i = Ok j" and "i \<le> length ls"
  shows "i \<le> j \<and> j \<le> length ls"
proof (cases ctx)
  case (Some c)
  with assms obtain k where k: "seek_sequence ls [c] i False = Some k" "j = k + 1"
    by (auto simp: seek_context_def split: option.splits)
  from seek_sequence_bound [OF k(1) assms(2)] seek_sequence_ge_start [OF k(1)] k(2)
  show ?thesis by simp
qed (use assms in \<open>simp add: seek_context_def\<close>)

lemma locate_old_lines_bound:
  assumes "locate_old_lines ls chunk i = Some (s, n, new)" and "i \<le> length ls"
  shows "s + n \<le> length ls"
  using assms
  by (auto simp: locate_old_lines_def Let_def split: option.splits if_splits
      dest!: seek_sequence_bound)

lemma locate_old_lines_ge:
  assumes "locate_old_lines ls chunk i = Some (s, n, new)" and "\<not> is_end_of_file chunk"
  shows "i \<le> s"
  using assms
  by (auto simp: locate_old_lines_def Let_def split: option.splits if_splits
      dest!: seek_sequence_ge_start)

definition insertion_index :: "ustr list \<Rightarrow> nat" where
  "insertion_index ls = (if last_is_empty ls then length ls - 1 else length ls)"

text \<open>One iteration of the loop, as the replacement it emits and the next line index.\<close>

lemma compute_replacements_loop_Cons:
  "compute_replacements_loop ls path (c # cs) i = Ok rs \<longleftrightarrow>
   (\<exists>j r rs' k. seek_context ls path (change_context c) i = Ok j \<and> rs = r # rs'
      \<and> compute_replacements_loop ls path cs k = Ok rs'
      \<and> (if old_lines c = [] then r = (insertion_index ls, 0, new_lines c) \<and> k = j
         else locate_old_lines ls c j = Some r \<and> k = fst r + fst (snd r)))"
  by (auto simp: insertion_index_def Let_def split: result.splits option.splits prod.splits if_splits)

lemma compute_replacements_loop_bound:
  "compute_replacements_loop ls path cs i = Ok rs \<Longrightarrow> i \<le> length ls \<Longrightarrow>
   \<forall>r\<in>set rs. fst r + fst (snd r) \<le> length ls"
proof (induction cs arbitrary: i rs)
  case (Cons c cs)
  from Cons.prems(1) [unfolded compute_replacements_loop_Cons] obtain j r rs' k where
    s: "seek_context ls path (change_context c) i = Ok j" "rs = r # rs'"
      "compute_replacements_loop ls path cs k = Ok rs'"
    and r: "if old_lines c = [] then r = (insertion_index ls, 0, new_lines c) \<and> k = j
         else locate_old_lines ls c j = Some r \<and> k = fst r + fst (snd r)" by blast
  have j: "j \<le> length ls" using seek_context_bound [OF s(1) Cons.prems(2)] by simp
  obtain a n new where rr: "r = (a, n, new)" by (cases r)
  have "fst r + fst (snd r) \<le> length ls \<and> k \<le> length ls"
    using r j locate_old_lines_bound [of ls c j a n new]
    by (auto simp: rr insertion_index_def split: if_splits)
  with Cons.IH s show ?case by auto
qed simp

lemma compute_replacements_bound:
  assumes "compute_replacements ls path cs = Ok rs"
  shows "(\<forall>r\<in>set rs. fst r + fst (snd r) \<le> length ls) \<and> sorted (map fst rs)"
  using assms compute_replacements_loop_bound [of ls path cs 0]
  by (auto simp: compute_replacements_def split: result.splits)

lemma compute_replacements_applies:
  assumes "compute_replacements ls path cs = Ok rs"
  shows "\<exists>ls'. apply_replacements ls rs = Ok ls'"
  unfolding apply_replacements_def
proof (rule apply_replacements_loop_no_panic)
  show "sorted_wrt (\<lambda>x y. fst y \<le> fst x) (rev rs)"
    using compute_replacements_bound [OF assms] by (simp add: sorted_wrt_rev sorted_map)
  show "\<forall>r\<in>set (rev rs). fst r \<le> length ls"
    using compute_replacements_bound [OF assms] by fastforce
qed

subsection \<open>Chunks that cannot overlap\<close>

text \<open>
  A pure addition goes before a trailing empty line of the file, and a chunk marked with the end of
  the file is searched from the back; both may overlap the region of another chunk. All other
  chunks are ordinary.
\<close>

definition ordinary_chunk :: "ustr list \<Rightarrow> update_file_chunk \<Rightarrow> bool" where
  "ordinary_chunk ls c \<longleftrightarrow> \<not> is_end_of_file c \<and> (old_lines c = [] \<longrightarrow> \<not> last_is_empty ls)"

definition orderable :: "replacement \<Rightarrow> replacement \<Rightarrow> bool" where
  "orderable x y \<longleftrightarrow> (if fst x \<le> fst y then before x y else before y x)"

lemma sorted_wrt_insort_key:
  "sorted_wrt before ys \<Longrightarrow> sorted (map fst ys) \<Longrightarrow> \<forall>y\<in>set ys. orderable x y \<Longrightarrow>
   sorted_wrt before (insort_key fst x ys)"
proof (induction ys)
  case (Cons y ys)
  show ?case
  proof (cases "fst x \<le> fst y")
    case True
    with Cons.prems have "before x z" if "z \<in> set (y # ys)" for z
      using that by (fastforce simp: orderable_def)
    with True Cons.prems show ?thesis by simp
  next
    case False
    with Cons.prems have "before y x" by (simp add: orderable_def)
    with False Cons show ?thesis by (auto simp: set_insort_key)
  qed
qed simp

lemma sorted_wrt_sort_key: "sorted_wrt orderable rs \<Longrightarrow> sorted_wrt before (sort_key fst rs)"
  by (induction rs) (auto intro!: sorted_wrt_insort_key)

lemma compute_replacements_loop_orderable:
  "compute_replacements_loop ls path cs i = Ok rs \<Longrightarrow> i \<le> length ls \<Longrightarrow>
   list_all (ordinary_chunk ls) cs \<Longrightarrow> sorted_wrt orderable rs \<and> (\<forall>r\<in>set rs. i \<le> fst r)"
proof (induction cs arbitrary: i rs)
  case (Cons c cs)
  from Cons.prems(1) [unfolded compute_replacements_loop_Cons] obtain j r rs' k where
    s: "seek_context ls path (change_context c) i = Ok j" "rs = r # rs'"
      "compute_replacements_loop ls path cs k = Ok rs'"
    and r: "if old_lines c = [] then r = (insertion_index ls, 0, new_lines c) \<and> k = j
         else locate_old_lines ls c j = Some r \<and> k = fst r + fst (snd r)" by blast
  have j: "i \<le> j" "j \<le> length ls" using seek_context_bound [OF s(1) Cons.prems(2)] by simp_all
  have ord: "ordinary_chunk ls c" "list_all (ordinary_chunk ls) cs" using Cons.prems(3) by simp_all
  obtain a n new where rr: "r = (a, n, new)" by (cases r)
  have k: "j \<le> a \<and> j \<le> k \<and> k \<le> length ls"
    using r j ord(1) locate_old_lines_bound [of ls c j a n new] locate_old_lines_ge [of ls c j a n new]
    by (auto simp: rr insertion_index_def ordinary_chunk_def split: if_splits)
  have IH: "sorted_wrt orderable rs'" "\<forall>r\<in>set rs'. k \<le> fst r"
    using Cons.IH [OF s(3) _ ord(2)] k by auto
  have bnd: "\<forall>r\<in>set rs'. fst r + fst (snd r) \<le> length ls"
    using compute_replacements_loop_bound [OF s(3)] k by simp
  have "orderable r y" if "y \<in> set rs'" for y
  proof (cases "old_lines c = []")
    case True
    with r ord(1) have "r = (length ls, 0, new_lines c)"
      by (simp add: insertion_index_def ordinary_chunk_def)
    then show ?thesis using bnd that by (auto simp: orderable_def before_def)
  next
    case False
    with r that IH(2) show ?thesis by (fastforce simp: orderable_def before_def)
  qed
  with IH s(2) k j rr show ?case by fastforce
qed simp

lemma compute_replacements_disjoint:
  assumes "compute_replacements ls path cs = Ok rs" and "list_all (ordinary_chunk ls) cs"
  shows "sorted_wrt before rs"
  using assms compute_replacements_loop_orderable [of ls path cs 0]
  by (auto simp: compute_replacements_def split: result.splits intro!: sorted_wrt_sort_key)

section \<open>Edit scripts\<close>

text \<open>
  An edit script over a file: a list of \<open>(kept lines, old lines, new lines)\<close> followed by the lines
  after the last edit. \<open>edit_chunk\<close> is the chunk a patch carries for one edit.
\<close>

type_synonym edit = "ustr list \<times> ustr list \<times> ustr list"

fun edit_old :: "edit list \<Rightarrow> ustr list \<Rightarrow> ustr list" where
  "edit_old [] tail = tail"
| "edit_old ((keep, old, new) # es) tail = keep @ old @ edit_old es tail"

fun edit_new :: "edit list \<Rightarrow> ustr list \<Rightarrow> ustr list" where
  "edit_new [] tail = tail"
| "edit_new ((keep, old, new) # es) tail = keep @ new @ edit_new es tail"

fun edit_chunk :: "edit \<Rightarrow> update_file_chunk" where
  "edit_chunk (keep, old, new) =
     \<lparr>change_context = None, old_lines = old, new_lines = new, is_end_of_file = False\<rparr>"

text \<open>Every edit has old lines, and they do not already occur in the lines kept before them.\<close>

fun unambiguous :: "edit list \<Rightarrow> ustr list \<Rightarrow> bool" where
  "unambiguous [] tail = True"
| "unambiguous ((keep, old, new) # es) tail \<longleftrightarrow>
     old \<noteq> [] \<and> (\<forall>i<length keep. window (keep @ old @ edit_old es tail) i (length old) \<noteq> old)
     \<and> unambiguous es tail"

text \<open>The text of a file in which every line ends with a line feed.\<close>

definition terminated :: "ustr list \<Rightarrow> ustr" where
  "terminated ls = join [newline] (ls @ [[]])"

fun edit_replacements :: "nat \<Rightarrow> edit list \<Rightarrow> replacement list" where
  "edit_replacements pos [] = []"
| "edit_replacements pos ((keep, old, new) # es) =
     (pos + length keep, length old, new) # edit_replacements (pos + length keep + length old) es"

lemma seek_sequence_first_exact:
  assumes "pattern \<noteq> []" and "start \<le> i" and "i + length pattern \<le> length lines"
    and "window lines i (length pattern) = pattern"
    and "\<forall>k. start \<le> k \<and> k < i \<longrightarrow> window lines k (length pattern) \<noteq> pattern"
  shows "seek_sequence lines pattern start False = Some i"
proof -
  have "find (\<lambda>i. window lines i (length pattern) = pattern) [start..<Suc (length lines - length pattern)] = Some i"
    unfolding find_Some_iff using assms
    by (intro exI [of _ "i - start"]) (auto simp del: upt_Suc)
  then show ?thesis
    using assms by (simp add: seek_sequence_windows seek_range_def del: upt_Suc)
qed

lemma window_shift: "window (pre @ xs) (length pre + i) n = window xs i n"
  by (simp add: window_def)

lemma seek_edit:
  assumes "unambiguous ((keep, old, new) # es) tail"
  shows "seek_sequence (pre @ edit_old ((keep, old, new) # es) tail) old (length pre) False
    = Some (length pre + length keep)"
proof (rule seek_sequence_first_exact)
  show "window (pre @ edit_old ((keep, old, new) # es) tail) (length pre + length keep) (length old) = old"
    unfolding window_shift by (simp add: window_def)
  show "\<forall>k. length pre \<le> k \<and> k < length pre + length keep \<longrightarrow>
      window (pre @ edit_old ((keep, old, new) # es) tail) k (length old) \<noteq> old"
    using assms by (auto dest!: le_Suc_ex simp: window_shift)
qed (use assms in auto)

lemma compute_edit_replacements:
  "unambiguous es tail \<Longrightarrow>
   compute_replacements_loop (pre @ edit_old es tail) path (map edit_chunk es) (length pre)
     = Ok (edit_replacements (length pre) es)"
proof (induction es arbitrary: pre)
  case (Cons e es)
  obtain keep old new where e: "e = (keep, old, new)" by (cases e)
  have "locate_old_lines (pre @ edit_old (e # es) tail) (edit_chunk e) (length pre)
      = Some (length pre + length keep, length old, new)"
    using seek_edit [of keep old new es tail pre] Cons.prems by (simp add: locate_old_lines_def e)
  moreover have "compute_replacements_loop ((pre @ keep @ old) @ edit_old es tail) path
      (map edit_chunk es) (length (pre @ keep @ old))
      = Ok (edit_replacements (length (pre @ keep @ old)) es)"
    using Cons.prems e by (intro Cons.IH) simp
  ultimately show ?case
    using Cons.prems by (simp add: seek_context_def e add.assoc)
qed simp

lemma edit_replacements_sorted:
  "sorted_wrt before (edit_replacements pos es) \<and> (\<forall>r\<in>set (edit_replacements pos es). pos \<le> fst r)"
  by (induction pos es rule: edit_replacements.induct) (fastforce simp: before_def)+

lemma before_sorted: "sorted_wrt before rs \<Longrightarrow> sorted (map fst rs)"
  by (induction rs) (fastforce simp: before_def)+

lemma splice_edit:
  "splice (length pre) (pre @ edit_old es tail) (edit_replacements (length pre) es) = edit_new es tail"
proof (induction es arbitrary: pre)
  case (Cons e es)
  obtain keep old new where e: "e = (keep, old, new)" by (cases e)
  from Cons.IH [of "pre @ keep @ old"] show ?case
    by (simp add: e window_def add.assoc)
qed simp

lemma compute_edits:
  assumes "unambiguous es tail"
  shows "compute_replacements (edit_old es tail) path (map edit_chunk es) = Ok (edit_replacements 0 es)"
  using compute_edit_replacements [OF assms, of "[]" path] edit_replacements_sorted [of 0 es]
  by (simp add: compute_replacements_def sort_key_id_if_sorted before_sorted)

lemma apply_edits:
  assumes "unambiguous es tail"
  shows "apply_replacements (edit_old es tail) (edit_replacements 0 es) = Ok (edit_new es tail)"
  using splice_edit [of "[]" es tail] edit_replacements_sorted [of 0 es]
    compute_replacements_bound [OF compute_edits [OF assms]]
  by (simp add: apply_replacements_splice)

lemma split_contents_terminated:
  assumes "\<forall>l\<in>set ls. newline \<notin> set l"
  shows "split_contents (terminated ls) = ls"
proof -
  have "split_char newline (terminated ls) = ls @ [[]]"
    unfolding terminated_def using assms by (intro split_char_join) auto
  then show ?thesis by (simp add: split_contents_def last_is_empty_def)
qed

lemma join_contents_eq:
  "join_contents ls = (if last_is_empty ls then join [newline] ls else terminated ls)"
  by (simp add: join_contents_def terminated_def)

section \<open>Properties\<close>

lemma derive_new_contents_faultless: "derive_new_contents contents path chunks \<noteq> Err Panic"
  by (auto simp: derive_new_contents_def Let_def split: result.splits
      dest!: compute_replacements_applies)

text \<open>
  whatever the file and the chunks are, every region that \<^verbatim>\<open>compute_replacements\<close> schedules lies
  inside the file, the regions are ordered by their start, and applying them from the back succeeds:
  no line is ever inserted beyond the end of the vector, even where regions overlap.
\<close>

theorem compute_replacements_safe:
  assumes "compute_replacements original_lines path chunks = Ok replacements"
  shows "(\<forall>(start_idx, old_len, new_segment)\<in>set replacements. start_idx + old_len \<le> length original_lines)
    \<and> sorted (map fst replacements)
    \<and> (\<exists>new_lines. apply_replacements original_lines replacements = Ok new_lines)"
  using compute_replacements_bound [OF assms] compute_replacements_applies [OF assms] by fastforce

theorem compute_replacements_safe_witness:
  "\<exists>new_lines. apply_replacements [lit ''a'', lit ''b''] [(0, 2, [lit ''y'']), (1, 1, [])] = Ok new_lines"
proof -
  let ?chunk = "\<lambda>old new eof. \<lparr>change_context = None, old_lines = old, new_lines = new, is_end_of_file = eof\<rparr>"
  have c: "compute_replacements [lit ''a'', lit ''b''] (lit ''f'')
      [?chunk [lit ''a'', lit ''b''] [lit ''y''] False, ?chunk [lit ''b''] [] True]
    = Ok [(0, 2, [lit ''y'']), (1, 1, [])]" by code_simp
  show ?thesis using compute_replacements_safe [OF c] by blast
qed

text \<open>
  for chunks that are neither marked with the end of the file nor pure additions to a file with
  a trailing empty line, the scheduled regions are disjoint and in order, and removing and inserting
  line by line from the back gives the one-pass splice: the lines outside the regions are kept, in
  order, and each region is replaced by its new lines.
\<close>

theorem apply_replacements_refines_splice:
  assumes "compute_replacements original_lines path chunks = Ok replacements"
    and "list_all (ordinary_chunk original_lines) chunks"
  shows "sorted_wrt before replacements
    \<and> apply_replacements original_lines replacements = Ok (splice 0 original_lines replacements)"
  using compute_replacements_disjoint [OF assms] compute_replacements_bound [OF assms(1)]
  by (simp add: apply_replacements_splice)

definition sample_chunks :: "update_file_chunk list" where
  "sample_chunks =
     [\<lparr>change_context = Some (lit ''b''), old_lines = [lit ''c''], new_lines = [lit ''x'', lit ''y''],
        is_end_of_file = False\<rparr>,
      \<lparr>change_context = None, old_lines = [], new_lines = [lit ''z''], is_end_of_file = False\<rparr>,
      \<lparr>change_context = None, old_lines = [lit '' d''], new_lines = [], is_end_of_file = False\<rparr>]"

theorem apply_replacements_refines_splice_witness:
  "apply_replacements [lit ''a'', lit ''b'', lit ''c'', lit ''d'', lit ''e'']
     [(2, 1, [lit ''x'', lit ''y'']), (3, 1, []), (5, 0, [lit ''z''])]
   = Ok [lit ''a'', lit ''b'', lit ''x'', lit ''y'', lit ''e'', lit ''z'']"
proof -
  let ?ls = "[lit ''a'', lit ''b'', lit ''c'', lit ''d'', lit ''e'']"
  let ?rs = "[(2, 1, [lit ''x'', lit ''y'']), (3, 1, []), (5, 0, [lit ''z''])] :: replacement list"
  have c: "compute_replacements ?ls (lit ''f'') sample_chunks = Ok ?rs" by code_simp
  have o: "list_all (ordinary_chunk ?ls) sample_chunks" by code_simp
  have "splice 0 ?ls ?rs = [lit ''a'', lit ''b'', lit ''x'', lit ''y'', lit ''e'', lit ''z'']"
    by code_simp
  with apply_replacements_refines_splice [OF c o] show ?thesis by simp
qed

text \<open>
  C6: a patch does what it says. For an edit script whose old lines do not occur in the lines kept
  before them, applying its chunks to the old file gives exactly the new file; the one exception is
  a new file whose last line is blank, of which the code drops one line feed.
\<close>

theorem derive_new_contents_edit_script:
  assumes "unambiguous es tail" and "\<forall>l\<in>set (edit_old es tail). newline \<notin> set l"
  shows "derive_new_contents (terminated (edit_old es tail)) path (map edit_chunk es) =
    Ok (if last_is_empty (edit_new es tail) then join [newline] (edit_new es tail)
        else terminated (edit_new es tail))"
  using assms
  by (simp add: derive_new_contents_def split_contents_terminated compute_edits apply_edits
      join_contents_eq)

definition sample_edits :: "edit list" where
  "sample_edits =
     [([lit ''one''], [lit ''two''], [lit ''2'']), ([lit ''three''], [lit ''two''], [lit ''II''])]"

theorem derive_new_contents_edit_script_witness:
  "derive_new_contents (terminated (edit_old sample_edits [lit ''end''])) (lit ''f'')
     (map edit_chunk sample_edits) = Ok (terminated [lit ''one'', lit ''2'', lit ''three'', lit ''II'', lit ''end''])"
proof -
  have u: "unambiguous sample_edits [lit ''end'']" by code_simp
  have n: "\<forall>l\<in>set (edit_old sample_edits [lit ''end'']). newline \<notin> set l" by code_simp
  show ?thesis using derive_new_contents_edit_script [OF u n, of "lit ''f''"]
    by (simp add: sample_edits_def last_is_empty_def)
qed

end
