(* ===== verification/Paths.thy ===== *)
theory Paths
  imports Prelude
begin

text \<open>
  Paths on a Unix target: the part of \<^verbatim>\<open>std::path\<close> that the code uses, and
  \<^verbatim>\<open>src/utils/fs/src/absolute_path\<close>, which turns a path of a patch into an absolute and normalised
  one. A path that arrives as text is a \<open>ustr\<close>; a \<^verbatim>\<open>PathBuf\<close> that the code builds is its list of
  components, which is also what \<^verbatim>\<open>Path::eq\<close> compares. The home directory (\<^verbatim>\<open>dirs::home_dir\<close>) and the
  working directory of the process are parameters.
\<close>

section \<open>Components\<close>

datatype component = RootDir | CurDir | ParentDir | Normal ustr

type_synonym path = "component list"

abbreviation slash :: uchar where "slash \<equiv> 47"

definition dot :: ustr where "dot = lit ''.''"
definition dotdot :: ustr where "dotdot = lit ''..''"

text \<open>\<^verbatim>\<open>Path::components\<close>: empty segments and inner \<^verbatim>\<open>.\<close> segments are skipped.\<close>

definition segment_component :: "ustr \<Rightarrow> component list" where
  "segment_component seg =
     (if seg = [] \<or> seg = dot then [] else if seg = dotdot then [ParentDir] else [Normal seg])"

definition components :: "ustr \<Rightarrow> path" where
  "components p =
     (let segs = split_char slash p; rest = concat (map segment_component segs)
      in if prefix [slash] p then RootDir # rest
         else if hd segs = dot then CurDir # rest
         else rest)"

fun component_str :: "component \<Rightarrow> ustr" where
  "component_str RootDir = [slash]"
| "component_str CurDir = dot"
| "component_str ParentDir = dotdot"
| "component_str (Normal n) = n"

text \<open>\<^verbatim>\<open>Path::display\<close> of a path built from components.\<close>

fun display :: "path \<Rightarrow> ustr" where
  "display (RootDir # cs) = slash # join [slash] (map component_str cs)"
| "display cs = join [slash] (map component_str cs)"

definition is_absolute :: "path \<Rightarrow> bool" where
  "is_absolute p \<longleftrightarrow> p \<noteq> [] \<and> hd p = RootDir"

text \<open>\<^verbatim>\<open>Path::parent\<close>, \<^verbatim>\<open>Path::file_name\<close>, \<^verbatim>\<open>PathBuf::push\<close> of one component, \<^verbatim>\<open>PathBuf::pop\<close> and \<^verbatim>\<open>Path::join\<close>.\<close>

definition path_parent :: "path \<Rightarrow> path option" where
  "path_parent p = (if p = [] \<or> last p = RootDir then None else Some (butlast p))"

definition path_file_name :: "path \<Rightarrow> ustr option" where
  "path_file_name p = (if p = [] then None else case last p of Normal n \<Rightarrow> Some n | _ \<Rightarrow> None)"

definition path_push :: "path \<Rightarrow> component \<Rightarrow> path" where
  "path_push p c = (if c = RootDir then [RootDir] else p @ [c])"

definition path_pop :: "path \<Rightarrow> path" where
  "path_pop p = (case path_parent p of Some q \<Rightarrow> q | None \<Rightarrow> p)"

definition path_join :: "path \<Rightarrow> path \<Rightarrow> path" where
  "path_join base p =
     (if is_absolute p then p
      else if base \<noteq> [] \<and> p \<noteq> [] \<and> hd p = CurDir then base @ tl p
      else base @ p)"

text \<open>\<^verbatim>\<open>Path::file_stem\<close>.\<close>

definition name_stem :: "ustr \<Rightarrow> ustr" where
  "name_stem n =
     (let after = takeWhile (\<lambda>c. c \<noteq> 46) (rev n); before = rev (drop (Suc (length after)) (rev n))
      in if 46 \<notin> set n \<or> before = [] then n else before)"

definition file_stem :: "ustr \<Rightarrow> ustr option" where
  "file_stem p = map_option name_stem (path_file_name (components p))"

section \<open>Absolute paths\<close>

text \<open>The loop of \<^verbatim>\<open>normalize_path\<close>.\<close>

fun normalize_loop :: "path \<Rightarrow> component list \<Rightarrow> path" where
  "normalize_loop normalized [] = normalized"
| "normalize_loop normalized (CurDir # cs) = normalize_loop normalized cs"
| "normalize_loop normalized (ParentDir # cs) = normalize_loop (path_pop normalized) cs"
| "normalize_loop normalized (RootDir # cs) = normalize_loop (path_push normalized RootDir) cs"
| "normalize_loop normalized (Normal n # cs) = normalize_loop (path_push normalized (Normal n)) cs"

definition normalize_path :: "path \<Rightarrow> path" where
  "normalize_path p = (let normalized = normalize_loop [] p
     in if normalized = [] then [CurDir] else normalized)"

definition path_with_base :: "path \<Rightarrow> path \<Rightarrow> path" where
  "path_with_base p base = (if is_absolute p then p else path_join base p)"

definition absolutize_from :: "path \<Rightarrow> path \<Rightarrow> path" where
  "absolutize_from p base = normalize_path (path_with_base p base)"

definition absolutize :: "('e, path) result \<Rightarrow> path \<Rightarrow> ('e, path) result" where
  "absolutize current_dir p =
     (if is_absolute p then Ok (normalize_path p)
      else case current_dir of Err e \<Rightarrow> Err e | Ok cwd \<Rightarrow> Ok (absolutize_from p cwd))"

text \<open>\<^verbatim>\<open>maybe_expand_home_directory\<close>; the \<^verbatim>\<open>cfg!(windows)\<close> branch is absent on Unix.\<close>

definition maybe_expand_home_directory :: "path option \<Rightarrow> ustr \<Rightarrow> path" where
  "maybe_expand_home_directory home_dir p =
     (case home_dir of
        None \<Rightarrow> components p
      | Some home \<Rightarrow>
          (case strip_prefix p (lit ''~'') of
             None \<Rightarrow> components p
           | Some rest \<Rightarrow>
               if rest = [] then home
               else (case strip_prefix rest [slash] of
                       Some rest \<Rightarrow> path_join home (components (dropWhile (\<lambda>c. c = slash) rest))
                     | None \<Rightarrow> components p)))"

definition resolve_path_against_base :: "path option \<Rightarrow> ustr \<Rightarrow> path \<Rightarrow> path" where
  "resolve_path_against_base home_dir p base =
     absolutize_from (maybe_expand_home_directory home_dir p) base"

definition from_absolute_path ::
  "path option \<Rightarrow> ('e, path) result \<Rightarrow> ustr \<Rightarrow> ('e, path) result" where
  "from_absolute_path home_dir current_dir p =
     absolutize current_dir (maybe_expand_home_directory home_dir p)"

text \<open>The error of \<^verbatim>\<open>from_absolute_path_checked\<close> is its message; its kind is \<^verbatim>\<open>InvalidInput\<close>.\<close>

definition from_absolute_path_checked :: "path option \<Rightarrow> ustr \<Rightarrow> (ustr, path) result" where
  "from_absolute_path_checked home_dir p =
     (let expanded = maybe_expand_home_directory home_dir p
      in if \<not> is_absolute expanded then Err (lit ''path is not absolute: '' @ p)
         else Ok (absolutize_from expanded [RootDir]))"

section \<open>Lemmas\<close>

text \<open>What the type \<^verbatim>\<open>AbsolutePathBuf\<close> promises: a root followed by ordinary names.\<close>

definition name_ok :: "ustr \<Rightarrow> bool" where
  "name_ok n \<longleftrightarrow> n \<noteq> [] \<and> n \<noteq> dot \<and> n \<noteq> dotdot \<and> slash \<notin> set n"

definition absolute_path :: "path \<Rightarrow> bool" where
  "absolute_path p \<longleftrightarrow> p \<noteq> [] \<and> hd p = RootDir \<and> (\<forall>c\<in>set (tl p). \<exists>n. c = Normal n \<and> name_ok n)"

definition component_ok :: "component \<Rightarrow> bool" where
  "component_ok c \<longleftrightarrow> (\<forall>n. c = Normal n \<longrightarrow> name_ok n)"

abbreviation path_ok :: "path \<Rightarrow> bool" where "path_ok \<equiv> list_all component_ok"

lemma absolute_path_root [simp]: "absolute_path [RootDir]"
  by (simp add: absolute_path_def)

lemma absolute_path_Nil [simp]: "\<not> absolute_path []"
  by (simp add: absolute_path_def)

lemma absolute_path_snoc:
  "absolute_path (p @ [c]) \<longleftrightarrow> p = [] \<and> c = RootDir \<or> absolute_path p \<and> (\<exists>n. c = Normal n \<and> name_ok n)"
  by (cases p) (auto simp: absolute_path_def)

lemma absolute_path_pop: "absolute_path p \<Longrightarrow> absolute_path (path_pop p)"
  by (cases p rule: rev_cases) (auto simp: path_pop_def path_parent_def absolute_path_snoc)

lemma absolute_path_parent:
  "absolute_path p \<Longrightarrow> path_parent p = Some q \<Longrightarrow> absolute_path q \<and> (\<exists>n. p = q @ [Normal n])"
  by (cases p rule: rev_cases) (auto simp: path_parent_def absolute_path_snoc split: if_splits)

lemma path_parent_snoc [simp]: "path_parent (p @ [Normal n]) = Some p"
  by (simp add: path_parent_def)

lemma path_parent_root [simp]: "path_parent [RootDir] = None"
  by (simp add: path_parent_def)

lemma normalize_loop_absolute:
  "absolute_path acc \<Longrightarrow> path_ok cs \<Longrightarrow> absolute_path (normalize_loop acc cs)"
proof (induction acc cs rule: normalize_loop.induct)
  case (3 acc cs)
  then show ?case by (simp add: absolute_path_pop)
qed (auto simp: path_push_def absolute_path_snoc component_ok_def)

lemma normalize_path_absolute:
  assumes "is_absolute p" and "path_ok p"
  shows "absolute_path (normalize_path p)"
proof (cases p)
  case (Cons c cs)
  with assms have "absolute_path (normalize_loop [] p)"
    by (auto simp: is_absolute_def path_push_def intro!: normalize_loop_absolute)
  then show ?thesis by (auto simp: normalize_path_def Let_def absolute_path_def)
qed (use assms in \<open>simp add: is_absolute_def\<close>)

lemma components_ok [simp]: "path_ok (components p)"
proof -
  have "component_ok c" if "seg \<in> set (split_char slash p)" "c \<in> set (segment_component seg)" for seg c
    using that by (auto simp: segment_component_def component_ok_def name_ok_def
        dest: split_char_pieces split: if_splits)
  then show ?thesis
    by (auto simp: components_def Let_def component_ok_def list_all_iff split: if_splits)
qed

lemma absolute_path_is_absolute: "absolute_path p \<Longrightarrow> is_absolute p"
  by (simp add: absolute_path_def is_absolute_def)

lemma absolute_path_ok [simp]: "absolute_path p \<Longrightarrow> path_ok p"
  by (cases p) (auto simp: absolute_path_def component_ok_def list_all_iff)

lemma path_join_ok [simp]: "path_ok base \<Longrightarrow> path_ok p \<Longrightarrow> path_ok (path_join base p)"
  by (cases p) (auto simp: path_join_def)

lemma expand_home_ok:
  "(\<And>home. home_dir = Some home \<Longrightarrow> absolute_path home) \<Longrightarrow>
   path_ok (maybe_expand_home_directory home_dir p)"
  by (simp add: maybe_expand_home_directory_def split: option.splits)

lemma absolutize_from_absolute:
  assumes "absolute_path base" and "path_ok p"
  shows "absolute_path (absolutize_from p base)"
  unfolding absolutize_from_def
proof (rule normalize_path_absolute)
  show "is_absolute (path_with_base p base)"
    using assms(1) by (auto simp: path_with_base_def path_join_def absolute_path_def is_absolute_def)
  show "path_ok (path_with_base p base)"
    using assms by (simp add: path_with_base_def)
qed

text \<open>Normalisation leaves an absolute path as it is.\<close>

lemma normalize_loop_names:
  "\<forall>c\<in>set cs. \<exists>n. c = Normal n \<Longrightarrow> normalize_loop acc cs = acc @ cs"
  by (induction cs arbitrary: acc) (auto simp: path_push_def)

lemma map_component_str: "\<forall>c\<in>set cs. \<exists>n. c = Normal n \<Longrightarrow> map Normal (map component_str cs) = cs"
  by (induction cs) auto

lemma absolute_path_Cons:
  "absolute_path p \<longleftrightarrow> (\<exists>cs. p = RootDir # cs \<and> (\<forall>c\<in>set cs. \<exists>n. c = Normal n \<and> name_ok n))"
  by (cases p) (auto simp: absolute_path_def)

lemma normalize_path_id: "absolute_path p \<Longrightarrow> normalize_path p = p"
proof -
  assume "absolute_path p"
  then obtain cs where p: "p = RootDir # cs" "\<forall>c\<in>set cs. \<exists>n. c = Normal n \<and> name_ok n"
    by (auto simp: absolute_path_Cons)
  then have "normalize_loop [RootDir] cs = RootDir # cs"
    by (subst normalize_loop_names) auto
  with p show ?thesis by (simp add: normalize_path_def path_push_def)
qed

lemma segment_component_name: "name_ok n \<Longrightarrow> segment_component n = [Normal n]"
  by (simp add: segment_component_def name_ok_def)

lemma components_names:
  assumes "ns \<noteq> []" and "\<forall>n\<in>set ns. name_ok n"
  shows "concat (map segment_component (split_char slash (join [slash] ns))) = map Normal ns"
proof -
  have "concat (map segment_component ns) = map Normal ns"
    using assms(2) by (induction ns) (auto simp: segment_component_name)
  moreover have "split_char slash (join [slash] ns) = ns"
    using assms by (intro split_char_join) (auto simp: name_ok_def)
  ultimately show ?thesis by simp
qed

lemma components_display:
  assumes "absolute_path p"
  shows "components (display p) = p"
proof -
  from assms obtain cs where p: "p = RootDir # cs" and cs: "\<forall>c\<in>set cs. \<exists>n. c = Normal n \<and> name_ok n"
    by (auto simp: absolute_path_Cons)
  define ns where "ns = map component_str cs"
  have "map Normal ns = cs" unfolding ns_def using cs by (intro map_component_str) blast
  moreover have "\<forall>n\<in>set ns. name_ok n" using cs by (fastforce simp: ns_def)
  ultimately have cs': "cs = map Normal ns" "\<forall>n\<in>set ns. name_ok n" by simp_all
  show ?thesis
  proof (cases "ns = []")
    case True
    then show ?thesis using cs' by (simp add: p components_def segment_component_def)
  next
    case False
    with cs' show ?thesis
      by (simp add: p components_def components_names segment_component_def comp_def)
  qed
qed

lemma normalize_loop_keeps:
  "ParentDir \<notin> set cs \<Longrightarrow> RootDir \<notin> set cs \<Longrightarrow>
   normalize_loop acc cs = acc @ filter (\<lambda>c. c \<noteq> CurDir) cs"
  by (induction acc cs rule: normalize_loop.induct) (auto simp: path_push_def)

lemma components_no_root: "\<not> is_absolute (components p) \<Longrightarrow> RootDir \<notin> set (components p)"
  by (auto simp: components_def is_absolute_def Let_def segment_component_def split: if_splits)

lemma is_absolute_components: "is_absolute (components p) \<longleftrightarrow> prefix [slash] p"
proof -
  let ?cs = "concat (map segment_component (split_char slash p))"
  have "RootDir \<notin> set ?cs" by (auto simp: segment_component_def)
  then have "?cs \<noteq> [] \<Longrightarrow> hd ?cs \<noteq> RootDir" by (metis hd_in_set)
  then show ?thesis by (auto simp: components_def is_absolute_def Let_def)
qed

lemma path_with_base_relative:
  "\<not> is_absolute p \<Longrightarrow> absolute_path base \<Longrightarrow>
   path_with_base p base = base @ (if p \<noteq> [] \<and> hd p = CurDir then tl p else p)"
  by (auto simp: path_with_base_def path_join_def absolute_path_def)

lemma normalize_path_append:
  assumes "absolute_path base"
  shows "normalize_path (base @ cs) =
    (let r = normalize_loop base cs in if r = [] then [CurDir] else r)"
proof -
  have app: "normalize_loop acc (xs @ ys) = normalize_loop (normalize_loop acc xs) ys" for acc xs ys
    by (induction acc xs rule: normalize_loop.induct) auto
  have "normalize_loop [] base = base"
    using normalize_path_id [OF assms] assms
    by (auto simp: normalize_path_def Let_def absolute_path_def split: if_splits)
  then show ?thesis by (simp add: normalize_path_def app)
qed

text \<open>An environment in which the working directory and the home directory are absolute.\<close>

definition env_ok :: "path option \<Rightarrow> path \<Rightarrow> bool" where
  "env_ok home_dir cwd \<longleftrightarrow> absolute_path cwd \<and> (\<forall>home. home_dir = Some home \<longrightarrow> absolute_path home)"

lemma resolve_path_absolute:
  "env_ok home_dir base \<Longrightarrow> absolute_path (resolve_path_against_base home_dir p base)"
  unfolding resolve_path_against_base_def env_ok_def
  by (intro absolutize_from_absolute expand_home_ok) auto

section \<open>Properties\<close>

text \<open>
  resolving any path text against an absolute base gives an absolute, normalised path: a root
  followed by names that are non-empty, contain no slash and are neither \<^verbatim>\<open>.\<close> nor \<^verbatim>\<open>..\<close>; and
  resolving the printed result again changes nothing.
\<close>

theorem resolve_path_against_base_absolute:
  assumes "absolute_path base" and "\<And>home. home_dir = Some home \<Longrightarrow> absolute_path home"
  shows "absolute_path (resolve_path_against_base home_dir p base)
    \<and> resolve_path_against_base home_dir
         (display (resolve_path_against_base home_dir p base)) base'
       = resolve_path_against_base home_dir p base"
proof -
  have abs: "absolute_path (resolve_path_against_base home_dir p base)"
    using assms by (intro resolve_path_absolute) (simp add: env_ok_def)
  have "resolve_path_against_base home_dir (display q) base' = q" if q: "absolute_path q" for q
  proof -
    from q obtain cs where "q = RootDir # cs" by (cases q) (auto simp: absolute_path_def)
    then have "strip_prefix (display q) (lit ''~'') = None" by (simp add: strip_prefix_def)
    then have "maybe_expand_home_directory home_dir (display q) = q"
      using q by (simp add: maybe_expand_home_directory_def components_display split: option.splits)
    then show ?thesis
      using q by (simp add: resolve_path_against_base_def absolutize_from_def path_with_base_def
          absolute_path_is_absolute normalize_path_id)
  qed
  with abs show ?thesis by blast
qed

theorem resolve_path_against_base_absolute_witness:
  "resolve_path_against_base (Some [RootDir, Normal (lit ''h'')]) (lit ''../x//./y'')
     [RootDir, Normal (lit ''w'')] = [RootDir, Normal (lit ''x''), Normal (lit ''y'')]
   \<and> absolute_path [RootDir, Normal (lit ''x''), Normal (lit ''y'')]"
proof -
  let ?h = "Some [RootDir, Normal (lit ''h'')]" and ?b = "[RootDir, Normal (lit ''w'')]"
  have e: "resolve_path_against_base ?h (lit ''../x//./y'') ?b
      = [RootDir, Normal (lit ''x''), Normal (lit ''y'')]" by code_simp
  have b: "absolute_path ?b" by (simp add: absolute_path_def name_ok_def dot_def dotdot_def)
  have h: "absolute_path home" if "?h = Some home" for home
    using that by (auto simp: absolute_path_def name_ok_def dot_def dotdot_def)
  show ?thesis using resolve_path_against_base_absolute 
      [where home_dir = ?h and base = ?b and base' = ?b and p = "lit ''../x//./y''", OF b h] e by simp
qed

text \<open>
  a relative path with no \<^verbatim>\<open>..\<close> segment and no leading \<^verbatim>\<open>~\<close> stays below the directory it is
  resolved against.
\<close>

theorem resolve_path_against_base_contained:
  assumes "absolute_path base" and "\<not> is_absolute (components p)"
    and "ParentDir \<notin> set (components p)" and "\<not> prefix (lit ''~'') p"
  shows "\<exists>names. resolve_path_against_base home_dir p base = base @ map Normal names"
proof -
  let ?cs = "components p"
  let ?rel = "if ?cs \<noteq> [] \<and> hd ?cs = CurDir then tl ?cs else ?cs"
  have ex: "maybe_expand_home_directory home_dir p = ?cs"
    using assms(4) by (simp add: maybe_expand_home_directory_def strip_prefix_def split: option.splits)
  have rel: "ParentDir \<notin> set ?rel" "RootDir \<notin> set ?rel"
    using assms(2,3) components_no_root [of p] by (auto dest: list.set_sel(2))
  have ne: "base \<noteq> []" using assms(1) by (auto simp: absolute_path_def)
  have "resolve_path_against_base home_dir p base = base @ filter (\<lambda>c. c \<noteq> CurDir) ?rel"
    unfolding resolve_path_against_base_def absolutize_from_def ex
      path_with_base_relative [OF assms(2,1)] normalize_path_append [OF assms(1)]
      normalize_loop_keeps [OF rel] using ne by (simp add: Let_def)
  moreover have "map Normal (map component_str (filter (\<lambda>c. c \<noteq> CurDir) ?rel)) = filter (\<lambda>c. c \<noteq> CurDir) ?rel"
  proof (rule map_component_str, rule ballI)
    fix c assume "c \<in> set (filter (\<lambda>c. c \<noteq> CurDir) ?rel)"
    with rel show "\<exists>n. c = Normal n" by (cases c) auto
  qed
  ultimately show ?thesis by metis
qed

theorem resolve_path_against_base_contained_witness:
  "\<exists>names. resolve_path_against_base None (lit ''./src//lib.rs'') [RootDir, Normal (lit ''w'')]
     = [RootDir, Normal (lit ''w'')] @ map Normal names"
proof (rule resolve_path_against_base_contained)
  show "absolute_path [RootDir, Normal (lit ''w'')]"
    by (simp add: absolute_path_def name_ok_def dot_def dotdot_def)
  show "\<not> is_absolute (components (lit ''./src//lib.rs''))" by code_simp
  show "ParentDir \<notin> set (components (lit ''./src//lib.rs''))" by code_simp
  show "\<not> prefix (lit ''~'') (lit ''./src//lib.rs'')" by simp
qed

end
