(* ===== verification/Utf8.thy ===== *)
theory Utf8
  imports Prelude "HOL-Library.Word"
begin

text \<open>
  UTF-8 as the Rust standard library implements it: the encoding behind \<^verbatim>\<open>String::into_bytes\<close> and
  \<^verbatim>\<open>str::len\<close>, and the validation of \<^verbatim>\<open>std::str::from_utf8\<close> with its error positions
  (\<^verbatim>\<open>valid_up_to\<close>, \<^verbatim>\<open>error_len\<close>). Bytes are 8-bit words; the decoder works on their unsigned values.
  The lemmas show that decoding inverts encoding, that only encodings are accepted, and how the
  decoder answers on a proper prefix of valid text, which is what streaming needs.
\<close>

type_synonym byte = "8 word"

section \<open>Encoding\<close>

definition is_scalar :: "uchar \<Rightarrow> bool" where
  "is_scalar c \<longleftrightarrow> 0 \<le> c \<and> c \<le> 0x10FFFF \<and> \<not> (0xD800 \<le> c \<and> c \<le> 0xDFFF)"

definition encode_char :: "uchar \<Rightarrow> int list" where
  "encode_char c =
     (if c < 0x80 then [c]
      else if c < 0x800 then [0xC0 + c div 64, 0x80 + c mod 64]
      else if c < 0x10000 then [0xE0 + c div 4096, 0x80 + c div 64 mod 64, 0x80 + c mod 64]
      else [0xF0 + c div 262144, 0x80 + c div 4096 mod 64, 0x80 + c div 64 mod 64, 0x80 + c mod 64])"

definition len_utf8 :: "uchar \<Rightarrow> nat" where
  "len_utf8 c = (if c < 0x80 then 1 else if c < 0x800 then 2 else if c < 0x10000 then 3 else 4)"

text \<open>\<^verbatim>\<open>str::len\<close>.\<close>

definition str_len :: "ustr \<Rightarrow> nat" where
  "str_len s = sum_list (map len_utf8 s)"

definition encode_ints :: "ustr \<Rightarrow> int list" where
  "encode_ints s = concat (map encode_char s)"

definition into_bytes :: "ustr \<Rightarrow> byte list" where
  "into_bytes s = map of_int (encode_ints s)"

section \<open>Decoding\<close>

definition is_cont :: "int \<Rightarrow> bool" where
  "is_cont b \<longleftrightarrow> 0x80 \<le> b \<and> b \<le> 0xBF"

datatype decode_step = DChar uchar "int list" | DInvalid nat | DIncomplete

text \<open>One iteration of the validation loop at a non-empty input.\<close>

definition second_ok3 :: "int \<Rightarrow> int \<Rightarrow> bool" where
  "second_ok3 a b \<longleftrightarrow>
     (a = 0xE0 \<and> 0xA0 \<le> b \<and> b \<le> 0xBF) \<or> (0xE1 \<le> a \<and> a \<le> 0xEC \<and> is_cont b)
     \<or> (a = 0xED \<and> 0x80 \<le> b \<and> b \<le> 0x9F) \<or> (0xEE \<le> a \<and> a \<le> 0xEF \<and> is_cont b)"

definition second_ok4 :: "int \<Rightarrow> int \<Rightarrow> bool" where
  "second_ok4 a b \<longleftrightarrow>
     (a = 0xF0 \<and> 0x90 \<le> b \<and> b \<le> 0xBF) \<or> (0xF1 \<le> a \<and> a \<le> 0xF3 \<and> is_cont b)
     \<or> (a = 0xF4 \<and> 0x80 \<le> b \<and> b \<le> 0x8F)"

fun decode_first :: "int \<Rightarrow> int list \<Rightarrow> decode_step" where
  "decode_first a bs =
     (if a < 0x80 then DChar a bs
      else if 0xC2 \<le> a \<and> a \<le> 0xDF then
        (case bs of
           [] \<Rightarrow> DIncomplete
         | b # r \<Rightarrow> if \<not> is_cont b then DInvalid 1 else DChar ((a - 0xC0) * 64 + (b - 0x80)) r)
      else if 0xE0 \<le> a \<and> a \<le> 0xEF then
        (case bs of
           [] \<Rightarrow> DIncomplete
         | b # r \<Rightarrow> if \<not> second_ok3 a b then DInvalid 1 else
           (case r of
              [] \<Rightarrow> DIncomplete
            | c # r' \<Rightarrow> if \<not> is_cont c then DInvalid 2
                else DChar ((a - 0xE0) * 4096 + (b - 0x80) * 64 + (c - 0x80)) r'))
      else if 0xF0 \<le> a \<and> a \<le> 0xF4 then
        (case bs of
           [] \<Rightarrow> DIncomplete
         | b # r \<Rightarrow> if \<not> second_ok4 a b then DInvalid 1 else
           (case r of
              [] \<Rightarrow> DIncomplete
            | c # r' \<Rightarrow> if \<not> is_cont c then DInvalid 2 else
              (case r' of
                 [] \<Rightarrow> DIncomplete
               | d # r'' \<Rightarrow> if \<not> is_cont d then DInvalid 3
                   else DChar ((a - 0xF0) * 262144 + (b - 0x80) * 4096 + (c - 0x80) * 64 + (d - 0x80)) r'')))
      else DInvalid 1)"

declare decode_first.simps [simp del]

lemma decode_first_rest: "decode_first a bs = DChar c r \<Longrightarrow> length r \<le> length bs"
  by (auto simp: decode_first.simps split: if_splits list.splits)

text \<open>\<^verbatim>\<open>Utf8Error\<close>: \<^verbatim>\<open>valid_up_to\<close> and \<^verbatim>\<open>error_len\<close>.\<close>

record utf8_error =
  valid_up_to :: nat
  error_len :: "nat option"

function decode_ints :: "nat \<Rightarrow> int list \<Rightarrow> (utf8_error, ustr) result" where
  "decode_ints off [] = Ok []"
| "decode_ints off (a # bs) =
     (case decode_first a bs of
        DInvalid n \<Rightarrow> Err \<lparr>valid_up_to = off, error_len = Some n\<rparr>
      | DIncomplete \<Rightarrow> Err \<lparr>valid_up_to = off, error_len = None\<rparr>
      | DChar c r \<Rightarrow>
          (case decode_ints (off + (length (a # bs) - length r)) r of
             Err e \<Rightarrow> Err e
           | Ok cs \<Rightarrow> Ok (c # cs)))"
  by pat_completeness auto
termination
  by (relation "measure (\<lambda>(_, bs). length bs)") (auto simp: less_Suc_eq_le dest: decode_first_rest)

definition from_utf8 :: "byte list \<Rightarrow> (utf8_error, ustr) result" where
  "from_utf8 bs = decode_ints 0 (map uint bs)"

section \<open>Decoding inverts encoding\<close>

lemma length_encode_char [simp]: "length (encode_char c) = len_utf8 c"
  by (simp add: encode_char_def len_utf8_def)

lemma encode_char_nonempty [simp]: "encode_char c \<noteq> []"
  by (simp add: encode_char_def)

lemma len_utf8_pos [simp]: "0 < len_utf8 c"
  by (simp add: len_utf8_def)

lemma encode_char_range: "is_scalar c \<Longrightarrow> b \<in> set (encode_char c) \<Longrightarrow> 0 \<le> b \<and> b < 256"
  by (auto simp: encode_char_def is_scalar_def split: if_splits)

text \<open>A scalar value as digits in base 64.\<close>

lemma base64_digits:
  fixes c :: int
  obtains d0 d1 d2 d3 where
    "c mod 64 = d0" "c div 64 mod 64 = d1" "c div 4096 mod 64 = d2" "c div 262144 = d3"
    "c div 4096 = d3 * 64 + d2" "c div 64 = (d3 * 64 + d2) * 64 + d1"
    "c = ((d3 * 64 + d2) * 64 + d1) * 64 + d0"
    "0 \<le> d0" "d0 < 64" "0 \<le> d1" "d1 < 64" "0 \<le> d2" "d2 < 64"
proof -
  have q: "c div 4096 = c div 64 div 64" "c div 262144 = c div 64 div 64 div 64"
    by (simp_all add: zdiv_zmult2_eq [symmetric])
  have "c div 4096 = c div 262144 * 64 + c div 4096 mod 64"
    unfolding q by simp
  moreover have "c div 64 = c div 4096 * 64 + c div 64 mod 64"
    unfolding q by simp
  moreover have "c = c div 64 * 64 + c mod 64" by simp
  ultimately show thesis
    by (intro that [of "c mod 64" "c div 64 mod 64" "c div 4096 mod 64" "c div 262144"])
      (simp_all only: refl pos_mod_sign pos_mod_bound zero_less_numeral)
qed

lemma decode_encode_char:
  assumes "is_scalar c"
  shows "decode_first (hd (encode_char c)) (tl (encode_char c) @ r) = DChar c r"
proof -
  obtain d0 d1 d2 d3 where d: "c mod 64 = d0" "c div 64 mod 64 = d1" "c div 4096 mod 64 = d2"
      "c div 262144 = d3" "c div 4096 = d3 * 64 + d2" "c div 64 = (d3 * 64 + d2) * 64 + d1"
      and c: "c = ((d3 * 64 + d2) * 64 + d1) * 64 + d0"
      and r: "0 \<le> d0" "d0 < 64" "0 \<le> d1" "d1 < 64" "0 \<le> d2" "d2 < 64"
    by (rule base64_digits)
  consider "c < 0x80" | "0x80 \<le> c" "c < 0x800" | "0x800 \<le> c" "c < 0x10000" | "0x10000 \<le> c"
    by linarith
  then show ?thesis
  proof cases
    case 1
    then show ?thesis by (simp add: encode_char_def decode_first.simps)
  next
    case 2
    then have d3: "d3 = 0" using c r by auto
    with 2 c r have d2: "d2 = 0" by auto
    with 2 d3 c r have "2 \<le> d1" "d1 < 32" by auto
    moreover have "encode_char c = [0xC0 + d1, 0x80 + d0]"
      using 2 d3 d2 r by (simp add: encode_char_def d)
    ultimately show ?thesis
      using r d3 d2 by (simp add: decode_first.simps is_cont_def c)
  next
    case 3
    then have d3: "d3 = 0" using c r by auto
    with 3 c r have "d2 < 16" by auto
    have "second_ok3 (0xE0 + d2) (0x80 + d1)"
      using 3 assms r d3 c unfolding second_ok3_def is_cont_def is_scalar_def by auto
    moreover have "encode_char c = [0xE0 + d2, 0x80 + d1, 0x80 + d0]"
      using 3 d3 r by (simp add: encode_char_def d)
    ultimately show ?thesis
      using r d3 \<open>d2 < 16\<close> by (simp add: decode_first.simps is_cont_def c)
  next
    case 4
    then have d3: "0 \<le> d3" "d3 \<le> 4" using assms c r unfolding is_scalar_def by auto
    have "second_ok4 (0xF0 + d3) (0x80 + d2)"
      using 4 assms r d3 c unfolding second_ok4_def is_cont_def is_scalar_def by auto
    moreover have "encode_char c = [0xF0 + d3, 0x80 + d2, 0x80 + d1, 0x80 + d0]"
      using 4 r by (simp add: encode_char_def d(1-4))
    ultimately show ?thesis
      using r d3 by (simp add: decode_first.simps is_cont_def c)
  qed
qed

text \<open>Cutting a sequence short leaves it incomplete, never invalid.\<close>

lemma decode_first_cut:
  assumes "decode_first a (ys @ zs) = DChar c r" and "length r < length zs"
  shows "decode_first a ys = DIncomplete"
  using assms
  by (auto simp: decode_first.simps Cons_eq_append_conv split: if_splits list.splits)

lemma decode_first_append:
  assumes "decode_first a bs = DChar c r"
  shows "decode_first a (bs @ r') = DChar c (r @ r')"
  using assms by (auto simp: decode_first.simps split: if_splits list.splits)

text \<open>Only encodings of scalar values are accepted.\<close>

lemma digits_div_mod:
  fixes x y :: int
  assumes "0 \<le> y" "y < 64"
  shows "(x * 64 + y) div 64 = x" "(x * 64 + y) mod 64 = y"
  using assms by auto

lemma digits_div:
  fixes x y z w :: int
  assumes "0 \<le> y" "y < 64" "0 \<le> z" "z < 64" "0 \<le> w" "w < 64"
  shows "((x * 64 + y) * 64 + z) div 4096 = x"
    "(((x * 64 + y) * 64 + z) * 64 + w) div 4096 = x * 64 + y"
    "(((x * 64 + y) * 64 + z) * 64 + w) div 262144 = x"
proof -
  have q: "c div 4096 = c div 64 div 64" "c div 262144 = c div 64 div 64 div 64" for c :: int
    by (simp_all add: zdiv_zmult2_eq [symmetric])
  show "((x * 64 + y) * 64 + z) div 4096 = x"
    "(((x * 64 + y) * 64 + z) * 64 + w) div 4096 = x * 64 + y"
    "(((x * 64 + y) * 64 + z) * 64 + w) div 262144 = x"
    unfolding q using assms by (simp_all only: digits_div_mod)
qed

lemma cont_range: "is_cont b \<Longrightarrow> 0 \<le> b - 0x80" "is_cont b \<Longrightarrow> b - 0x80 < 64"
  by (auto simp: is_cont_def)

lemma encode2:
  assumes "0xC2 \<le> a" "a \<le> 0xDF" "is_cont b"
  shows "encode_char ((a - 0xC0) * 64 + (b - 0x80)) = [a, b]"
    and "is_scalar ((a - 0xC0) * 64 + (b - 0x80))"
proof -
  have "((a - 0xC0) * 64 + (b - 0x80)) div 64 = a - 0xC0" "((a - 0xC0) * 64 + (b - 0x80)) mod 64 = b - 0x80"
    by (rule digits_div_mod [OF cont_range [OF assms(3)]])+
  then show "encode_char ((a - 0xC0) * 64 + (b - 0x80)) = [a, b]"
    using assms by (simp add: encode_char_def is_cont_def)
  show "is_scalar ((a - 0xC0) * 64 + (b - 0x80))"
    using assms by (auto simp: is_scalar_def is_cont_def)
qed

lemma encode3:
  assumes "0xE0 \<le> a" "a \<le> 0xEF" "second_ok3 a b" "is_cont c"
  defines "x \<equiv> (a - 0xE0) * 4096 + (b - 0x80) * 64 + (c - 0x80)"
  shows "encode_char x = [a, b, c]" and "is_scalar x"
proof -
  have b: "is_cont b" using assms(3) by (auto simp: second_ok3_def is_cont_def)
  have x: "x = ((a - 0xE0) * 64 + (b - 0x80)) * 64 + (c - 0x80)" by (simp add: x_def)
  have f: "x mod 64 = c - 0x80" "x div 4096 = a - 0xE0" "x div 64 mod 64 = b - 0x80"
    unfolding x using cont_range [OF b] cont_range [OF assms(4)] by (simp_all only: digits_div_mod digits_div)
  have "0x800 \<le> x" "x < 0x10000"
    using assms(1-4) unfolding x_def second_ok3_def is_cont_def by auto
  then show "encode_char x = [a, b, c]" unfolding encode_char_def f by simp
  show "is_scalar x"
    using assms(1-4) unfolding x_def second_ok3_def is_cont_def is_scalar_def by auto
qed

lemma four_digit_bounds:
  fixes A B C D :: int
  shows "0 \<le> A \<Longrightarrow> 0 \<le> B \<Longrightarrow> 0 \<le> C \<Longrightarrow> 0 \<le> D \<Longrightarrow> 16 \<le> B \<Longrightarrow>
      0x10000 \<le> A * 262144 + B * 4096 + C * 64 + D"
    and "0 \<le> A \<Longrightarrow> 0 \<le> B \<Longrightarrow> 0 \<le> C \<Longrightarrow> 0 \<le> D \<Longrightarrow> 1 \<le> A \<Longrightarrow>
      0x10000 \<le> A * 262144 + B * 4096 + C * 64 + D"
    and "A \<le> 3 \<Longrightarrow> B \<le> 63 \<Longrightarrow> C \<le> 63 \<Longrightarrow> D \<le> 63 \<Longrightarrow>
      A * 262144 + B * 4096 + C * 64 + D \<le> 0x10FFFF"
    and "A \<le> 4 \<Longrightarrow> B \<le> 15 \<Longrightarrow> C \<le> 63 \<Longrightarrow> D \<le> 63 \<Longrightarrow>
      A * 262144 + B * 4096 + C * 64 + D \<le> 0x10FFFF"
  by linarith+

lemma encode4:
  assumes "0xF0 \<le> a" "a \<le> 0xF4" "second_ok4 a b" "is_cont c" "is_cont d"
  defines "x \<equiv> (a - 0xF0) * 262144 + (b - 0x80) * 4096 + (c - 0x80) * 64 + (d - 0x80)"
  shows "encode_char x = [a, b, c, d]" and "is_scalar x"
proof -
  have b: "is_cont b" using assms(3) by (auto simp: second_ok4_def is_cont_def)
  have x: "x = (((a - 0xF0) * 64 + (b - 0x80)) * 64 + (c - 0x80)) * 64 + (d - 0x80)" by (simp add: x_def)
  have f: "x mod 64 = d - 0x80" "x div 262144 = a - 0xF0" "x div 4096 mod 64 = b - 0x80"
    "x div 64 mod 64 = c - 0x80"
    unfolding x using cont_range [OF b] cont_range [OF assms(4)] cont_range [OF assms(5)]
    by (simp_all only: digits_div_mod digits_div)
  have lower: "0x10000 \<le> x"
  proof -
    consider "16 \<le> b - 0x80" | "1 \<le> a - 0xF0" using assms(3) by (fastforce simp: second_ok4_def)
    then show ?thesis
      using assms(1) cont_range(1) [OF b] cont_range(1) [OF assms(4)] cont_range(1) [OF assms(5)]
      unfolding x_def by cases (rule four_digit_bounds(1,2); simp)+
  qed
  then show "encode_char x = [a, b, c, d]" unfolding encode_char_def f by simp
  consider "a - 0xF0 \<le> 3" | "a - 0xF0 \<le> 4" "b - 0x80 \<le> 15"
    using assms(3) by (fastforce simp: second_ok4_def)
  then have "x \<le> 0x10FFFF"
    using b assms(4,5) unfolding x_def
    by cases (rule four_digit_bounds(3,4); simp add: is_cont_def)+
  with lower show "is_scalar x" by (simp add: is_scalar_def)
qed

lemma decode_first_sound:
  assumes "decode_first a bs = DChar c r" and "0 \<le> a"
  shows "a # bs = encode_char c @ r \<and> is_scalar c"
proof -
  consider (1) "a < 0x80" "c = a" "r = bs"
    | (2) b where "0xC2 \<le> a" "a \<le> 0xDF" "is_cont b" "bs = b # r" "c = (a - 0xC0) * 64 + (b - 0x80)"
    | (3) b d where "0xE0 \<le> a" "a \<le> 0xEF" "second_ok3 a b" "is_cont d" "bs = b # d # r"
        "c = (a - 0xE0) * 4096 + (b - 0x80) * 64 + (d - 0x80)"
    | (4) b d e where "0xF0 \<le> a" "a \<le> 0xF4" "second_ok4 a b" "is_cont d" "is_cont e" "bs = b # d # e # r"
        "c = (a - 0xF0) * 262144 + (b - 0x80) * 4096 + (d - 0x80) * 64 + (e - 0x80)"
    using assms(1) by (simp add: decode_first.simps split: if_splits list.splits)
  then show ?thesis
  proof cases
    case 1
    with assms(2) show ?thesis by (simp add: encode_char_def is_scalar_def)
  next
    case (2 b)
    from encode2 [OF 2(1-3)] 2(4,5) show ?thesis by simp
  next
    case (3 b d)
    from encode3 [OF 3(1-4)] 3(5,6) show ?thesis by simp
  next
    case (4 b d e)
    from encode4 [OF 4(1-5)] 4(6,7) show ?thesis by simp
  qed
qed

section \<open>Whole strings\<close>

abbreviation valid_str :: "ustr \<Rightarrow> bool" where "valid_str \<equiv> list_all is_scalar"

lemma encode_ints_simps [simp]:
  "encode_ints [] = []"
  "encode_ints (c # s) = encode_char c @ encode_ints s"
  "encode_ints (s @ t) = encode_ints s @ encode_ints t"
  by (simp_all add: encode_ints_def)

lemma str_len_simps [simp]:
  "str_len [] = 0" "str_len (c # s) = len_utf8 c + str_len s" "str_len (s @ t) = str_len s + str_len t"
  by (simp_all add: str_len_def)

lemma length_encode_ints [simp]: "length (encode_ints s) = str_len s"
  by (induction s) auto

lemma into_bytes_simps [simp]:
  "into_bytes [] = []" "into_bytes (s @ t) = into_bytes s @ into_bytes t"
  "length (into_bytes s) = str_len s"
  by (simp_all add: into_bytes_def)

text \<open>After the encoding of a string the decoder continues with the rest.\<close>

lemma decode_ints_encode:
  "valid_str s \<Longrightarrow>
   decode_ints off (encode_ints s @ bs) =
     (case decode_ints (off + str_len s) bs of Err e \<Rightarrow> Err e | Ok cs \<Rightarrow> Ok (s @ cs))"
proof (induction s arbitrary: off)
  case (Cons c s)
  obtain a as where e: "encode_char c = a # as" by (cases "encode_char c") auto
  have "decode_first a (as @ encode_ints s @ bs) = DChar c (encode_ints s @ bs)"
    using decode_encode_char [of c "encode_ints s @ bs"] Cons.prems e by simp
  moreover have "length as + 1 = len_utf8 c" using arg_cong [OF e, of length] by simp
  ultimately show ?case using Cons by (simp add: e add.assoc split: result.splits)
qed (simp split: result.splits)

lemma decode_ints_Ok:
  "decode_ints off bs = Ok s \<Longrightarrow> \<forall>b\<in>set bs. 0 \<le> b \<Longrightarrow> bs = encode_ints s \<and> valid_str s"
proof (induction off bs arbitrary: s rule: decode_ints.induct)
  case (2 off a bs)
  from 2(2) obtain c r cs where d: "decode_first a bs = DChar c r" "s = c # cs"
      "decode_ints (off + (length (a # bs) - length r)) r = Ok cs"
    by (auto split: decode_step.splits result.splits)
  have sound: "a # bs = encode_char c @ r" "is_scalar c"
    using decode_first_sound [OF d(1)] 2(3) by auto
  then have "\<forall>b\<in>set r. 0 \<le> b" using 2(3) by (metis Un_iff set_append)
  with 2(1) [OF d(1,3)] d(2) sound show ?case by simp
qed auto

lemma uint_of_int_byte: "0 \<le> b \<Longrightarrow> b < 256 \<Longrightarrow> uint (of_int b :: byte) = b"
  by (simp add: unsigned_of_int take_bit_int_eq_self)

lemma map_uint_into_bytes: "valid_str s \<Longrightarrow> map uint (into_bytes s) = encode_ints s"
  by (induction s) (auto simp: into_bytes_def comp_def encode_char_range intro!: map_idI uint_of_int_byte)

lemma from_utf8_append:
  "valid_str s \<Longrightarrow>
   from_utf8 (into_bytes s @ bs) =
     (case decode_ints (str_len s) (map uint bs) of Err e \<Rightarrow> Err e | Ok cs \<Rightarrow> Ok (s @ cs))"
  by (simp add: from_utf8_def map_uint_into_bytes decode_ints_encode)

lemma from_utf8_into_bytes [simp]: "valid_str s \<Longrightarrow> from_utf8 (into_bytes s) = Ok s"
  using from_utf8_append [of s "[]"] by simp

lemma from_utf8_Ok: "from_utf8 bs = Ok s \<Longrightarrow> bs = into_bytes s \<and> valid_str s"
proof -
  assume "from_utf8 bs = Ok s"
  then have "map uint bs = encode_ints s" "valid_str s"
    using decode_ints_Ok [of 0 "map uint bs" s] by (auto simp: from_utf8_def)
  then show ?thesis
    by (metis (no_types, lifting) into_bytes_def map_map map_idI comp_apply word_of_int_uint)
qed

end
