(* ===== verification/File_System.thy ===== *)
theory File_System
  imports Paths Utf8 "HOL-Library.AList"
begin

text \<open>
  The file system interface and its local implementation. \<^verbatim>\<open>trait ExecutorFileSystem\<close>
  (\<^verbatim>\<open>src/file-system/src/lib.rs\<close>) is the record \<open>executor_file_system\<close> of its operations over a
  state; the locale \<open>executor_fs\<close> states what its clients rely on, through a view of the state as
  a map from paths to nodes. \<^verbatim>\<open>LocalFileSystem\<close> (\<^verbatim>\<open>src/exec-server/src/local_file_system.rs\<close>) is modelled over
  a disk of directories and regular files with the errors of the \<^verbatim>\<open>std::fs\<close> calls it makes on
  Unix; symbolic links, permissions and time stamps are outside the model of the disk.
\<close>

section \<open>The interface\<close>

record file_metadata =
  is_directory :: bool
  is_file :: bool

record read_directory_entry =
  entry_file_name :: ustr
  entry_is_directory :: bool
  entry_is_file :: bool

record remove_options =
  opt_recursive :: bool
  opt_force :: bool

text \<open>
  The methods of the trait; a method that may change the file system returns the state after it,
  also when it fails.
\<close>

record 's executor_file_system =
  read_file :: "path \<Rightarrow> 's \<Rightarrow> (io_error, byte list) result"
  write_file :: "path \<Rightarrow> byte list \<Rightarrow> 's \<Rightarrow> (io_error, unit) result \<times> 's"
  create_directory :: "path \<Rightarrow> bool \<Rightarrow> 's \<Rightarrow> (io_error, unit) result \<times> 's"
  get_metadata :: "path \<Rightarrow> 's \<Rightarrow> (io_error, file_metadata) result"
  read_directory :: "path \<Rightarrow> 's \<Rightarrow> (io_error, read_directory_entry list) result"
  remove_path :: "path \<Rightarrow> remove_options \<Rightarrow> 's \<Rightarrow> (io_error, unit) result \<times> 's"

text \<open>The text of a \<^verbatim>\<open>Utf8Error\<close>.\<close>

definition utf8_error_message :: "utf8_error \<Rightarrow> ustr" where
  "utf8_error_message e =
     (case error_len e of
        Some n \<Rightarrow> lit ''invalid utf-8 sequence of '' @ to_decimal n @ lit '' bytes from index ''
                  @ to_decimal (valid_up_to e)
      | None \<Rightarrow> lit ''incomplete utf-8 byte sequence from index '' @ to_decimal (valid_up_to e))"

definition read_file_text :: "'s executor_file_system \<Rightarrow> path \<Rightarrow> 's \<Rightarrow> (io_error, ustr) result" where
  "read_file_text fs p s =
     (case read_file fs p s of
        Err e \<Rightarrow> Err e
      | Ok bytes \<Rightarrow>
          (case from_utf8 bytes of
             Err e \<Rightarrow> Err \<lparr>err_kind = InvalidData, err_message = utf8_error_message e\<rparr>
           | Ok text \<Rightarrow> Ok text))"

section \<open>The disk and the calls of the standard library\<close>

datatype node = Dir | File "byte list"

type_synonym disk = "(path \<times> node) list"

definition lookup :: "disk \<Rightarrow> path \<Rightarrow> node option" where
  "lookup d p = (if p = [RootDir] then Some Dir else map_of d p)"

text \<open>An error returned by the operating system, with its message on Linux.\<close>

fun os_error :: "io_error_kind \<Rightarrow> io_error" where
  "os_error NotFound = \<lparr>err_kind = NotFound, err_message = lit ''No such file or directory (os error 2)''\<rparr>"
| "os_error ResourceBusy = \<lparr>err_kind = ResourceBusy, err_message = lit ''Device or resource busy (os error 16)''\<rparr>"
| "os_error AlreadyExists = \<lparr>err_kind = AlreadyExists, err_message = lit ''File exists (os error 17)''\<rparr>"
| "os_error NotADirectory = \<lparr>err_kind = NotADirectory, err_message = lit ''Not a directory (os error 20)''\<rparr>"
| "os_error IsADirectory = \<lparr>err_kind = IsADirectory, err_message = lit ''Is a directory (os error 21)''\<rparr>"
| "os_error DirectoryNotEmpty = \<lparr>err_kind = DirectoryNotEmpty, err_message = lit ''Directory not empty (os error 39)''\<rparr>"
| "os_error k = \<lparr>err_kind = k, err_message = []\<rparr>"

text \<open>Every proper ancestor of a path must be a directory before the path itself is looked at.\<close>

definition proper_ancestors :: "path \<Rightarrow> path list" where
  "proper_ancestors p = map (\<lambda>k. take k p) [1..<length p]"

definition walk :: "disk \<Rightarrow> path \<Rightarrow> (io_error, node option) result" where
  "walk d p =
     (case find (\<lambda>q. lookup d q \<noteq> Some Dir) (proper_ancestors p) of
        None \<Rightarrow> Ok (lookup d p)
      | Some q \<Rightarrow> Err (os_error (if lookup d q = None then NotFound else NotADirectory)))"

definition std_metadata :: "disk \<Rightarrow> path \<Rightarrow> (io_error, node) result" where
  "std_metadata d p =
     (case walk d p of
        Err e \<Rightarrow> Err e
      | Ok None \<Rightarrow> Err (os_error NotFound)
      | Ok (Some n) \<Rightarrow> Ok n)"

definition std_read :: "disk \<Rightarrow> path \<Rightarrow> (io_error, byte list) result" where
  "std_read d p =
     (case std_metadata d p of
        Err e \<Rightarrow> Err e
      | Ok Dir \<Rightarrow> Err (os_error IsADirectory)
      | Ok (File bytes) \<Rightarrow> Ok bytes)"

definition std_write :: "path \<Rightarrow> byte list \<Rightarrow> disk \<Rightarrow> (io_error, unit) result \<times> disk" where
  "std_write p bytes d =
     (case walk d p of
        Err e \<Rightarrow> (Err e, d)
      | Ok (Some Dir) \<Rightarrow> (Err (os_error IsADirectory), d)
      | Ok _ \<Rightarrow> (Ok (), AList.update p (File bytes) d))"

definition std_mkdir :: "path \<Rightarrow> disk \<Rightarrow> (io_error, unit) result \<times> disk" where
  "std_mkdir p d =
     (case walk d p of
        Err e \<Rightarrow> (Err e, d)
      | Ok (Some _) \<Rightarrow> (Err (os_error AlreadyExists), d)
      | Ok None \<Rightarrow> (Ok (), AList.update p Dir d))"

definition is_dir :: "disk \<Rightarrow> path \<Rightarrow> bool" where
  "is_dir d p \<longleftrightarrow> std_metadata d p = Ok Dir"

text \<open>\<^verbatim>\<open>std::fs::create_dir_all\<close>: try, create the parents on \<^verbatim>\<open>NotFound\<close>, try again.\<close>

function std_create_dir_all :: "path \<Rightarrow> disk \<Rightarrow> (io_error, unit) result \<times> disk" where
  "std_create_dir_all p d =
     (if p = [] then (Ok (), d)
      else case std_mkdir p d of
        (Ok _, d') \<Rightarrow> (Ok (), d')
      | (Err e, d') \<Rightarrow>
          if err_kind e = NotFound then
            (case path_parent p of
               None \<Rightarrow> (Err \<lparr>err_kind = OtherKind, err_message = lit ''failed to create whole tree''\<rparr>, d')
             | Some q \<Rightarrow>
                 (case std_create_dir_all q d' of
                    (Err e, d'') \<Rightarrow> (Err e, d'')
                  | (Ok _, d'') \<Rightarrow>
                      (case std_mkdir p d'' of
                         (Ok _, d3) \<Rightarrow> (Ok (), d3)
                       | (Err e, d3) \<Rightarrow> if is_dir d3 p then (Ok (), d3) else (Err e, d3))))
          else if is_dir d' p then (Ok (), d')
          else (Err e, d'))"
  by pat_completeness auto
termination
  by (relation "measure (\<lambda>(p, d). length p)") (auto simp: path_parent_def split: if_splits)

declare std_create_dir_all.simps [simp del]

definition std_remove_file :: "path \<Rightarrow> disk \<Rightarrow> (io_error, unit) result \<times> disk" where
  "std_remove_file p d =
     (case std_metadata d p of
        Err e \<Rightarrow> (Err e, d)
      | Ok Dir \<Rightarrow> (Err (os_error IsADirectory), d)
      | Ok (File _) \<Rightarrow> (Ok (), AList.delete p d))"

definition children :: "disk \<Rightarrow> path \<Rightarrow> path list" where
  "children d p = filter (\<lambda>q. butlast q = p) (remdups (map fst d))"

definition std_remove_dir :: "path \<Rightarrow> disk \<Rightarrow> (io_error, unit) result \<times> disk" where
  "std_remove_dir p d =
     (case std_metadata d p of
        Err e \<Rightarrow> (Err e, d)
      | Ok (File _) \<Rightarrow> (Err (os_error NotADirectory), d)
      | Ok Dir \<Rightarrow>
          if p = [RootDir] then (Err (os_error ResourceBusy), d)
          else if children d p \<noteq> [] then (Err (os_error DirectoryNotEmpty), d)
          else (Ok (), AList.delete p d))"

definition std_remove_dir_all :: "path \<Rightarrow> disk \<Rightarrow> (io_error, unit) result \<times> disk" where
  "std_remove_dir_all p d =
     (case std_metadata d p of
        Err e \<Rightarrow> (Err e, d)
      | Ok (File _) \<Rightarrow> (Err (os_error NotADirectory), d)
      | Ok Dir \<Rightarrow>
          (if p = [RootDir] then Err (os_error ResourceBusy) else Ok (),
           filter (\<lambda>(q, _). \<not> prefix p q) d))"

section \<open>The local file system\<close>

definition MAX_READ_FILE_BYTES :: int where
  "MAX_READ_FILE_BYTES = 512 * 1024 * 1024"

fun node_len :: "node \<Rightarrow> nat" where
  "node_len Dir = 0"
| "node_len (File bytes) = length bytes"

definition local_read_file :: "path \<Rightarrow> disk \<Rightarrow> (io_error, byte list) result" where
  "local_read_file p d =
     (case std_metadata d p of
        Err e \<Rightarrow> Err e
      | Ok n \<Rightarrow>
          if int (node_len n) > MAX_READ_FILE_BYTES then
            Err \<lparr>err_kind = InvalidInput,
                 err_message = lit ''file is too large to read: limit is 536870912 bytes''\<rparr>
          else std_read d p)"

definition local_create_directory :: "path \<Rightarrow> bool \<Rightarrow> disk \<Rightarrow> (io_error, unit) result \<times> disk" where
  "local_create_directory p recursive d =
     (if recursive then std_create_dir_all p d else std_mkdir p d)"

definition local_get_metadata :: "path \<Rightarrow> disk \<Rightarrow> (io_error, file_metadata) result" where
  "local_get_metadata p d =
     (case std_metadata d p of
        Err e \<Rightarrow> Err e
      | Ok n \<Rightarrow> Ok \<lparr>is_directory = (n = Dir), is_file = (n \<noteq> Dir)\<rparr>)"

definition local_read_directory :: "path \<Rightarrow> disk \<Rightarrow> (io_error, read_directory_entry list) result" where
  "local_read_directory p d =
     (case std_metadata d p of
        Err e \<Rightarrow> Err e
      | Ok (File _) \<Rightarrow> Err (os_error NotADirectory)
      | Ok Dir \<Rightarrow> Ok (map (\<lambda>q. \<lparr>entry_file_name = component_str (last q),
                              entry_is_directory = (lookup d q = Some Dir),
                              entry_is_file = (lookup d q \<noteq> Some Dir)\<rparr>) (children d p)))"

definition local_remove :: "path \<Rightarrow> remove_options \<Rightarrow> disk \<Rightarrow> (io_error, unit) result \<times> disk" where
  "local_remove p options d =
     (case std_metadata d p of
        Ok n \<Rightarrow>
          if n = Dir then
            (if opt_recursive options then std_remove_dir_all p d else std_remove_dir p d)
          else std_remove_file p d
      | Err e \<Rightarrow>
          if err_kind e = NotFound \<and> opt_force options then (Ok (), d) else (Err e, d))"

definition LocalFileSystem :: "disk executor_file_system" where
  "LocalFileSystem =
     \<lparr>read_file = local_read_file, write_file = std_write, create_directory = local_create_directory,
      get_metadata = local_get_metadata, read_directory = local_read_directory,
      remove_path = local_remove\<rparr>"

section \<open>Well-formed disks\<close>

text \<open>Every entry has an absolute path and sits in a directory.\<close>

definition wf_disk :: "disk \<Rightarrow> bool" where
  "wf_disk d \<longleftrightarrow>
     (\<forall>p\<in>fst ` set d. p \<noteq> [RootDir] \<and> absolute_path p \<and> lookup d (butlast p) = Some Dir)"

lemma lookup_root [simp]: "lookup d [RootDir] = Some Dir"
  by (simp add: lookup_def)

lemma lookup_update [simp]:
  "p \<noteq> [RootDir] \<Longrightarrow> lookup (AList.update p n d) = (lookup d)(p \<mapsto> n)"
  by (auto simp: lookup_def AList.update_conv')

lemma lookup_delete [simp]:
  "p \<noteq> [RootDir] \<Longrightarrow> lookup (AList.delete p d) = (lookup d)(p := None)"
  by (auto simp: lookup_def AList.delete_conv')

lemma lookup_filter_prefix:
  "lookup (filter (\<lambda>(q, _). \<not> prefix p q) d) q =
     (if prefix p q \<and> q \<noteq> [RootDir] then None else lookup d q)"
proof -
  have "map_of (filter (\<lambda>(q, _). \<not> prefix p q) d) q = (if prefix p q then None else map_of d q)"
    by (induction d) auto
  then show ?thesis by (auto simp: lookup_def)
qed

lemma lookup_entry: "lookup d p = Some n \<Longrightarrow> p \<noteq> [RootDir] \<Longrightarrow> p \<in> fst ` set d"
  by (auto simp: lookup_def dest: map_of_SomeD intro: rev_image_eqI)

lemma wf_disk_parent:
  "wf_disk d \<Longrightarrow> lookup d p = Some n \<Longrightarrow> p \<noteq> [RootDir] \<Longrightarrow> lookup d (butlast p) = Some Dir"
  by (auto simp: wf_disk_def dest!: lookup_entry)

lemma absolute_path_butlast:
  "absolute_path p \<Longrightarrow> p \<noteq> [RootDir] \<Longrightarrow> absolute_path (butlast p) \<and> length p > 1"
  by (cases p rule: rev_cases) (auto simp: absolute_path_snoc intro: Nat.gr0I)

lemma take_butlast_suffix: "0 < k \<Longrightarrow> k < length p \<Longrightarrow> take k p = take k (butlast p)"
  by (simp add: take_butlast)

text \<open>Below an existing directory every ancestor is a directory.\<close>

lemma ancestors_are_dirs:
  "wf_disk d \<Longrightarrow> absolute_path p \<Longrightarrow> lookup d p = Some Dir \<Longrightarrow> 0 < k \<Longrightarrow> k \<le> length p \<Longrightarrow>
   lookup d (take k p) = Some Dir"
proof (induction p rule: rev_induct)
  case (snoc c p)
  show ?case
  proof (cases "k = length (p @ [c])")
    case False
    with snoc.prems have k: "k \<le> length p" by simp
    then have ne: "p @ [c] \<noteq> [RootDir]" using snoc.prems by auto
    then have "lookup d p = Some Dir"
      using wf_disk_parent [OF snoc.prems(1,3)] by simp
    moreover have "absolute_path p" using absolute_path_butlast [OF snoc.prems(2) ne] by simp
    ultimately show ?thesis using snoc k by simp
  qed (use snoc in simp)
qed simp

lemma proper_ancestors_dirs:
  assumes "wf_disk d" and "absolute_path p"
  shows "(\<forall>q\<in>set (proper_ancestors p). lookup d q = Some Dir) \<longleftrightarrow> p = [RootDir] \<or> lookup d (butlast p) = Some Dir"
proof (cases "p = [RootDir]")
  case False
  note b = absolute_path_butlast [OF assms(2) False]
  have "butlast p \<in> set (proper_ancestors p)"
    using b by (auto simp: proper_ancestors_def butlast_conv_take intro!: image_eqI [of _ _ "length p - 1"])
  moreover have "lookup d q = Some Dir" if "lookup d (butlast p) = Some Dir" "q \<in> set (proper_ancestors p)" for q
  proof -
    from that(2) obtain k where k: "q = take k p" "0 < k" "k < length p"
      by (auto simp: proper_ancestors_def)
    then have "q = take k (butlast p)" by (simp add: take_butlast)
    then show ?thesis using ancestors_are_dirs [OF assms(1) _ that(1)] b k by simp
  qed
  ultimately show ?thesis using False by blast
qed (simp add: proper_ancestors_def)

lemma walk_Ok:
  assumes "wf_disk d" and "absolute_path p"
  shows "walk d p = Ok n \<longleftrightarrow> (p = [RootDir] \<or> lookup d (butlast p) = Some Dir) \<and> n = lookup d p"
proof -
  have "(find (\<lambda>q. lookup d q \<noteq> Some Dir) (proper_ancestors p) = None) \<longleftrightarrow>
      (p = [RootDir] \<or> lookup d (butlast p) = Some Dir)"
    using proper_ancestors_dirs [OF assms] by (auto simp: find_None_iff)
  then show ?thesis by (auto simp: walk_def split: option.splits)
qed

lemma std_metadata_Ok:
  assumes "wf_disk d" and "absolute_path p"
  shows "std_metadata d p = Ok n \<longleftrightarrow> lookup d p = Some n"
proof -
  have "std_metadata d p = Ok n \<longleftrightarrow> walk d p = Ok (Some n)"
    by (auto simp: std_metadata_def split: result.splits option.splits)
  then show ?thesis
    using assms wf_disk_parent [OF assms(1), of p n] by (auto simp: walk_Ok)
qed

subsection \<open>Every operation keeps the disk well-formed\<close>

lemma wf_disk_update:
  assumes "wf_disk d" and "absolute_path p" and "p \<noteq> [RootDir]" and "lookup d (butlast p) = Some Dir"
    and "lookup d p = Some Dir \<Longrightarrow> n = Dir"
  shows "wf_disk (AList.update p n d)"
  unfolding wf_disk_def
proof (intro ballI)
  fix q assume "q \<in> fst ` set (AList.update p n d)"
  then have q: "q = p \<or> q \<in> fst ` set d"
    by (simp add: AList.dom_update)
  have "butlast p \<noteq> p" using absolute_path_butlast [OF assms(2,3)] by (auto dest: arg_cong [of _ _ length])
  with q assms show "q \<noteq> [RootDir] \<and> absolute_path q \<and> lookup (AList.update p n d) (butlast q) = Some Dir"
    by (auto simp: wf_disk_def)
qed

lemma wf_disk_delete:
  assumes "wf_disk d" and "p \<noteq> [RootDir]" and "\<forall>q\<in>fst ` set d. butlast q \<noteq> p"
  shows "wf_disk (AList.delete p d)"
  unfolding wf_disk_def
proof
  fix q assume "q \<in> fst ` set (AList.delete p d)"
  then have "q \<in> fst ` set d" by (auto simp: AList.delete_eq)
  with assms show "q \<noteq> [RootDir] \<and> absolute_path q \<and> lookup (AList.delete p d) (butlast q) = Some Dir"
    by (auto simp: wf_disk_def)
qed

lemma std_write_cases:
  assumes "wf_disk d" and "absolute_path p"
  shows "std_write p bytes d = (r, d') \<Longrightarrow>
    (r = Ok () \<and> p \<noteq> [RootDir] \<and> d' = AList.update p (File bytes) d \<and> wf_disk d') \<or>
    ((\<exists>e. r = Err e) \<and> d' = d)"
  using assms wf_disk_update [OF assms, of "File bytes"]
  by (cases "p = [RootDir]") (auto simp: std_write_def walk_Ok split: result.splits option.splits node.splits)

lemma std_mkdir_cases:
  assumes "wf_disk d" and "absolute_path p"
  shows "std_mkdir p d = (r, d') \<Longrightarrow>
    (r = Ok () \<and> p \<noteq> [RootDir] \<and> lookup d p = None \<and> d' = AList.update p Dir d \<and> wf_disk d') \<or>
    ((\<exists>e. r = Err e) \<and> d' = d)"
  using assms wf_disk_update [OF assms, of Dir]
  by (cases "p = [RootDir]") (auto simp: std_mkdir_def walk_Ok split: result.splits option.splits)

text \<open>The directories that a call may have added: ancestors of the path, or the path itself.\<close>

definition adds_dirs :: "path \<Rightarrow> (path \<rightharpoonup> node) \<Rightarrow> (path \<rightharpoonup> node) \<Rightarrow> bool" where
  "adds_dirs p v v' \<longleftrightarrow>
     (\<forall>q. v' q = v q \<or> v q = None \<and> v' q = Some Dir \<and> prefix q p)"

lemma adds_dirs_refl [simp]: "adds_dirs p v v"
  by (simp add: adds_dirs_def)

lemma adds_dirs_trans: "adds_dirs p v v' \<Longrightarrow> adds_dirs p v' v'' \<Longrightarrow> adds_dirs p v v''"
  unfolding adds_dirs_def by (metis option.distinct(1))

lemma adds_dirs_mono: "adds_dirs q v v' \<Longrightarrow> prefix q p \<Longrightarrow> adds_dirs p v v'"
  unfolding adds_dirs_def by (meson prefix_order.trans)

lemma adds_dirs_upd: "v p = None \<Longrightarrow> adds_dirs p v (v(p \<mapsto> Dir))"
  by (simp add: adds_dirs_def)

lemma std_mkdir_adds:
  assumes "wf_disk d" and "absolute_path p" and "std_mkdir p d = (r, d')"
  shows "wf_disk d' \<and> adds_dirs p (lookup d) (lookup d') \<and> (r = Ok () \<longrightarrow> lookup d' p = Some Dir)"
  using std_mkdir_cases [OF assms] assms(1) by (auto intro: adds_dirs_upd)

lemma std_create_dir_all_effect:
  "wf_disk d \<Longrightarrow> absolute_path p \<Longrightarrow> std_create_dir_all p d = (r, d') \<Longrightarrow>
   wf_disk d' \<and> adds_dirs p (lookup d) (lookup d') \<and> (r = Ok () \<longrightarrow> lookup d' p = Some Dir)"
proof (induction p d arbitrary: r d' rule: std_create_dir_all.induct)
  case (1 p d)
  note wf = 1(2) and abs = 1(3) and run = 1(4)
  have ne: "p \<noteq> []" using abs by auto
  obtain r1 d1 where m: "std_mkdir p d = (r1, d1)" by fastforce
  note m1 = std_mkdir_adds [OF wf abs m]
  show ?case
  proof (cases r1)
    case (Ok u)
    with run m ne have "r = Ok () \<and> d' = d1" by (subst (asm) std_create_dir_all.simps) simp
    with m1 Ok show ?thesis by simp
  next
    case (Err e)
    show ?thesis
    proof (cases "err_kind e = NotFound \<and> path_parent p \<noteq> None")
      case False
      with run m ne Err m1 show ?thesis
        by (subst (asm) std_create_dir_all.simps)
          (auto split: if_splits option.splits simp: is_dir_def std_metadata_Ok abs)
    next
      case True
      then obtain q where q: "path_parent p = Some q" by blast
      obtain n where qp: "absolute_path q" "p = q @ [Normal n]"
        using absolute_path_parent [OF abs q] by blast
      obtain r2 d2 where c: "std_create_dir_all q d1 = (r2, d2)" by fastforce
      have IH: "wf_disk d2 \<and> adds_dirs q (lookup d1) (lookup d2)"
        using 1(1) [OF ne m [symmetric] Err _ q _ qp(1) c] True m1 by blast
      have a2: "adds_dirs p (lookup d) (lookup d2)"
        using m1 IH qp(2) by (meson adds_dirs_mono adds_dirs_trans prefixI)
      obtain r3 d3 where m3: "std_mkdir p d2 = (r3, d3)" by fastforce
      note e3 = std_mkdir_adds [OF conjunct1 [OF IH] abs m3]
      have "(r, d') = (case r2 of Err e \<Rightarrow> (Err e, d2) | Ok _ \<Rightarrow>
          (case r3 of Ok _ \<Rightarrow> (Ok (), d3) | Err e \<Rightarrow> if is_dir d3 p then (Ok (), d3) else (Err e, d3)))"
        using run m ne Err True q c m3
        by (subst (asm) std_create_dir_all.simps) (auto split: result.splits)
      then show ?thesis
        using IH a2 e3 adds_dirs_trans [OF a2, of "lookup d3"]
        by (auto split: result.splits if_splits simp: is_dir_def std_metadata_Ok abs)
    qed
  qed
qed

lemma std_remove_file_cases:
  assumes "wf_disk d" and "absolute_path p" and "std_remove_file p d = (r, d')"
  shows "(r = Ok () \<and> p \<noteq> [RootDir] \<and> d' = AList.delete p d \<and> wf_disk d') \<or> ((\<exists>e. r = Err e) \<and> d' = d)"
proof -
  have "\<forall>q\<in>fst ` set d. butlast q \<noteq> p" if "lookup d p = Some (File bs)" for bs
    using assms(1) that by (auto simp: wf_disk_def)
  then have "wf_disk (AList.delete p d)" if "lookup d p = Some (File bs)" for bs
    using that wf_disk_delete [OF assms(1)] by (metis lookup_root node.distinct(1) option.inject)
  then show ?thesis
    using assms(3) by (auto simp: std_remove_file_def std_metadata_Ok assms(1,2) split: result.splits node.splits)
qed

lemma std_remove_dir_cases:
  assumes "wf_disk d" and "absolute_path p" and "std_remove_dir p d = (r, d')"
  shows "(r = Ok () \<and> p \<noteq> [RootDir] \<and> d' = AList.delete p d \<and> wf_disk d') \<or> ((\<exists>e. r = Err e) \<and> d' = d)"
proof -
  have "wf_disk (AList.delete p d)" if "p \<noteq> [RootDir]" "children d p = []"
    using that(2) by (intro wf_disk_delete assms that) (auto simp: children_def filter_empty_conv)
  then show ?thesis
    using assms(3) by (auto simp: std_remove_dir_def split: result.splits node.splits if_splits)
qed

lemma std_remove_dir_all_wf:
  assumes "wf_disk d"
  shows "wf_disk (snd (std_remove_dir_all p d))"
proof -
  have "wf_disk (filter (\<lambda>(q, _). \<not> prefix p q) d)"
    using assms prefix_order.trans [OF _ prefixeq_butlast]
    by (fastforce simp: wf_disk_def lookup_filter_prefix)
  with assms show ?thesis by (auto simp: std_remove_dir_all_def split: result.splits node.splits)
qed

lemma local_remove_cases:
  assumes "wf_disk d" and "absolute_path p"
    and "local_remove p \<lparr>opt_recursive = False, opt_force = False\<rparr> d = (r, d')"
  shows "(r = Ok () \<and> p \<noteq> [RootDir] \<and> d' = AList.delete p d \<and> wf_disk d') \<or> ((\<exists>e. r = Err e) \<and> d' = d)"
  using assms(3) std_remove_dir_cases [OF assms(1,2)] std_remove_file_cases [OF assms(1,2)]
  by (auto simp: local_remove_def split: result.splits if_splits)

text \<open>When nothing on the way is a regular file, the whole tree is created.\<close>

lemma walk_NotFound:
  assumes "\<forall>q. prefix q p \<longrightarrow> (\<forall>bs. lookup d q \<noteq> Some (File bs))" and "walk d p = Err e"
  shows "err_kind e = NotFound"
proof -
  from assms(2) obtain q where q: "find (\<lambda>q. lookup d q \<noteq> Some Dir) (proper_ancestors p) = Some q"
      "e = os_error (if lookup d q = None then NotFound else NotADirectory)"
    by (auto simp: walk_def split: option.splits)
  then have "lookup d q \<noteq> Some Dir" "prefix q p"
    by (auto simp: find_Some_iff proper_ancestors_def take_is_prefix)
  with assms(1) have "lookup d q = None" by (metis node.exhaust not_Some_eq)
  with q(2) show ?thesis by simp
qed

lemma std_create_dir_all_total:
  "wf_disk d \<Longrightarrow> absolute_path p \<Longrightarrow> \<forall>q. prefix q p \<longrightarrow> (\<forall>bs. lookup d q \<noteq> Some (File bs)) \<Longrightarrow>
   fst (std_create_dir_all p d) = Ok ()"
proof (induction p d rule: std_create_dir_all.induct)
  case (1 p d)
  note wf = 1(2) and abs = 1(3) and free = 1(4)
  have ne: "p \<noteq> []" using abs by auto
  show ?case
  proof (cases "walk d p")
    case (Ok n)
    with free have "n = None \<or> n = Some Dir" using walk_Ok [OF wf abs, of n]
      by (metis node.exhaust not_Some_eq prefix_order.refl)
    moreover have "is_dir d p" if "n = Some Dir"
      using that Ok walk_Ok [OF wf abs, of n] by (simp add: is_dir_def std_metadata_Ok wf abs)
    ultimately show ?thesis using ne Ok
      by (subst std_create_dir_all.simps) (auto simp: std_mkdir_def)
  next
    case (Err e)
    note k = walk_NotFound [OF free Err]
    have m: "std_mkdir p d = (Err e, d)" using Err by (simp add: std_mkdir_def)
    have "p \<noteq> [RootDir]" using Err walk_Ok [OF wf abs] by auto
    then obtain q where q: "path_parent p = Some q" "q = butlast p"
      using abs by (cases p rule: rev_cases) (auto simp: absolute_path_snoc)
    note aq = absolute_path_parent [OF abs q(1)]
    obtain r2 d2 where c: "std_create_dir_all q d = (r2, d2)" by fastforce
    have "\<forall>x. prefix x q \<longrightarrow> (\<forall>bs. lookup d x \<noteq> Some (File bs))"
      using free aq by (auto intro: prefix_order.trans)
    then have r2: "r2 = Ok ()" using 1(1) [OF ne m [symmetric] refl k q(1) wf] aq c by simp
    note e = std_create_dir_all_effect [OF wf conjunct1 [OF aq] c]
    then have "walk d2 p = Ok (lookup d2 p)" "lookup d2 p = None \<or> lookup d2 p = Some Dir"
      using free walk_Ok [OF _ abs, of d2] r2 q(2)
      by (auto simp: adds_dirs_def) (metis node.exhaust not_Some_eq prefix_order.refl)
    then have "fst (std_mkdir p d2) = Ok () \<or> std_mkdir p d2 = (Err (os_error AlreadyExists), d2) \<and> is_dir d2 p"
      by (auto simp: std_mkdir_def is_dir_def std_metadata_def)
    then show ?thesis using ne m k q(1) c r2
      by (subst std_create_dir_all.simps) (auto split: prod.splits result.splits)
  qed
qed

section \<open>What clients rely on\<close>

locale executor_fs =
  fixes fs :: "'s executor_file_system"
    and inv :: "'s \<Rightarrow> bool"
    and view :: "'s \<Rightarrow> path \<rightharpoonup> node"
  assumes read_file_view:
      "inv s \<Longrightarrow> absolute_path p \<Longrightarrow> read_file fs p s = Ok bytes \<Longrightarrow> view s p = Some (File bytes)"
    and write_file_view:
      "inv s \<Longrightarrow> absolute_path p \<Longrightarrow> write_file fs p bytes s = (r, s') \<Longrightarrow>
       inv s' \<and> view s' = (if is_ok r then (view s)(p \<mapsto> File bytes) else view s)"
    and create_directory_view:
      "inv s \<Longrightarrow> absolute_path p \<Longrightarrow> create_directory fs p True s = (r, s') \<Longrightarrow>
       inv s' \<and> adds_dirs p (view s) (view s')"
    and get_metadata_view:
      "inv s \<Longrightarrow> absolute_path p \<Longrightarrow> get_metadata fs p s = Ok m \<Longrightarrow>
       \<exists>n. view s p = Some n \<and> is_directory m = (n = Dir)"
    and remove_view:
      "inv s \<Longrightarrow> absolute_path p \<Longrightarrow>
       remove_path fs p \<lparr>opt_recursive = False, opt_force = False\<rparr> s = (r, s') \<Longrightarrow>
       inv s' \<and> view s' = (if is_ok r then (view s)(p := None) else view s)"
begin

lemma read_file_text_view:
  assumes "inv s" and "absolute_path p" and "read_file_text fs p s = Ok text"
  obtains bytes where "view s p = Some (File bytes)" and "from_utf8 bytes = Ok text"
  using assms read_file_view by (auto simp: read_file_text_def split: result.splits)

end

lemma LocalFileSystem_simps [simp]:
  "read_file LocalFileSystem = local_read_file"
  "write_file LocalFileSystem = std_write"
  "create_directory LocalFileSystem = local_create_directory"
  "get_metadata LocalFileSystem = local_get_metadata"
  "remove_path LocalFileSystem = local_remove"
  by (simp_all add: LocalFileSystem_def)

interpretation local_fs: executor_fs LocalFileSystem wf_disk lookup
proof unfold_locales
  fix d p bytes assume "wf_disk d" "absolute_path p" "read_file LocalFileSystem p d = Ok bytes"
  then show "lookup d p = Some (File bytes)"
    by (auto simp: local_read_file_def std_read_def std_metadata_Ok split: result.splits if_splits node.splits)
next
  fix d p bytes r d' assume "wf_disk d" "absolute_path p" "write_file LocalFileSystem p bytes d = (r, d')"
  then show "wf_disk d' \<and> lookup d' = (if is_ok r then (lookup d)(p \<mapsto> File bytes) else lookup d)"
    using std_write_cases [of d p bytes r d'] by auto
next
  fix d p r d' assume "wf_disk d" "absolute_path p" "create_directory LocalFileSystem p True d = (r, d')"
  then show "wf_disk d' \<and> adds_dirs p (lookup d) (lookup d')"
    using std_create_dir_all_effect [of d p r d'] by (simp add: local_create_directory_def)
next
  fix d p m assume "wf_disk d" "absolute_path p" "get_metadata LocalFileSystem p d = Ok m"
  then show "\<exists>n. lookup d p = Some n \<and> is_directory m = (n = Dir)"
    by (auto simp: local_get_metadata_def std_metadata_Ok split: result.splits)
next
  fix d p r d' assume "wf_disk d" "absolute_path p"
    "remove_path LocalFileSystem p \<lparr>opt_recursive = False, opt_force = False\<rparr> d = (r, d')"
  then show "wf_disk d' \<and> lookup d' = (if is_ok r then (lookup d)(p := None) else lookup d)"
    using local_remove_cases [of d p r d'] by auto
qed

section \<open>Properties\<close>

text \<open>
  no operation of the local file system, with any options and whether it succeeds or fails,
  leaves an entry without a parent directory.
\<close>

theorem local_file_system_keeps_tree:
  assumes "wf_disk d" and "absolute_path p"
  shows "wf_disk (snd (write_file LocalFileSystem p bytes d))
    \<and> wf_disk (snd (create_directory LocalFileSystem p recursive d))
    \<and> wf_disk (snd (remove_path LocalFileSystem p options d))"
proof (intro conjI)
  show "wf_disk (snd (write_file LocalFileSystem p bytes d))"
    using local_fs.write_file_view [OF assms] by (metis prod.collapse)
  show "wf_disk (snd (create_directory LocalFileSystem p recursive d))"
    using std_create_dir_all_effect [OF assms] std_mkdir_adds [OF assms]
    by (cases recursive) (simp_all add: local_create_directory_def, (metis prod.collapse)+)
  have "wf_disk (snd (std_remove_dir p d))" "wf_disk (snd (std_remove_file p d))"
    using std_remove_dir_cases [OF assms] std_remove_file_cases [OF assms] assms(1)
    by (metis prod.collapse)+
  then show "wf_disk (snd (remove_path LocalFileSystem p options d))"
    using std_remove_dir_all_wf assms(1) by (simp add: local_remove_def split: result.splits)
qed

definition sample_disk :: disk where
  "sample_disk = [([RootDir, Normal (lit ''w'')], Dir),
     ([RootDir, Normal (lit ''w''), Normal (lit ''f'')], File [104, 105, 10])]"

lemma sample_disk_wf: "wf_disk sample_disk"
  by (simp add: sample_disk_def wf_disk_def lookup_def absolute_path_def name_ok_def dot_def dotdot_def)

theorem local_file_system_keeps_tree_witness:
  "wf_disk (snd (remove_path LocalFileSystem [RootDir, Normal (lit ''w'')]
     \<lparr>opt_recursive = True, opt_force = False\<rparr> sample_disk))
   \<and> snd (remove_path LocalFileSystem [RootDir, Normal (lit ''w'')]
     \<lparr>opt_recursive = True, opt_force = False\<rparr> sample_disk) = []"
proof
  have a: "absolute_path [RootDir, Normal (lit ''w'')]"
    by (simp add: absolute_path_def name_ok_def dot_def dotdot_def)
  show "wf_disk (snd (remove_path LocalFileSystem [RootDir, Normal (lit ''w'')]
     \<lparr>opt_recursive = True, opt_force = False\<rparr> sample_disk))"
    using local_file_system_keeps_tree [OF sample_disk_wf a] by blast
  show "snd (remove_path LocalFileSystem [RootDir, Normal (lit ''w'')]
     \<lparr>opt_recursive = True, opt_force = False\<rparr> sample_disk) = []"
    by code_simp
qed

end
