(* ===== verification/Apply_Patch.thy ===== *)
theory Apply_Patch
  imports Replacements File_System
begin

text \<open>
  Applying parsed hunks to a file system (\<^verbatim>\<open>src/apply-patch/src/lib.rs\<close>), for any implementation of
  the file system interface. The client lemmas are proved once in the locale \<open>executor_fs\<close>: a run
  refines the abstract effect of each hunk on a map from paths to file contents. The properties
  state the results for the local file system. The writers for standard output and standard error
  are texts that grow.
\<close>

section \<open>Definitions\<close>

text \<open>\<^verbatim>\<open>anyhow::Error\<close> as it arises here: a message, an I/O error under a context, or an \<^verbatim>\<open>ApplyPatchError\<close>.\<close>

datatype anyhow_error =
    AnyMsg ustr
  | AnyContext ustr io_error
  | AnyApplyPatch apply_patch_error

fun parse_error_message :: "parse_error \<Rightarrow> ustr" where
  "parse_error_message (InvalidPatchError m) = lit ''invalid patch: '' @ m"
| "parse_error_message (InvalidHunkError m n) = lit ''invalid hunk at line '' @ to_decimal n @ lit '', '' @ m"

fun apply_patch_error_message :: "apply_patch_error \<Rightarrow> ustr" where
  "apply_patch_error_message (ParseErr e) = parse_error_message e"
| "apply_patch_error_message (IoErr context source) = context @ lit '': '' @ err_message source"
| "apply_patch_error_message (ComputeReplacements m) = m"
| "apply_patch_error_message ImplicitInvocation =
     lit ''patch detected without explicit call to apply_patch. Rerun as ['' @ [34] @ lit ''apply_patch''
     @ [34] @ lit '', '' @ [34] @ lit ''<patch>'' @ [34] @ lit '']''"

fun anyhow_message :: "anyhow_error \<Rightarrow> ustr" where
  "anyhow_message (AnyMsg m) = m"
| "anyhow_message (AnyContext context _) = context"
| "anyhow_message (AnyApplyPatch e) = apply_patch_error_message e"

record affected_paths =
  added :: "ustr list"
  modified :: "ustr list"
  deleted :: "ustr list"

fun hunk_resolve_path :: "path option \<Rightarrow> path \<Rightarrow> hunk \<Rightarrow> path" where
  "hunk_resolve_path home cwd (UpdateFile p _ _) = resolve_path_against_base home p cwd"
| "hunk_resolve_path home cwd h = resolve_path_against_base home (hunk_path h) cwd"

definition write_file_with_missing_parent_retry ::
  "'s executor_file_system \<Rightarrow> path \<Rightarrow> byte list \<Rightarrow> 's \<Rightarrow> (anyhow_error, unit) result \<times> 's" where
  "write_file_with_missing_parent_retry fs path_abs contents s =
     (case write_file fs path_abs contents s of
        (Ok _, s') \<Rightarrow> (Ok (), s')
      | (Err err, s') \<Rightarrow>
          if err_kind err = NotFound then
            (let (created, s'') =
               (case path_parent path_abs of
                  None \<Rightarrow> (Ok (), s')
                | Some parent_abs \<Rightarrow> create_directory fs parent_abs True s')
             in case created of
                  Err e \<Rightarrow> (Err (AnyContext
                     (lit ''Failed to create parent directories for '' @ display path_abs) e), s'')
                | Ok _ \<Rightarrow>
                    (case write_file fs path_abs contents s'' of
                       (Ok _, s3) \<Rightarrow> (Ok (), s3)
                     | (Err e, s3) \<Rightarrow>
                         (Err (AnyContext (lit ''Failed to write file '' @ display path_abs) e), s3)))
          else (Err (AnyContext (lit ''Failed to write file '' @ display path_abs) err), s'))"

text \<open>The block that checks the metadata of a path and removes it.\<close>

definition remove_regular_file ::
  "'s executor_file_system \<Rightarrow> path \<Rightarrow> 's \<Rightarrow> (io_error, unit) result \<times> 's" where
  "remove_regular_file fs path_abs s =
     (case get_metadata fs path_abs s of
        Err e \<Rightarrow> (Err e, s)
      | Ok metadata \<Rightarrow>
          if is_directory metadata then
            (Err \<lparr>err_kind = InvalidInput, err_message = lit ''path is a directory''\<rparr>, s)
          else remove_path fs path_abs \<lparr>opt_recursive = False, opt_force = False\<rparr> s)"

text \<open>\<^verbatim>\<open>AppliedPatch\<close> is the pair of the original and the new contents.\<close>

definition derive_new_contents_from_chunks ::
  "'s executor_file_system \<Rightarrow> path \<Rightarrow> update_file_chunk list \<Rightarrow> 's
     \<Rightarrow> (apply_patch_error fault, ustr \<times> ustr) result" where
  "derive_new_contents_from_chunks fs path_abs chunks s =
     (case read_file_text fs path_abs s of
        Err e \<Rightarrow> Err (Fail (IoErr (lit ''Failed to read file to update '' @ display path_abs) e))
      | Ok original_contents \<Rightarrow>
          (case derive_new_contents original_contents (display path_abs) chunks of
             Err e \<Rightarrow> Err e
           | Ok new_contents \<Rightarrow> Ok (original_contents, new_contents)))"

fun lift_apply_patch :: "apply_patch_error fault \<Rightarrow> anyhow_error fault" where
  "lift_apply_patch Panic = Panic"
| "lift_apply_patch (Fail e) = Fail (AnyApplyPatch e)"

text \<open>The body of the loop of \<^verbatim>\<open>apply_hunks_to_files\<close>.\<close>

fun apply_hunk_to_files ::
  "'s executor_file_system \<Rightarrow> path option \<Rightarrow> path \<Rightarrow> hunk \<Rightarrow> affected_paths \<Rightarrow> 's
     \<Rightarrow> (anyhow_error fault, affected_paths) result \<times> 's" where
  "apply_hunk_to_files fs home cwd (AddFile path contents) affected s =
     (case write_file_with_missing_parent_retry fs (hunk_resolve_path home cwd (AddFile path contents))
             (into_bytes contents) s of
        (Err e, s') \<Rightarrow> (Err (Fail e), s')
      | (Ok _, s') \<Rightarrow> (Ok (affected\<lparr>added := added affected @ [path]\<rparr>), s'))"
| "apply_hunk_to_files fs home cwd (DeleteFile path) affected s =
     (let path_abs = hunk_resolve_path home cwd (DeleteFile path)
      in case remove_regular_file fs path_abs s of
           (Err e, s') \<Rightarrow>
             (Err (Fail (AnyContext (lit ''Failed to delete file '' @ display path_abs) e)), s')
         | (Ok _, s') \<Rightarrow> (Ok (affected\<lparr>deleted := deleted affected @ [path]\<rparr>), s'))"
| "apply_hunk_to_files fs home cwd (UpdateFile path move_path chunks) affected s =
     (let path_abs = hunk_resolve_path home cwd (UpdateFile path move_path chunks);
          affected' = affected\<lparr>modified := modified affected @ [hunk_path (UpdateFile path move_path chunks)]\<rparr>
      in case derive_new_contents_from_chunks fs path_abs chunks s of
           Err e \<Rightarrow> (Err (lift_apply_patch e), s)
         | Ok (_, new_contents) \<Rightarrow>
             (case move_path of
                Some dest \<Rightarrow>
                  (case write_file_with_missing_parent_retry fs
                          (resolve_path_against_base home dest cwd) (into_bytes new_contents) s of
                     (Err e, s') \<Rightarrow> (Err (Fail e), s')
                   | (Ok _, s') \<Rightarrow>
                       (case remove_regular_file fs path_abs s' of
                          (Err e, s'') \<Rightarrow>
                            (Err (Fail (AnyContext (lit ''Failed to remove original '' @ display path_abs) e)), s'')
                        | (Ok _, s'') \<Rightarrow> (Ok affected', s'')))
              | None \<Rightarrow>
                  (case write_file fs path_abs (into_bytes new_contents) s of
                     (Err e, s') \<Rightarrow>
                       (Err (Fail (AnyContext (lit ''Failed to write file '' @ display path_abs) e)), s')
                   | (Ok _, s') \<Rightarrow> (Ok affected', s'))))"

fun apply_hunks_loop ::
  "'s executor_file_system \<Rightarrow> path option \<Rightarrow> path \<Rightarrow> hunk list \<Rightarrow> affected_paths \<Rightarrow> 's
     \<Rightarrow> (anyhow_error fault, affected_paths) result \<times> 's" where
  "apply_hunks_loop fs home cwd [] affected s = (Ok affected, s)"
| "apply_hunks_loop fs home cwd (hunk # hunks) affected s =
     (case apply_hunk_to_files fs home cwd hunk affected s of
        (Err e, s') \<Rightarrow> (Err e, s')
      | (Ok affected', s') \<Rightarrow> apply_hunks_loop fs home cwd hunks affected' s')"

definition apply_hunks_to_files ::
  "'s executor_file_system \<Rightarrow> path option \<Rightarrow> path \<Rightarrow> hunk list \<Rightarrow> 's
     \<Rightarrow> (anyhow_error fault, affected_paths) result \<times> 's" where
  "apply_hunks_to_files fs home cwd hunks s =
     (if hunks = [] then (Err (Fail (AnyMsg (lit ''No files were modified.''))), s)
      else apply_hunks_loop fs home cwd hunks \<lparr>added = [], modified = [], deleted = []\<rparr> s)"

definition print_summary :: "affected_paths \<Rightarrow> ustr \<Rightarrow> ustr" where
  "print_summary affected out =
     out @ lit ''Success. Updated the following files:'' @ [newline]
     @ concat (map (\<lambda>p. lit ''A '' @ p @ [newline]) (added affected))
     @ concat (map (\<lambda>p. lit ''M '' @ p @ [newline]) (modified affected))
     @ concat (map (\<lambda>p. lit ''D '' @ p @ [newline]) (deleted affected))"

text \<open>The error that \<^verbatim>\<open>apply_hunks\<close> returns: an I/O error under a context is found by \<^verbatim>\<open>downcast_ref\<close>.\<close>

fun convert_error :: "anyhow_error \<Rightarrow> apply_patch_error" where
  "convert_error (AnyContext _ e) = IoErr (lit ''I/O error'') e"
| "convert_error err =
     IoErr (anyhow_message err) \<lparr>err_kind = OtherKind, err_message = anyhow_message err\<rparr>"

record 's run =
  outcome :: "(apply_patch_error fault, unit) result"
  stdout :: ustr
  stderr :: ustr
  final_fs :: 's

definition apply_hunks ::
  "'s executor_file_system \<Rightarrow> path option \<Rightarrow> path \<Rightarrow> hunk list \<Rightarrow> ustr \<Rightarrow> ustr \<Rightarrow> 's \<Rightarrow> 's run" where
  "apply_hunks fs home cwd hunks out err s =
     (case apply_hunks_to_files fs home cwd hunks s of
        (Ok affected, s') \<Rightarrow>
          \<lparr>outcome = Ok (), stdout = print_summary affected out, stderr = err, final_fs = s'\<rparr>
      | (Err Panic, s') \<Rightarrow> \<lparr>outcome = Err Panic, stdout = out, stderr = err, final_fs = s'\<rparr>
      | (Err (Fail e), s') \<Rightarrow>
          \<lparr>outcome = Err (Fail (convert_error e)), stdout = out,
           stderr = err @ anyhow_message e @ [newline], final_fs = s'\<rparr>)"

fun parse_failure_line :: "parse_error \<Rightarrow> ustr" where
  "parse_failure_line (InvalidPatchError m) = lit ''Invalid patch: '' @ m @ [newline]"
| "parse_failure_line (InvalidHunkError m n) =
     lit ''Invalid patch hunk on line '' @ to_decimal n @ lit '': '' @ m @ [newline]"

definition apply_patch ::
  "'s executor_file_system \<Rightarrow> path option \<Rightarrow> path \<Rightarrow> ustr \<Rightarrow> ustr \<Rightarrow> ustr \<Rightarrow> 's \<Rightarrow> 's run" where
  "apply_patch fs home cwd patch out err s =
     (case parse_patch patch of
        Ok source \<Rightarrow> apply_hunks fs home cwd (args_hunks source) out err s
      | Err Panic \<Rightarrow> \<lparr>outcome = Err Panic, stdout = out, stderr = err, final_fs = s\<rparr>
      | Err (Fail e) \<Rightarrow>
          \<lparr>outcome = Err (Fail (ParseErr e)), stdout = out, stderr = err @ parse_failure_line e,
           final_fs = s\<rparr>)"

section \<open>The abstract effect of a hunk\<close>

text \<open>The regular files of a view, and what each hunk does to them.\<close>

definition files :: "(path \<rightharpoonup> node) \<Rightarrow> (path \<rightharpoonup> byte list)" where
  "files v p = (case v p of Some (File bytes) \<Rightarrow> Some bytes | _ \<Rightarrow> None)"

definition updated_bytes :: "path \<Rightarrow> update_file_chunk list \<Rightarrow> byte list \<Rightarrow> byte list option" where
  "updated_bytes p chunks bytes =
     (case from_utf8 bytes of
        Err _ \<Rightarrow> None
      | Ok text \<Rightarrow>
          (case derive_new_contents text (display p) chunks of
             Err _ \<Rightarrow> None
           | Ok new \<Rightarrow> Some (into_bytes new)))"

fun hunk_effect :: "path option \<Rightarrow> path \<Rightarrow> hunk \<Rightarrow> (path \<rightharpoonup> byte list) \<Rightarrow> (path \<rightharpoonup> byte list) option" where
  "hunk_effect home cwd (AddFile p contents) fm =
     Some (fm(resolve_path_against_base home p cwd \<mapsto> into_bytes contents))"
| "hunk_effect home cwd (DeleteFile p) fm =
     (let q = resolve_path_against_base home p cwd
      in if fm q = None then None else Some (fm(q := None)))"
| "hunk_effect home cwd (UpdateFile p move chunks) fm =
     (let q = resolve_path_against_base home p cwd
      in case Option.bind (fm q) (updated_bytes q chunks) of
           None \<Rightarrow> None
         | Some new \<Rightarrow>
             (case move of
                None \<Rightarrow> Some (fm(q \<mapsto> new))
              | Some dest \<Rightarrow>
                  Some ((fm(resolve_path_against_base home dest cwd \<mapsto> new))(q := None))))"

fun hunks_effect :: "path option \<Rightarrow> path \<Rightarrow> hunk list \<Rightarrow> (path \<rightharpoonup> byte list) \<Rightarrow> (path \<rightharpoonup> byte list) option" where
  "hunks_effect home cwd [] fm = Some fm"
| "hunks_effect home cwd (h # hs) fm = Option.bind (hunk_effect home cwd h fm) (hunks_effect home cwd hs)"

text \<open>The paths that a hunk may write or remove.\<close>

fun touched :: "path option \<Rightarrow> path \<Rightarrow> hunk \<Rightarrow> path set" where
  "touched home cwd (UpdateFile p (Some dest) _) =
     {resolve_path_against_base home p cwd, resolve_path_against_base home dest cwd}"
| "touched home cwd h = {hunk_resolve_path home cwd h}"

section \<open>Runs against any file system\<close>

lemma files_upd [simp]:
  "files (v(p \<mapsto> File bytes)) = (files v)(p \<mapsto> bytes)"
  "files (v(p := None)) = (files v)(p := None)"
  by (auto simp: files_def)

lemma files_adds_dirs: "adds_dirs p v v' \<Longrightarrow> files v' = files v"
proof
  fix q assume "adds_dirs p v v'"
  then show "files v' q = files v q" by (auto simp: adds_dirs_def files_def dest!: spec [of _ q])
qed

lemma hunk_resolve_path_absolute: "env_ok home cwd \<Longrightarrow> absolute_path (hunk_resolve_path home cwd h)"
  by (cases "(home, cwd, h)" rule: hunk_resolve_path.cases) (auto simp: resolve_path_absolute)

context executor_fs
begin

lemma write_retry_view:
  assumes "inv s" and "absolute_path p"
    and "write_file_with_missing_parent_retry fs p contents s = (r, s')"
  shows "inv s' \<and> files (view s') = (if is_ok r then (files (view s))(p \<mapsto> contents) else files (view s))"
proof -
  obtain r1 s1 where w: "write_file fs p contents s = (r1, s1)" by fastforce
  note w1 = write_file_view [OF assms(1,2) w]
  obtain r2 s2 where c: "(case path_parent p of None \<Rightarrow> (Ok (), s1)
      | Some q \<Rightarrow> create_directory fs q True s1) = (r2, s2)" by fastforce
  obtain r3 s3 where w': "write_file fs p contents s2 = (r3, s3)" by fastforce
  have c1: "inv s2 \<and> files (view s2) = files (view s1)"
  proof (cases "path_parent p")
    case (Some q)
    then have "create_directory fs q True s1 = (r2, s2)" using c by simp
    moreover have "absolute_path q" using absolute_path_parent [OF assms(2) Some] by blast
    ultimately have "inv s2 \<and> adds_dirs q (view s1) (view s2)"
      using create_directory_view [OF conjunct1 [OF w1]] by blast
    then show ?thesis by (blast intro: files_adds_dirs)
  qed (use c w1 in simp)
  note w3 = write_file_view [OF conjunct1 [OF c1] assms(2) w']
  have "is_ok r \<and> is_ok r1 \<and> s' = s1 \<or> is_ok r \<and> \<not> is_ok r1 \<and> is_ok r3 \<and> s' = s3
      \<or> \<not> is_ok r \<and> \<not> is_ok r1 \<and> (s' = s1 \<or> s' = s2 \<or> \<not> is_ok r3 \<and> s' = s3)"
    using assms(3) w c w'
    by (cases r1; cases r2; cases r3)
      (auto simp: write_file_with_missing_parent_retry_def split: if_splits)
  then show ?thesis using w1 c1 w3 by auto
qed

lemma remove_regular_file_view:
  assumes "inv s" and "absolute_path p" and "remove_regular_file fs p s = (r, s')"
  shows "inv s' \<and> files (view s') = (if is_ok r then (files (view s))(p := None) else files (view s))
    \<and> (is_ok r \<longrightarrow> files (view s) p \<noteq> None)"
proof (cases "get_metadata fs p s")
  case (Ok m)
  from get_metadata_view [OF assms(1,2) Ok] obtain n where n: "view s p = Some n" "is_directory m = (n = Dir)"
    by blast
  show ?thesis
  proof (cases "is_directory m")
    case False
    with n obtain bs where "n = File bs" by (cases n) auto
    then have "files (view s) p \<noteq> None" using n by (simp add: files_def)
    moreover have "remove_path fs p \<lparr>opt_recursive = False, opt_force = False\<rparr> s = (r, s')"
      using assms(3) Ok False by (simp add: remove_regular_file_def)
    ultimately show ?thesis using remove_view [OF assms(1,2)] by fastforce
  qed (use assms Ok in \<open>auto simp: remove_regular_file_def\<close>)
qed (use assms in \<open>auto simp: remove_regular_file_def\<close>)

lemma derive_view:
  assumes "inv s" and "absolute_path p"
    and "derive_new_contents_from_chunks fs p chunks s = Ok (original, new)"
  shows "Option.bind (files (view s) p) (updated_bytes p chunks) = Some (into_bytes new)"
proof -
  from assms(3) have r: "read_file_text fs p s = Ok original"
    "derive_new_contents original (display p) chunks = Ok new"
    by (auto simp: derive_new_contents_from_chunks_def split: result.splits)
  obtain bytes where "view s p = Some (File bytes)" "from_utf8 bytes = Ok original"
    using read_file_text_view [OF assms(1,2) r(1)] .
  with r(2) show ?thesis by (simp add: files_def updated_bytes_def)
qed

text \<open>One hunk: the invariant is kept, nothing else is touched, and success is the abstract effect.\<close>

lemma update_hunk_view:
  assumes "inv s" and "env_ok home cwd"
    and run: "apply_hunk_to_files fs home cwd (UpdateFile p move chunks) affected s = (r, s')"
  shows "inv s' \<and> (\<forall>q. q \<notin> touched home cwd (UpdateFile p move chunks) \<longrightarrow> files (view s') q = files (view s) q)
    \<and> (is_ok r \<longrightarrow> hunk_effect home cwd (UpdateFile p move chunks) (files (view s)) = Some (files (view s')))"
proof -
  let ?p = "resolve_path_against_base home p cwd"
  note abs = resolve_path_absolute [OF assms(2)]
  show ?thesis
  proof (cases "derive_new_contents_from_chunks fs ?p chunks s")
    case (Err e)
    with run assms(1) show ?thesis by auto
  next
    case (Ok both)
    then obtain orig new where d: "derive_new_contents_from_chunks fs ?p chunks s = Ok (orig, new)"
      by (cases both) auto
    note eff = derive_view [OF assms(1) abs d]
    show ?thesis
    proof (cases move)
      case None
      obtain r1 s1 where w: "write_file fs ?p (into_bytes new) s = (r1, s1)" by fastforce
      note w1 = write_file_view [OF assms(1) abs w]
      have "s' = s1 \<and> is_ok r = is_ok r1"
        using run None w d by (cases r1) auto
      with w1 eff None show ?thesis by auto
    next
      case (Some dest)
      let ?d = "resolve_path_against_base home dest cwd"
      obtain r1 s1 where w: "write_file_with_missing_parent_retry fs ?d (into_bytes new) s = (r1, s1)"
        by fastforce
      obtain r2 s2 where m: "remove_regular_file fs ?p s1 = (r2, s2)" by fastforce
      note w1 = write_retry_view [OF assms(1) abs w]
      note m1 = remove_regular_file_view [OF conjunct1 [OF w1] abs m]
      have "if is_ok r1 then s' = s2 \<and> is_ok r = is_ok r2 else s' = s1 \<and> \<not> is_ok r"
        using run Some w d m by (cases r1; cases r2) auto
      with w1 m1 eff Some show ?thesis by (auto split: if_splits)
    qed
  qed
qed

lemma hunk_view:
  assumes "inv s" and "env_ok home cwd"
    and run: "apply_hunk_to_files fs home cwd h affected s = (r, s')"
  shows "inv s' \<and> (\<forall>q. q \<notin> touched home cwd h \<longrightarrow> files (view s') q = files (view s) q)
    \<and> (is_ok r \<longrightarrow> hunk_effect home cwd h (files (view s)) = Some (files (view s')))"
proof (cases h)
  case (AddFile p contents)
  obtain r1 s1 where w: "write_file_with_missing_parent_retry fs (resolve_path_against_base home p cwd)
      (into_bytes contents) s = (r1, s1)" by fastforce
  have "s' = s1 \<and> is_ok r = is_ok r1" using run AddFile w by (cases r1) auto
  with write_retry_view [OF assms(1) resolve_path_absolute [OF assms(2)] w] AddFile
  show ?thesis by (auto split: if_splits)
next
  case (DeleteFile p)
  obtain r1 s1 where w: "remove_regular_file fs (resolve_path_against_base home p cwd) s = (r1, s1)"
    by fastforce
  have "s' = s1 \<and> is_ok r = is_ok r1" using run DeleteFile w by (cases r1) auto
  with remove_regular_file_view [OF assms(1) resolve_path_absolute [OF assms(2)] w] DeleteFile
  show ?thesis by (auto split: if_splits)
next
  case (UpdateFile p move chunks)
  with update_hunk_view [OF assms(1,2)] run show ?thesis by blast
qed

lemma hunks_loop_view:
  assumes "inv s" and "env_ok home cwd"
    and "apply_hunks_loop fs home cwd hs affected s = (r, s')"
  shows "inv s' \<and> (\<forall>q. q \<notin> \<Union> (touched home cwd ` set hs) \<longrightarrow> files (view s') q = files (view s) q)
    \<and> (is_ok r \<longrightarrow> hunks_effect home cwd hs (files (view s)) = Some (files (view s')))"
  using assms(1,3)
proof (induction hs arbitrary: affected s)
  case (Cons h hs)
  obtain r1 s1 where w: "apply_hunk_to_files fs home cwd h affected s = (r1, s1)" by fastforce
  note h = hunk_view [OF Cons.prems(1) assms(2) w]
  show ?case
  proof (cases r1)
    case (Err e)
    with Cons.prems w h show ?thesis by auto
  next
    case (Ok a)
    with Cons.prems w have "apply_hunks_loop fs home cwd hs a s1 = (r, s')" by simp
    with Cons.IH [of s1 a] h Ok show ?thesis by auto
  qed
qed auto

lemma apply_hunks_to_files_view:
  assumes "inv s" and "env_ok home cwd" and "apply_hunks_to_files fs home cwd hs s = (r, s')"
  shows "inv s' \<and> (\<forall>q. q \<notin> \<Union> (touched home cwd ` set hs) \<longrightarrow> files (view s') q = files (view s) q)
    \<and> (is_ok r \<longrightarrow> hunks_effect home cwd hs (files (view s)) = Some (files (view s')))"
  using hunks_loop_view [OF assms(1,2)] assms
  by (auto simp: apply_hunks_to_files_def split: if_splits)

end

lemma apply_hunk_to_files_faultless: "fst (apply_hunk_to_files fs home cwd h affected s) \<noteq> Err Panic"
proof (cases h)
  case (UpdateFile p move chunks)
  have "derive_new_contents_from_chunks fs q chunks s \<noteq> Err Panic" for q
    by (auto simp: derive_new_contents_from_chunks_def derive_new_contents_faultless split: result.splits)
  then have "lift_apply_patch e \<noteq> Panic" if "derive_new_contents_from_chunks fs q chunks s = Err e" for q e
    using that by (cases e) auto
  then show ?thesis
    by (auto simp: UpdateFile Let_def split: result.splits option.splits prod.splits)
qed (auto simp: Let_def split: result.splits prod.splits)

lemma apply_hunks_loop_faultless: "fst (apply_hunks_loop fs home cwd hs affected s) \<noteq> Err Panic"
proof (induction hs arbitrary: affected s)
  case (Cons h hs)
  with apply_hunk_to_files_faultless [of fs home cwd h affected s] show ?case
    by (auto split: result.splits prod.splits)
qed simp

lemma apply_hunks_to_files_faultless: "fst (apply_hunks_to_files fs home cwd hs s) \<noteq> Err Panic"
  by (simp add: apply_hunks_to_files_def apply_hunks_loop_faultless)

section \<open>Properties\<close>

text \<open>
  C1: a successful run on the local file system has exactly the effect the patch describes: the
  regular files afterwards are the ones before with, hunk by hunk, the added contents written, the
  deleted files removed, and the updated contents (found through the fuzzy search and spliced)
  written in place or at the move destination; and the directory tree stays well-formed.
\<close>

theorem apply_hunks_to_files_refines:
  assumes "wf_disk d" and "env_ok home cwd"
    and "apply_hunks_to_files LocalFileSystem home cwd hunks d = (Ok affected, d')"
  shows "wf_disk d' \<and> hunks_effect home cwd hunks (files (lookup d)) = Some (files (lookup d'))"
  using local_fs.apply_hunks_to_files_view [OF assms] by simp

definition work_dir :: path where
  "work_dir = [RootDir, Normal (lit ''w'')]"

lemma work_dir_env: "env_ok None work_dir"
  by (simp add: env_ok_def work_dir_def absolute_path_def name_ok_def dot_def dotdot_def)

definition move_hunks :: "hunk list" where
  "move_hunks = [AddFile (lit ''n/a'') (lit ''x''),
     UpdateFile (lit ''f'') (Some (lit ''g''))
       [\<lparr>change_context = None, old_lines = [lit ''hi''], new_lines = [lit ''ho''], is_end_of_file = False\<rparr>]]"

theorem apply_hunks_to_files_refines_witness:
  "\<exists>affected d'. apply_hunks_to_files LocalFileSystem None work_dir move_hunks sample_disk = (Ok affected, d')
     \<and> hunks_effect None work_dir move_hunks (files (lookup sample_disk)) = Some (files (lookup d'))
     \<and> files (lookup d') [RootDir, Normal (lit ''w''), Normal (lit ''g'')] = Some [104, 111, 10]"
proof -
  let ?run = "apply_hunks_to_files LocalFileSystem None work_dir move_hunks sample_disk"
  have ok: "is_ok (fst ?run)"
    and g: "files (lookup (snd ?run)) [RootDir, Normal (lit ''w''), Normal (lit ''g'')] = Some [104, 111, 10]"
    by code_simp+
  obtain affected d' where run: "?run = (Ok affected, d')" using ok by (cases ?run) (auto simp: is_ok_iff)
  show ?thesis
    using apply_hunks_to_files_refines [OF sample_disk_wf work_dir_env run] run g by auto
qed

text \<open>
  C24: a run, successful or not, changes no regular file other than those its hunks name: the
  resolved path of each hunk and the resolved destination of each move.
\<close>

theorem apply_hunks_to_files_frame:
  assumes "wf_disk d" and "env_ok home cwd"
    and "q \<notin> \<Union> (touched home cwd ` set hunks)"
  shows "files (lookup (snd (apply_hunks_to_files LocalFileSystem home cwd hunks d))) q = files (lookup d) q"
  using local_fs.apply_hunks_to_files_view [OF assms(1,2), of hunks] assms(3)
  by (metis prod.collapse)

theorem apply_hunks_to_files_frame_witness:
  "files (lookup (snd (apply_hunks_to_files LocalFileSystem None work_dir [DeleteFile (lit ''zz'')] sample_disk)))
     [RootDir, Normal (lit ''w''), Normal (lit ''f'')] = Some [104, 105, 10]"
proof -
  have "[RootDir, Normal (lit ''w''), Normal (lit ''f'')] \<notin> \<Union> (touched None work_dir ` set [DeleteFile (lit ''zz'')])"
    by code_simp
  from apply_hunks_to_files_frame [OF sample_disk_wf work_dir_env this] show ?thesis
    by (simp add: files_def lookup_def sample_disk_def)
qed

lemma std_write_into_dir:
  assumes "wf_disk d" and "absolute_path p" and "p \<noteq> [RootDir]"
    and "lookup d (butlast p) = Some Dir" and "lookup d p \<noteq> Some Dir"
  shows "std_write p contents d = (Ok (), AList.update p (File contents) d)"
  using assms walk_Ok [OF assms(1,2), of "lookup d p"]
  by (auto simp: std_write_def split: option.splits node.splits)

lemma std_write_missing_parent:
  assumes "wf_disk d" and "absolute_path p" and "p \<noteq> [RootDir]" and "lookup d (butlast p) \<noteq> Some Dir"
    and "\<forall>q. prefix q (butlast p) \<longrightarrow> (\<forall>bs. lookup d q \<noteq> Some (File bs))"
  shows "\<exists>e. std_write p contents d = (Err e, d) \<and> err_kind e = NotFound \<and> lookup d p = None"
proof -
  obtain e where e: "walk d p = Err e"
    using assms(3,4) walk_Ok [OF assms(1,2)] by (cases "walk d p") auto
  have none: "lookup d p = None"
    using assms(4) wf_disk_parent [OF assms(1) _ assms(3)] by (cases "lookup d p") auto
  have "\<forall>q. prefix q p \<longrightarrow> (\<forall>bs. lookup d q \<noteq> Some (File bs))"
  proof (intro allI impI)
    fix q bs assume "prefix q p"
    then have "q = p \<or> prefix q (butlast p)"
      using assms(2) by (cases p rule: rev_cases) auto
    with none assms(5) show "lookup d q \<noteq> Some (File bs)" by auto
  qed
  then have "err_kind e = NotFound" using walk_NotFound e by blast
  with e none show ?thesis by (simp add: std_write_def)
qed

text \<open>
  adding a file works in directories that do not exist yet. When nothing above the path is a
  regular file and the path is not a directory, the write with its retry succeeds, and the file
  then holds the contents.
\<close>

theorem write_file_with_missing_parent_retry_succeeds:
  assumes "wf_disk d" and "absolute_path p" and "p \<noteq> [RootDir]" and "lookup d p \<noteq> Some Dir"
    and "\<forall>q. prefix q (butlast p) \<longrightarrow> (\<forall>bs. lookup d q \<noteq> Some (File bs))"
  shows "\<exists>d'. write_file_with_missing_parent_retry LocalFileSystem p contents d = (Ok (), d')
    \<and> lookup d' p = Some (File contents)"
proof (cases "lookup d (butlast p) = Some Dir")
  case True
  with std_write_into_dir [OF assms(1-3) True assms(4)] assms(3) show ?thesis
    by (auto simp: write_file_with_missing_parent_retry_def)
next
  case False
  from std_write_missing_parent [OF assms(1-3) False assms(5)] obtain e where
    e: "std_write p contents d = (Err e, d)" "err_kind e = NotFound" "lookup d p = None" by blast
  note b = absolute_path_butlast [OF assms(2,3)]
  have parent: "path_parent p = Some (butlast p)"
    using assms(2,3) by (cases p rule: rev_cases) (auto simp: absolute_path_snoc)
  obtain r d2 where c: "std_create_dir_all (butlast p) d = (r, d2)" by fastforce
  have r: "r = Ok ()" using std_create_dir_all_total [OF assms(1) conjunct1 [OF b] assms(5)] c by simp
  note eff = std_create_dir_all_effect [OF assms(1) conjunct1 [OF b] c]
  have "\<not> prefix p (butlast p)" using b by (auto dest: prefix_length_le)
  with eff e(3) have "lookup d2 p = None" by (auto simp: adds_dirs_def dest!: spec [of _ p])
  then have "std_write p contents d2 = (Ok (), AList.update p (File contents) d2)"
    using eff r by (intro std_write_into_dir assms) auto
  with e parent c r assms(3) show ?thesis
    by (simp add: write_file_with_missing_parent_retry_def local_create_directory_def)
qed

theorem write_file_with_missing_parent_retry_succeeds_witness:
  "\<exists>d'. write_file_with_missing_parent_retry LocalFileSystem
       [RootDir, Normal (lit ''a''), Normal (lit ''b''), Normal (lit ''c'')] [1, 2] sample_disk = (Ok (), d')
    \<and> lookup d' [RootDir, Normal (lit ''a''), Normal (lit ''b''), Normal (lit ''c'')] = Some (File [1, 2])"
proof (rule write_file_with_missing_parent_retry_succeeds [OF sample_disk_wf])
  show "\<forall>q. prefix q (butlast [RootDir, Normal (lit ''a''), Normal (lit ''b''), Normal (lit ''c'')]) \<longrightarrow>
      (\<forall>bs. lookup sample_disk q \<noteq> Some (File bs))"
    by (auto simp: prefix_Cons lookup_def sample_disk_def)
qed (simp_all add: absolute_path_def name_ok_def dot_def dotdot_def lookup_def sample_disk_def)


text \<open>
  a move whose destination resolves to the path of the updated file itself deletes the file:
  the code writes the new contents and then removes the original, which is the same path. A
  successful run leaves nothing there.
\<close>

theorem move_onto_itself_deletes:
  assumes "wf_disk d" and "env_ok home cwd"
    and "resolve_path_against_base home dest cwd = resolve_path_against_base home p cwd"
    and "apply_hunks_to_files LocalFileSystem home cwd [UpdateFile p (Some dest) chunks] d = (Ok affected, d')"
  shows "files (lookup d') (resolve_path_against_base home p cwd) = None"
proof -
  let ?q = "resolve_path_against_base home p cwd"
  have "Some (files (lookup d')) = hunk_effect home cwd (UpdateFile p (Some dest) chunks) (files (lookup d))"
    using local_fs.apply_hunks_to_files_view [OF assms(1,2,4)]
    by (auto simp del: hunk_effect.simps simp: Option.bind_eq_Some_conv)
  then have "files (lookup d') = (files (lookup d))(?q := None)"
    using assms(3) by (auto simp: Let_def split: option.splits)
  then show ?thesis by simp
qed

theorem move_onto_itself_deletes_witness:
  "\<exists>affected d'. apply_hunks_to_files LocalFileSystem None work_dir
      [UpdateFile (lit ''f'') (Some (lit ''./f''))
        [\<lparr>change_context = None, old_lines = [lit ''hi''], new_lines = [lit ''ho''], is_end_of_file = False\<rparr>]]
      sample_disk = (Ok affected, d')
    \<and> files (lookup d') [RootDir, Normal (lit ''w''), Normal (lit ''f'')] = None"
proof -
  let ?run = "apply_hunks_to_files LocalFileSystem None work_dir
      [UpdateFile (lit ''f'') (Some (lit ''./f''))
        [\<lparr>change_context = None, old_lines = [lit ''hi''], new_lines = [lit ''ho''], is_end_of_file = False\<rparr>]]
      sample_disk"
  have "is_ok (fst ?run)" by code_simp
  then obtain affected d' where run: "?run = (Ok affected, d')" by (cases ?run) (auto simp: is_ok_iff)
  have e: "resolve_path_against_base None (lit ''./f'') work_dir = resolve_path_against_base None (lit ''f'') work_dir"
    "resolve_path_against_base None (lit ''f'') work_dir = [RootDir, Normal (lit ''w''), Normal (lit ''f'')]"
    by code_simp+
  show ?thesis using move_onto_itself_deletes [OF sample_disk_wf work_dir_env e(1) run] run e(2) by simp
qed

end
