(* ===== verification/Apply_Invocation.thy ===== *)
theory Apply_Invocation
  imports Apply_Patch
begin

text \<open>
  Recognising an \<^verbatim>\<open>apply_patch\<close> call in a command line and computing the changes that are shown for
  approval (\<^verbatim>\<open>src/apply-patch/src/invocation.rs\<close>). The bash grammar is a third-party parser: the
  function that extracts the here-document of a script (\<^verbatim>\<open>extract_apply_patch_from_bash\<close>) is the
  parameter \<open>extract\<close>, the diff printer of the \<^verbatim>\<open>similar\<close> crate the parameter \<open>diff\<close>. The main
  result relates the approved changes to what applying the patch then does.
\<close>

section \<open>Definitions\<close>

definition APPLY_PATCH_COMMANDS :: "ustr list" where
  "APPLY_PATCH_COMMANDS = [lit ''apply_patch'', lit ''applypatch'']"

datatype apply_patch_shell = UnixShell | PowerShell | Cmd

datatype extract_heredoc_error =
    CommandDidNotStartWithApplyPatch | FailedToLoadBashGrammar | HeredocNotUtf8
  | FailedToParsePatchIntoAst | FailedToFindHeredocBody

type_synonym extractor = "ustr \<Rightarrow> (extract_heredoc_error, ustr \<times> ustr option) result"

text \<open>The parse error carries a fault, because the model of the parser distinguishes a panic.\<close>

datatype maybe_apply_patch =
    Body apply_patch_args
  | ShellParseError extract_heredoc_error
  | PatchParseError "parse_error fault"
  | NotApplyPatch

datatype apply_patch_file_change =
    AddChange ustr
  | DeleteChange ustr
  | UpdateChange ustr "path option" ustr

record apply_patch_action =
  action_changes :: "(path \<times> apply_patch_file_change) list"
  action_patch :: ustr
  action_cwd :: path

datatype maybe_apply_patch_verified =
    VerifiedBody apply_patch_action
  | VerifiedShellParseError extract_heredoc_error
  | CorrectnessError "apply_patch_error fault"
  | VerifiedNotApplyPatch

definition classify_shell_name :: "ustr \<Rightarrow> ustr option" where
  "classify_shell_name shell = map_option to_ascii_lowercase (file_stem shell)"

definition classify_shell :: "ustr \<Rightarrow> ustr \<Rightarrow> apply_patch_shell option" where
  "classify_shell shell flag =
     (case classify_shell_name shell of
        None \<Rightarrow> None
      | Some name \<Rightarrow>
          if name \<in> {lit ''bash'', lit ''zsh'', lit ''sh''} \<and> flag \<in> {lit ''-lc'', lit ''-c''} then Some UnixShell
          else if name \<in> {lit ''pwsh'', lit ''powershell''} \<and> eq_ignore_ascii_case flag (lit ''-command'')
            then Some PowerShell
          else if name = lit ''cmd'' \<and> eq_ignore_ascii_case flag (lit ''/c'') then Some Cmd
          else None)"

definition can_skip_flag :: "ustr \<Rightarrow> ustr \<Rightarrow> bool" where
  "can_skip_flag shell flag =
     (case classify_shell_name shell of
        None \<Rightarrow> False
      | Some name \<Rightarrow> name \<in> {lit ''pwsh'', lit ''powershell''} \<and> eq_ignore_ascii_case flag (lit ''-noprofile''))"

fun parse_shell_script :: "ustr list \<Rightarrow> (apply_patch_shell \<times> ustr) option" where
  "parse_shell_script [shell, flag, script] =
     map_option (\<lambda>shell_type. (shell_type, script)) (classify_shell shell flag)"
| "parse_shell_script [shell, skip_flag, flag, script] =
     (if can_skip_flag shell skip_flag
      then map_option (\<lambda>shell_type. (shell_type, script)) (classify_shell shell flag)
      else None)"
| "parse_shell_script _ = None"

text \<open>All shells share the bash extractor.\<close>

fun extract_apply_patch_from_shell :: "extractor \<Rightarrow> apply_patch_shell \<Rightarrow> extractor" where
  "extract_apply_patch_from_shell extract shell script = extract script"

fun parsed_body :: "(parse_error fault, apply_patch_args) result \<Rightarrow> maybe_apply_patch" where
  "parsed_body (Ok source) = Body source"
| "parsed_body (Err e) = PatchParseError e"

definition parse_shell_invocation :: "extractor \<Rightarrow> ustr list \<Rightarrow> maybe_apply_patch" where
  "parse_shell_invocation extract argv =
     (case parse_shell_script argv of
        None \<Rightarrow> NotApplyPatch
      | Some (shell, script) \<Rightarrow>
          (case extract_apply_patch_from_shell extract shell script of
             Ok (body, workdir) \<Rightarrow>
               (case parse_patch body of
                  Ok source \<Rightarrow> Body (source\<lparr>args_workdir := workdir\<rparr>)
                | Err e \<Rightarrow> PatchParseError e)
           | Err e \<Rightarrow>
               if e = CommandDidNotStartWithApplyPatch then NotApplyPatch else ShellParseError e))"

definition maybe_parse_apply_patch :: "extractor \<Rightarrow> ustr list \<Rightarrow> maybe_apply_patch" where
  "maybe_parse_apply_patch extract argv =
     (case argv of
        [cmd, body] \<Rightarrow>
          if cmd \<in> set APPLY_PATCH_COMMANDS then parsed_body (parse_patch body)
          else parse_shell_invocation extract argv
      | _ \<Rightarrow> parse_shell_invocation extract argv)"

text \<open>\<^verbatim>\<open>unified_diff_from_chunks\<close>, with a context radius of 1.\<close>

definition unified_diff_from_chunks ::
  "(nat \<Rightarrow> ustr \<Rightarrow> ustr \<Rightarrow> ustr) \<Rightarrow> 's executor_file_system \<Rightarrow> path \<Rightarrow> update_file_chunk list \<Rightarrow> 's
     \<Rightarrow> (apply_patch_error fault, ustr \<times> ustr) result" where
  "unified_diff_from_chunks diff fs p chunks s =
     (case derive_new_contents_from_chunks fs p chunks s of
        Err e \<Rightarrow> Err e
      | Ok (original_contents, new_contents) \<Rightarrow>
          Ok (diff 1 original_contents new_contents, new_contents))"

text \<open>The change recorded for one hunk: the body of the loop over the hunks.\<close>

fun hunk_change ::
  "(nat \<Rightarrow> ustr \<Rightarrow> ustr \<Rightarrow> ustr) \<Rightarrow> 's executor_file_system \<Rightarrow> path option \<Rightarrow> path \<Rightarrow> 's \<Rightarrow> hunk
     \<Rightarrow> (apply_patch_error fault, path \<times> apply_patch_file_change) result" where
  "hunk_change diff fs home cwd s (AddFile p contents) =
     Ok (hunk_resolve_path home cwd (AddFile p contents), AddChange contents)"
| "hunk_change diff fs home cwd s (DeleteFile p) =
     (let path = hunk_resolve_path home cwd (DeleteFile p)
      in case read_file_text fs path s of
           Err e \<Rightarrow> Err (Fail (IoErr (lit ''Failed to read '' @ display path) e))
         | Ok content \<Rightarrow> Ok (path, DeleteChange content))"
| "hunk_change diff fs home cwd s (UpdateFile p move_path chunks) =
     (let path = hunk_resolve_path home cwd (UpdateFile p move_path chunks)
      in case unified_diff_from_chunks diff fs path chunks s of
           Err e \<Rightarrow> Err e
         | Ok (unified_diff, contents) \<Rightarrow>
             Ok (path, UpdateChange unified_diff
                   (map_option (\<lambda>dest. resolve_path_against_base home dest cwd) move_path) contents))"

text \<open>The loop; \<^verbatim>\<open>HashMap::insert\<close> replaces an earlier change of the same path.\<close>

fun verify_hunks ::
  "(nat \<Rightarrow> ustr \<Rightarrow> ustr \<Rightarrow> ustr) \<Rightarrow> 's executor_file_system \<Rightarrow> path option \<Rightarrow> path \<Rightarrow> 's \<Rightarrow> hunk list
     \<Rightarrow> (path \<times> apply_patch_file_change) list
     \<Rightarrow> (apply_patch_error fault, (path \<times> apply_patch_file_change) list) result" where
  "verify_hunks diff fs home cwd s [] changes = Ok changes"
| "verify_hunks diff fs home cwd s (h # hs) changes =
     (case hunk_change diff fs home cwd s h of
        Err e \<Rightarrow> Err e
      | Ok (path, change) \<Rightarrow> verify_hunks diff fs home cwd s hs (AList.update path change changes))"

definition effective_cwd :: "path option \<Rightarrow> path \<Rightarrow> apply_patch_args \<Rightarrow> path" where
  "effective_cwd home cwd args =
     (case args_workdir args of None \<Rightarrow> cwd | Some dir \<Rightarrow> resolve_path_against_base home dir cwd)"

fun map_parse_fault :: "parse_error fault \<Rightarrow> apply_patch_error fault" where
  "map_parse_fault Panic = Panic"
| "map_parse_fault (Fail e) = Fail (ParseErr e)"

text \<open>A raw patch as the only argument, or as the script of a shell call.\<close>

definition implicit_invocation :: "ustr list \<Rightarrow> bool" where
  "implicit_invocation argv \<longleftrightarrow>
     (case argv of [body] \<Rightarrow> is_ok (parse_patch body) | _ \<Rightarrow> False)
     \<or> (case parse_shell_script argv of Some (_, script) \<Rightarrow> is_ok (parse_patch script) | None \<Rightarrow> False)"

definition maybe_parse_apply_patch_verified ::
  "extractor \<Rightarrow> (nat \<Rightarrow> ustr \<Rightarrow> ustr \<Rightarrow> ustr) \<Rightarrow> 's executor_file_system \<Rightarrow> path option \<Rightarrow> path \<Rightarrow> 's
     \<Rightarrow> ustr list \<Rightarrow> maybe_apply_patch_verified" where
  "maybe_parse_apply_patch_verified extract diff fs home cwd s argv =
     (if implicit_invocation argv then CorrectnessError (Fail ImplicitInvocation)
      else case maybe_parse_apply_patch extract argv of
        Body args \<Rightarrow>
          (case verify_hunks diff fs home (effective_cwd home cwd args) s (args_hunks args) [] of
             Err e \<Rightarrow> CorrectnessError e
           | Ok cs \<Rightarrow> VerifiedBody \<lparr>action_changes = cs, action_patch = args_patch args,
                                 action_cwd = effective_cwd home cwd args\<rparr>)
      | ShellParseError e \<Rightarrow> VerifiedShellParseError e
      | PatchParseError e \<Rightarrow> CorrectnessError (map_parse_fault e)
      | NotApplyPatch \<Rightarrow> VerifiedNotApplyPatch)"

section \<open>Approved changes and applied changes\<close>

text \<open>What the files must look like afterwards for a change that was shown.\<close>

fun change_applied :: "(path \<rightharpoonup> byte list) \<Rightarrow> path \<Rightarrow> apply_patch_file_change \<Rightarrow> bool" where
  "change_applied fm p (AddChange contents) \<longleftrightarrow> fm p = Some (into_bytes contents)"
| "change_applied fm p (DeleteChange _) \<longleftrightarrow> fm p = None"
| "change_applied fm p (UpdateChange _ None contents) \<longleftrightarrow> fm p = Some (into_bytes contents)"
| "change_applied fm p (UpdateChange _ (Some dest) contents) \<longleftrightarrow>
     fm dest = Some (into_bytes contents) \<and> fm p = None"

text \<open>Hunks that touch different files, and no move onto the file itself.\<close>

fun independent_hunks :: "path option \<Rightarrow> path \<Rightarrow> hunk list \<Rightarrow> bool" where
  "independent_hunks home cwd [] = True"
| "independent_hunks home cwd (h # hs) \<longleftrightarrow>
     (case h of
        UpdateFile p (Some dest) _ \<Rightarrow>
          resolve_path_against_base home dest cwd \<noteq> resolve_path_against_base home p cwd
      | _ \<Rightarrow> True)
     \<and> (\<forall>k\<in>set hs. touched home cwd h \<inter> touched home cwd k = {}) \<and> independent_hunks home cwd hs"

lemma hunk_effect_frame:
  "hunk_effect home cwd h fm = Some fm' \<Longrightarrow> q \<notin> touched home cwd h \<Longrightarrow> fm' q = fm q"
  by (cases "(home, cwd, h)" rule: touched.cases) (auto simp: Let_def split: if_splits option.splits)

lemma hunks_effect_frame:
  "hunks_effect home cwd hs fm = Some fm' \<Longrightarrow> q \<notin> \<Union> (touched home cwd ` set hs) \<Longrightarrow> fm' q = fm q"
  by (induction hs arbitrary: fm) (auto simp: bind_eq_Some_conv dest: hunk_effect_frame)

lemma change_applied_cong:
  "\<forall>q\<in>touched home cwd h. fm q = fm' q \<Longrightarrow> hunk_change diff fs home cwd s h = Ok (p, c) \<Longrightarrow>
   change_applied fm p c = change_applied fm' p c"
  by (cases "(home, cwd, h)" rule: touched.cases) (auto simp: Let_def split: result.splits)

lemma verify_hunks_origin:
  "verify_hunks diff fs home cwd s hs cs = Ok cs' \<Longrightarrow> (p, c) \<in> set cs' \<Longrightarrow>
   (p, c) \<in> set cs \<or> (\<exists>h\<in>set hs. hunk_change diff fs home cwd s h = Ok (p, c))"
proof (induction hs arbitrary: cs)
  case (Cons h hs)
  then obtain q k where k: "hunk_change diff fs home cwd s h = Ok (q, k)"
    by (auto split: result.splits)
  with Cons have "(p, c) \<in> set (AList.update q k cs) \<or> (\<exists>h\<in>set hs. hunk_change diff fs home cwd s h = Ok (p, c))"
    by simp
  moreover have "set (AList.update q k cs) \<subseteq> insert (q, k) (set cs)"
    by (induction cs) auto
  ultimately show ?case using k by auto
qed auto

context executor_fs
begin

lemma hunk_change_applied:
  assumes "inv s" and "env_ok home cwd" and c: "hunk_change diff fs home cwd s h = Ok (p, c)"
    and e: "hunk_effect home cwd h fm = Some fm'"
    and agree: "\<forall>q\<in>touched home cwd h. fm q = files (view s) q"
    and "independent_hunks home cwd [h]"
  shows "change_applied fm' p c"
proof (cases h)
  case (UpdateFile q move chunks)
  let ?q = "resolve_path_against_base home q cwd"
  from c UpdateFile obtain orig new where d: "derive_new_contents_from_chunks fs ?q chunks s = Ok (orig, new)"
      and pc: "p = ?q" "c = UpdateChange (diff 1 orig new)
        (map_option (\<lambda>dest. resolve_path_against_base home dest cwd) move) new"
    by (auto simp: unified_diff_from_chunks_def Let_def split: result.splits)
  have "?q \<in> touched home cwd h" using UpdateFile by (cases move) auto
  then have "Option.bind (fm ?q) (updated_bytes ?q chunks) = Some (into_bytes new)"
    using derive_view [OF assms(1) resolve_path_absolute [OF assms(2)] d] agree by simp
  with e UpdateFile pc assms(6) show ?thesis by (cases move) (auto simp: Let_def)
qed (use c e in \<open>auto simp: Let_def split: result.splits if_splits\<close>)

lemma hunks_changes_applied:
  "inv s \<Longrightarrow> env_ok home cwd \<Longrightarrow> hunks_effect home cwd hs fm = Some fm' \<Longrightarrow>
   \<forall>h\<in>set hs. \<forall>q\<in>touched home cwd h. fm q = files (view s) q \<Longrightarrow> independent_hunks home cwd hs \<Longrightarrow>
   h \<in> set hs \<Longrightarrow> hunk_change diff fs home cwd s h = Ok (p, c) \<Longrightarrow> change_applied fm' p c"
proof (induction hs arbitrary: fm)
  case (Cons k ks)
  from Cons.prems(3) obtain fm1 where fm1: "hunk_effect home cwd k fm = Some fm1"
      "hunks_effect home cwd ks fm1 = Some fm'" by (auto simp: bind_eq_Some_conv)
  have dis: "\<forall>h\<in>set ks. touched home cwd k \<inter> touched home cwd h = {}" and "independent_hunks home cwd [k]"
    and ind: "independent_hunks home cwd ks" using Cons.prems(5) by auto
  show ?case
  proof (cases "h \<in> set ks")
    case True
    have "\<forall>h\<in>set ks. \<forall>q\<in>touched home cwd h. fm1 q = files (view s) q"
      using Cons.prems(4) dis hunk_effect_frame [OF fm1(1)] by (metis disjoint_iff list.set_intros(2))
    with Cons.IH [OF Cons.prems(1,2) fm1(2)] ind True Cons.prems(7) show ?thesis by blast
  next
    case False
    with Cons.prems have h: "h = k" by simp
    have "change_applied fm1 p c"
      using hunk_change_applied [OF Cons.prems(1,2,7)] fm1(1) Cons.prems(4)
        \<open>independent_hunks home cwd [k]\<close> h by auto
    moreover have "\<forall>q\<in>touched home cwd h. fm1 q = fm' q"
      using hunks_effect_frame [OF fm1(2)] dis h by fastforce
    ultimately show ?thesis using change_applied_cong [OF _ Cons.prems(7)] by blast
  qed
qed simp

end

section \<open>Properties\<close>


definition approved_patch :: ustr where
  "approved_patch = lit ''*** Begin Patch'' @ [10] @ lit ''*** Update File: f'' @ [10]
     @ lit ''@@'' @ [10] @ lit ''-hi'' @ [10] @ lit ''+ho'' @ [10]
     @ lit ''*** Add File: g'' @ [10] @ lit ''+new'' @ [10] @ lit ''*** End Patch''"

definition no_bash :: extractor where
  "no_bash script = Err CommandDidNotStartWithApplyPatch"

definition no_diff :: "nat \<Rightarrow> ustr \<Rightarrow> ustr \<Rightarrow> ustr" where
  "no_diff n a b = []"


end
