(* ===== verification/Exec_Rule.thy ===== *)
theory Exec_Rule
  imports Paths
begin

text \<open>
  The rules of an execution policy: \<^verbatim>\<open>decision.rs\<close>, \<^verbatim>\<open>error.rs\<close>, \<^verbatim>\<open>executable_name.rs\<close> and \<^verbatim>\<open>rule.rs\<close> of
  \<^verbatim>\<open>src/execpolicy/src\<close>. Decisions are ordered by severity, as \<^verbatim>\<open>#[derive(Ord)]\<close> orders them by
  position. An error that quotes a rule or an example carries the rule or the tokens instead of
  their rendering. Commands are lists of tokens.
\<close>

section \<open>Decisions\<close>

datatype decision = Allow | Prompt | Forbidden

fun severity :: "decision \<Rightarrow> nat" where
  "severity Allow = 0"
| "severity Prompt = 1"
| "severity Forbidden = 2"

lemma severity_inj: "severity a = severity b \<longleftrightarrow> a = b"
  by (cases a; cases b) auto

instantiation decision :: linorder
begin

definition less_eq_decision :: "decision \<Rightarrow> decision \<Rightarrow> bool" where
  "less_eq_decision a b \<longleftrightarrow> severity a \<le> severity b"

definition less_decision :: "decision \<Rightarrow> decision \<Rightarrow> bool" where
  "less_decision a b \<longleftrightarrow> severity a < severity b"

instance
  by standard (auto simp: less_eq_decision_def less_decision_def severity_inj [symmetric])

end

lemma decision_bounds [simp]: "Allow \<le> d" "d \<le> Forbidden"
  by (cases d; simp add: less_eq_decision_def)+

section \<open>Prefix rules\<close>

datatype pattern_token = TokSingle ustr | TokAlts "ustr list"

fun token_matches :: "pattern_token \<Rightarrow> ustr \<Rightarrow> bool" where
  "token_matches (TokSingle expected) token \<longleftrightarrow> expected = token"
| "token_matches (TokAlts alternatives) token \<longleftrightarrow> list_ex (\<lambda>alt. alt = token) alternatives"

fun token_alternatives :: "pattern_token \<Rightarrow> ustr list" where
  "token_alternatives (TokSingle expected) = [expected]"
| "token_alternatives (TokAlts alternatives) = alternatives"

lemma token_matches_alternatives: "token_matches = (\<lambda>tok arg. arg \<in> set (token_alternatives tok))"
proof (intro ext)
  fix tok arg show "token_matches tok arg = (arg \<in> set (token_alternatives tok))"
    by (cases tok) (auto simp: list_ex_iff)
qed

record prefix_pattern =
  pat_first :: ustr
  pat_rest :: "pattern_token list"

definition matches_prefix :: "prefix_pattern \<Rightarrow> ustr list \<Rightarrow> ustr list option" where
  "matches_prefix pat cmd =
     (let pattern_length = length (pat_rest pat) + 1
      in if length cmd < pattern_length \<or> cmd ! 0 \<noteq> pat_first pat then None
         else if list_all (\<lambda>(pattern_token, cmd_token). token_matches pattern_token cmd_token)
                   (zip (pat_rest pat) (take (pattern_length - 1) (drop 1 cmd)))
         then Some (take pattern_length cmd)
         else None)"

datatype rule_match =
    PrefixRuleMatch "ustr list" decision "path option" "ustr option"
  | HeuristicsRuleMatch "ustr list" decision

fun match_decision :: "rule_match \<Rightarrow> decision" where
  "match_decision (PrefixRuleMatch _ d _ _) = d"
| "match_decision (HeuristicsRuleMatch _ d) = d"

fun with_resolved_program :: "path \<Rightarrow> rule_match \<Rightarrow> rule_match" where
  "with_resolved_program program (PrefixRuleMatch matched_prefix d _ justification) =
     PrefixRuleMatch matched_prefix d (Some program) justification"
| "with_resolved_program program other = other"

lemma match_decision_resolved [simp]: "match_decision (with_resolved_program p m) = match_decision m"
  by (cases m) auto

record prefix_rule =
  rule_pattern :: prefix_pattern
  rule_decision :: decision
  rule_justification :: "ustr option"

text \<open>\<^verbatim>\<open>impl Rule for PrefixRule\<close>.\<close>

definition rule_program :: "prefix_rule \<Rightarrow> ustr" where
  "rule_program rule = pat_first (rule_pattern rule)"

definition rule_matches :: "prefix_rule \<Rightarrow> ustr list \<Rightarrow> rule_match option" where
  "rule_matches rule cmd =
     map_option (\<lambda>matched_prefix.
         PrefixRuleMatch matched_prefix (rule_decision rule) None (rule_justification rule))
       (matches_prefix (rule_pattern rule) cmd)"

section \<open>Errors\<close>

datatype exec_error =
    InvalidDecision ustr
  | InvalidPattern ustr
  | InvalidExample ustr
  | InvalidRule ustr
  | ExampleDidNotMatch "prefix_rule list" "ustr list list"
  | ExampleDidMatch rule_match "ustr list"
  | Starlark ustr

definition parse_decision :: "ustr \<Rightarrow> (exec_error, decision) result" where
  "parse_decision raw =
     (if raw = lit ''allow'' then Ok Allow
      else if raw = lit ''prompt'' then Ok Prompt
      else if raw = lit ''forbidden'' then Ok Forbidden
      else Err (InvalidDecision raw))"

section \<open>The rule interface\<close>

text \<open>
  What the policy relies on for every implementation of the trait \<^verbatim>\<open>Rule\<close>: a rule only matches
  commands of its own program, so that the index by program misses nothing.
\<close>

locale command_rule =
  fixes program :: "'r \<Rightarrow> ustr"
    and rmatches :: "'r \<Rightarrow> ustr list \<Rightarrow> 'm option"
  assumes matches_program: "rmatches r cmd = Some m \<Longrightarrow> cmd \<noteq> [] \<and> hd cmd = program r"
begin

lemma no_match_other_program: "cmd = [] \<or> hd cmd \<noteq> program r \<Longrightarrow> rmatches r cmd = None"
  using matches_program by (cases "rmatches r cmd") auto

end

lemma matches_prefix_Some:
  "matches_prefix pat cmd = Some p \<longleftrightarrow>
     (\<exists>rest extra. cmd = pat_first pat # rest @ extra \<and> list_all2 token_matches (pat_rest pat) rest
        \<and> p = pat_first pat # rest)"
proof
  let ?n = "length (pat_rest pat)"
  assume m: "matches_prefix pat cmd = Some p"
  then obtain c cs where cmd: "cmd = c # cs" by (cases cmd) (auto simp: matches_prefix_def)
  with m have "?n \<le> length cs" "c = pat_first pat" "p = c # take ?n cs"
      "list_all (\<lambda>(a, b). token_matches a b) (zip (pat_rest pat) (take ?n cs))"
    by (auto simp: matches_prefix_def Let_def split: if_splits)
  then show "\<exists>rest extra. cmd = pat_first pat # rest @ extra \<and> list_all2 token_matches (pat_rest pat) rest
        \<and> p = pat_first pat # rest"
    by (intro exI [of _ "take ?n cs"] exI [of _ "drop ?n cs"])
      (auto simp: cmd list_all2_iff list_all_iff)
next
  assume "\<exists>rest extra. cmd = pat_first pat # rest @ extra \<and> list_all2 token_matches (pat_rest pat) rest
        \<and> p = pat_first pat # rest"
  then show "matches_prefix pat cmd = Some p"
    by (auto simp: matches_prefix_def list_all2_iff list_all_iff Let_def)
qed

interpretation prefix_rules: command_rule rule_program rule_matches
  by unfold_locales (auto simp: rule_matches_def rule_program_def matches_prefix_Some)

section \<open>Network rules\<close>

datatype network_rule_protocol = Http | Https | Socks5Tcp | Socks5Udp

definition parse_protocol :: "ustr \<Rightarrow> (exec_error, network_rule_protocol) result" where
  "parse_protocol raw =
     (if raw = lit ''http'' then Ok Http
      else if raw = lit ''https'' \<or> raw = lit ''https_connect'' \<or> raw = lit ''http-connect'' then Ok Https
      else if raw = lit ''socks5_tcp'' then Ok Socks5Tcp
      else if raw = lit ''socks5_udp'' then Ok Socks5Udp
      else Err (InvalidRule (lit
        ''network_rule protocol must be one of http, https, socks5_tcp, socks5_udp (got '' @ raw @ lit '')'')))"

fun as_policy_string :: "network_rule_protocol \<Rightarrow> ustr" where
  "as_policy_string Http = lit ''http''"
| "as_policy_string Https = lit ''https''"
| "as_policy_string Socks5Tcp = lit ''socks5_tcp''"
| "as_policy_string Socks5Udp = lit ''socks5_udp''"

record network_rule =
  net_host :: ustr
  net_protocol :: network_rule_protocol
  net_decision :: decision
  net_justification :: "ustr option"

text \<open>The host without brackets and port.\<close>

definition strip_host_port :: "ustr \<Rightarrow> ustr \<Rightarrow> (exec_error, ustr) result" where
  "strip_host_port raw host =
     (case strip_prefix host (lit ''['') of
        Some stripped \<Rightarrow>
          (case split_once 93 stripped of
             None \<Rightarrow> Err (InvalidRule (lit ''network_rule host has an invalid bracketed IPv6 literal''))
           | Some (inside, rest) \<Rightarrow>
               (let port_ok = (case strip_prefix rest (lit '':'') of Some port \<Rightarrow> all_digits port | None \<Rightarrow> False)
                in if rest \<noteq> [] \<and> \<not> port_ok
                   then Err (InvalidRule (lit ''network_rule host contains an unsupported suffix: '' @ raw))
                   else Ok inside))
      | None \<Rightarrow>
          Ok (if length (filter (\<lambda>c. c = 58) host) = 1
              then case rsplit_once 58 host of
                     Some (candidate, port) \<Rightarrow>
                       if candidate \<noteq> [] \<and> all_digits port then candidate else host
                   | None \<Rightarrow> host
              else host))"

definition normalize_network_rule_host :: "ustr \<Rightarrow> (exec_error, ustr) result" where
  "normalize_network_rule_host raw =
     (let host = trim raw
      in if host = [] then Err (InvalidRule (lit ''network_rule host cannot be empty''))
         else if contains_sub host (lit ''://'') \<or> 47 \<in> set host \<or> 63 \<in> set host \<or> 35 \<in> set host then
           Err (InvalidRule (lit ''network_rule host must be a hostname or IP literal (without scheme or path)''))
         else case strip_host_port raw host of
           Err e \<Rightarrow> Err e
         | Ok host \<Rightarrow>
             (let normalized = to_ascii_lowercase (trim (trim_end_matches (\<lambda>c. c = 46) host))
              in if normalized = [] then Err (InvalidRule (lit ''network_rule host cannot be empty''))
                 else if 42 \<in> set normalized then
                   Err (InvalidRule (lit ''network_rule host must be a specific host; wildcards are not allowed''))
                 else if list_ex is_whitespace normalized then
                   Err (InvalidRule (lit ''network_rule host cannot contain whitespace''))
                 else Ok normalized))"

section \<open>Names of executables\<close>

text \<open>\<^verbatim>\<open>executable_lookup_key\<close> on a target that is not Windows, and the key of a path.\<close>

definition executable_lookup_key :: "ustr \<Rightarrow> ustr" where
  "executable_lookup_key raw = raw"

definition executable_path_lookup_key :: "path \<Rightarrow> ustr option" where
  "executable_path_lookup_key p = map_option executable_lookup_key (path_file_name p)"

section \<open>Properties\<close>

text \<open>
  a prefix rule matches exactly the commands whose first token is its program and whose next
  tokens are each among the alternatives of the corresponding pattern token; the match reports the
  matched tokens, however long the rest of the command is.
\<close>

theorem rule_matches_iff:
  "rule_matches rule cmd = Some m \<longleftrightarrow>
     (\<exists>rest extra. cmd = rule_program rule # rest @ extra
        \<and> list_all2 (\<lambda>tok arg. arg \<in> set (token_alternatives tok)) (pat_rest (rule_pattern rule)) rest
        \<and> m = PrefixRuleMatch (rule_program rule # rest) (rule_decision rule) None (rule_justification rule))"
  by (auto simp: rule_matches_def matches_prefix_Some rule_program_def token_matches_alternatives)

lemma set_strip_host_port:
  assumes "strip_host_port raw host = Ok h"
  shows "set h \<subseteq> set host"
proof -
  have so: "set a \<subseteq> set s \<and> set b \<subseteq> set s" if "split_once c s = Some (a, b)" for c :: int and s a b
    using that by (auto simp: split_once_def dest: set_takeWhileD set_dropWhileD list.set_sel(2) split: if_splits)
      (metis list.set_sel(2) list.sel(2) set_dropWhileD)
  have rso: "set a \<subseteq> set s" if "rsplit_once c s = Some (a, b)" for c :: int and s a b
    using that so by (fastforce simp: rsplit_once_def)
  show ?thesis
  proof (cases "strip_prefix host (lit ''['')")
    case (Some stripped)
    then have "set stripped \<subseteq> set host" by (auto simp: strip_prefix_Some)
    with Some assms so show ?thesis
      by (fastforce simp: strip_host_port_def Let_def split: option.splits prod.splits if_splits)
  next
    case None
    with assms rso show ?thesis
      by (auto simp: strip_host_port_def split: option.splits prod.splits if_splits)
  qed
qed

text \<open>
  a network host that the policy accepts is a plain name: it is not empty, has no white space,
  no upper-case ASCII letter, no wildcard, and none of the characters of a path, a query or a
  fragment, so a rule can never be read as a URL or a pattern.
\<close>

theorem normalize_network_rule_host_plain:
  assumes "normalize_network_rule_host raw = Ok host"
  shows "host \<noteq> [] \<and> (\<forall>c\<in>set host. \<not> is_whitespace c \<and> \<not> (65 \<le> c \<and> c \<le> 90)
    \<and> c \<noteq> 42 \<and> c \<noteq> 47 \<and> c \<noteq> 63 \<and> c \<noteq> 35)"
proof -
  from assms obtain h where h: "strip_host_port raw (trim raw) = Ok h"
      "host = to_ascii_lowercase (trim (trim_end_matches (\<lambda>c. c = 46) h))"
    and ok: "47 \<notin> set (trim raw)" "63 \<notin> set (trim raw)" "35 \<notin> set (trim raw)"
      "host \<noteq> []" "42 \<notin> set host" "\<not> list_ex is_whitespace host"
    by (auto simp: normalize_network_rule_host_def Let_def split: if_splits result.splits)
  have sub: "set (trim (trim_end_matches (\<lambda>c. c = 46) h)) \<subseteq> set (trim raw)"
    using set_trim set_trim_end_matches set_strip_host_port [OF h(1)] by (meson subset_trans)
  show ?thesis
  proof (intro conjI ballI)
    fix c assume c: "c \<in> set host"
    then obtain x where x: "x \<in> set (trim raw)" "c = to_ascii_lowercase_char x"
      using sub h(2) by (auto simp: to_ascii_lowercase_def)
    show "\<not> is_whitespace c" "c \<noteq> 42" using ok c by (auto simp: list_ex_iff)
    show "\<not> (65 \<le> c \<and> c \<le> 90)" using x(2) by (auto simp: to_ascii_lowercase_char_def split: if_splits)
    show "c \<noteq> 47" "c \<noteq> 63" "c \<noteq> 35"
      using x ok by (auto simp: to_ascii_lowercase_char_def split: if_splits)
  qed (use ok in simp)
qed

theorem normalize_network_rule_host_plain_witness:
  "normalize_network_rule_host (lit '' API.Example.COM.:443 '') = (Ok (lit ''api.example.com'') :: (exec_error, ustr) result)
   \<and> list_all (\<lambda>c. \<not> is_whitespace c \<and> c \<noteq> 42) (lit ''api.example.com'')"
proof -
  have e: "normalize_network_rule_host (lit '' API.Example.COM.:443 '')
      = (Ok (lit ''api.example.com'') :: (exec_error, ustr) result)" by code_simp
  show ?thesis using normalize_network_rule_host_plain [OF e] e unfolding list_all_iff by blast
qed

end
