(* ===== verification/Policy_Amend.thy ===== *)
theory Policy_Amend
  imports Exec_Rule File_System
begin

text \<open>
  Appending rules to a policy file (\<^verbatim>\<open>src/execpolicy/src/amend.rs\<close>), over the disk of
  \<open>File_System\<close>. The file lock makes reading, checking and appending one step, which is how the
  function is modelled. \<^verbatim>\<open>serde_json::to_string\<close> on a string is the parameter \<open>json\<close>; what the code
  relies on is that JSON escapes line feeds.
\<close>

section \<open>Definitions\<close>

datatype amend_error =
    EmptyPrefix
  | InvalidNetworkRule ustr
  | MissingParent path
  | CreatePolicyDir path io_error
  | SerializePrefix
  | SerializeNetworkRule
  | OpenPolicyFile path io_error
  | WritePolicyFile path io_error
  | LockPolicyFile path io_error
  | SeekPolicyFile path io_error
  | ReadPolicyFile path io_error
  | PolicyMetadata path io_error

type_synonym json = "ustr \<Rightarrow> (unit, ustr) result"

text \<open>\<^verbatim>\<open>OpenOptions::new().create(true).read(true).append(true).open(path)\<close>.\<close>

definition std_open_append :: "path \<Rightarrow> disk \<Rightarrow> (io_error, byte list) result \<times> disk" where
  "std_open_append p d =
     (case walk d p of
        Err e \<Rightarrow> (Err e, d)
      | Ok (Some Dir) \<Rightarrow> (Err (os_error IsADirectory), d)
      | Ok (Some (File bytes)) \<Rightarrow> (Ok bytes, d)
      | Ok None \<Rightarrow> (Ok [], AList.update p (File []) d))"

text \<open>The bytes that are written after the contents that were read.\<close>

definition appended_text :: "ustr \<Rightarrow> ustr \<Rightarrow> ustr" where
  "appended_text contents line =
     (if line \<in> set (str_lines contents) then []
      else (if contents \<noteq> [] \<and> \<not> ends_with contents [newline] then [newline] else []) @ line @ [newline])"

definition append_locked_line :: "path \<Rightarrow> ustr \<Rightarrow> disk \<Rightarrow> (amend_error, unit) result \<times> disk" where
  "append_locked_line policy_path line d =
     (case std_open_append policy_path d of
        (Err e, d') \<Rightarrow> (Err (OpenPolicyFile policy_path e), d')
      | (Ok bytes, d') \<Rightarrow>
          (case from_utf8 bytes of
             Err e \<Rightarrow> (Err (ReadPolicyFile policy_path
                        \<lparr>err_kind = InvalidData, err_message = lit ''stream did not contain valid UTF-8''\<rparr>), d')
           | Ok contents \<Rightarrow>
               (Ok (), if line \<in> set (str_lines contents) then d'
                       else AList.update policy_path
                              (File (bytes @ into_bytes (appended_text contents line))) d')))"

definition append_rule_line :: "path \<Rightarrow> ustr \<Rightarrow> disk \<Rightarrow> (amend_error, unit) result \<times> disk" where
  "append_rule_line policy_path rule d =
     (case path_parent policy_path of
        None \<Rightarrow> (Err (MissingParent policy_path), d)
      | Some dir \<Rightarrow>
          (case std_mkdir dir d of
             (Ok _, d') \<Rightarrow> append_locked_line policy_path rule d'
           | (Err e, d') \<Rightarrow>
               if err_kind e = AlreadyExists then append_locked_line policy_path rule d'
               else (Err (CreatePolicyDir dir e), d')))"

definition allow_prefix_rule_line :: "json \<Rightarrow> ustr list \<Rightarrow> (amend_error, ustr) result" where
  "allow_prefix_rule_line json pre =
     (if pre = [] then Err EmptyPrefix
      else case collect_results json pre of
             Err _ \<Rightarrow> Err SerializePrefix
           | Ok tokens \<Rightarrow>
               Ok (lit ''prefix_rule(pattern=['' @ join (lit '', '') tokens @ lit ''], decision=''
                   @ [34] @ lit ''allow'' @ [34] @ lit '')''))"

definition blocking_append_allow_prefix_rule ::
  "json \<Rightarrow> path \<Rightarrow> ustr list \<Rightarrow> disk \<Rightarrow> (amend_error, unit) result \<times> disk" where
  "blocking_append_allow_prefix_rule json policy_path pre d =
     (case allow_prefix_rule_line json pre of
        Err e \<Rightarrow> (Err e, d)
      | Ok rule \<Rightarrow> append_rule_line policy_path rule d)"

fun decision_word :: "decision \<Rightarrow> ustr" where
  "decision_word Allow = lit ''allow''"
| "decision_word Prompt = lit ''prompt''"
| "decision_word Forbidden = lit ''deny''"

text \<open>The text of an \<^verbatim>\<open>InvalidRule\<close> error, the only kind that normalising a host gives.\<close>

definition host_error_message :: "exec_error \<Rightarrow> ustr" where
  "host_error_message e = (case e of InvalidRule m \<Rightarrow> lit ''invalid rule: '' @ m | _ \<Rightarrow> [])"

definition network_rule_line ::
  "json \<Rightarrow> ustr \<Rightarrow> network_rule_protocol \<Rightarrow> decision \<Rightarrow> ustr option \<Rightarrow> (amend_error, ustr) result" where
  "network_rule_line json host protocol d justification =
     (case normalize_network_rule_host host of
        Err e \<Rightarrow> Err (InvalidNetworkRule (host_error_message e))
      | Ok host \<Rightarrow>
          if (case justification of Some raw \<Rightarrow> trim raw = [] | None \<Rightarrow> False)
          then Err (InvalidNetworkRule (lit ''justification cannot be empty''))
          else
            (case collect_results json
                    ([host, as_policy_string protocol, decision_word d]
                     @ (case justification of Some j \<Rightarrow> [j] | None \<Rightarrow> [])) of
               Err _ \<Rightarrow> Err SerializeNetworkRule
             | Ok vs \<Rightarrow>
                 Ok (lit ''network_rule('' @ join (lit '', '')
                   (map (\<lambda>(k, v). k @ v)
                     (zip [lit ''host='', lit ''protocol='', lit ''decision='', lit ''justification=''] vs))
                   @ lit '')'')))"

definition blocking_append_network_rule ::
  "json \<Rightarrow> path \<Rightarrow> ustr \<Rightarrow> network_rule_protocol \<Rightarrow> decision \<Rightarrow> ustr option \<Rightarrow> disk
     \<Rightarrow> (amend_error, unit) result \<times> disk" where
  "blocking_append_network_rule json policy_path host protocol d justification disk =
     (case network_rule_line json host protocol d justification of
        Err e \<Rightarrow> (Err e, disk)
      | Ok rule \<Rightarrow> append_rule_line policy_path rule disk)"

section \<open>Lines of an amended file\<close>

lemma split_char_append: "split_char c (xs @ c # ys) = split_char c xs @ split_char c ys"
proof (induction xs)
  case (Cons x xs)
  obtain p ps where "split_char c xs = p # ps" by (meson list.exhaust split_char_nonempty)
  with Cons show ?case by simp
qed simp

lemma str_lines_terminated: "str_lines (xs @ [newline]) = map strip_cr (split_char newline xs)"
  by (simp add: str_lines_def split_char_append)

lemma last_split_char: "xs \<noteq> [] \<Longrightarrow> last xs \<noteq> c \<Longrightarrow> last (split_char c xs) \<noteq> [] \<and> last (last (split_char c xs)) = last xs"
proof (induction xs)
  case (Cons x xs)
  obtain p ps where ps: "split_char c xs = p # ps" by (meson list.exhaust split_char_nonempty)
  show ?case
  proof (cases "xs = []")
    case False
    with Cons ps show ?thesis by (auto split: if_splits)
  qed (use Cons in simp)
qed simp

lemma str_lines_open_end:
  assumes "xs \<noteq> []" and "last xs \<noteq> newline" and "last xs \<noteq> carriage_return"
  shows "str_lines (xs @ [newline]) = str_lines xs"
proof -
  let ?ps = "split_char newline xs"
  have l: "last ?ps \<noteq> []" "last (last ?ps) \<noteq> carriage_return"
    using last_split_char [OF assms(1,2)] assms(3) by simp_all
  have "map strip_cr ?ps = map strip_cr (butlast ?ps) @ [strip_cr (last ?ps)]"
    by (metis append_butlast_last_id list.map(1) list.map(2) map_append split_char_nonempty)
  also have "strip_cr (last ?ps) = last ?ps" using l by (intro strip_cr_id) simp
  finally show ?thesis using l(1) by (simp add: str_lines_terminated) (simp add: str_lines_def Let_def)
qed

text \<open>A line added after contents that end with a line feed, or after no contents.\<close>

lemma str_lines_add:
  assumes "plain_line line" and "xs = [] \<or> last xs = newline"
  shows "str_lines (xs @ line @ [newline]) = str_lines xs @ [line]"
proof -
  have line: "split_char newline line = [line]" "strip_cr line = line"
    using assms(1) by (auto simp: plain_line_def split_char_free intro: strip_cr_id)
  show ?thesis
  proof (cases xs rule: rev_cases)
    case Nil
    then show ?thesis using line str_lines_terminated [of line] by (simp add: str_lines_def)
  next
    case (snoc ys y)
    with assms(2) have xs: "xs = ys @ [newline]" by simp
    then have "str_lines (xs @ line @ [newline]) = map strip_cr (split_char newline ys @ [line])"
      using str_lines_terminated [of "ys @ newline # line"] line by (simp add: split_char_append)
    then show ?thesis using line xs by (simp add: str_lines_terminated)
  qed
qed

text \<open>The lines of a policy file after a rule has been appended.\<close>

lemma str_lines_appended:
  assumes "plain_line line" and "contents = [] \<or> last contents \<noteq> carriage_return"
  shows "str_lines (contents @ appended_text contents line) =
    (if line \<in> set (str_lines contents) then str_lines contents else str_lines contents @ [line])"
proof (cases "contents \<noteq> [] \<and> last contents \<noteq> newline")
  case True
  then have "\<not> ends_with contents [newline]" by (auto simp: suffix_def)
  moreover have "str_lines ((contents @ [newline]) @ line @ [newline]) = str_lines (contents @ [newline]) @ [line]"
    using assms(1) by (intro str_lines_add) simp_all
  moreover have "str_lines (contents @ [newline]) = str_lines contents"
    using True assms(2) by (intro str_lines_open_end) auto
  ultimately show ?thesis using True by (simp add: appended_text_def)
next
  case False
  then have "contents = [] \<or> ends_with contents [newline]"
    by (cases contents rule: rev_cases) auto
  then show ?thesis
    using str_lines_add [OF assms(1), of contents] False by (auto simp: appended_text_def)
qed

lemma appended_line_present:
  assumes "plain_line line"
  shows "line \<in> set (str_lines (contents @ appended_text contents line))"
proof (cases "line \<in> set (str_lines contents)")
  case False
  define xs where "xs = contents @ (if contents \<noteq> [] \<and> \<not> ends_with contents [newline] then [newline] else [])"
  have "xs = [] \<or> last xs = newline" by (auto simp: xs_def suffix_def)
  from str_lines_add [OF assms this] show ?thesis
    using False by (simp add: appended_text_def xs_def split: if_splits)
qed (simp add: appended_text_def)

section \<open>The file\<close>

text \<open>The text of a file, empty when there is none.\<close>

definition file_text :: "disk \<Rightarrow> path \<Rightarrow> ustr option" where
  "file_text d p =
     (case lookup d p of
        Some (File bytes) \<Rightarrow> (case from_utf8 bytes of Ok t \<Rightarrow> Some t | Err _ \<Rightarrow> None)
      | Some Dir \<Rightarrow> None
      | None \<Rightarrow> Some [])"

lemma append_locked_line_effect:
  assumes "wf_disk d" and "absolute_path p" and "valid_str line"
    and run: "append_locked_line p line d = (Ok (), d')"
  shows "wf_disk d' \<and> p \<noteq> [RootDir] \<and> (\<exists>t. file_text d p = Some t \<and> valid_str t
    \<and> lookup d' = (lookup d)(p \<mapsto> File (into_bytes (t @ appended_text t line))))"
proof -
  obtain bytes d1 where o: "std_open_append p d = (Ok bytes, d1)"
    using run by (auto simp: append_locked_line_def split: prod.splits result.splits)
  then obtain n where w: "walk d p = Ok n"
    by (auto simp: std_open_append_def split: result.splits)
  note wn = walk_Ok [OF assms(1,2), THEN iffD1, OF w]
  have ne: "p \<noteq> [RootDir]" using o w wn
    by (auto simp: std_open_append_def)
  then have dir: "lookup d (butlast p) = Some Dir" using wn by simp
  have b: "lookup d p = Some (File bytes) \<and> d1 = d
      \<or> lookup d p = None \<and> bytes = [] \<and> d1 = AList.update p (File []) d"
    using o w wn by (auto simp: std_open_append_def split: option.splits node.splits)
  obtain t where t: "from_utf8 bytes = Ok t" "d' = (if line \<in> set (str_lines t) then d1
      else AList.update p (File (bytes @ into_bytes (appended_text t line))) d1)"
    using run o by (auto simp: append_locked_line_def split: result.splits)
  note v = from_utf8_Ok [OF t(1)]
  have l1: "lookup d1 = (lookup d)(p \<mapsto> File bytes)" using b ne by auto
  have wf1: "wf_disk d1" using b wf_disk_update [OF assms(1,2) ne dir] assms(1) by auto
  have "butlast p \<noteq> p" using absolute_path_butlast [OF assms(2) ne] by (auto dest: arg_cong [of _ _ length])
  then have "wf_disk (AList.update p (File (bytes @ into_bytes (appended_text t line))) d1)"
    using l1 dir by (intro wf_disk_update wf1 assms ne) auto
  moreover have "file_text d p = Some t" using b t(1) v by (auto simp: file_text_def from_utf8_def)
  moreover have "appended_text t line = []" if "line \<in> set (str_lines t)"
    using that by (simp add: appended_text_def)
  ultimately show ?thesis
    using t(2) l1 wf1 ne v by (cases "line \<in> set (str_lines t)") auto
qed

lemma append_locked_line_again:
  assumes "wf_disk d" and "absolute_path p" and "p \<noteq> [RootDir]"
    and "lookup d p = Some (File (into_bytes t))" and "valid_str t" and "line \<in> set (str_lines t)"
  shows "append_rule_line p line d = (Ok (), d)"
proof -
  have parent: "path_parent p = Some (butlast p)" "absolute_path (butlast p)"
    using assms(2,3) by (cases p rule: rev_cases; auto simp: absolute_path_snoc)+
  note dir = wf_disk_parent [OF assms(1,4,3)]
  have "walk d (butlast p) = Ok (Some Dir)"
    using std_metadata_Ok [OF assms(1) parent(2), of Dir] dir
    by (auto simp: std_metadata_def split: result.splits option.splits)
  then have "std_mkdir (butlast p) d = (Err (os_error AlreadyExists), d)" by (simp add: std_mkdir_def)
  moreover have "walk d p = Ok (Some (File (into_bytes t)))"
    using walk_Ok [OF assms(1,2)] dir assms(4) by simp
  ultimately show ?thesis
    using assms(5,6) parent(1) by (simp add: append_rule_line_def append_locked_line_def std_open_append_def)
qed

lemma append_rule_line_effect:
  assumes "wf_disk d" and "absolute_path p" and "valid_str line" and "plain_line line"
    and run: "append_rule_line p line d = (Ok (), d')"
  shows "\<exists>t. file_text d p = Some t \<and> lookup d' p = Some (File (into_bytes (t @ appended_text t line)))
    \<and> append_rule_line p line d' = (Ok (), d')"
proof -
  from run obtain dir d1 r where m: "path_parent p = Some dir" "std_mkdir dir d = (r, d1)"
      "append_locked_line p line d1 = (Ok (), d')"
    by (auto simp: append_rule_line_def split: option.splits prod.splits result.splits if_splits)
  note parent = absolute_path_parent [OF assms(2) m(1)]
  note mk = std_mkdir_adds [OF assms(1) conjunct1 [OF parent] m(2)]
  have "lookup d1 p = lookup d p"
    using mk parent by (auto simp: adds_dirs_def dest!: spec [of _ p] prefix_length_le)
  then have ft: "file_text d1 p = file_text d p" by (simp add: file_text_def)
  obtain t where t: "wf_disk d'" "p \<noteq> [RootDir]" "file_text d1 p = Some t" "valid_str t"
      "lookup d' = (lookup d1)(p \<mapsto> File (into_bytes (t @ appended_text t line)))"
    using append_locked_line_effect [OF conjunct1 [OF mk] assms(2,3) m(3)] by blast
  have "valid_str (t @ appended_text t line)"
    using t(4) assms(3) by (auto simp: appended_text_def is_scalar_def)
  then have "append_rule_line p line d' = (Ok (), d')"
    using t(5) appended_line_present [OF assms(4)]
    by (intro append_locked_line_again [OF t(1) assms(2) t(2), where t = "t @ appended_text t line"]) auto
  with t ft show ?thesis by auto
qed

text \<open>What the code relies on: JSON strings are valid text without line feeds.\<close>

definition json_safe :: "json \<Rightarrow> bool" where
  "json_safe json \<longleftrightarrow> (\<forall>s t. json s = Ok t \<longrightarrow> newline \<notin> set t \<and> valid_str t)"

lemma list_all_join: "list_all P sep \<Longrightarrow> list_all (list_all P) ps \<Longrightarrow> list_all P (join sep ps)"
  by (induction sep ps rule: join.induct) auto

lemma list_all_zip_append:
  "list_all (list_all P) ks \<Longrightarrow> list_all (list_all P) vs \<Longrightarrow>
   list_all (list_all P) (map (\<lambda>(k, v). k @ v) (zip ks vs))"
  by (induction ks vs rule: list_induct2') auto

lemma collect_results_json:
  assumes "json_safe json" and "collect_results json ss = Ok ts"
  shows "list_all (list_all (\<lambda>c. is_scalar c \<and> c \<noteq> newline)) ts"
proof -
  have "list_all2 (\<lambda>s t. json s = Ok t) ss ts" using assms(2) by (simp add: collect_results_Ok)
  then show ?thesis
    by (induction rule: list_all2_induct) (use assms(1) in \<open>auto simp: json_safe_def list_all_iff\<close>)
qed

definition rule_line_ok :: "ustr \<Rightarrow> bool" where
  "rule_line_ok line \<longleftrightarrow> valid_str line \<and> plain_line line"

lemma rule_line_okI:
  "list_all (\<lambda>c. is_scalar c \<and> c \<noteq> newline) line \<Longrightarrow> line \<noteq> [] \<Longrightarrow> last line \<noteq> carriage_return \<Longrightarrow>
   rule_line_ok line"
  by (auto simp: rule_line_ok_def plain_line_def list_all_iff)

lemma allow_prefix_rule_line_ok:
  assumes "json_safe json" and "allow_prefix_rule_line json pre = Ok rule"
  shows "rule_line_ok rule"
proof -
  from assms(2) obtain tokens where t: "collect_results json pre = Ok tokens"
      "rule = lit ''prefix_rule(pattern=['' @ join (lit '', '') tokens @ lit ''], decision=''
                   @ [34] @ lit ''allow'' @ [34] @ lit '')''"
    by (auto simp: allow_prefix_rule_line_def split: if_splits result.splits)
  have "list_all (\<lambda>c. is_scalar c \<and> c \<noteq> newline) (join (lit '', '') tokens)"
    using collect_results_json [OF assms(1) t(1)] by (intro list_all_join) (simp_all add: is_scalar_def)
  then show ?thesis unfolding t(2) by (intro rule_line_okI) (simp_all add: is_scalar_def)
qed

lemma network_rule_line_ok:
  assumes "json_safe json" and "network_rule_line json host protocol d justification = Ok rule"
  shows "rule_line_ok rule"
proof -
  let ?keys = "[lit ''host='', lit ''protocol='', lit ''decision='', lit ''justification='']"
  obtain ss vs where t: "collect_results json ss = Ok vs"
      "rule = lit ''network_rule('' @ join (lit '', '') (map (\<lambda>(k, v). k @ v) (zip ?keys vs)) @ lit '')''"
    using assms(2) unfolding network_rule_line_def
    by (simp only: result.simps split: if_split_asm result.split_asm)
  have "list_all (list_all (\<lambda>c. is_scalar c \<and> c \<noteq> newline)) ?keys" by (simp add: is_scalar_def)
  then have "list_all (list_all (\<lambda>c. is_scalar c \<and> c \<noteq> newline)) (map (\<lambda>(k, v). k @ v) (zip ?keys vs))"
    using collect_results_json [OF assms(1) t(1)] by (rule list_all_zip_append)
  then have "list_all (\<lambda>c. is_scalar c \<and> c \<noteq> newline) (join (lit '', '') (map (\<lambda>(k, v). k @ v) (zip ?keys vs)))"
    by (intro list_all_join) (simp_all add: is_scalar_def)
  then show ?thesis unfolding t(2) by (intro rule_line_okI) (simp_all add: is_scalar_def)
qed

section \<open>Properties\<close>

text \<open>
  C37: after a rule has been appended to a policy file, the file holds its earlier text followed by
  at most the new line, the rule is one of its lines, and appending the same rule again changes
  nothing: approving a command twice does not grow the file.
\<close>

theorem append_allow_prefix_rule_idempotent:
  assumes "wf_disk d" and "absolute_path policy_path" and "json_safe json"
    and "blocking_append_allow_prefix_rule json policy_path pre d = (Ok (), d')"
  shows "\<exists>rule old. allow_prefix_rule_line json pre = Ok rule \<and> file_text d policy_path = Some old
    \<and> lookup d' policy_path = Some (File (into_bytes (old @ appended_text old rule)))
    \<and> rule \<in> set (str_lines (old @ appended_text old rule))
    \<and> blocking_append_allow_prefix_rule json policy_path pre d' = (Ok (), d')"
proof -
  from assms(4) obtain rule where r: "allow_prefix_rule_line json pre = Ok rule"
      "append_rule_line policy_path rule d = (Ok (), d')"
    by (auto simp: blocking_append_allow_prefix_rule_def split: result.splits)
  have ok: "valid_str rule" "plain_line rule"
    using allow_prefix_rule_line_ok [OF assms(3) r(1)] by (simp_all add: rule_line_ok_def)
  from append_rule_line_effect [OF assms(1,2) ok r(2)] show ?thesis
    using r(1) appended_line_present [OF ok(2)]
    by (auto simp: blocking_append_allow_prefix_rule_def)
qed

text \<open>JSON strings of text without control characters other than line feeds.\<close>

definition quote_json :: json where
  "quote_json s = (if list_all is_scalar s then
     Ok ([34] @ concat (map (\<lambda>c. if c = 34 \<or> c = 92 then [92, c] else if c = 10 then [92, 110] else [c]) s) @ [34])
     else Err ())"

lemma quote_json_safe: "json_safe quote_json"
  by (auto simp: json_safe_def quote_json_def list_all_iff is_scalar_def split: if_splits)

theorem append_allow_prefix_rule_idempotent_witness:
  "\<exists>d'. blocking_append_allow_prefix_rule quote_json [RootDir, Normal (lit ''w''), Normal (lit ''r'')]
      [lit ''git'', lit ''log''] sample_disk = (Ok (), d')
    \<and> blocking_append_allow_prefix_rule quote_json [RootDir, Normal (lit ''w''), Normal (lit ''r'')]
      [lit ''git'', lit ''log''] d' = (Ok (), d')"
proof -
  let ?p = "[RootDir, Normal (lit ''w''), Normal (lit ''r'')]"
  let ?run = "blocking_append_allow_prefix_rule quote_json ?p [lit ''git'', lit ''log''] sample_disk"
  have a: "absolute_path ?p" by (simp add: absolute_path_def name_ok_def dot_def dotdot_def)
  have "is_ok (fst ?run)" by code_simp
  then obtain d' where run: "?run = (Ok (), d')" by (cases ?run) (auto simp: is_ok_iff)
  show ?thesis
    using append_allow_prefix_rule_idempotent [OF sample_disk_wf a quote_json_safe run] run by blast
qed

text \<open>
  appending a network rule keeps every earlier line of the policy file in place and adds at most
  one line at the end, unless the file ends in a carriage return without a line feed.
\<close>

theorem append_network_rule_keeps_lines:
  assumes "wf_disk d" and "absolute_path policy_path" and "json_safe json"
    and "file_text d policy_path = Some old" and "old = [] \<or> last old \<noteq> carriage_return"
    and "blocking_append_network_rule json policy_path host protocol dec justification d = (Ok (), d')"
  shows "\<exists>rule new. network_rule_line json host protocol dec justification = Ok rule
    \<and> lookup d' policy_path = Some (File (into_bytes new))
    \<and> str_lines new = (if rule \<in> set (str_lines old) then str_lines old else str_lines old @ [rule])"
proof -
  from assms(6) obtain rule where r: "network_rule_line json host protocol dec justification = Ok rule"
      "append_rule_line policy_path rule d = (Ok (), d')"
    by (auto simp: blocking_append_network_rule_def split: result.splits)
  have ok: "valid_str rule" "plain_line rule"
    using network_rule_line_ok [OF assms(3) r(1)] by (simp_all add: rule_line_ok_def)
  from append_rule_line_effect [OF assms(1,2) ok r(2)] assms(4)
  have "lookup d' policy_path = Some (File (into_bytes (old @ appended_text old rule)))" by auto
  with r(1) str_lines_appended [OF ok(2) assms(5)] show ?thesis by blast
qed

theorem append_network_rule_keeps_lines_witness:
  "\<exists>rule new d'. blocking_append_network_rule quote_json [RootDir, Normal (lit ''w''), Normal (lit ''f'')]
      (lit ''A.com'') Https Forbidden None sample_disk = (Ok (), d')
    \<and> lookup d' [RootDir, Normal (lit ''w''), Normal (lit ''f'')] = Some (File (into_bytes new))
    \<and> str_lines new = [lit ''hi'', rule]"
proof -
  let ?p = "[RootDir, Normal (lit ''w''), Normal (lit ''f'')]"
  let ?run = "blocking_append_network_rule quote_json ?p (lit ''A.com'') Https Forbidden None sample_disk"
  have a: "absolute_path ?p" by (simp add: absolute_path_def name_ok_def dot_def dotdot_def)
  have "is_ok (fst ?run)" by code_simp
  then obtain d' where run: "?run = (Ok (), d')" by (cases ?run) (auto simp: is_ok_iff)
  have t: "file_text sample_disk ?p = Some (lit ''hi'' @ [10])" by code_simp
  have l: "str_lines (lit ''hi'' @ [10]) = [lit ''hi'']" by code_simp
  have n: "network_rule_line quote_json (lit ''A.com'') Https Forbidden None \<noteq> Ok (lit ''hi'')" by code_simp
  have e: "lit ''hi'' @ [10] = [] \<or> last (lit ''hi'' @ [10]) \<noteq> carriage_return" by simp
  obtain rule new where r: "network_rule_line quote_json (lit ''A.com'') Https Forbidden None = Ok rule"
      "lookup d' ?p = Some (File (into_bytes new))"
      "str_lines new = (if rule \<in> set [lit ''hi''] then [lit ''hi''] else [lit ''hi''] @ [rule])"
    using append_network_rule_keeps_lines [OF sample_disk_wf a quote_json_safe t e run] unfolding l by blast
  with n have "str_lines new = [lit ''hi'', rule]" by (auto split: if_splits)
  with run r(2) show ?thesis by blast
qed

end
