(* ===== verification/Stream_Text.thy ===== *)
theory Stream_Text
  imports Prelude
begin

text \<open>
  Incremental text parsers (\<^verbatim>\<open>src/utils/common/src/stream_parser/stream_text.rs\<close>): the result of one
  chunk, the trait \<^verbatim>\<open>StreamTextParser\<close> as a record of its two operations, and the contract
  \<open>stream_text_parser\<close> that the parsers of the following theories fulfil: cutting a text into
  chunks differently changes nothing that a consumer of the stream can observe.
\<close>

section \<open>Definitions\<close>

record 't stream_text_chunk =
  visible_text :: ustr
  extracted :: "'t list"

definition chunk_default :: "'t stream_text_chunk" where
  "chunk_default = \<lparr>visible_text = [], extracted = []\<rparr>"

definition chunk_is_empty :: "'t stream_text_chunk \<Rightarrow> bool" where
  "chunk_is_empty c \<longleftrightarrow> visible_text c = [] \<and> extracted c = []"

text \<open>The trait: \<^verbatim>\<open>push_str\<close> and \<^verbatim>\<open>finish\<close>, on the parser's state.\<close>

record ('s, 't) stream_parser =
  push_str :: "'s \<Rightarrow> ustr \<Rightarrow> 't stream_text_chunk \<times> 's"
  finish :: "'s \<Rightarrow> 't stream_text_chunk \<times> 's"

text \<open>What a consumer does with the results: append the texts, append the payloads.\<close>

definition chunk_append :: "'t stream_text_chunk \<Rightarrow> 't stream_text_chunk \<Rightarrow> 't stream_text_chunk" where
  "chunk_append c d = \<lparr>visible_text = visible_text c @ visible_text d, extracted = extracted c @ extracted d\<rparr>"

fun feed :: "('s, 't) stream_parser \<Rightarrow> 's \<Rightarrow> ustr list \<Rightarrow> 't stream_text_chunk \<times> 's" where
  "feed P s [] = (chunk_default, s)"
| "feed P s (c # cs) =
     (let (out, s') = push_str P s c; (rest, s'') = feed P s' cs in (chunk_append out rest, s''))"

definition run_stream :: "('s, 't) stream_parser \<Rightarrow> 's \<Rightarrow> ustr list \<Rightarrow> 't stream_text_chunk" where
  "run_stream P s cs = (let (out, s') = feed P s cs in chunk_append out (fst (finish P s')))"

lemma chunk_append_simps [simp]:
  "visible_text (chunk_append c d) = visible_text c @ visible_text d"
  "extracted (chunk_append c d) = extracted c @ extracted d"
  "visible_text chunk_default = []" "extracted chunk_default = []"
  "chunk_append chunk_default (c :: 't stream_text_chunk) = c"
  "chunk_append (c :: 't stream_text_chunk) chunk_default = c"
  by (simp_all add: chunk_append_def chunk_default_def)

lemma chunk_append_assoc: "chunk_append (chunk_append a b) c = chunk_append a (chunk_append b c)"
  by (simp add: chunk_append_def)

text \<open>
  What is observed of a chunk: its visible text and the events of its payloads. Parsers that deliver
  text in payloads may cut it anywhere, so \<open>events\<close> is a homomorphism on lists of payloads.
\<close>

definition observe :: "('t \<Rightarrow> 'o list) \<Rightarrow> 't stream_text_chunk \<Rightarrow> ustr \<times> 'o list" where
  "observe ev c = (visible_text c, concat (map ev (extracted c)))"

definition obs_append :: "'a list \<times> 'b list \<Rightarrow> 'a list \<times> 'b list \<Rightarrow> 'a list \<times> 'b list" where
  "obs_append x y = (fst x @ fst y, snd x @ snd y)"

lemma observe_append [simp]: "observe ev (chunk_append c d) = obs_append (observe ev c) (observe ev d)"
  by (simp add: observe_def obs_append_def)

lemma observe_default [simp]: "observe ev chunk_default = ([], [])"
  by (simp add: observe_def)

lemma obs_append_simps [simp]:
  "obs_append ([], []) x = x" "obs_append x ([], []) = x"
  "obs_append (obs_append x y) z = obs_append x (obs_append y z)"
  by (simp_all add: obs_append_def)

section \<open>The contract\<close>

locale stream_text_parser =
  fixes P :: "('s, 't) stream_parser"
    and inv :: "'s \<Rightarrow> bool"
    and ev :: "'t \<Rightarrow> 'o list"
  assumes push_keeps: "inv s \<Longrightarrow> inv (snd (push_str P s c))"
    and push_nil: "inv s \<Longrightarrow> observe ev (fst (push_str P s [])) = ([], []) \<and> snd (push_str P s []) = s"
    and push_append: "inv s \<Longrightarrow>
      observe ev (fst (push_str P s (a @ b))) =
        obs_append (observe ev (fst (push_str P s a))) (observe ev (fst (push_str P (snd (push_str P s a)) b)))
      \<and> snd (push_str P s (a @ b)) = snd (push_str P (snd (push_str P s a)) b)"
begin

lemma feed_keeps: "inv s \<Longrightarrow> inv (snd (feed P s cs))"
  using push_keeps by (induction cs arbitrary: s) (auto simp: Let_def split_beta)

lemma feed_concat:
  "inv s \<Longrightarrow>
   observe ev (fst (feed P s cs)) = observe ev (fst (push_str P s (concat cs)))
   \<and> snd (feed P s cs) = snd (push_str P s (concat cs))"
proof (induction cs arbitrary: s)
  case Nil
  then show ?case by (simp add: push_nil)
next
  case (Cons c cs)
  let ?s = "snd (push_str P s c)"
  have i: "inv ?s" using push_keeps [OF Cons.prems] .
  show ?case
    using Cons.IH [OF i] push_append [OF Cons.prems, of c "concat cs"]
    by (simp add: Let_def split_beta)
qed

text \<open>Only the text counts, not how it was cut.\<close>

lemma run_chunking:
  assumes "inv s" and "concat cs = concat ds"
  shows "observe ev (run_stream P s cs) = observe ev (run_stream P s ds)"
  using feed_concat [OF assms(1), of cs] feed_concat [OF assms(1), of ds] assms(2)
  by (simp add: run_stream_def Let_def split_beta)

lemma run_batch:
  assumes "inv s"
  shows "observe ev (run_stream P s cs) = observe ev (run_stream P s [concat cs])"
  using run_chunking [OF assms, of cs "[concat cs]"] by simp

end

end
