(* ===== verification/Inline_Tags.thy ===== *)
theory Inline_Tags
  imports Stream_Text Utf8
begin

text \<open>
  Hidden inline tags in streamed text: \<^verbatim>\<open>InlineHiddenTagParser\<close>
  (\<^verbatim>\<open>src/utils/common/src/stream_parser/inline_hidden_tag.rs\<close>) and the citation parser built on it
  (\<^verbatim>\<open>citation.rs\<close>). Offsets are counted in scalar values; the lengths that decide between openers
  at the same offset are byte lengths, as in the source. The loop of \<^verbatim>\<open>push_str\<close> has fuel, one
  more than the length of the pending text; since every iteration but the last removes a delimiter,
  this is enough for the non-empty delimiters that \<^verbatim>\<open>new\<close> insists on.
\<close>

section \<open>Definitions\<close>

record 'a extracted_inline_tag =
  ext_tag :: 'a
  ext_content :: ustr

record 'a inline_tag_spec =
  spec_tag :: 'a
  spec_open :: ustr
  spec_close :: ustr

record 'a active_tag =
  act_tag :: 'a
  act_close :: ustr
  act_content :: ustr

record 'a inline_hidden_tag_parser =
  specs :: "'a inline_tag_spec list"
  pending :: ustr
  active :: "'a active_tag option"

definition inline_new :: "'a inline_tag_spec list \<Rightarrow> (unit fault, 'a inline_hidden_tag_parser) result" where
  "inline_new ss =
     (if ss = [] \<or> list_ex (\<lambda>spec. spec_open spec = [] \<or> spec_close spec = []) ss then Err Panic
      else Ok \<lparr>specs = ss, pending = [], active = None\<rparr>)"

text \<open>The order of \<^verbatim>\<open>min_by\<close>: the offset, then the longer opener, then the index.\<close>

fun open_before :: "nat \<times> nat \<times> nat \<Rightarrow> nat \<times> nat \<times> nat \<Rightarrow> bool" where
  "open_before (pos_a, len_a, idx_a) (pos_b, len_b, idx_b) \<longleftrightarrow>
     pos_a < pos_b \<or> pos_a = pos_b \<and> (len_b < len_a \<or> len_a = len_b \<and> idx_a < idx_b)"

fun min_by :: "('a \<Rightarrow> 'a \<Rightarrow> bool) \<Rightarrow> 'a list \<Rightarrow> 'a option" where
  "min_by lt [] = None"
| "min_by lt (x # xs) = Some (foldl (\<lambda>best y. if lt y best then y else best) x xs)"

definition open_candidates :: "'a inline_tag_spec list \<Rightarrow> ustr \<Rightarrow> (nat \<times> nat \<times> nat) list" where
  "open_candidates ss p =
     List.map_filter (\<lambda>(idx, spec). map_option (\<lambda>pos. (pos, str_len (spec_open spec), idx))
       (find_sub p (spec_open spec))) (enumerate 0 ss)"

definition find_next_open :: "'a inline_tag_spec list \<Rightarrow> ustr \<Rightarrow> (nat \<times> nat) option" where
  "find_next_open ss p = map_option (\<lambda>(pos, _, idx). (pos, idx)) (min_by open_before (open_candidates ss p))"

fun longest_suffix_prefix_loop :: "ustr \<Rightarrow> ustr \<Rightarrow> nat \<Rightarrow> nat" where
  "longest_suffix_prefix_loop s needle 0 = 0"
| "longest_suffix_prefix_loop s needle (Suc k) =
     (if ends_with s (take (Suc k) needle) then Suc k else longest_suffix_prefix_loop s needle k)"

definition longest_suffix_prefix_len :: "ustr \<Rightarrow> ustr \<Rightarrow> nat" where
  "longest_suffix_prefix_len s needle =
     longest_suffix_prefix_loop s needle (min (length s) (length needle - 1))"

definition max_open_prefix_suffix_len :: "'a inline_tag_spec list \<Rightarrow> ustr \<Rightarrow> nat" where
  "max_open_prefix_suffix_len ss p =
     fold max (map (\<lambda>spec. longest_suffix_prefix_len p (spec_open spec)) ss) 0"

text \<open>The loop of \<^verbatim>\<open>push_str\<close>, on the pending text and the active tag.\<close>

fun inline_loop ::
  "nat \<Rightarrow> 'a inline_tag_spec list \<Rightarrow> ustr \<Rightarrow> 'a active_tag option \<Rightarrow> 'a extracted_inline_tag stream_text_chunk
     \<Rightarrow> ('a extracted_inline_tag stream_text_chunk \<times> ustr \<times> 'a active_tag option) option" where
  "inline_loop 0 ss p act out = None"
| "inline_loop (Suc fuel) ss p (Some a) out =
     (case find_sub p (act_close a) of
        Some close_idx \<Rightarrow>
          inline_loop fuel ss (drop (close_idx + length (act_close a)) p) None
            (out\<lparr>extracted := extracted out @
                  [\<lparr>ext_tag = act_tag a, ext_content = act_content a @ take close_idx p\<rparr>]\<rparr>)
      | None \<Rightarrow>
          (let keep = longest_suffix_prefix_len p (act_close a); tk = length p - keep
           in Some (out, drop tk p, Some (a\<lparr>act_content := act_content a @ take tk p\<rparr>))))"
| "inline_loop (Suc fuel) ss p None out =
     (case find_next_open ss p of
        Some (open_idx, spec_idx) \<Rightarrow>
          (let spec = ss ! spec_idx
           in inline_loop fuel ss (drop (open_idx + length (spec_open spec)) p)
                (Some \<lparr>act_tag = spec_tag spec, act_close = spec_close spec, act_content = []\<rparr>)
                (out\<lparr>visible_text := visible_text out @ take open_idx p\<rparr>))
      | None \<Rightarrow>
          (let keep = max_open_prefix_suffix_len ss p; tk = length p - keep
           in Some (out\<lparr>visible_text := visible_text out @ take tk p\<rparr>, drop tk p, None)))"

definition inline_push_str ::
  "'a inline_hidden_tag_parser \<Rightarrow> ustr \<Rightarrow> 'a extracted_inline_tag stream_text_chunk \<times> 'a inline_hidden_tag_parser" where
  "inline_push_str P chunk =
     (let p = pending P @ chunk
      in case inline_loop (Suc (length p)) (specs P) p (active P) chunk_default of
           Some (out, p', act) \<Rightarrow> (out, P\<lparr>pending := p', active := act\<rparr>)
         | None \<Rightarrow> (chunk_default, P))"

definition inline_finish ::
  "'a inline_hidden_tag_parser \<Rightarrow> 'a extracted_inline_tag stream_text_chunk \<times> 'a inline_hidden_tag_parser" where
  "inline_finish P =
     (case active P of
        Some a \<Rightarrow>
          (\<lparr>visible_text = [], extracted = [\<lparr>ext_tag = act_tag a, ext_content = act_content a @ pending P\<rparr>]\<rparr>,
           P\<lparr>pending := [], active := None\<rparr>)
      | None \<Rightarrow> (\<lparr>visible_text = pending P, extracted = []\<rparr>, P\<lparr>pending := []\<rparr>))"

definition InlineHiddenTagParser :: "('a inline_hidden_tag_parser, 'a extracted_inline_tag) stream_parser" where
  "InlineHiddenTagParser = \<lparr>push_str = inline_push_str, finish = inline_finish\<rparr>"

section \<open>Searching in a text that grows\<close>

text \<open>A text found before the end is found at the same place when the text grows.\<close>

lemma prefix_drop_append:
  "prefix n (drop i s) \<Longrightarrow> prefix n (drop i (s @ t))"
  by (simp add: prefix_prefix)

lemma find_sub_grow:
  assumes "find_sub p n = Some i"
  shows "find_sub (p @ b) n = Some i"
proof -
  have i: "prefix n (drop i p)" "i \<le> length p" "\<And>j. j < i \<Longrightarrow> \<not> prefix n (drop j p)"
    using assms by (auto simp: find_sub_Some)
  have len: "i + length n \<le> length p" using find_sub_bound [OF assms] .
  have "\<not> prefix n (drop j (p @ b))" if "j < i" for j
  proof
    assume "prefix n (drop j (p @ b))"
    then have "prefix n (drop j p @ drop (j - length p) b)" by simp
    moreover have "length n \<le> length (drop j p)" using that len by simp
    ultimately have "prefix n (drop j p)"
      using prefix_length_prefix [of n "drop j p @ drop (j - length p) b" "drop j p"] by simp
    with i(3) [OF that] show False by simp
  qed
  with i show ?thesis by (auto simp: find_sub_Some intro: prefix_drop_append)
qed

lemma lsp_loop_le: "longest_suffix_prefix_loop s n m \<le> m"
  by (induction m) (auto simp del: ends_with_def)

lemma lsp_loop_suffix: "suffix (take (longest_suffix_prefix_loop s n m) n) s"
  by (induction m) auto

lemma lsp_loop_max: "k \<le> m \<Longrightarrow> suffix (take k n) s \<Longrightarrow> k \<le> longest_suffix_prefix_loop s n m"
  by (induction m) (auto simp: le_Suc_eq)

text \<open>The longest proper prefix of the needle that the text ends with.\<close>

lemma lsp_props:
  shows "longest_suffix_prefix_len s n \<le> length s" "longest_suffix_prefix_len s n \<le> length n - 1"
    and "suffix (take (longest_suffix_prefix_len s n) n) s"
  using lsp_loop_le [of s n "min (length s) (length n - 1)"] lsp_loop_suffix
  by (auto simp: longest_suffix_prefix_len_def)

lemma lsp_max: "k < length n \<Longrightarrow> suffix (take k n) s \<Longrightarrow> k \<le> longest_suffix_prefix_len s n"
  unfolding longest_suffix_prefix_len_def
  by (rule lsp_loop_max) (auto dest: suffix_length_le)

lemma lsp_unique:
  assumes "k < length n" and "suffix (take k n) s"
    and "\<And>m. m < length n \<Longrightarrow> suffix (take m n) s \<Longrightarrow> m \<le> k"
  shows "longest_suffix_prefix_len s n = k"
proof (rule antisym)
  show "k \<le> longest_suffix_prefix_len s n" using lsp_max assms(1,2) .
  show "longest_suffix_prefix_len s n \<le> k"
    using assms(1) lsp_props [of s n] by (intro assms(3)) auto
qed

text \<open>
  When a needle does not occur in \<open>p\<close>, every occurrence in \<open>p @ b\<close> starts within the part of \<open>p\<close>
  that is kept.
\<close>

lemma occurrence_in_kept:
  assumes "find_sub p n = None" and "prefix n (drop j (p @ b))" and "j \<le> length (p @ b)"
    and "longest_suffix_prefix_len p n \<le> keep" and "n \<noteq> []"
  shows "length p - keep \<le> j"
proof (rule ccontr)
  assume "\<not> ?thesis"
  then have j: "j < length p - keep" by simp
  from assms(2) j have p: "prefix n (drop j p @ b)" by simp
  have "\<not> prefix n (drop j p)" using assms(1) j by (auto simp: find_sub_None)
  with p obtain us where us: "n = drop j p @ us" "us \<noteq> []" by (auto simp: prefix_append)
  then have e: "take (length p - j) n = drop j p" and l: "length p - j < length n" by auto
  have "suffix (take (length p - j) n) p" unfolding e by (simp add: suffix_drop)
  with l have "length p - j \<le> longest_suffix_prefix_len p n" by (rule lsp_max)
  with assms(4) j show False by simp
qed

lemma drop_kept: "drop (length p - keep + i) (p @ b) = drop i (drop (length p - keep) p @ b)"
proof -
  have "drop (length p - keep) (p @ b) = drop (length p - keep) p @ b" by simp
  then show ?thesis by (metis add.commute drop_drop)
qed

lemma find_sub_kept:
  assumes "find_sub p n = None" and "longest_suffix_prefix_len p n \<le> keep" and "keep \<le> length p" and "n \<noteq> []"
  shows "find_sub (p @ b) n = map_option ((+) (length p - keep)) (find_sub (drop (length p - keep) p @ b) n)"
    (is "_ = map_option ((+) ?t) (find_sub ?q n)")
proof (cases "find_sub ?q n")
  case None
  have "find_sub (p @ b) n = None"
  proof (rule ccontr)
    assume "find_sub (p @ b) n \<noteq> None"
    then obtain j where j: "prefix n (drop j (p @ b))" "j \<le> length (p @ b)" by (auto simp: find_sub_Some)
    have "?t \<le> j" using occurrence_in_kept [OF assms(1) j assms(2,4)] .
    then obtain i where "j = ?t + i" using le_iff_add by blast
    with j None assms(3) drop_kept [of p keep i b] show False by (auto simp: find_sub_None)
  qed
  with None show ?thesis by simp
next
  case (Some i)
  then have i: "prefix n (drop i ?q)" "i \<le> length ?q" "\<And>j. j < i \<Longrightarrow> \<not> prefix n (drop j ?q)"
    by (auto simp: find_sub_Some)
  have "\<not> prefix n (drop j (p @ b))" if "j < ?t + i" for j
  proof
    assume pre: "prefix n (drop j (p @ b))"
    have "j \<le> length (p @ b)" using that i(2) assms(3) by auto
    then have "?t \<le> j" using occurrence_in_kept [OF assms(1) pre _ assms(2,4)] by simp
    then obtain k where k: "j = ?t + k" using le_iff_add by blast
    with that pre i(3) [of k] drop_kept [of p keep k b] show False by simp
  qed
  then have "find_sub (p @ b) n = Some (?t + i)"
    using i drop_kept [of p keep i b] assms(3) by (auto simp: find_sub_Some)
  with Some show ?thesis by simp
qed

text \<open>The kept suffix decides what is kept later.\<close>

lemma lsp_kept:
  assumes "longest_suffix_prefix_len p n \<le> keep" and "keep \<le> length p" and "n \<noteq> []"
  shows "longest_suffix_prefix_len (p @ b) n = longest_suffix_prefix_len (drop (length p - keep) p @ b) n"
    (is "_ = longest_suffix_prefix_len ?q n")
proof (rule lsp_unique)
  let ?k = "longest_suffix_prefix_len ?q n"
  show "?k < length n" using lsp_props(2) [of ?q n] assms(3) by (cases n) auto
  have "suffix ?q (p @ b)" by (simp add: suffix_drop)
  then show "suffix (take ?k n) (p @ b)" using lsp_props(3) [of ?q n] suffix_order.trans by blast
  fix m assume m: "m < length n" "suffix (take m n) (p @ b)"
  have "m \<le> length ?q"
  proof (rule ccontr)
    assume "\<not> m \<le> length ?q"
    then have big: "keep + length b < m" using assms(2) by simp
    obtain us where us: "p @ b = us @ take m n" using m(2) by (auto simp: suffix_def)
    have lm: "length (take m n) = m" using m(1) by simp
    have "us @ take (m - length b) n = p"
    proof -
      have "take (length p) (p @ b) = take (length p) (us @ take m n)" using us by simp
      moreover have l: "length p + length b = length us + m" using us lm by (metis length_append)
      moreover from l big have "m - length b = length p - length us" by simp
      ultimately show ?thesis using big by (simp add: min_def split: if_splits)
    qed
    then have "suffix (take (m - length b) n) p" by (auto simp: suffix_def)
    then have "m - length b \<le> longest_suffix_prefix_len p n" using m(1) by (intro lsp_max) auto
    with assms(1) big show False by simp
  qed
  moreover have "suffix ?q (p @ b)" by (simp add: suffix_drop)
  ultimately have "suffix (take m n) ?q" using m by (intro suffix_length_suffix [OF m(2)]) auto
  then show "m \<le> ?k" using m(1) by (intro lsp_max)
qed

section \<open>The next opener\<close>

lemma min_by_None [simp]: "min_by lt xs = None \<longleftrightarrow> xs = []"
  by (cases xs) auto

lemma foldl_min_in: "foldl (\<lambda>best y. if lt y best then y else best) x xs \<in> set (x # xs)"
  by (induction xs arbitrary: x) (auto split: if_splits)

lemma min_by_in: "min_by lt xs = Some x \<Longrightarrow> x \<in> set xs"
  using foldl_min_in by (cases xs) fastforce+

lemma open_before_trans: "open_before x y \<Longrightarrow> open_before y z \<Longrightarrow> open_before x z"
  by (cases x; cases y; cases z) auto

lemma open_before_irrefl: "\<not> open_before x x"
  by (cases x) auto

lemma open_before_linear: "open_before x y \<or> x = y \<or> open_before y x"
  by (cases x; cases y) auto

lemma foldl_min_le:
  "y \<in> set (x # xs) \<Longrightarrow> \<not> open_before y (foldl (\<lambda>best y. if open_before y best then y else best) x xs)"
proof (induction xs arbitrary: x y)
  case Nil
  then show ?case by (simp add: open_before_irrefl)
next
  case (Cons z zs)
  let ?m = "if open_before z x then z else x"
  show ?case
  proof (cases "y \<in> set (?m # zs)")
    case True
    from Cons.IH [OF this] show ?thesis by simp
  next
    case False
    with Cons.prems have "\<not> open_before y ?m"
      by (auto split: if_splits dest: open_before_trans simp: open_before_irrefl)
    then have "open_before ?m y" using False open_before_linear [of y ?m] by auto
    with Cons.IH [of ?m ?m] show ?thesis by (auto dest: open_before_trans)
  qed
qed

lemma min_by_le:
  assumes "min_by open_before xs = Some x" and "y \<in> set xs"
  shows "\<not> open_before y x"
proof (cases xs)
  case (Cons z zs)
  with assms foldl_min_le [of y z zs] show ?thesis by simp
qed (use assms in simp)

lemma min_by_Some:
  "min_by open_before xs = Some x \<longleftrightarrow> x \<in> set xs \<and> (\<forall>y\<in>set xs. \<not> open_before y x)"
proof
  assume "min_by open_before xs = Some x"
  then show "x \<in> set xs \<and> (\<forall>y\<in>set xs. \<not> open_before y x)"
    by (blast dest: min_by_in min_by_le)
next
  assume x: "x \<in> set xs \<and> (\<forall>y\<in>set xs. \<not> open_before y x)"
  then obtain z where z: "min_by open_before xs = Some z"
    by (cases "min_by open_before xs") auto
  from min_by_in [OF z] min_by_le [OF z] x open_before_linear [of x z] have "z = x" by blast
  with z show "min_by open_before xs = Some x" by simp
qed

lemma set_open_candidates:
  "set (open_candidates ss p) =
     {(pos, str_len (spec_open (ss ! idx)), idx) | pos idx.
        idx < length ss \<and> find_sub p (spec_open (ss ! idx)) = Some pos}"
  by (force simp: open_candidates_def map_filter_def in_set_enumerate_eq image_iff)

lemma find_next_open_Some:
  "find_next_open ss p = Some (pos, idx) \<longleftrightarrow>
     idx < length ss \<and> find_sub p (spec_open (ss ! idx)) = Some pos
     \<and> (\<forall>i<length ss. \<forall>k. find_sub p (spec_open (ss ! i)) = Some k \<longrightarrow>
          \<not> open_before (k, str_len (spec_open (ss ! i)), i) (pos, str_len (spec_open (ss ! idx)), idx))"
proof -
  have "find_next_open ss p = Some (pos, idx) \<longleftrightarrow>
      (\<exists>l. min_by open_before (open_candidates ss p) = Some (pos, l, idx))"
    by (auto simp: find_next_open_def)
  then show ?thesis unfolding min_by_Some set_open_candidates by blast
qed

lemma find_next_open_None:
  "find_next_open ss p = None \<longleftrightarrow> (\<forall>i<length ss. find_sub p (spec_open (ss ! i)) = None)"
proof -
  have "find_next_open ss p = None \<longleftrightarrow> set (open_candidates ss p) = {}"
    by (simp add: find_next_open_def)
  also have "\<dots> \<longleftrightarrow> (\<forall>i<length ss. \<forall>k. find_sub p (spec_open (ss ! i)) \<noteq> Some k)"
    unfolding set_open_candidates by (auto, metis option.exhaust)
  finally show ?thesis by simp
qed

text \<open>
  Specifications that can be told apart as the text arrives: the delimiters are not empty and no
  opener occurs inside a different opener.
\<close>

definition specs_ok :: "'a inline_tag_spec list \<Rightarrow> bool" where
  "specs_ok ss \<longleftrightarrow> list_all (\<lambda>spec. spec_open spec \<noteq> [] \<and> spec_close spec \<noteq> []) ss
     \<and> list_all (\<lambda>a. list_all (\<lambda>b. contains_sub (spec_open b) (spec_open a) \<longrightarrow> spec_open a = spec_open b) ss) ss"

lemma specs_ok_nth:
  assumes "specs_ok ss" and "i < length ss"
  shows "spec_open (ss ! i) \<noteq> []" "spec_close (ss ! i) \<noteq> []"
  using assms nth_mem [OF assms(2)] by (auto simp: specs_ok_def list_all_iff)

lemma specs_ok_infix:
  assumes "specs_ok ss" and "i < length ss" and "j < length ss"
    and "prefix (spec_open (ss ! i)) (drop k (spec_open (ss ! j)))" and "k \<le> length (spec_open (ss ! j))"
  shows "spec_open (ss ! i) = spec_open (ss ! j)"
proof -
  have "contains_sub (spec_open (ss ! j)) (spec_open (ss ! i))"
    using assms(4,5) by (auto simp: contains_sub_def find_sub_None simp del: not_None_eq)
  with assms show ?thesis by (simp add: specs_ok_def list_all_iff)
qed

text \<open>A longer opener cannot start before one that is already complete.\<close>

lemma opener_not_inside:
  assumes ok: "specs_ok ss" and i: "i < length ss" and j: "j < length ss"
    and fi: "find_sub p (spec_open (ss ! i)) = Some pos"
    and fj: "find_sub p (spec_open (ss ! j)) = None"
    and fj': "find_sub (p @ b) (spec_open (ss ! j)) = Some pos'"
  shows "pos < pos'"
proof (rule ccontr)
  assume "\<not> pos < pos'"
  then have le: "pos' \<le> pos" by simp
  let ?a = "spec_open (ss ! i)" and ?b = "spec_open (ss ! j)"
  have len: "pos + length ?a \<le> length p" using find_sub_bound [OF fi] .
  have pa: "prefix ?a (drop pos (p @ b))" using find_sub_grow [OF fi] by (auto simp: find_sub_Some)
  have pb: "prefix ?b (drop pos' (p @ b))" using fj' by (auto simp: find_sub_Some)
  have long: "length p < pos' + length ?b"
  proof (rule ccontr)
    assume s: "\<not> ?thesis"
    from pb have "prefix ?b (drop pos' p @ drop (pos' - length p) b)" by simp
    with s have "prefix ?b (drop pos' p)"
      using prefix_length_prefix [of ?b "drop pos' p @ drop (pos' - length p) b" "drop pos' p"] by simp
    with fj le len show False by (auto simp: find_sub_None)
  qed
  obtain zs where zs: "drop pos' (p @ b) = ?b @ zs" using pb by (auto simp: prefix_def)
  have "drop pos (p @ b) = drop (pos - pos') (drop pos' (p @ b))" using le by (simp only: drop_drop le_add_diff_inverse2)
  also have "\<dots> = drop (pos - pos') ?b @ zs" using zs long len le by simp
  finally have "prefix ?a (drop (pos - pos') ?b @ zs)" using pa by simp
  moreover have "length ?a \<le> length (drop (pos - pos') ?b)" using long len le by simp
  ultimately have "prefix ?a (drop (pos - pos') ?b)"
    using prefix_length_prefix [of ?a "drop (pos - pos') ?b @ zs" "drop (pos - pos') ?b"] by simp
  then have "?a = ?b" using specs_ok_infix [OF ok i j] long len le by simp
  with fi fj show False by simp
qed

lemma find_next_open_grow:
  assumes ok: "specs_ok ss" and f: "find_next_open ss p = Some (pos, idx)"
  shows "find_next_open ss (p @ b) = Some (pos, idx)"
proof -
  from f have idx: "idx < length ss" "find_sub p (spec_open (ss ! idx)) = Some pos"
    and mn: "\<And>i k. i < length ss \<Longrightarrow> find_sub p (spec_open (ss ! i)) = Some k \<Longrightarrow>
          \<not> open_before (k, str_len (spec_open (ss ! i)), i) (pos, str_len (spec_open (ss ! idx)), idx)"
    unfolding find_next_open_Some by blast+
  have "\<not> open_before (k, str_len (spec_open (ss ! i)), i) (pos, str_len (spec_open (ss ! idx)), idx)"
    if i: "i < length ss" and k: "find_sub (p @ b) (spec_open (ss ! i)) = Some k" for i k
  proof (cases "find_sub p (spec_open (ss ! i))")
    case None
    from opener_not_inside [OF ok idx(1) i idx(2) None k] show ?thesis by simp
  next
    case (Some k')
    with find_sub_grow [OF Some, of b] k mn [OF i] show ?thesis by simp
  qed
  with idx find_sub_grow [OF idx(2)] show ?thesis unfolding find_next_open_Some by blast
qed

lemma max_open_Max:
  "max_open_prefix_suffix_len ss p = Max (set (0 # map (\<lambda>spec. longest_suffix_prefix_len p (spec_open spec)) ss))"
  by (simp only: max_open_prefix_suffix_len_def Max.set_eq_fold)

lemma max_open_bound:
  "i < length ss \<Longrightarrow> longest_suffix_prefix_len p (spec_open (ss ! i)) \<le> max_open_prefix_suffix_len ss p"
  unfolding max_open_Max by (rule Max_ge) auto

lemma max_open_le: "max_open_prefix_suffix_len ss p \<le> length p"
  unfolding max_open_Max by (rule Max.boundedI) (auto simp: lsp_props)

lemma find_next_open_kept:
  assumes ok: "specs_ok ss" and f: "find_next_open ss p = None"
  defines "t \<equiv> length p - max_open_prefix_suffix_len ss p"
  shows "find_next_open ss (p @ b) = map_option (\<lambda>(pos, idx). (t + pos, idx)) (find_next_open ss (drop t p @ b))"
proof -
  have k: "find_sub (p @ b) (spec_open (ss ! i)) = map_option ((+) t) (find_sub (drop t p @ b) (spec_open (ss ! i)))"
    if "i < length ss" for i
    unfolding t_def using that f specs_ok_nth(1) [OF ok that]
    by (intro find_sub_kept) (auto simp: find_next_open_None max_open_bound max_open_le)
  show ?thesis
  proof (cases "find_next_open ss (drop t p @ b)")
    case None
    then have "find_next_open ss (p @ b) = None" by (simp add: find_next_open_None k)
    with None show ?thesis by simp
  next
    case (Some r)
    obtain pos idx where r: "r = (pos, idx)" by (cases r)
    have "find_next_open ss (p @ b) = Some (t + pos, idx)"
      using Some unfolding r find_next_open_Some by (auto simp: k)
    with Some r show ?thesis by simp
  qed
qed

lemma max_open_kept:
  fixes p :: ustr
  assumes ok: "specs_ok ss"
  defines "t \<equiv> length p - max_open_prefix_suffix_len ss p"
  shows "max_open_prefix_suffix_len ss (p @ b) = max_open_prefix_suffix_len ss (drop t p @ b)"
proof -
  have "longest_suffix_prefix_len (p @ b) (spec_open spec) = longest_suffix_prefix_len (drop t p @ b) (spec_open spec)"
    if "spec \<in> set ss" for spec
    unfolding t_def using that specs_ok_nth(1) [OF ok]
    by (intro lsp_kept) (auto simp: in_set_conv_nth max_open_bound max_open_le)
  then show ?thesis unfolding max_open_prefix_suffix_len_def by (metis (no_types, lifting) map_eq_conv)
qed

section \<open>The loop\<close>

lemma inline_loop_out:
  "inline_loop f ss p act out =
     map_option (\<lambda>(o1, p', act'). (chunk_append out o1, p', act')) (inline_loop f ss p act chunk_default)"
proof (induction f arbitrary: p act out)
  case (Suc f)
  have step: "inline_loop f ss q act' (chunk_append out X) =
      map_option (\<lambda>(o1, p', act'). (chunk_append out o1, p', act')) (inline_loop f ss q act' X)" for q act' X
    using Suc.IH [of q act' "chunk_append out X"] Suc.IH [of q act' X]
    by (auto simp: option.map_comp comp_def split_beta chunk_append_assoc)
  have upd: "out\<lparr>visible_text := visible_text out @ v\<rparr> = chunk_append out (chunk_default\<lparr>visible_text := v\<rparr>)"
      "out\<lparr>extracted := extracted out @ xs\<rparr> = chunk_append out (chunk_default\<lparr>extracted := xs\<rparr>)" for v xs
    by (simp_all add: chunk_append_def chunk_default_def)
  show ?case
    by (cases act) (auto simp: upd step Let_def split: option.split)
qed simp

text \<open>Non-empty delimiters, also of the tag that is open.\<close>

definition scan_ok :: "'a inline_tag_spec list \<Rightarrow> 'a active_tag option \<Rightarrow> bool" where
  "scan_ok ss act \<longleftrightarrow> specs_ok ss \<and> (case act of Some a \<Rightarrow> act_close a \<noteq> [] | None \<Rightarrow> True)"

lemma scan_ok_simps [simp]:
  "scan_ok ss None \<longleftrightarrow> specs_ok ss" "scan_ok ss (Some a) \<longleftrightarrow> specs_ok ss \<and> act_close a \<noteq> []"
  by (simp_all add: scan_ok_def)

text \<open>The constructor's own checks suffice for the loop to end: no delimiter is empty.\<close>

definition loop_ok :: "'a inline_tag_spec list \<Rightarrow> 'a active_tag option \<Rightarrow> bool" where
  "loop_ok ss act \<longleftrightarrow> list_all (\<lambda>spec. spec_open spec \<noteq> [] \<and> spec_close spec \<noteq> []) ss
     \<and> (case act of Some a \<Rightarrow> act_close a \<noteq> [] | None \<Rightarrow> True)"

lemma loop_ok_Some [simp]: "loop_ok ss (Some a) \<longleftrightarrow> loop_ok ss None \<and> act_close a \<noteq> []"
  by (auto simp: loop_ok_def)

lemma scan_ok_loop_ok: "scan_ok ss act \<Longrightarrow> loop_ok ss act"
  by (simp add: scan_ok_def loop_ok_def specs_ok_def)

lemma specs_ok_loop_ok: "specs_ok ss \<Longrightarrow> loop_ok ss (None :: 'a active_tag option)"
  for ss :: "'a inline_tag_spec list"
  by (simp add: loop_ok_def specs_ok_def)

lemma find_next_open_bound:
  assumes "loop_ok ss None" and "find_next_open ss p = Some (i, idx)"
  shows "idx < length ss" "spec_close (ss ! idx) \<noteq> []" "i + length (spec_open (ss ! idx)) \<le> length p"
    "0 < length (spec_open (ss ! idx))"
proof -
  show idx: "idx < length ss" using assms(2) by (simp add: find_next_open_Some)
  show "i + length (spec_open (ss ! idx)) \<le> length p"
    using assms(2) by (auto simp: find_next_open_Some dest: find_sub_bound)
  show "spec_close (ss ! idx) \<noteq> []" "0 < length (spec_open (ss ! idx))"
    using assms(1) nth_mem [OF idx] by (auto simp: loop_ok_def list_all_iff)
qed

text \<open>One more than the length of the pending text is enough fuel, and more changes nothing.\<close>

lemma inline_loop_fuel:
  "loop_ok ss act \<Longrightarrow> length p < f \<Longrightarrow>
   inline_loop f ss p act out \<noteq> None \<and> inline_loop f ss p act out = inline_loop (Suc (length p)) ss p act out"
proof (induction "length p" arbitrary: p act out f rule: less_induct)
  case less
  then obtain g where f: "f = Suc g" by (cases f) auto
  show ?case
  proof (cases act)
    case (Some a)
    show ?thesis
    proof (cases "find_sub p (act_close a)")
      case None
      with Some f show ?thesis by (simp add: Let_def)
    next
      case (Some i)
      let ?q = "drop (i + length (act_close a)) p"
      have "0 < length (act_close a)" using less.prems \<open>act = Some a\<close> by simp
      then have q: "length ?q < length p" "length ?q < g"
        using find_sub_bound [OF Some] less.prems(2) f unfolding length_drop by linarith+
      have ok: "loop_ok ss (None :: 'a active_tag option)" using less.prems \<open>act = Some a\<close> by simp
      note IH = less.hyps [OF q(1) ok]
      show ?thesis
        unfolding f \<open>act = Some a\<close> inline_loop.simps(2) Some option.case
        using IH [OF q(2)] IH [OF q(1)] by metis
    qed
  next
    case None
    with less.prems have ok: "loop_ok ss (None :: 'a active_tag option)" by simp
    show ?thesis
    proof (cases "find_next_open ss p")
      case (Some r)
      obtain i idx where r: "r = (i, idx)" by (cases r)
      let ?q = "drop (i + length (spec_open (ss ! idx))) p"
      note b = find_next_open_bound [OF ok Some [unfolded r]]
      have q: "length ?q < length p" "length ?q < g"
        using b(3,4) less.prems(2) f unfolding length_drop by linarith+
      have ok': "loop_ok ss (Some \<lparr>act_tag = spec_tag (ss ! idx), act_close = spec_close (ss ! idx), act_content = []\<rparr>)"
        using ok b by simp
      note IH = less.hyps [OF q(1) ok']
      show ?thesis
        unfolding f None inline_loop.simps(3) Some r option.case prod.case Let_def
        using IH [OF q(2)] IH [OF q(1)] by metis
    next
      case n: None
      with None f show ?thesis by (simp add: Let_def)
    qed
  qed
qed

lemma inline_loop_keeps_ok:
  "inline_loop f ss p act out = Some (out', p', act') \<Longrightarrow> loop_ok ss act \<Longrightarrow> loop_ok ss act'"
proof (induction f ss p act out rule: inline_loop.induct)
  case (2 fuel ss p a out)
  then show ?case by (auto simp: Let_def split: option.splits)
next
  case (3 fuel ss p out)
  then show ?case
    by (auto simp: Let_def find_next_open_bound split: option.splits)
qed simp

text \<open>The loop as a function of the pending text and the active tag.\<close>

definition scan ::
  "'a inline_tag_spec list \<Rightarrow> ustr \<Rightarrow> 'a active_tag option
     \<Rightarrow> 'a extracted_inline_tag stream_text_chunk \<times> ustr \<times> 'a active_tag option" where
  "scan ss p act = the (inline_loop (Suc (length p)) ss p act chunk_default)"

definition prepend ::
  "'t stream_text_chunk \<Rightarrow> 't stream_text_chunk \<times> 'r \<Rightarrow> 't stream_text_chunk \<times> 'r" where
  "prepend c r = (chunk_append c (fst r), snd r)"

lemma prepend_prepend [simp]: "prepend c (prepend d r) = prepend (chunk_append c d) r"
  by (simp add: prepend_def chunk_append_assoc)

lemma prepend_default [simp]: "prepend (chunk_default :: 't stream_text_chunk) r = r"
  by (simp add: prepend_def)

lemma inline_loop_scan:
  assumes "scan_ok ss act" and "length p < f"
  shows "inline_loop f ss p act out = Some (prepend out (scan ss p act))"
proof -
  obtain o1 p1 a1 where e: "inline_loop f ss p act chunk_default = Some (o1, p1, a1)"
    using inline_loop_fuel [OF scan_ok_loop_ok [OF assms(1)] assms(2)] by fastforce
  then have "scan ss p act = (o1, p1, a1)"
    using inline_loop_fuel [OF scan_ok_loop_ok [OF assms(1)] assms(2)] by (simp add: scan_def)
  with e show ?thesis by (subst inline_loop_out) (simp add: prepend_def)
qed

lemma scan_close:
  assumes "scan_ok ss (Some a)" and "find_sub p (act_close a) = Some i"
  shows "scan ss p (Some a) =
    prepend \<lparr>visible_text = [], extracted = [\<lparr>ext_tag = act_tag a, ext_content = act_content a @ take i p\<rparr>]\<rparr>
      (scan ss (drop (i + length (act_close a)) p) None)"
proof -
  have "0 < length (act_close a)" using assms(1) by simp
  then have "length (drop (i + length (act_close a)) p) < length p"
    using find_sub_bound [OF assms(2)] unfolding length_drop by linarith
  with assms show ?thesis
    by (simp add: scan_def [of ss p] inline_loop_scan chunk_default_def)
qed

lemma scan_open:
  assumes "specs_ok ss" and "find_next_open ss p = Some (i, idx)"
  shows "scan ss p None =
    prepend \<lparr>visible_text = take i p, extracted = []\<rparr>
      (scan ss (drop (i + length (spec_open (ss ! idx))) p)
        (Some \<lparr>act_tag = spec_tag (ss ! idx), act_close = spec_close (ss ! idx), act_content = []\<rparr>))"
proof -
  note b = find_next_open_bound [OF specs_ok_loop_ok [OF assms(1)] assms(2)]
  have "length (drop (i + length (spec_open (ss ! idx))) p) < length p"
    using b(3,4) unfolding length_drop by linarith
  with assms b show ?thesis
    by (simp add: scan_def [of ss p] inline_loop_scan chunk_default_def Let_def)
qed

lemma scan_active_end:
  assumes "find_sub p (act_close a) = None"
  shows "scan ss p (Some a) =
    (let tk = length p - longest_suffix_prefix_len p (act_close a)
     in (chunk_default, drop tk p, Some (a\<lparr>act_content := act_content a @ take tk p\<rparr>)))"
  using assms by (simp add: scan_def Let_def)

lemma scan_end:
  assumes "find_next_open ss p = None"
  shows "scan ss p None =
    (let tk = length p - max_open_prefix_suffix_len ss p
     in (\<lparr>visible_text = take tk p, extracted = []\<rparr>, drop tk p, None))"
  using assms by (simp add: scan_def Let_def chunk_default_def)

section \<open>Cutting the text anywhere\<close>

lemma take_kept: "take (length p - keep + i) (p @ b) = take (length p - keep) p @ take i (drop (length p - keep) p @ b)"
proof -
  have "take (length p - keep) (p @ b) = take (length p - keep) p"
      "drop (length p - keep) (p @ b) = drop (length p - keep) p @ b" by simp_all
  then show ?thesis by (simp only: take_add)
qed

lemma scan_active_kept:
  assumes ok: "scan_ok ss (Some a)" and n: "find_sub p (act_close a) = None"
  defines "t \<equiv> length p - longest_suffix_prefix_len p (act_close a)"
  shows "scan ss (p @ b) (Some a) = scan ss (drop t p @ b) (Some (a\<lparr>act_content := act_content a @ take t p\<rparr>))"
proof -
  let ?c = "act_close a" and ?k = "longest_suffix_prefix_len p (act_close a)" and ?q = "drop t p @ b"
  have c: "?c \<noteq> []" using ok by simp
  have f: "find_sub (p @ b) ?c = map_option ((+) t) (find_sub ?q ?c)"
    unfolding t_def by (rule find_sub_kept [OF n order_refl lsp_props(1) c])
  have td: "take (t + i) (p @ b) = take t p @ take i ?q" "drop (t + i) (p @ b) = drop i ?q" for i
    unfolding t_def by (rule take_kept, rule drop_kept)
  show ?thesis
  proof (cases "find_sub ?q ?c")
    case (Some i)
    with f have g: "find_sub (p @ b) ?c = Some (t + i)" by simp
    have "scan_ok ss (Some (a\<lparr>act_content := act_content a @ take t p\<rparr>))" using ok by simp
    from scan_close [OF this, of ?q i] scan_close [OF ok g] Some show ?thesis
      using td(1) [of i] td(2) [of "i + length ?c"] by (simp add: add.assoc)
  next
    case None
    with f have g: "find_sub (p @ b) ?c = None" by simp
    have l: "longest_suffix_prefix_len (p @ b) ?c = longest_suffix_prefix_len ?q ?c" (is "_ = ?m")
      unfolding t_def by (rule lsp_kept [OF order_refl lsp_props(1) c])
    have "length (p @ b) - ?m = t + (length ?q - ?m)"
      using lsp_props(1) [of ?q ?c] lsp_props(1) [of p ?c] unfolding t_def by simp
    then show ?thesis
      using scan_active_end [OF g, of ss] scan_active_end [of ?q "a\<lparr>act_content := act_content a @ take t p\<rparr>" ss] None l td
      by (simp add: Let_def)
  qed
qed

lemma scan_kept:
  assumes ok: "specs_ok ss" and n: "find_next_open ss p = None"
  defines "t \<equiv> length p - max_open_prefix_suffix_len ss p"
  shows "scan ss (p @ b) None = prepend \<lparr>visible_text = take t p, extracted = []\<rparr> (scan ss (drop t p @ b) None)"
proof -
  let ?q = "drop t p @ b"
  note f = find_next_open_kept [OF ok n, of b, folded t_def]
  have td: "take (t + i) (p @ b) = take t p @ take i ?q" "drop (t + i) (p @ b) = drop i ?q" for i
    unfolding t_def by (rule take_kept, rule drop_kept)
  show ?thesis
  proof (cases "find_next_open ss ?q")
    case (Some r)
    obtain i idx where r: "r = (i, idx)" by (cases r)
    with f Some have g: "find_next_open ss (p @ b) = Some (t + i, idx)" by simp
    from scan_open [OF ok g] scan_open [OF ok Some [unfolded r]] show ?thesis
      using td(1) [of i] td(2) [of "i + length (spec_open (ss ! idx))"]
      by (simp add: add.assoc chunk_append_def)
  next
    case None
    with f have g: "find_next_open ss (p @ b) = None" by simp
    note l = max_open_kept [OF ok, of p b, folded t_def]
    have "length (p @ b) - max_open_prefix_suffix_len ss ?q = t + (length ?q - max_open_prefix_suffix_len ss ?q)"
      using max_open_le [of ss ?q] max_open_le [of ss p] unfolding t_def by simp
    then show ?thesis
      using scan_end [OF g] scan_end [OF None] l td by (simp add: Let_def prepend_def chunk_append_def)
  qed
qed

lemma scan_append:
  assumes "scan_ok ss act"
  shows "scan ss (p @ b) act =
    (case scan ss p act of (out, p', act') \<Rightarrow> prepend out (scan ss (p' @ b) act'))
    \<and> scan_ok ss (snd (snd (scan ss p act)))"
  using assms
proof (induction "length p" arbitrary: p act rule: less_induct)
  case less
  show ?case
  proof (cases act)
    case act: (Some a)
    with less.prems have ok: "scan_ok ss (Some a)" by simp
    show ?thesis
    proof (cases "find_sub p (act_close a)")
      case (Some i)
      have "0 < length (act_close a)" using ok by simp
      then have q: "length (drop (i + length (act_close a)) p) < length p"
        using find_sub_bound [OF Some] unfolding length_drop by linarith
      have ok': "scan_ok ss (None :: 'a active_tag option)" using ok by simp
      have d: "take i (p @ b) = take i p"
          "drop (i + length (act_close a)) (p @ b) = drop (i + length (act_close a)) p @ b"
        using find_sub_bound [OF Some] by auto
      show ?thesis
        using less.hyps [OF q ok'] scan_close [OF ok Some] scan_close [OF ok find_sub_grow [OF Some, of b]] d act
        by (auto simp: prepend_def split_beta chunk_append_assoc)
    next
      case None
      from scan_active_kept [OF ok None, of b] scan_active_end [OF None, of ss] act ok
      show ?thesis by (auto simp: Let_def)
    qed
  next
    case act: None
    with less.prems have ok: "specs_ok ss" by simp
    show ?thesis
    proof (cases "find_next_open ss p")
      case (Some r)
      obtain i idx where r: "r = (i, idx)" by (cases r)
      note s = Some [unfolded r]
      note bd = find_next_open_bound [OF specs_ok_loop_ok [OF ok] s]
      have q: "length (drop (i + length (spec_open (ss ! idx))) p) < length p"
        using bd(3,4) unfolding length_drop by linarith
      have ok': "scan_ok ss (Some \<lparr>act_tag = spec_tag (ss ! idx), act_close = spec_close (ss ! idx), act_content = []\<rparr>)"
        using ok bd by simp
      have d: "take i (p @ b) = take i p"
          "drop (i + length (spec_open (ss ! idx))) (p @ b) = drop (i + length (spec_open (ss ! idx))) p @ b"
        using bd by auto
      show ?thesis
        using less.hyps [OF q ok'] scan_open [OF ok s] scan_open [OF ok find_next_open_grow [OF ok s, of b]] d act
        by (auto simp: prepend_def split_beta chunk_append_assoc)
    next
      case None
      from scan_kept [OF ok None, of b] scan_end [OF None] act ok show ?thesis by (auto simp: Let_def)
    qed
  qed
qed

text \<open>What is left pending gives nothing by itself.\<close>

lemma scan_settled:
  assumes "scan_ok ss act" and "scan ss p act = (out, p', act')"
  shows "scan ss p' act' = (chunk_default, p', act')"
proof -
  obtain o2 p2 a2 where e: "scan ss p' act' = (o2, p2, a2)" by (cases "scan ss p' act'")
  from scan_append [OF assms(1), of p "[]"] assms(2) e have "chunk_append out o2 = out" "p2 = p'" "a2 = act'"
    by (simp_all add: prepend_def)
  moreover from this(1) have "o2 = chunk_default"
    by (cases o2; cases out) (auto simp: chunk_append_def chunk_default_def)
  ultimately show ?thesis using e by simp
qed

section \<open>The parser keeps the contract\<close>

definition inline_inv :: "'a inline_hidden_tag_parser \<Rightarrow> bool" where
  "inline_inv P \<longleftrightarrow> scan_ok (specs P) (active P)
     \<and> scan (specs P) (pending P) (active P) = (chunk_default, pending P, active P)"

lemma inline_push_scan:
  assumes "inline_inv P"
  shows "inline_push_str P chunk =
    (case scan (specs P) (pending P @ chunk) (active P) of
       (out, p', act) \<Rightarrow> (out, P\<lparr>pending := p', active := act\<rparr>))"
  using assms inline_loop_scan [of "specs P" "active P" "pending P @ chunk" "Suc (length (pending P @ chunk))" chunk_default]
  by (simp add: inline_push_str_def inline_inv_def split_beta Let_def)

interpretation inline_tags: stream_text_parser InlineHiddenTagParser inline_inv "\<lambda>t. [t]"
proof unfold_locales
  fix P :: "'a inline_hidden_tag_parser" and c a b :: ustr
  assume inv: "inline_inv P"
  then have ok: "scan_ok (specs P) (active P)" by (simp add: inline_inv_def)
  show keeps: "inline_inv (snd (push_str InlineHiddenTagParser P c))" for c
  proof -
    obtain out p' act where s: "scan (specs P) (pending P @ c) (active P) = (out, p', act)"
      by (cases "scan (specs P) (pending P @ c) (active P)")
    have "scan_ok (specs P) act" using scan_append [OF ok, of "pending P @ c" "[]"] s by simp
    with scan_settled [OF ok s] s show ?thesis
      by (simp add: InlineHiddenTagParser_def inline_push_scan [OF inv]) (simp add: inline_inv_def)
  qed
  show "observe (\<lambda>t. [t]) (fst (push_str InlineHiddenTagParser P [])) = ([], [])
      \<and> snd (push_str InlineHiddenTagParser P []) = P"
    using inv by (simp add: InlineHiddenTagParser_def inline_push_scan) (simp add: inline_inv_def)
  obtain o1 p1 a1 where s1: "scan (specs P) (pending P @ a) (active P) = (o1, p1, a1)"
    by (cases "scan (specs P) (pending P @ a) (active P)")
  obtain o2 p2 a2 where s2: "scan (specs P) (p1 @ b) a1 = (o2, p2, a2)"
    by (cases "scan (specs P) (p1 @ b) a1")
  have s: "scan (specs P) (pending P @ a @ b) (active P) = (chunk_append o1 o2, p2, a2)"
    using scan_append [OF ok, of "pending P @ a" b] s1 s2 by (simp add: prepend_def)
  from keeps [of a] have "inline_inv (P\<lparr>pending := p1, active := a1\<rparr>)"
    using s1 by (simp add: InlineHiddenTagParser_def inline_push_scan [OF inv])
  with s s1 s2 inv show "observe (\<lambda>t. [t]) (fst (push_str InlineHiddenTagParser P (a @ b))) =
        obs_append (observe (\<lambda>t. [t]) (fst (push_str InlineHiddenTagParser P a)))
          (observe (\<lambda>t. [t]) (fst (push_str InlineHiddenTagParser (snd (push_str InlineHiddenTagParser P a)) b)))
      \<and> snd (push_str InlineHiddenTagParser P (a @ b)) =
        snd (push_str InlineHiddenTagParser (snd (push_str InlineHiddenTagParser P a)) b)"
    by (simp add: InlineHiddenTagParser_def inline_push_scan)
qed

lemma inline_new_inv:
  assumes "inline_new ss = Ok P" and "specs_ok ss"
  shows "inline_inv P"
proof -
  from assms(1) have P: "P = \<lparr>specs = ss, pending = [], active = None\<rparr>"
    by (auto simp: inline_new_def split: if_splits)
  have "find_next_open ss [] = None"
    using specs_ok_nth(1) [OF assms(2)] by (simp add: find_next_open_None)
  then have "scan ss [] None = (chunk_default, [], None)"
    using max_open_le [of ss "[]"] by (simp add: scan_end chunk_default_def)
  with P assms(2) show ?thesis by (simp add: inline_inv_def)
qed

lemma inline_new_loop_ok: "inline_new ss = Ok P \<Longrightarrow> loop_ok (specs P) (active P)"
  by (auto simp: inline_new_def loop_ok_def list_ex_iff list_all_iff split: if_splits)

lemma push_loop_ok: "loop_ok (specs P) (active P) \<Longrightarrow>
    loop_ok (specs (snd (inline_push_str P c))) (active (snd (inline_push_str P c)))"
  by (auto simp: inline_push_str_def Let_def dest: inline_loop_keeps_ok split: option.splits)

lemma feed_loop_ok: "loop_ok (specs P) (active P) \<Longrightarrow>
    loop_ok (specs (snd (feed InlineHiddenTagParser P cs))) (active (snd (feed InlineHiddenTagParser P cs)))"
  by (induction cs arbitrary: P)
     (simp_all add: Let_def split_beta InlineHiddenTagParser_def push_loop_ok)

section \<open>Citations\<close>

datatype citation_tag = Citation

definition CITATION_OPEN :: ustr where "CITATION_OPEN = lit ''<oai-mem-citation>''"
definition CITATION_CLOSE :: ustr where "CITATION_CLOSE = lit ''</oai-mem-citation>''"

definition citation_specs :: "citation_tag inline_tag_spec list" where
  "citation_specs = [\<lparr>spec_tag = Citation, spec_open = CITATION_OPEN, spec_close = CITATION_CLOSE\<rparr>]"

definition citation_new :: "citation_tag inline_hidden_tag_parser" where
  "citation_new = \<lparr>specs = citation_specs, pending = [], active = None\<rparr>"

definition contents_only :: "'a extracted_inline_tag stream_text_chunk \<Rightarrow> ustr stream_text_chunk" where
  "contents_only c = \<lparr>visible_text = visible_text c, extracted = map ext_content (extracted c)\<rparr>"

definition citation_push_str ::
  "citation_tag inline_hidden_tag_parser \<Rightarrow> ustr \<Rightarrow> ustr stream_text_chunk \<times> citation_tag inline_hidden_tag_parser" where
  "citation_push_str P chunk = (let (inner, P') = inline_push_str P chunk in (contents_only inner, P'))"

definition citation_finish ::
  "citation_tag inline_hidden_tag_parser \<Rightarrow> ustr stream_text_chunk \<times> citation_tag inline_hidden_tag_parser" where
  "citation_finish P = (let (inner, P') = inline_finish P in (contents_only inner, P'))"

definition CitationStreamParser :: "(citation_tag inline_hidden_tag_parser, ustr) stream_parser" where
  "CitationStreamParser = \<lparr>push_str = citation_push_str, finish = citation_finish\<rparr>"

definition strip_citations :: "ustr \<Rightarrow> ustr \<times> ustr list" where
  "strip_citations text =
     (let (out, P) = citation_push_str citation_new text; (tail, _) = citation_finish P
      in (visible_text out @ visible_text tail, extracted out @ extracted tail))"

lemma contents_only_simps [simp]:
  "visible_text (contents_only c) = visible_text c" "extracted (contents_only c) = map ext_content (extracted c)"
  by (simp_all add: contents_only_def)

lemma citation_specs_ok: "specs_ok citation_specs"
  by (simp add: specs_ok_def citation_specs_def CITATION_OPEN_def CITATION_CLOSE_def)

lemma citation_new_ok: "inline_new citation_specs = Ok citation_new"
  by (simp add: inline_new_def citation_new_def citation_specs_def CITATION_OPEN_def CITATION_CLOSE_def)

lemma citation_inv: "inline_inv citation_new"
  using inline_new_inv [OF citation_new_ok citation_specs_ok] .

interpretation citations: stream_text_parser CitationStreamParser inline_inv "\<lambda>t. [t]"
proof unfold_locales
  fix P :: "citation_tag inline_hidden_tag_parser" and c a b :: ustr
  assume inv: "inline_inv P"
  note p = CitationStreamParser_def citation_push_str_def InlineHiddenTagParser_def split_beta Let_def
    observe_def obs_append_def
  show "inline_inv (snd (push_str CitationStreamParser P c))"
    using inline_tags.push_keeps [OF inv, of c] by (simp add: p)
  show "observe (\<lambda>t. [t]) (fst (push_str CitationStreamParser P [])) = ([], [])
      \<and> snd (push_str CitationStreamParser P []) = P"
    using inline_tags.push_nil [OF inv] by (simp add: p)
  show "observe (\<lambda>t. [t]) (fst (push_str CitationStreamParser P (a @ b))) =
        obs_append (observe (\<lambda>t. [t]) (fst (push_str CitationStreamParser P a)))
          (observe (\<lambda>t. [t]) (fst (push_str CitationStreamParser (snd (push_str CitationStreamParser P a)) b)))
      \<and> snd (push_str CitationStreamParser P (a @ b)) =
        snd (push_str CitationStreamParser (snd (push_str CitationStreamParser P a)) b)"
    using inline_tags.push_append [OF inv, of a b] by (simp add: p)
qed

lemma strip_citations_run:
  "strip_citations text = observe (\<lambda>t. [t]) (run_stream CitationStreamParser citation_new [text])"
  by (simp add: strip_citations_def run_stream_def CitationStreamParser_def observe_def split_beta Let_def)

text \<open>
  Needles no proper prefix of which is also a suffix: a text that does not contain the needle cannot
  form it together with the needle that follows.
\<close>

definition border_free :: "ustr \<Rightarrow> bool" where
  "border_free n \<longleftrightarrow> list_all (\<lambda>k. take k n \<noteq> drop (length n - k) n) [1 ..< length n]"

lemma find_sub_border_free:
  assumes "border_free n" and "n \<noteq> []" and "\<not> contains_sub v n"
  shows "find_sub (v @ n @ r) n = Some (length v)"
proof -
  have "\<not> prefix n (drop j (v @ n @ r))" if j: "j < length v" for j
  proof
    assume "prefix n (drop j (v @ n @ r))"
    then have "prefix n (drop j v @ n @ r)" using j by simp
    moreover have "\<not> prefix n (drop j v)" using assms(3) j by (auto simp: contains_sub_def find_sub_None)
    ultimately obtain us where us: "n = drop j v @ us" "prefix us (n @ r)"
      using prefix_append [of n "drop j v" "n @ r"] by blast
    then have "us \<noteq> []" using \<open>\<not> prefix n (drop j v)\<close> by (metis append_Nil2 prefix_order.refl)
    moreover have "length n = length v - j + length us" using us(1) by (metis length_append length_drop)
    ultimately have l: "length us < length n" "0 < length us" using j by auto
    from us(2) l have "us = take (length us) n"
      by (metis append_eq_append_conv_if prefix_def order_less_imp_le)
    moreover have "us = drop (length n - length us) n"
      using us(1) \<open>length n = length v - j + length us\<close> by (metis add_diff_cancel_right' append_eq_conv_conj length_drop)
    moreover have "length us \<in> set [1 ..< length n]" using l unfolding set_upt atLeastLessThan_iff by linarith
    ultimately show False using assms(1) unfolding border_free_def list_all_iff by metis
  qed
  then show ?thesis by (auto simp: find_sub_Some)
qed

lemma citation_borders: "border_free CITATION_OPEN" "border_free CITATION_CLOSE"
  by code_simp+

text \<open>The text of a message with citations, and all that a stream delivers of it.\<close>

fun cited_text :: "ustr \<Rightarrow> (ustr \<times> ustr) list \<Rightarrow> ustr" where
  "cited_text v [] = v"
| "cited_text v ((c, w) # rest) = v @ CITATION_OPEN @ c @ CITATION_CLOSE @ cited_text w rest"

definition deliver :: "'a inline_tag_spec list \<Rightarrow> ustr \<Rightarrow> 'a active_tag option \<Rightarrow> 'a extracted_inline_tag stream_text_chunk" where
  "deliver ss p act =
     (case scan ss p act of (out, p', act') \<Rightarrow>
        chunk_append out (fst (inline_finish \<lparr>specs = ss, pending = p', active = act'\<rparr>)))"

lemma deliver_plain: "find_next_open ss v = None \<Longrightarrow> deliver ss v None = \<lparr>visible_text = v, extracted = []\<rparr>"
  by (simp add: deliver_def scan_end Let_def inline_finish_def chunk_append_def)

lemma deliver_tag:
  assumes ok: "specs_ok ss" and o: "find_next_open ss p = Some (i, idx)"
    and c: "find_sub (drop (i + length (spec_open (ss ! idx))) p) (spec_close (ss ! idx)) = Some k"
  defines "q \<equiv> drop (i + length (spec_open (ss ! idx))) p"
  shows "deliver ss p None =
    chunk_append \<lparr>visible_text = take i p, extracted = [\<lparr>ext_tag = spec_tag (ss ! idx), ext_content = take k q\<rparr>]\<rparr>
      (deliver ss (drop (k + length (spec_close (ss ! idx))) q) None)"
proof -
  let ?a = "\<lparr>act_tag = spec_tag (ss ! idx), act_close = spec_close (ss ! idx), act_content = []\<rparr>"
  have ok': "scan_ok ss (Some ?a)" using ok find_next_open_bound(2) [OF specs_ok_loop_ok [OF ok] o] by simp
  have c': "find_sub (drop (i + length (spec_open (ss ! idx))) p) (act_close ?a) = Some k" using c by simp
  show ?thesis unfolding deliver_def scan_open [OF ok o] scan_close [OF ok' c'] q_def
    by (simp add: prepend_def split_beta chunk_append_def)
qed

lemma find_next_open_citation:
  "find_next_open citation_specs p = map_option (\<lambda>i. (i, 0)) (find_sub p CITATION_OPEN)"
  by (cases "find_sub p CITATION_OPEN")
    (auto simp: find_next_open_None find_next_open_Some citation_specs_def open_before_irrefl
      simp del: open_before.simps)

lemma deliver_cited:
  "\<not> contains_sub v CITATION_OPEN \<Longrightarrow>
   list_all (\<lambda>(c, w). \<not> contains_sub c CITATION_CLOSE \<and> \<not> contains_sub w CITATION_OPEN) rest \<Longrightarrow>
   visible_text (deliver citation_specs (cited_text v rest) None) = v @ concat (map snd rest)
   \<and> map ext_content (extracted (deliver citation_specs (cited_text v rest) None)) = map fst rest"
proof (induction rest arbitrary: v)
  case Nil
  then have "find_next_open citation_specs v = None" by (simp add: find_next_open_citation contains_sub_def)
  then show ?case by (simp add: deliver_plain)
next
  case (Cons x rest)
  obtain c w where x: "x = (c, w)" by (cases x)
  let ?t = "cited_text v (x # rest)"
  have ne: "CITATION_OPEN \<noteq> []" "CITATION_CLOSE \<noteq> []" by (simp_all add: CITATION_OPEN_def CITATION_CLOSE_def)
  have op: "find_next_open citation_specs ?t = Some (length v, 0)"
    using find_sub_border_free [OF citation_borders(1) ne(1) Cons.prems(1)] x by (simp add: find_next_open_citation)
  have d: "drop (length v + length (spec_open (citation_specs ! 0))) ?t = c @ CITATION_CLOSE @ cited_text w rest"
    using x by (simp add: citation_specs_def)
  have cl: "find_sub (c @ CITATION_CLOSE @ cited_text w rest) CITATION_CLOSE = Some (length c)"
    using find_sub_border_free [OF citation_borders(2) ne(2)] Cons.prems(2) x by simp
  have "deliver citation_specs ?t None =
      chunk_append \<lparr>visible_text = v, extracted = [\<lparr>ext_tag = Citation, ext_content = c\<rparr>]\<rparr>
        (deliver citation_specs (cited_text w rest) None)"
    using deliver_tag [OF citation_specs_ok op, of "length c"] cl x
    unfolding d by (simp add: citation_specs_def)
  with Cons.IH [of w] Cons.prems(2) x show ?case by simp
qed

lemma strip_citations_deliver:
  "strip_citations text =
     (visible_text (deliver citation_specs text None), map ext_content (extracted (deliver citation_specs text None)))"
  using inline_push_scan [OF citation_inv, of "text"]
  by (simp add: strip_citations_def citation_push_str_def citation_finish_def deliver_def split_beta Let_def
      citation_new_def)

section \<open>Properties\<close>

text \<open>
  C13: how a stream is cut does not matter. When no opener occurs inside a different opener, feeding a
  text to the parser in any two ways and finishing gives the same visible text and the same extracted
  tags.
\<close>

theorem inline_tags_chunking:
  assumes "inline_new ss = Ok P" and "specs_ok ss" and "concat chunks = concat chunks'"
  shows "run_stream InlineHiddenTagParser P chunks = run_stream InlineHiddenTagParser P chunks'"
proof -
  have "observe (\<lambda>t. [t]) (run_stream InlineHiddenTagParser P chunks)
      = observe (\<lambda>t. [t]) (run_stream InlineHiddenTagParser P chunks')"
    by (rule inline_tags.run_chunking [OF inline_new_inv [OF assms(1,2)] assms(3)])
  then show ?thesis by (auto simp: observe_def intro: stream_text_chunk.equality)
qed

text \<open>
  the loop of \<^verbatim>\<open>push_str\<close> always ends. Whatever tags the constructor accepts and whatever text has
  arrived before, one more round than there are characters pending is enough to consume the next
  chunk, and more rounds give the same result.
\<close>

theorem inline_push_str_terminates:
  assumes "inline_new ss = Ok P\<^sub>0" and "P = snd (feed InlineHiddenTagParser P\<^sub>0 chunks)"
  shows "\<exists>r. \<forall>fuel > length (pending P @ chunk).
    inline_loop fuel (specs P) (pending P @ chunk) (active P) chunk_default = Some r"
proof -
  have "loop_ok (specs P) (active P)"
    unfolding assms(2) by (rule feed_loop_ok) (use assms(1) in \<open>simp add: inline_new_loop_ok\<close>)
  from inline_loop_fuel [OF this] show ?thesis by (metis lessI option.exhaust)
qed

definition two_tags :: "nat inline_tag_spec list" where
  "two_tags = [\<lparr>spec_tag = 0, spec_open = lit ''<a>'', spec_close = lit ''</a>''\<rparr>,
     \<lparr>spec_tag = 1, spec_open = lit ''<b>'', spec_close = lit ''</b>''\<rparr>]"

definition two_tags_parser :: "nat inline_hidden_tag_parser" where
  "two_tags_parser = \<lparr>specs = two_tags, pending = [], active = None\<rparr>"

theorem inline_tags_chunking_witness:
  "inline_new two_tags = Ok two_tags_parser \<and> specs_ok two_tags
   \<and> run_stream InlineHiddenTagParser two_tags_parser [lit ''x<'', lit ''b>y</b'', lit ''>z<a'']
     = run_stream InlineHiddenTagParser two_tags_parser [lit ''x<b>y</b>z<a'']
   \<and> run_stream InlineHiddenTagParser two_tags_parser [lit ''x<b>y</b>z<a'']
     = \<lparr>visible_text = lit ''xz<a'', extracted = [\<lparr>ext_tag = 1, ext_content = lit ''y''\<rparr>]\<rparr>"
proof -
  have n: "inline_new two_tags = Ok two_tags_parser" by code_simp
  have ok: "specs_ok two_tags" by code_simp
  have e: "run_stream InlineHiddenTagParser two_tags_parser [lit ''x<b>y</b>z<a'']
     = \<lparr>visible_text = lit ''xz<a'', extracted = [\<lparr>ext_tag = 1, ext_content = lit ''y''\<rparr>]\<rparr>" by code_simp
  show ?thesis
    using n ok e inline_tags_chunking [OF n ok, of "[lit ''x<'', lit ''b>y</b'', lit ''>z<a'']" "[lit ''x<b>y</b>z<a'']"]
    by simp
qed

theorem inline_push_str_terminates_witness:
  "\<exists>r. inline_loop 6 two_tags (lit ''<b>y<'') None chunk_default = Some r
     \<and> inline_loop 100 two_tags (lit ''<b>y<'') None chunk_default = Some r"
proof -
  have n: "inline_new two_tags = Ok two_tags_parser" by code_simp
  have P: "\<lparr>specs = two_tags, pending = lit ''<b'', active = None\<rparr>
      = snd (feed InlineHiddenTagParser two_tags_parser [lit ''x<b''])" by code_simp
  obtain r where "\<forall>fuel > 5. inline_loop fuel two_tags (lit ''<b>y<'') None chunk_default = Some r"
    using inline_push_str_terminates [OF n P, of "lit ''>y<''"] by (auto simp: numeral_eq_Suc)
  then show ?thesis by (intro exI [of _ r]) simp
qed

text \<open>
  stripping citations separates exactly what was written: from visible pieces without an opening
  tag and citations without a closing tag, interleaved, the visible pieces come back concatenated and
  the citations come back in order.
\<close>

theorem strip_citations_roundtrip:
  assumes "\<not> contains_sub v CITATION_OPEN"
    and "list_all (\<lambda>(c, w). \<not> contains_sub c CITATION_CLOSE \<and> \<not> contains_sub w CITATION_OPEN) rest"
  shows "strip_citations (cited_text v rest) = (v @ concat (map snd rest), map fst rest)"
  using deliver_cited [OF assms] by (simp add: strip_citations_deliver)

theorem strip_citations_roundtrip_witness:
  "strip_citations (cited_text (lit ''see '') [(lit ''doc <1>'', lit '', and''), ([], lit '' more'')])
   = (lit ''see , and more'', [lit ''doc <1>'', []])"
proof -
  have a: "\<not> contains_sub (lit ''see '') CITATION_OPEN" by code_simp
  have b: "list_all (\<lambda>(c, w). \<not> contains_sub c CITATION_CLOSE \<and> \<not> contains_sub w CITATION_OPEN)
      [(lit ''doc <1>'', lit '', and''), ([], lit '' more'')]" by code_simp
  show ?thesis using strip_citations_roundtrip [OF a b] by simp
qed

text \<open>An opener that starts another one is found early or late, depending on how the text is cut.\<close>

lemma nested_openers_depend_on_chunks:
  "let P = \<lparr>specs = [\<lparr>spec_tag = 0, spec_open = lit ''<a'', spec_close = lit ''>''\<rparr>,
        \<lparr>spec_tag = Suc 0, spec_open = lit ''<ab'', spec_close = lit ''>''\<rparr>], pending = [], active = None\<rparr>
   in run_stream InlineHiddenTagParser P [lit ''<ab>''] \<noteq> run_stream InlineHiddenTagParser P [lit ''<a'', lit ''b>'']"
  by code_simp

end
