(* ===== verification/Tagged_Lines.thy ===== *)
theory Tagged_Lines
  imports Stream_Text
begin

text \<open>
  Tag blocks whose tags stand alone on a line: \<^verbatim>\<open>TaggedLineParser\<close>
  (\<^verbatim>\<open>src/utils/common/src/stream_parser/tagged_line_parser.rs\<close>) and the parser for proposed plans
  (\<^verbatim>\<open>proposed_plan.rs\<close>). The parser works character by character and holds back a line only while
  it may still become a tag; the reference below reads whole lines.
\<close>

section \<open>Definitions\<close>

record 'a tag_spec =
  tag_open :: ustr
  tag_close :: ustr
  tag_of :: 'a

datatype 'a tagged_line_segment =
    SegNormal ustr
  | SegTagStart 'a
  | SegTagDelta 'a ustr
  | SegTagEnd 'a

record 'a tagged_line_parser =
  line_specs :: "'a tag_spec list"
  active_tag :: "'a option"
  detect_tag :: bool
  line_buffer :: ustr

definition tagged_new :: "'a tag_spec list \<Rightarrow> 'a tagged_line_parser" where
  "tagged_new ss = \<lparr>line_specs = ss, active_tag = None, detect_tag = True, line_buffer = []\<rparr>"

fun push_segment :: "'a tagged_line_segment list \<Rightarrow> 'a tagged_line_segment \<Rightarrow> 'a tagged_line_segment list" where
  "push_segment segments (SegNormal delta) =
     (if delta = [] then segments
      else if segments = [] then [SegNormal delta]
      else case last segments of
             SegNormal existing \<Rightarrow> butlast segments @ [SegNormal (existing @ delta)]
           | _ \<Rightarrow> segments @ [SegNormal delta])"
| "push_segment segments (SegTagDelta tag delta) =
     (if delta = [] then segments
      else if segments = [] then [SegTagDelta tag delta]
      else case last segments of
             SegTagDelta existing_tag existing \<Rightarrow>
               if existing_tag = tag then butlast segments @ [SegTagDelta tag (existing @ delta)]
               else segments @ [SegTagDelta tag delta]
           | _ \<Rightarrow> segments @ [SegTagDelta tag delta])"
| "push_segment segments (SegTagStart tag) = segments @ [SegTagStart tag]"
| "push_segment segments (SegTagEnd tag) = segments @ [SegTagEnd tag]"

definition push_text :: "'a tagged_line_parser \<Rightarrow> ustr \<Rightarrow> 'a tagged_line_segment list \<Rightarrow> 'a tagged_line_segment list" where
  "push_text P t segments =
     (case active_tag P of
        Some tag \<Rightarrow> push_segment segments (SegTagDelta tag t)
      | None \<Rightarrow> push_segment segments (SegNormal t))"

definition is_tag_prefix :: "'a tag_spec list \<Rightarrow> ustr \<Rightarrow> bool" where
  "is_tag_prefix ss slug =
     (let slug = trim_end slug
      in list_ex (\<lambda>spec. starts_with (tag_open spec) slug \<or> starts_with (tag_close spec) slug) ss)"

definition match_open :: "'a tag_spec list \<Rightarrow> ustr \<Rightarrow> 'a option" where
  "match_open ss slug = map_option tag_of (find (\<lambda>spec. tag_open spec = slug) ss)"

definition match_close :: "'a tag_spec list \<Rightarrow> ustr \<Rightarrow> 'a option" where
  "match_close ss slug = map_option tag_of (find (\<lambda>spec. tag_close spec = slug) ss)"

definition without_newline :: "ustr \<Rightarrow> ustr" where
  "without_newline line = (case strip_suffix line [newline] of Some l \<Rightarrow> l | None \<Rightarrow> line)"

definition finish_line ::
  "'a tagged_line_parser \<Rightarrow> 'a tagged_line_segment list \<Rightarrow> 'a tagged_line_segment list \<times> 'a tagged_line_parser" where
  "finish_line P segments =
     (let line = line_buffer P; P = P\<lparr>line_buffer := []\<rparr>; slug = trim_end (trim_start (without_newline line))
      in case match_open (line_specs P) slug of
           Some tag \<Rightarrow>
             if active_tag P = None
             then (push_segment segments (SegTagStart tag), P\<lparr>active_tag := Some tag, detect_tag := True\<rparr>)
             else (case match_close (line_specs P) slug of
                     Some tag \<Rightarrow>
                       if active_tag P = Some tag
                       then (push_segment segments (SegTagEnd tag), P\<lparr>active_tag := None, detect_tag := True\<rparr>)
                       else (push_text P line segments, P\<lparr>detect_tag := True\<rparr>)
                   | None \<Rightarrow> (push_text P line segments, P\<lparr>detect_tag := True\<rparr>))
         | None \<Rightarrow>
             (case match_close (line_specs P) slug of
                Some tag \<Rightarrow>
                  if active_tag P = Some tag
                  then (push_segment segments (SegTagEnd tag), P\<lparr>active_tag := None, detect_tag := True\<rparr>)
                  else (push_text P line segments, P\<lparr>detect_tag := True\<rparr>)
              | None \<Rightarrow> (push_text P line segments, P\<lparr>detect_tag := True\<rparr>)))"

text \<open>One iteration of the loop over the characters: the parser, the run and the segments.\<close>

fun parse_char ::
  "'a tagged_line_parser \<times> ustr \<times> 'a tagged_line_segment list \<Rightarrow> uchar
     \<Rightarrow> 'a tagged_line_parser \<times> ustr \<times> 'a tagged_line_segment list" where
  "parse_char (P, run, segments) ch =
     (if detect_tag P then
        (let segments = (if run \<noteq> [] then push_text P run segments else segments);
             P = P\<lparr>line_buffer := line_buffer P @ [ch]\<rparr>
         in if ch = newline then (let (segments, P) = finish_line P segments in (P, [], segments))
            else (let slug = trim_start (line_buffer P)
                  in if slug = [] \<or> is_tag_prefix (line_specs P) slug then (P, [], segments)
                     else (P\<lparr>line_buffer := [], detect_tag := False\<rparr>, [], push_text P (line_buffer P) segments)))
      else if ch = newline then (P\<lparr>detect_tag := True\<rparr>, [], push_text P (run @ [ch]) segments)
      else (P, run @ [ch], segments))"

definition tagged_parse ::
  "'a tagged_line_parser \<Rightarrow> ustr \<Rightarrow> 'a tagged_line_segment list \<times> 'a tagged_line_parser" where
  "tagged_parse P delta =
     (let (P', run, segments) = foldl parse_char (P, [], []) delta
      in (if run \<noteq> [] then push_text P' run segments else segments, P'))"

definition tagged_finish :: "'a tagged_line_parser \<Rightarrow> 'a tagged_line_segment list \<times> 'a tagged_line_parser" where
  "tagged_finish P =
     (let (segments, P) =
        (if line_buffer P \<noteq> [] then finish_line P [] else ([], P))
      in case active_tag P of
           Some tag \<Rightarrow> (push_segment segments (SegTagEnd tag), P\<lparr>active_tag := None, detect_tag := True\<rparr>)
         | None \<Rightarrow> (segments, P\<lparr>detect_tag := True\<rparr>))"

subsection \<open>Proposed plans\<close>

datatype plan_tag = ProposedPlan

definition OPEN_TAG :: ustr where "OPEN_TAG = lit ''<proposed_plan>''"
definition CLOSE_TAG :: ustr where "CLOSE_TAG = lit ''</proposed_plan>''"

datatype proposed_plan_segment =
    PlanNormal ustr
  | ProposedPlanStart
  | ProposedPlanDelta ustr
  | ProposedPlanEnd

definition plan_new :: "plan_tag tagged_line_parser" where
  "plan_new = tagged_new [\<lparr>tag_open = OPEN_TAG, tag_close = CLOSE_TAG, tag_of = ProposedPlan\<rparr>]"

fun plan_segment :: "plan_tag tagged_line_segment \<Rightarrow> proposed_plan_segment" where
  "plan_segment (SegNormal t) = PlanNormal t"
| "plan_segment (SegTagStart _) = ProposedPlanStart"
| "plan_segment (SegTagDelta _ t) = ProposedPlanDelta t"
| "plan_segment (SegTagEnd _) = ProposedPlanEnd"

definition map_segments :: "plan_tag tagged_line_segment list \<Rightarrow> proposed_plan_segment stream_text_chunk" where
  "map_segments segments =
     foldl (\<lambda>out segment.
         let mapped = plan_segment segment;
             out = (case mapped of PlanNormal t \<Rightarrow> out\<lparr>visible_text := visible_text out @ t\<rparr> | _ \<Rightarrow> out)
         in out\<lparr>extracted := extracted out @ [mapped]\<rparr>) chunk_default segments"

definition plan_push_str ::
  "plan_tag tagged_line_parser \<Rightarrow> ustr \<Rightarrow> proposed_plan_segment stream_text_chunk \<times> plan_tag tagged_line_parser" where
  "plan_push_str P chunk = (let (segments, P') = tagged_parse P chunk in (map_segments segments, P'))"

definition plan_finish ::
  "plan_tag tagged_line_parser \<Rightarrow> proposed_plan_segment stream_text_chunk \<times> plan_tag tagged_line_parser" where
  "plan_finish P = (let (segments, P') = tagged_finish P in (map_segments segments, P'))"

definition ProposedPlanParser :: "(plan_tag tagged_line_parser, proposed_plan_segment) stream_parser" where
  "ProposedPlanParser = \<lparr>push_str = plan_push_str, finish = plan_finish\<rparr>"

definition strip_proposed_plan_blocks :: "ustr \<Rightarrow> ustr" where
  "strip_proposed_plan_blocks t =
     (let (out, P) = plan_push_str plan_new t in visible_text out @ visible_text (fst (plan_finish P)))"

fun extract_segment :: "ustr \<times> bool \<Rightarrow> proposed_plan_segment \<Rightarrow> ustr \<times> bool" where
  "extract_segment (plan_text, saw) ProposedPlanStart = ([], True)"
| "extract_segment (plan_text, saw) (ProposedPlanDelta delta) = (plan_text @ delta, saw)"
| "extract_segment (plan_text, saw) ProposedPlanEnd = (plan_text, saw)"
| "extract_segment (plan_text, saw) (PlanNormal _) = (plan_text, saw)"

definition extract_proposed_plan_text :: "ustr \<Rightarrow> ustr option" where
  "extract_proposed_plan_text t =
     (let (out, P) = plan_push_str plan_new t;
          (plan_text, saw_plan_block) = foldl extract_segment ([], False) (extracted out @ extracted (fst (plan_finish P)))
      in if saw_plan_block then Some plan_text else None)"

section \<open>Events\<close>

text \<open>What a consumer sees, independent of how text is cut into segments.\<close>

datatype 'a line_event = EvText uchar | EvStart 'a | EvIn 'a uchar | EvEnd 'a

fun seg_events :: "'a tagged_line_segment \<Rightarrow> 'a line_event list" where
  "seg_events (SegNormal t) = map EvText t"
| "seg_events (SegTagStart tag) = [EvStart tag]"
| "seg_events (SegTagDelta tag t) = map (EvIn tag) t"
| "seg_events (SegTagEnd tag) = [EvEnd tag]"

definition segs_events :: "'a tagged_line_segment list \<Rightarrow> 'a line_event list" where
  "segs_events segments = concat (map seg_events segments)"

definition text_events :: "'a option \<Rightarrow> ustr \<Rightarrow> 'a line_event list" where
  "text_events act t = (case act of Some tag \<Rightarrow> map (EvIn tag) t | None \<Rightarrow> map EvText t)"

lemma segs_events_simps [simp]:
  "segs_events [] = []" "segs_events (x # xs) = seg_events x @ segs_events xs"
  "segs_events (xs @ ys) = segs_events xs @ segs_events ys"
  by (simp_all add: segs_events_def)

lemma text_events_simps [simp]: "text_events act [] = []"
  "text_events act (s @ t) = text_events act s @ text_events act t"
  by (simp_all add: text_events_def split: option.split)

lemma text_events_Cons: "NO_MATCH [] t \<Longrightarrow> text_events act (c # t) = text_events act [c] @ text_events act t"
  by (simp add: text_events_def split: option.split)

lemma push_segment_events [simp]: "segs_events (push_segment segs seg) = segs_events segs @ seg_events seg"
  by (cases seg; cases segs rule: rev_cases) (auto split: tagged_line_segment.splits)

declare push_segment.simps [simp del]

lemma push_text_events [simp]: "segs_events (push_text P t segs) = segs_events segs @ text_events (active_tag P) t"
  by (simp add: push_text_def text_events_def split: option.split)

section \<open>The reference: line by line\<close>

text \<open>What a complete line means: a tag, or text.\<close>

definition line_step :: "'a tag_spec list \<Rightarrow> 'a option \<Rightarrow> ustr \<Rightarrow> 'a line_event list \<times> 'a option" where
  "line_step ss act line =
     (let slug = trim (without_newline line)
      in if match_open ss slug \<noteq> None \<and> act = None
         then ([EvStart (the (match_open ss slug))], match_open ss slug)
         else if act \<noteq> None \<and> match_close ss slug = act then ([EvEnd (the act)], None)
         else (text_events act line, act))"

fun read_lines :: "'a tag_spec list \<Rightarrow> 'a option \<Rightarrow> ustr list \<Rightarrow> 'a line_event list \<times> 'a option" where
  "read_lines ss act [] = ([], act)"
| "read_lines ss act (l # ls) =
     (let (es, act') = line_step ss act l; (es', act'') = read_lines ss act' ls in (es @ es', act''))"

text \<open>The lines of a text, each with its line feed; the last one may lack it.\<close>

fun split_inclusive :: "ustr \<Rightarrow> ustr list" where
  "split_inclusive [] = []"
| "split_inclusive (c # cs) =
     (if c = newline then [c] # split_inclusive cs
      else (case split_inclusive cs of [] \<Rightarrow> [[c]] | l # ls \<Rightarrow> (c # l) # ls))"

definition read_text :: "'a tag_spec list \<Rightarrow> ustr \<Rightarrow> 'a line_event list" where
  "read_text ss t =
     (case read_lines ss None (split_inclusive t) of (es, act) \<Rightarrow>
        es @ (case act of Some tag \<Rightarrow> [EvEnd tag] | None \<Rightarrow> []))"

lemma finish_line_step:
  "segs_events (fst (finish_line P segs)) =
     segs_events segs @ fst (line_step (line_specs P) (active_tag P) (line_buffer P))"
  "snd (finish_line P segs) =
     P\<lparr>active_tag := snd (line_step (line_specs P) (active_tag P) (line_buffer P)),
       line_buffer := [], detect_tag := True\<rparr>"
  unfolding finish_line_def line_step_def Let_def trim_def
  by (cases "active_tag P"; auto split: option.splits if_splits)+

section \<open>One character at a time\<close>

definition char_step :: "'a tagged_line_parser \<Rightarrow> uchar \<Rightarrow> 'a line_event list \<times> 'a tagged_line_parser" where
  "char_step P ch =
     (if detect_tag P then
        (let buffered = line_buffer P @ [ch]; slug = trim_start buffered
         in if ch = newline then
              (let (es, act) = line_step (line_specs P) (active_tag P) buffered
               in (es, P\<lparr>active_tag := act, line_buffer := [], detect_tag := True\<rparr>))
            else if slug = [] \<or> is_tag_prefix (line_specs P) slug then ([], P\<lparr>line_buffer := buffered\<rparr>)
            else (text_events (active_tag P) buffered, P\<lparr>line_buffer := [], detect_tag := False\<rparr>))
      else (text_events (active_tag P) [ch], P\<lparr>detect_tag := ch = newline\<rparr>))"

fun char_steps :: "'a tagged_line_parser \<Rightarrow> ustr \<Rightarrow> 'a line_event list \<times> 'a tagged_line_parser" where
  "char_steps P [] = ([], P)"
| "char_steps P (c # cs) =
     (let (es, P') = char_step P c; (es', P'') = char_steps P' cs in (es @ es', P''))"

lemma char_steps_append:
  "char_steps P (a @ b) =
     (let (es, P') = char_steps P a; (es', P'') = char_steps P' b in (es @ es', P''))"
  by (induction a arbitrary: P) (auto simp: Let_def split_beta)

text \<open>The run of the loop only delays text.\<close>

lemma parse_char_step:
  assumes "parse_char (P, run, segs) c = (P', run', segs')" and "run \<noteq> [] \<Longrightarrow> \<not> detect_tag P"
  shows "segs_events segs' @ text_events (active_tag P') run' =
      segs_events segs @ text_events (active_tag P) run @ fst (char_step P c)
    \<and> P' = snd (char_step P c) \<and> (run' \<noteq> [] \<longrightarrow> \<not> detect_tag P')"
  using assms
  by (auto simp: finish_line_step char_step_def Let_def split_beta split: if_splits)

lemma parse_loop_steps:
  assumes "foldl parse_char (P, run, segs) cs = (P', run', segs')" and "run \<noteq> [] \<Longrightarrow> \<not> detect_tag P"
  shows "segs_events segs' @ text_events (active_tag P') run' =
      segs_events segs @ text_events (active_tag P) run @ fst (char_steps P cs)
    \<and> P' = snd (char_steps P cs)"
  using assms
proof (induction cs arbitrary: P run segs)
  case (Cons c cs)
  obtain P1 run1 segs1 where s: "parse_char (P, run, segs) c = (P1, run1, segs1)" using prod_cases3 by blast
  have st: "segs_events segs1 @ text_events (active_tag P1) run1 =
      segs_events segs @ text_events (active_tag P) run @ fst (char_step P c)"
    "P1 = snd (char_step P c)" "run1 \<noteq> [] \<Longrightarrow> \<not> detect_tag P1"
    using parse_char_step [OF s Cons.prems(2)] by blast+
  from Cons.prems(1) s have f: "foldl parse_char (P1, run1, segs1) cs = (P', run', segs')" by simp
  from Cons.IH [OF f st(3)] st(1,2) show ?case
    by (auto simp: Let_def split_beta append.assoc [symmetric] simp del: append.assoc append_assoc)
qed auto

lemma tagged_parse_steps:
  "segs_events (fst (tagged_parse P t)) = fst (char_steps P t) \<and> snd (tagged_parse P t) = snd (char_steps P t)"
proof -
  obtain P' run segs where f: "foldl parse_char (P, [], []) t = (P', run, segs)" using prod_cases3 by blast
  from parse_loop_steps [OF f] show ?thesis by (auto simp: tagged_parse_def f)
qed

section \<open>The parser reads lines\<close>

fun first_line :: "ustr \<Rightarrow> ustr \<times> ustr" where
  "first_line [] = ([], [])"
| "first_line (c # cs) = (if c = newline then ([c], cs) else (let (l, r) = first_line cs in (c # l, r)))"

lemma split_inclusive_Cons:
  "c \<noteq> newline \<Longrightarrow> split_inclusive (c # t) = (c # fst (first_line t)) # split_inclusive (snd (first_line t))"
  by (induction t arbitrary: c) (auto simp: Let_def split_beta)

lemma split_inclusive_line:
  "x \<noteq> [] \<Longrightarrow> newline \<notin> set x \<Longrightarrow>
   split_inclusive (x @ t) = (x @ fst (first_line t)) # split_inclusive (snd (first_line t))"
proof (induction x)
  case (Cons c x)
  show ?case
  proof (cases x)
    case Nil
    with Cons.prems show ?thesis by (simp add: split_inclusive_Cons del: split_inclusive.simps)
  next
    case (Cons d y)
    with Cons.IH Cons.prems show ?thesis by simp
  qed
qed simp

lemma split_inclusive_newline:
  "newline \<notin> set x \<Longrightarrow> split_inclusive (x @ newline # t) = (x @ [newline]) # split_inclusive t"
  by (cases "x = []") (simp_all add: split_inclusive_line)

lemma without_newline_append:
  "newline \<notin> set b \<Longrightarrow> \<exists>r'. without_newline (b @ r) = b @ r'"
proof (cases "strip_suffix (b @ r) [newline]")
  case (Some l)
  assume nb: "newline \<notin> set b"
  from Some have "b @ r = l @ [newline]" by (simp add: strip_suffix_Some)
  with nb have "r \<noteq> []" "l = b @ butlast r"
    by (auto simp: append_eq_append_conv2 append_eq_Cons_conv)
  with Some show ?thesis by (auto simp: without_newline_def)
qed (auto simp: without_newline_def)

text \<open>A line that was released early is no tag, whatever follows.\<close>

lemma trim_end_prefix: "prefix (trim_end x) (trim_end (x @ y))"
proof (cases "\<forall>c\<in>set y. is_whitespace c")
  case True
  then show ?thesis by (simp add: trim_end_def trim_end_matches_append)
next
  case False
  have "prefix (trim_end x) x" using trim_end_matches_decomp [of x is_whitespace]
    unfolding trim_end_def prefix_def by blast
  with False show ?thesis by (simp add: trim_end_def trim_end_matches_append prefix_prefix)
qed

lemma released_line_is_text:
  assumes b: "newline \<notin> set b" "trim_start b \<noteq> []" "\<not> is_tag_prefix ss (trim_start b)"
  shows "line_step ss act (b @ r) = (text_events act (b @ r), act)"
proof -
  obtain r' where r': "without_newline (b @ r) = b @ r'" using without_newline_append [OF b(1)] by blast
  have "trim (b @ r') = trim_end (trim_start b @ r')"
    using b(2) by (auto simp: trim_def trim_start_def dropWhile_append dropWhile_eq_Nil_conv)
  then have "prefix (trim_end (trim_start b)) (trim (without_newline (b @ r)))"
    using trim_end_prefix r' by simp
  then have "\<not> (\<exists>spec\<in>set ss. tag_open spec = trim (without_newline (b @ r)) \<or> tag_close spec = trim (without_newline (b @ r)))"
    using b(3) by (auto simp: is_tag_prefix_def list_ex_iff Let_def)
  then have "match_open ss (trim (without_newline (b @ r))) = None" "match_close ss (trim (without_newline (b @ r))) = None"
    by (auto simp: match_open_def match_close_def find_None_iff)
  then show ?thesis by (auto simp: line_step_def Let_def)
qed

definition closing :: "'a line_event list \<times> 'a option \<Rightarrow> 'a line_event list" where
  "closing r = fst r @ (case snd r of Some tag \<Rightarrow> [EvEnd tag] | None \<Rightarrow> [])"

definition parser_ok :: "'a tagged_line_parser \<Rightarrow> bool" where
  "parser_ok P \<longleftrightarrow> newline \<notin> set (line_buffer P) \<and> (\<not> detect_tag P \<longrightarrow> line_buffer P = [])"

definition read_from :: "'a tagged_line_parser \<Rightarrow> ustr \<Rightarrow> 'a line_event list" where
  "read_from P t =
     (if detect_tag P then closing (read_lines (line_specs P) (active_tag P) (split_inclusive (line_buffer P @ t)))
      else text_events (active_tag P) (fst (first_line t))
        @ closing (read_lines (line_specs P) (active_tag P) (split_inclusive (snd (first_line t)))))"

lemma closing_step:
  "closing (read_lines ss act (l # ls)) =
     fst (line_step ss act l) @ closing (read_lines ss (snd (line_step ss act l)) ls)"
  by (simp add: closing_def Let_def split_beta)

lemma tagged_finish_events: "parser_ok P \<Longrightarrow> segs_events (fst (tagged_finish P)) = read_from P []"
  using split_inclusive_line [of "line_buffer P" "[]"]
  by (cases "line_buffer P = []")
    (auto simp: tagged_finish_def read_from_def parser_ok_def closing_def finish_line_step Let_def split_beta
       split: option.split)

lemma read_from_step:
  assumes "parser_ok P"
  shows "read_from P (c # t) = fst (char_step P c) @ read_from (snd (char_step P c)) t
    \<and> parser_ok (snd (char_step P c))"
proof (cases "detect_tag P")
  case True
  let ?b = "line_buffer P @ [c]"
  have nb: "newline \<notin> set (line_buffer P)" using assms by (simp add: parser_ok_def)
  show ?thesis
  proof (cases "c = newline")
    case True
    with \<open>detect_tag P\<close> nb show ?thesis
      by (auto simp: read_from_def char_step_def closing_step split_inclusive_newline Let_def split_beta parser_ok_def
          simp del: read_lines.simps)
  next
    case False
    show ?thesis
    proof (cases "trim_start ?b = [] \<or> is_tag_prefix (line_specs P) (trim_start ?b)")
      case True
      with \<open>detect_tag P\<close> False nb show ?thesis by (auto simp: read_from_def char_step_def Let_def parser_ok_def)
    next
      case flush: False
      let ?l = "fst (first_line t)"
      have "line_step (line_specs P) (active_tag P) (?b @ ?l) = (text_events (active_tag P) (?b @ ?l), active_tag P)"
        using flush nb False by (intro released_line_is_text) auto
      moreover have "split_inclusive (?b @ t) = (?b @ ?l) # split_inclusive (snd (first_line t))"
        using nb False by (intro split_inclusive_line) auto
      ultimately show ?thesis
        using \<open>detect_tag P\<close> False flush
        by (auto simp: read_from_def char_step_def closing_step Let_def parser_ok_def text_events_Cons
            simp del: split_inclusive.simps read_lines.simps)
    qed
  qed
next
  case False
  with assms show ?thesis
    by (auto simp: read_from_def char_step_def Let_def split_beta parser_ok_def text_events_Cons)
qed

lemma char_steps_read:
  "parser_ok P \<Longrightarrow>
   fst (char_steps P t) @ segs_events (fst (tagged_finish (snd (char_steps P t)))) = read_from P t"
proof (induction t arbitrary: P)
  case Nil
  then show ?case by (simp add: tagged_finish_events)
next
  case (Cons c t)
  from read_from_step [OF Cons.prems, of c t] Cons.IH [of "snd (char_step P c)"] show ?case
    by (simp add: Let_def split_beta)
qed

section \<open>Proposed plans keep the contract\<close>

fun plan_events :: "proposed_plan_segment \<Rightarrow> plan_tag line_event list" where
  "plan_events (PlanNormal t) = map EvText t"
| "plan_events ProposedPlanStart = [EvStart ProposedPlan]"
| "plan_events (ProposedPlanDelta t) = map (EvIn ProposedPlan) t"
| "plan_events ProposedPlanEnd = [EvEnd ProposedPlan]"

definition plain_text :: "'a line_event list \<Rightarrow> ustr" where
  "plain_text es = List.map_filter (\<lambda>e. case e of EvText c \<Rightarrow> Some c | _ \<Rightarrow> None) es"

lemma plain_text_simps [simp]:
  "plain_text [] = []" "plain_text (es @ es') = plain_text es @ plain_text es'"
  "plain_text (map EvText t) = t" "plain_text (map (EvIn tag) t) = []"
  by (simp_all add: plain_text_def map_filter_def comp_def)

lemma plan_segment_events: "plan_events (plan_segment seg) = seg_events seg"
proof (cases seg)
  case (SegTagStart tag)
  then show ?thesis by (cases tag) simp
next
  case (SegTagDelta tag t)
  then show ?thesis by (cases tag) simp
next
  case (SegTagEnd tag)
  then show ?thesis by (cases tag) simp
qed simp

lemma map_segments_simps:
  "extracted (map_segments segs) = map plan_segment segs"
  "visible_text (map_segments segs) = plain_text (segs_events segs)"
proof -
  have "extracted (map_segments segs) = map plan_segment segs
      \<and> visible_text (map_segments segs) = plain_text (segs_events segs)"
  proof (induction segs rule: rev_induct)
    case (snoc seg segs)
    then show ?case
      by (cases seg) (auto simp: map_segments_def plain_text_def map_filter_def comp_def)
  qed (simp add: map_segments_def)
  then show "extracted (map_segments segs) = map plan_segment segs"
    "visible_text (map_segments segs) = plain_text (segs_events segs)" by auto
qed

lemma observe_map_segments:
  "observe plan_events (map_segments segs) = (plain_text (segs_events segs), segs_events segs)"
  by (simp add: observe_def map_segments_simps comp_def plan_segment_events segs_events_def)

interpretation plans: stream_text_parser ProposedPlanParser "\<lambda>_. True" plan_events
  by unfold_locales
    (auto simp: ProposedPlanParser_def plan_push_str_def split_beta Let_def observe_map_segments
      tagged_parse_steps char_steps_append obs_append_def)

section \<open>Blocks\<close>

definition plan_specs :: "plan_tag tag_spec list" where
  "plan_specs = [\<lparr>tag_open = OPEN_TAG, tag_close = CLOSE_TAG, tag_of = ProposedPlan\<rparr>]"

lemma plan_new_read: "fst (char_steps plan_new t) @ segs_events (fst (tagged_finish (snd (char_steps plan_new t))))
    = read_text plan_specs t"
  using char_steps_read [of plan_new t]
  by (simp add: plan_new_def tagged_new_def parser_ok_def read_from_def read_text_def closing_def plan_specs_def split_beta)

lemma plan_run_read:
  "observe plan_events (run_stream ProposedPlanParser plan_new [t])
     = (plain_text (read_text plan_specs t), read_text plan_specs t)"
proof -
  let ?segs = "fst (tagged_parse plan_new t) @ fst (tagged_finish (snd (tagged_parse plan_new t)))"
  have e: "segs_events ?segs = read_text plan_specs t" using plan_new_read by (simp add: tagged_parse_steps)
  have "observe plan_events (run_stream ProposedPlanParser plan_new [t]) = (plain_text (segs_events ?segs), segs_events ?segs)"
    by (simp add: run_stream_def ProposedPlanParser_def plan_push_str_def plan_finish_def split_beta Let_def
        observe_map_segments obs_append_def)
  then show ?thesis unfolding e .
qed

lemma strip_plan_read: "strip_proposed_plan_blocks t = plain_text (read_text plan_specs t)"
  using plan_run_read [of t]
  by (simp add: strip_proposed_plan_blocks_def run_stream_def ProposedPlanParser_def split_beta Let_def observe_def)

fun extract_event :: "ustr \<times> bool \<Rightarrow> plan_tag line_event \<Rightarrow> ustr \<times> bool" where
  "extract_event (plan_text, saw) (EvStart _) = ([], True)"
| "extract_event (plan_text, saw) (EvIn _ c) = (plan_text @ [c], saw)"
| "extract_event (plan_text, saw) (EvEnd _) = (plan_text, saw)"
| "extract_event (plan_text, saw) (EvText _) = (plan_text, saw)"

lemma extract_event_text [simp]:
  "foldl extract_event s (map EvText t) = s"
  "foldl extract_event (p, saw) (map (EvIn tag) t) = (p @ t, saw)"
proof -
  show "foldl extract_event s (map EvText t) = s" by (induction t) (cases s, auto)+
  show "foldl extract_event (p, saw) (map (EvIn tag) t) = (p @ t, saw)"
    by (induction t arbitrary: p) auto
qed

lemma extract_segments_events:
  "foldl extract_segment s segs = foldl extract_event s (concat (map plan_events segs))"
proof (induction segs arbitrary: s)
  case (Cons seg segs)
  obtain p saw where s: "s = (p, saw)" by (cases s)
  show ?case by (cases seg) (simp_all add: Cons s)
qed simp

lemma extract_plan_read:
  "extract_proposed_plan_text t =
     (case foldl extract_event ([], False) (read_text plan_specs t) of (p, saw) \<Rightarrow> if saw then Some p else None)"
  using plan_run_read [of t]
  by (simp add: extract_proposed_plan_text_def run_stream_def ProposedPlanParser_def split_beta Let_def observe_def
      extract_segments_events flip: foldl_append concat_append map_append)

definition is_line :: "ustr \<Rightarrow> bool" where
  "is_line l \<longleftrightarrow> l \<noteq> [] \<and> last l = newline \<and> newline \<notin> set (butlast l)"

lemma split_inclusive_lines: "list_all is_line ls \<Longrightarrow> split_inclusive (concat ls) = ls"
proof (induction ls)
  case (Cons l ls)
  then obtain x where "l = x @ [newline]" "newline \<notin> set x"
    by (cases l rule: rev_cases) (auto simp: is_line_def)
  with Cons show ?case by (simp add: split_inclusive_newline)
qed simp

lemma read_lines_append:
  "read_lines ss act (ls @ ms) =
     (let (es, act') = read_lines ss act ls; (es', act'') = read_lines ss act' ms in (es @ es', act''))"
  by (induction ls arbitrary: act) (auto simp: Let_def split_beta)

lemma read_lines_text:
  "list_all (\<lambda>l. line_step ss act l = (text_events act l, act)) ls \<Longrightarrow>
   read_lines ss act ls = (text_events act (concat ls), act)"
  by (induction ls) auto

lemma plan_line_text:
  "trim (without_newline l) \<noteq> OPEN_TAG \<Longrightarrow> line_step plan_specs None l = (text_events None l, None)"
  "trim (without_newline l) \<noteq> CLOSE_TAG \<Longrightarrow>
   line_step plan_specs (Some ProposedPlan) l = (text_events (Some ProposedPlan) l, Some ProposedPlan)"
  by (simp_all add: line_step_def plan_specs_def match_open_def match_close_def Let_def)

lemma plan_tag_lines:
  "line_step plan_specs None (OPEN_TAG @ [newline]) = ([EvStart ProposedPlan], Some ProposedPlan)"
  "line_step plan_specs (Some ProposedPlan) (CLOSE_TAG @ [newline]) = ([EvEnd ProposedPlan], None)"
  "is_line (OPEN_TAG @ [newline])" "is_line (CLOSE_TAG @ [newline])"
  by code_simp+

lemma read_plan_block:
  assumes "list_all (\<lambda>l. is_line l \<and> trim (without_newline l) \<noteq> OPEN_TAG) (pre @ post)"
    and "list_all (\<lambda>l. is_line l \<and> trim (without_newline l) \<noteq> CLOSE_TAG) body"
  shows "read_text plan_specs (concat pre @ OPEN_TAG @ [newline] @ concat body @ CLOSE_TAG @ [newline] @ concat post)
    = map EvText (concat pre) @ [EvStart ProposedPlan] @ map (EvIn ProposedPlan) (concat body)
      @ [EvEnd ProposedPlan] @ map EvText (concat post)"
proof -
  let ?ls = "pre @ [OPEN_TAG @ [newline]] @ body @ [CLOSE_TAG @ [newline]] @ post"
  have si: "split_inclusive (concat ?ls) = ?ls"
    using assms plan_tag_lines(3,4) by (intro split_inclusive_lines) (auto simp: list_all_iff)
  have r: "read_lines plan_specs None pre = (text_events None (concat pre), None)"
      "read_lines plan_specs None post = (text_events None (concat post), None)"
      "read_lines plan_specs (Some ProposedPlan) body = (text_events (Some ProposedPlan) (concat body), Some ProposedPlan)"
    using assms by (intro read_lines_text; auto simp: list_all_iff plan_line_text)+
  have "read_lines plan_specs None ?ls =
      (map EvText (concat pre) @ [EvStart ProposedPlan] @ map (EvIn ProposedPlan) (concat body)
        @ [EvEnd ProposedPlan] @ map EvText (concat post), None)"
    by (simp add: read_lines_append r plan_tag_lines text_events_def Let_def)
  then show ?thesis using si by (simp add: read_text_def)
qed

section \<open>Properties\<close>

text \<open>
  C20: the streaming plan parser reads lines. However the text is cut into chunks, the events it
  delivers are those of the line-by-line reading: a line that is a tag starts or ends a block, every
  other character is delivered once, in order, inside or outside a block, and a block still open at
  the end is ended; the visible text is the text outside blocks.
\<close>

theorem plan_stream_reads_lines:
  "observe plan_events (run_stream ProposedPlanParser plan_new chunks)
     = (plain_text (read_text plan_specs (concat chunks)), read_text plan_specs (concat chunks))"
  using plans.run_batch [of plan_new chunks] plan_run_read by simp

text \<open>
  a proposed plan is cut out exactly: from a message whose lines are those before, the opening
  tag, those of the plan, the closing tag and those after, the stripped text is the lines before and
  after and the extracted plan is the lines between.
\<close>

theorem proposed_plan_roundtrip:
  assumes "list_all (\<lambda>l. is_line l \<and> trim (without_newline l) \<noteq> OPEN_TAG) (pre @ post)"
    and "list_all (\<lambda>l. is_line l \<and> trim (without_newline l) \<noteq> CLOSE_TAG) body"
  defines "message \<equiv> concat pre @ OPEN_TAG @ [newline] @ concat body @ CLOSE_TAG @ [newline] @ concat post"
  shows "strip_proposed_plan_blocks message = concat pre @ concat post
    \<and> extract_proposed_plan_text message = Some (concat body)"
  unfolding message_def strip_plan_read extract_plan_read read_plan_block [OF assms(1,2)]
  by (simp add: plain_text_def map_filter_def comp_def)

theorem proposed_plan_roundtrip_witness:
  "strip_proposed_plan_blocks (lit ''a'' @ [10] @ OPEN_TAG @ [10] @ lit '' 1. <b>'' @ [10] @ CLOSE_TAG @ [10] @ lit ''c'' @ [10])
     = lit ''a'' @ [10] @ lit ''c'' @ [10]
   \<and> extract_proposed_plan_text (lit ''a'' @ [10] @ OPEN_TAG @ [10] @ lit '' 1. <b>'' @ [10] @ CLOSE_TAG @ [10] @ lit ''c'' @ [10])
     = Some (lit '' 1. <b>'' @ [10])"
proof -
  have a: "list_all (\<lambda>l. is_line l \<and> trim (without_newline l) \<noteq> OPEN_TAG) ([lit ''a'' @ [10]] @ [lit ''c'' @ [10]])"
    by code_simp
  have b: "list_all (\<lambda>l. is_line l \<and> trim (without_newline l) \<noteq> CLOSE_TAG) [lit '' 1. <b>'' @ [10]]"
    by code_simp
  show ?thesis using proposed_plan_roundtrip [OF a b] by simp
qed

end
