(* ===== verification/Assistant_Stream.thy ===== *)
theory Assistant_Stream
  imports Inline_Tags Tagged_Lines
begin

text \<open>
  The two consumers of stream parsers: \<^verbatim>\<open>AssistantTextStreamParser\<close>, which chains the citation parser
  and the plan parser (\<^verbatim>\<open>src/utils/common/src/stream_parser/assistant_text.rs\<close>), and
  \<^verbatim>\<open>Utf8StreamParser\<close>, which feeds any parser from bytes (\<^verbatim>\<open>utf8_stream.rs\<close>). Both are proved to
  deliver what the parsers deliver of the whole text at once, the second one once for every parser
  with the contract \<open>stream_text_parser\<close>.
\<close>

section \<open>Assistant text\<close>

record assistant_text_chunk =
  assistant_text :: ustr
  citations :: "ustr list"
  plan_segments :: "proposed_plan_segment list"

record assistant_text_stream_parser =
  plan_mode :: bool
  citation_state :: "citation_tag inline_hidden_tag_parser"
  plan_state :: "plan_tag tagged_line_parser"

definition assistant_new :: "bool \<Rightarrow> assistant_text_stream_parser" where
  "assistant_new pm = \<lparr>plan_mode = pm, citation_state = citation_new, plan_state = plan_new\<rparr>"

definition parse_visible_text ::
  "assistant_text_stream_parser \<Rightarrow> ustr \<Rightarrow> assistant_text_chunk \<times> assistant_text_stream_parser" where
  "parse_visible_text A visible =
     (if \<not> plan_mode A then (\<lparr>assistant_text = visible, citations = [], plan_segments = []\<rparr>, A)
      else (let (plan_chunk, p) = plan_push_str (plan_state A) visible
            in (\<lparr>assistant_text = visible_text plan_chunk, citations = [], plan_segments = extracted plan_chunk\<rparr>,
                A\<lparr>plan_state := p\<rparr>)))"

definition assistant_push_str ::
  "assistant_text_stream_parser \<Rightarrow> ustr \<Rightarrow> assistant_text_chunk \<times> assistant_text_stream_parser" where
  "assistant_push_str A chunk =
     (let (citation_chunk, c) = citation_push_str (citation_state A) chunk;
          (out, A') = parse_visible_text (A\<lparr>citation_state := c\<rparr>) (visible_text citation_chunk)
      in (out\<lparr>citations := extracted citation_chunk\<rparr>, A'))"

definition assistant_finish ::
  "assistant_text_stream_parser \<Rightarrow> assistant_text_chunk \<times> assistant_text_stream_parser" where
  "assistant_finish A =
     (let (citation_chunk, c) = citation_finish (citation_state A);
          (out, A') = parse_visible_text (A\<lparr>citation_state := c\<rparr>) (visible_text citation_chunk);
          (out, A') =
            (if plan_mode A' then
               (let (tail, p) = plan_finish (plan_state A')
                in (if \<not> chunk_is_empty tail then
                      out\<lparr>assistant_text := assistant_text out @ visible_text tail,
                          plan_segments := plan_segments out @ extracted tail\<rparr> else out,
                    A'\<lparr>plan_state := p\<rparr>))
             else (out, A'))
      in (out\<lparr>citations := extracted citation_chunk\<rparr>, A'))"

text \<open>What a consumer gathers: text, citations, and the events of the plan segments.\<close>

definition gathered :: "assistant_text_chunk \<Rightarrow> ustr \<times> ustr list \<times> plan_tag line_event list" where
  "gathered c = (assistant_text c, citations c, concat (map plan_events (plan_segments c)))"

definition gather ::
  "ustr \<times> ustr list \<times> plan_tag line_event list \<Rightarrow> ustr \<times> ustr list \<times> plan_tag line_event list
     \<Rightarrow> ustr \<times> ustr list \<times> plan_tag line_event list" where
  "gather x y = (fst x @ fst y, fst (snd x) @ fst (snd y), snd (snd x) @ snd (snd y))"

fun assistant_run :: "assistant_text_stream_parser \<Rightarrow> ustr list \<Rightarrow> ustr \<times> ustr list \<times> plan_tag line_event list" where
  "assistant_run A [] = gathered (fst (assistant_finish A))"
| "assistant_run A (c # cs) =
     (let (out, A') = assistant_push_str A c in gather (gathered out) (assistant_run A' cs))"

text \<open>The same with the two parsers one after the other, on whole texts.\<close>

definition staged ::
  "assistant_text_stream_parser \<Rightarrow> ustr list \<Rightarrow> ustr \<times> ustr list \<times> plan_tag line_event list" where
  "staged A chunks =
     (let cited = run_stream CitationStreamParser (citation_state A) chunks
      in if plan_mode A
         then (let plan = observe plan_events (run_stream ProposedPlanParser (plan_state A) [visible_text cited])
               in (fst plan, extracted cited, snd plan))
         else (visible_text cited, extracted cited, []))"

lemma run_stream_Cons:
  "run_stream P s (c # cs) = chunk_append (fst (push_str P s c)) (run_stream P (snd (push_str P s c)) cs)"
  by (simp add: run_stream_def Let_def split_beta chunk_append_assoc)

lemma run_stream_Nil: "run_stream P s [] = fst (finish P s)"
  by (simp add: run_stream_def)

lemma parser_operations [simp]:
  "push_str CitationStreamParser = citation_push_str" "finish CitationStreamParser = citation_finish"
  "push_str ProposedPlanParser = plan_push_str" "finish ProposedPlanParser = plan_finish"
  by (simp_all add: CitationStreamParser_def ProposedPlanParser_def)

lemma plan_tail_empty:
  "(if \<not> chunk_is_empty tail then out\<lparr>assistant_text := assistant_text out @ visible_text tail,
       plan_segments := plan_segments out @ extracted tail\<rparr> else out)
   = out\<lparr>assistant_text := assistant_text out @ visible_text tail, plan_segments := plan_segments out @ extracted tail\<rparr>"
  by (simp add: chunk_is_empty_def)

lemma plans_run_append:
  "observe plan_events (run_stream ProposedPlanParser p [a @ b]) =
     obs_append (observe plan_events (fst (plan_push_str p a)))
       (observe plan_events (run_stream ProposedPlanParser (snd (plan_push_str p a)) [b]))"
  using plans.run_chunking [of "[a @ b]" "[a, b]" p] by (simp add: run_stream_Cons)

lemma assistant_run_staged: "assistant_run A chunks = staged A chunks"
proof (induction chunks arbitrary: A)
  case Nil
  show ?case
    by (simp add: assistant_finish_def parse_visible_text_def staged_def run_stream_Nil run_stream_Cons
        gathered_def plan_tail_empty observe_def Let_def split_beta)
next
  case (Cons c cs)
  let ?c = "citation_push_str (citation_state A) c"
  from plans_run_append [of "plan_state A" "visible_text (fst ?c)"
      "visible_text (run_stream CitationStreamParser (snd ?c) cs)"]
  show ?case
    by (simp add: Cons assistant_push_str_def parse_visible_text_def staged_def run_stream_Cons [of CitationStreamParser]
        gathered_def gather_def observe_def obs_append_def Let_def split_beta)
qed

section \<open>Bytes\<close>

datatype utf8_stream_parser_error = InvalidUtf8 nat nat | IncompleteUtf8AtEof

record 's utf8_stream_parser =
  inner :: 's
  pending_utf8 :: "byte list"

definition utf8_new :: "'s \<Rightarrow> 's utf8_stream_parser" where
  "utf8_new s = \<lparr>inner = s, pending_utf8 = []\<rparr>"

definition utf8_push_bytes ::
  "('s, 't) stream_parser \<Rightarrow> 's utf8_stream_parser \<Rightarrow> byte list
     \<Rightarrow> (utf8_stream_parser_error, 't stream_text_chunk) result \<times> 's utf8_stream_parser" where
  "utf8_push_bytes P U chunk =
     (let old_len = length (pending_utf8 U); buffered = pending_utf8 U @ chunk
      in case from_utf8 buffered of
           Ok t \<Rightarrow> (let (out, s) = push_str P (inner U) t in (Ok out, U\<lparr>inner := s, pending_utf8 := []\<rparr>))
         | Err err \<Rightarrow>
             (case error_len err of
                Some n \<Rightarrow> (Err (InvalidUtf8 (valid_up_to err) n), U\<lparr>pending_utf8 := take old_len buffered\<rparr>)
              | None \<Rightarrow>
                  if valid_up_to err = 0 then (Ok chunk_default, U\<lparr>pending_utf8 := buffered\<rparr>)
                  else (case from_utf8 (take (valid_up_to err) buffered) of
                          Ok t \<Rightarrow>
                            (let (out, s) = push_str P (inner U) t
                             in (Ok out, U\<lparr>inner := s, pending_utf8 := drop (valid_up_to err) buffered\<rparr>))
                        | Err prefix_err \<Rightarrow>
                            (Err (InvalidUtf8 (valid_up_to prefix_err)
                                   (case error_len prefix_err of Some n \<Rightarrow> n | None \<Rightarrow> 0)),
                             U\<lparr>pending_utf8 := take old_len buffered\<rparr>))))"

definition utf8_finish ::
  "('s, 't) stream_parser \<Rightarrow> 's utf8_stream_parser
     \<Rightarrow> (utf8_stream_parser_error, 't stream_text_chunk) result \<times> 's utf8_stream_parser" where
  "utf8_finish P U =
     (case from_utf8 (pending_utf8 U) of
        Err err \<Rightarrow>
          (Err (case error_len err of Some n \<Rightarrow> InvalidUtf8 (valid_up_to err) n | None \<Rightarrow> IncompleteUtf8AtEof), U)
      | Ok t \<Rightarrow>
          (let (out, s) = (if pending_utf8 U = [] then (chunk_default, inner U) else push_str P (inner U) t);
               (tail, s') = finish P s
           in (Ok (chunk_append out tail), U\<lparr>inner := s', pending_utf8 := []\<rparr>)))"

definition utf8_into_inner :: "'s utf8_stream_parser \<Rightarrow> (utf8_stream_parser_error, 's) result" where
  "utf8_into_inner U =
     (if pending_utf8 U = [] then Ok (inner U)
      else case from_utf8 (pending_utf8 U) of
             Ok _ \<Rightarrow> Ok (inner U)
           | Err err \<Rightarrow>
               Err (case error_len err of Some n \<Rightarrow> InvalidUtf8 (valid_up_to err) n | None \<Rightarrow> IncompleteUtf8AtEof))"

definition utf8_into_inner_lossy :: "'s utf8_stream_parser \<Rightarrow> 's" where
  "utf8_into_inner_lossy U = inner U"

fun run_bytes ::
  "('s, 't) stream_parser \<Rightarrow> 's utf8_stream_parser \<Rightarrow> byte list list
     \<Rightarrow> (utf8_stream_parser_error, 't stream_text_chunk) result" where
  "run_bytes P U [] = fst (utf8_finish P U)"
| "run_bytes P U (b # bs) =
     (case utf8_push_bytes P U b of
        (Err e, _) \<Rightarrow> Err e
      | (Ok out, U') \<Rightarrow>
          (case run_bytes P U' bs of Err e \<Rightarrow> Err e | Ok rest \<Rightarrow> Ok (chunk_append out rest)))"

subsection \<open>Decoding a text that grows\<close>

lemma decode_ints_Ok_off: "decode_ints off bs = Ok cs \<longleftrightarrow> decode_ints off' bs = Ok cs"
proof (induction off bs arbitrary: off' cs rule: decode_ints.induct)
  case (2 off a bs)
  show ?case
  proof (cases "decode_first a bs")
    case (DChar c r)
    have e: "decode_ints k (a # bs) = Ok cs \<longleftrightarrow>
        (\<exists>cs'. decode_ints (k + (length (a # bs) - length r)) r = Ok cs' \<and> cs = c # cs')" for k
      using DChar by (auto split: result.splits)
    show ?thesis unfolding e using "2.IH" [OF DChar] by blast
  qed auto
qed simp

lemma decode_ints_Err:
  "decode_ints off bs = Err e \<Longrightarrow> \<forall>b\<in>set bs. 0 \<le> b \<Longrightarrow>
   \<exists>t a r. bs = encode_ints t @ a # r \<and> valid_str t \<and> valid_up_to e = off + str_len t
     \<and> (case decode_first a r of DChar _ _ \<Rightarrow> False | DInvalid n \<Rightarrow> error_len e = Some n | DIncomplete \<Rightarrow> error_len e = None)"
proof (induction off bs rule: decode_ints.induct)
  case (2 off a bs)
  show ?case
  proof (cases "decode_first a bs")
    case (DChar c r)
    have s: "a # bs = encode_char c @ r" "is_scalar c"
      using decode_first_sound [OF DChar] "2.prems"(2) by auto
    from s(1) have l: "length (a # bs) - length r = len_utf8 c" by (metis add_diff_cancel_right' length_append length_encode_char)
    from "2.prems"(1) DChar l have "decode_ints (off + len_utf8 c) r = Err e" by (auto split: result.splits)
    moreover have "\<forall>b\<in>set r. 0 \<le> b" using "2.prems"(2) s(1) by (metis Un_iff set_append)
    ultimately obtain t a' r' where "r = encode_ints t @ a' # r'" "valid_str t"
        "valid_up_to e = off + len_utf8 c + str_len t"
        "case decode_first a' r' of DChar _ _ \<Rightarrow> False | DInvalid n \<Rightarrow> error_len e = Some n | DIncomplete \<Rightarrow> error_len e = None"
      using "2.IH" [OF DChar] l by auto
    with s show ?thesis
      by (intro exI [of _ "c # t"] exI [of _ a'] exI [of _ r']) auto
  next
    case (DInvalid n)
    with "2.prems" show ?thesis by (intro exI [of _ "[]"]) auto
  next
    case DIncomplete
    with "2.prems" show ?thesis by (intro exI [of _ "[]"]) auto
  qed
qed simp

lemma decode_first_invalid_append:
  assumes "decode_first a bs = DInvalid n"
  shows "decode_first a (bs @ r) = DInvalid n"
  using assms by (auto simp: decode_first.simps split: if_splits list.splits)

lemma into_bytes_of_ints: "map uint bs = encode_ints t @ ys \<Longrightarrow> valid_str t \<Longrightarrow>
    bs = into_bytes t @ map of_int ys \<and> map uint (map of_int ys :: byte list) = ys"
proof -
  assume e: "map uint bs = encode_ints t @ ys" and v: "valid_str t"
  have "map of_int (map uint bs) = bs" by (simp add: comp_def)
  then have b: "bs = into_bytes t @ map of_int ys" using e by (simp add: into_bytes_def)
  with e map_uint_into_bytes [OF v] show ?thesis by (metis append_eq_append_conv length_map map_append)
qed

text \<open>The failed decoding of a buffer: a valid text and a rest.\<close>

lemma from_utf8_Err:
  assumes "from_utf8 bs = Err e"
  shows "\<exists>t rest. bs = into_bytes t @ rest \<and> valid_str t \<and> valid_up_to e = str_len t \<and> rest \<noteq> []
    \<and> from_utf8 rest = Err \<lparr>valid_up_to = 0, error_len = error_len e\<rparr>
    \<and> (error_len e \<noteq> None \<longrightarrow> (\<forall>more. \<exists>e'. from_utf8 (bs @ more) = Err e'))"
proof -
  from assms obtain t a r where d: "map uint bs = encode_ints t @ a # r" "valid_str t" "valid_up_to e = str_len t"
      "case decode_first a r of DChar _ _ \<Rightarrow> False | DInvalid n \<Rightarrow> error_len e = Some n | DIncomplete \<Rightarrow> error_len e = None"
    using decode_ints_Err [of 0 "map uint bs" e] by (auto simp: from_utf8_def)
  let ?rest = "map of_int (a # r) :: byte list"
  have b: "bs = into_bytes t @ ?rest" "map uint ?rest = a # r"
    using into_bytes_of_ints [OF d(1,2)] by auto
  have "from_utf8 ?rest = Err \<lparr>valid_up_to = 0, error_len = error_len e\<rparr>"
    unfolding from_utf8_def b(2) using d(4) by (auto split: decode_step.splits)
  moreover have "\<exists>e'. from_utf8 (bs @ more) = Err e'" if n: "error_len e \<noteq> None" for more
  proof -
    obtain n where "decode_first a r = DInvalid n" using d(4) n by (auto split: decode_step.splits)
    then have "decode_first a (r @ map uint more) = DInvalid n" by (rule decode_first_invalid_append)
    then have "\<exists>e'. decode_ints (str_len t) (map uint (?rest @ more)) = Err e'"
      unfolding map_append b(2) by simp
    then show ?thesis unfolding b(1) append.assoc by (auto simp: from_utf8_append [OF d(2)])
  qed
  ultimately show ?thesis using b(1) d(2,3) by (intro exI [of _ t] exI [of _ ?rest]) auto
qed

lemma from_utf8_Ok_append:
  assumes "valid_str t"
  shows "from_utf8 (into_bytes t @ bs) = Ok cs \<longleftrightarrow> (\<exists>cs'. from_utf8 bs = Ok cs' \<and> cs = t @ cs')"
proof -
  have "from_utf8 (into_bytes t @ bs) = Ok cs \<longleftrightarrow>
      (\<exists>cs'. decode_ints (str_len t) (map uint bs) = Ok cs' \<and> cs = t @ cs')"
    by (auto simp: from_utf8_append [OF assms] split: result.splits)
  then show ?thesis
    using decode_ints_Ok_off [of "str_len t" "map uint bs" _ 0] by (simp add: from_utf8_def)
qed

lemma from_utf8_Err_append:
  assumes "valid_str t"
  shows "(\<exists>e. from_utf8 (into_bytes t @ bs) = Err e) \<longleftrightarrow> (\<exists>e. from_utf8 bs = Err e)"
  using from_utf8_Ok_append [OF assms, of bs]
  by (cases "from_utf8 bs"; cases "from_utf8 (into_bytes t @ bs)") auto

subsection \<open>Every chunk\<close>

text \<open>The bytes held back are the start of one character.\<close>

definition utf8_ok :: "'s utf8_stream_parser \<Rightarrow> bool" where
  "utf8_ok U \<longleftrightarrow> pending_utf8 U = []
     \<or> from_utf8 (pending_utf8 U) = Err \<lparr>valid_up_to = 0, error_len = None\<rparr>"

lemma utf8_push_cases:
  fixes P :: "('s, 't) stream_parser"
  assumes "utf8_push_bytes P U chunk = (r, U')"
  obtains (decoded) t rest where "pending_utf8 U @ chunk = into_bytes t @ rest" "valid_str t"
      "r = Ok (fst (push_str P (inner U) t))"
      "U' = \<lparr>inner = snd (push_str P (inner U) t), pending_utf8 = rest\<rparr>" "utf8_ok U'"
  | (wait) "r = Ok chunk_default" "U' = U\<lparr>pending_utf8 := pending_utf8 U @ chunk\<rparr>" "utf8_ok U'"
  | (invalid) err where "r = Err err" "U' = U" "\<And>more. \<exists>e'. from_utf8 ((pending_utf8 U @ chunk) @ more) = Err e'"
proof (cases "from_utf8 (pending_utf8 U @ chunk)")
  case (Ok t)
  from from_utf8_Ok [OF Ok] have "pending_utf8 U @ chunk = into_bytes t @ []" "valid_str t" by auto
  with Ok assms show ?thesis
    by (intro decoded [of t "[]"]) (auto simp: utf8_push_bytes_def utf8_ok_def Let_def split_beta)
next
  case (Err e)
  from from_utf8_Err [OF Err] obtain t rest where d: "pending_utf8 U @ chunk = into_bytes t @ rest" "valid_str t"
      "valid_up_to e = str_len t" "rest \<noteq> []" "from_utf8 rest = Err \<lparr>valid_up_to = 0, error_len = error_len e\<rparr>"
      and bad: "error_len e \<noteq> None \<longrightarrow> (\<forall>more. \<exists>e'. from_utf8 ((pending_utf8 U @ chunk) @ more) = Err e')"
    by blast
  show ?thesis
  proof (cases "error_len e")
    case (Some n)
    with Err assms bad show ?thesis
      by (intro invalid [of "InvalidUtf8 (valid_up_to e) n"]) (auto simp: utf8_push_bytes_def Let_def)
  next
    case None
    show ?thesis
    proof (cases "valid_up_to e = 0")
      case True
      then have "t = []" using d(3) len_utf8_pos [of "hd t"] by (cases t) auto
      with d have "from_utf8 (pending_utf8 U @ chunk) = Err \<lparr>valid_up_to = 0, error_len = None\<rparr>"
        using None by simp
      with Err assms None True show ?thesis
        by (intro wait) (auto simp: utf8_push_bytes_def utf8_ok_def Let_def)
    next
      case False
      have "take (valid_up_to e) (pending_utf8 U @ chunk) = into_bytes t"
          "drop (valid_up_to e) (pending_utf8 U @ chunk) = rest"
        unfolding d(1) d(3) by simp_all
      with Err assms None False d show ?thesis
        by (intro decoded [of t rest]) (auto simp: utf8_push_bytes_def utf8_ok_def Let_def split_beta)
    qed
  qed
qed

context stream_text_parser
begin

lemma push_finish:
  assumes "inv s"
  shows "observe ev (run_stream P s [a @ b]) =
    obs_append (observe ev (fst (push_str P s a))) (observe ev (run_stream P (snd (push_str P s a)) [b]))"
  using run_chunking [OF assms, of "[a @ b]" "[a, b]"] by (simp add: run_stream_Cons)

text \<open>Bytes that arrive in any pieces are parsed like the text they encode, or rejected.\<close>

lemma run_bytes_decoded:
  "inv (inner U) \<Longrightarrow> utf8_ok U \<Longrightarrow>
   (case from_utf8 (pending_utf8 U @ concat bss) of
      Ok t \<Rightarrow> \<exists>out. run_bytes P U bss = Ok out \<and> observe ev out = observe ev (run_stream P (inner U) [t])
    | Err _ \<Rightarrow> \<exists>e. run_bytes P U bss = Err e)"
proof (induction bss arbitrary: U)
  case Nil
  show ?case
  proof (cases "pending_utf8 U = []")
    case True
    have "from_utf8 [] = Ok []" by (simp add: from_utf8_def)
    with True push_nil [OF Nil.prems(1)] show ?thesis
      by (auto simp: utf8_finish_def run_stream_Cons run_stream_Nil split_beta Let_def)
  next
    case False
    with Nil.prems show ?thesis by (auto simp: utf8_ok_def utf8_finish_def)
  qed
next
  case (Cons b bss)
  obtain r U' where p: "utf8_push_bytes P U b = (r, U')" by (cases "utf8_push_bytes P U b")
  from p show ?case
  proof (cases rule: utf8_push_cases)
    case (decoded t rest)
    have i: "inv (inner U')" using decoded(4) push_keeps [OF Cons.prems(1)] by simp
    have w: "pending_utf8 U @ concat (b # bss) = into_bytes t @ rest @ concat bss"
      using decoded(1) by (simp flip: append_assoc)
    note IH = Cons.IH [OF i decoded(5)]
    show ?thesis
    proof (cases "from_utf8 (rest @ concat bss)")
      case (Ok t')
      with IH decoded(4) obtain out where out: "run_bytes P U' bss = Ok out"
          "observe ev out = observe ev (run_stream P (snd (push_str P (inner U) t)) [t'])" by auto
      have "from_utf8 (into_bytes t @ rest @ concat bss) = Ok (t @ t')"
        using Ok from_utf8_Ok_append [OF decoded(2)] by blast
      with p decoded(3) out push_finish [OF Cons.prems(1), of t t'] show ?thesis unfolding w by simp
    next
      case (Err e)
      with IH decoded(4) obtain e' where "run_bytes P U' bss = Err e'" by auto
      moreover from Err obtain e'' where "from_utf8 (into_bytes t @ rest @ concat bss) = Err e''"
        using from_utf8_Err_append [OF decoded(2)] by blast
      ultimately show ?thesis unfolding w using p decoded(3) by simp
    qed
  next
    case wait
    from wait(2) have "inner U' = inner U" "pending_utf8 U' @ concat bss = pending_utf8 U @ concat (b # bss)" by auto
    with Cons.IH [of U'] Cons.prems(1) wait(1,3) p show ?thesis by (auto split: result.splits)
  next
    case (invalid e)
    from invalid(3) [of "concat bss"] p invalid(1) show ?thesis by auto
  qed
qed

end

section \<open>Properties\<close>

text \<open>
  C26: streaming an assistant message in any chunks gives what processing the whole message gives:
  the citations are those of the whole text, the visible text is the text without citations and, in
  plan mode, without plan blocks, and the plan segments are those of the text without citations.
\<close>

theorem assistant_stream_batch:
  "assistant_run (assistant_new pm) chunks =
     (case strip_citations (concat chunks) of
        (visible, cited) \<Rightarrow>
          if pm then (strip_proposed_plan_blocks visible, cited, read_text plan_specs visible)
          else (visible, cited, []))"
proof -
  have c: "strip_citations (concat chunks) =
      (visible_text (run_stream CitationStreamParser citation_new chunks),
       extracted (run_stream CitationStreamParser citation_new chunks))"
    using citations.run_batch [OF citation_inv, of chunks] strip_citations_run [of "concat chunks"]
    by (simp add: observe_def)
  show ?thesis
    by (simp add: assistant_run_staged staged_def assistant_new_def c plan_run_read strip_plan_read Let_def)
qed

text \<open>
  C33: bytes may be cut anywhere, also inside a character. If all chunks together are valid UTF-8, a
  citation stream fed with them byte chunk by byte chunk succeeds and delivers exactly the visible
  text and the citations of the decoded text; if they are not, the stream reports an error.
\<close>

theorem utf8_citation_stream:
  "case from_utf8 (concat chunks) of
     Ok decoded \<Rightarrow> \<exists>out. run_bytes CitationStreamParser (utf8_new citation_new) chunks = Ok out
       \<and> (visible_text out, extracted out) = strip_citations decoded
   | Err _ \<Rightarrow> \<exists>e. run_bytes CitationStreamParser (utf8_new citation_new) chunks = Err e"
  using citations.run_bytes_decoded [of "utf8_new citation_new" chunks] citation_inv
  by (auto simp: utf8_new_def utf8_ok_def strip_citations_run observe_def split: result.splits)

text \<open>
  a byte chunk that is rejected leaves the parser as it was; an accepted one loses no byte: what
  was held back and the new chunk are the encoding of the text handed on, followed by what is held
  back next.
\<close>

theorem utf8_push_bytes_conserves:
  fixes P :: "('s, 't) stream_parser"
  shows "case utf8_push_bytes P U chunk of
      (Err _, U') \<Rightarrow> U' = U
    | (Ok out, U') \<Rightarrow>
        (\<exists>t. pending_utf8 U @ chunk = into_bytes t @ pending_utf8 U'
           \<and> ((out, inner U') = push_str P (inner U) t \<or> t = [] \<and> out = chunk_default \<and> inner U' = inner U))"
proof -
  obtain r U' where p: "utf8_push_bytes P U chunk = (r, U')" by (cases "utf8_push_bytes P U chunk")
  from p show ?thesis
  proof (cases rule: utf8_push_cases)
    case (decoded t rest)
    with p show ?thesis by auto
  next
    case wait
    with p show ?thesis by (auto intro!: exI [of _ "[]"])
  next
    case (invalid e)
    with p show ?thesis by simp
  qed
qed

end
