(* ===== verification/Exec_Policy.thy ===== *)
theory Exec_Policy
  imports Exec_Rule "HOL-Library.AList" "HOL-Library.List_Lexorder"
begin

text \<open>
  Execution policies (\<^verbatim>\<open>src/execpolicy/src/policy.rs\<close>) and the validation of examples in \<^verbatim>\<open>rule.rs\<close>.
  The rules are indexed by program: a \<^verbatim>\<open>MultiMap\<close> is an association list from a key to its values
  in insertion order; a \<^verbatim>\<open>HashMap\<close> an association list without repeated keys. The home directory and
  the working directory, which \<^verbatim>\<open>AbsolutePathBuf::try_from\<close> reads, are the record \<open>host_env\<close>. The
  panic of \<^verbatim>\<open>Evaluation::from_matches\<close> on no match is a fault.
\<close>

section \<open>Multimaps\<close>

type_synonym ('k, 'v) multimap = "('k \<times> 'v list) list"

definition mm_get :: "('k, 'v) multimap \<Rightarrow> 'k \<Rightarrow> 'v list" where
  "mm_get m k = (case map_of m k of None \<Rightarrow> [] | Some vs \<Rightarrow> vs)"

definition mm_insert :: "'k \<Rightarrow> 'v \<Rightarrow> ('k, 'v) multimap \<Rightarrow> ('k, 'v) multimap" where
  "mm_insert k v m = AList.update k (mm_get m k @ [v]) m"

definition mm_extend :: "('k, 'v) multimap \<Rightarrow> ('k, 'v) multimap \<Rightarrow> ('k, 'v) multimap" where
  "mm_extend m overlay = foldl (\<lambda>m (k, vs). foldl (\<lambda>m v. mm_insert k v m) m vs) m overlay"

section \<open>Definitions\<close>

record policy =
  rules_by_program :: "(ustr, prefix_rule) multimap"
  network_rules :: "network_rule list"
  host_executables_by_name :: "(ustr \<times> path list) list"

record host_env =
  env_home :: "path option"
  env_current_dir :: "(unit, path) result"

definition policy_empty :: policy where
  "policy_empty = \<lparr>rules_by_program = [], network_rules = [], host_executables_by_name = []\<rparr>"

fun render_pattern_token :: "pattern_token \<Rightarrow> ustr" where
  "render_pattern_token (TokSingle v) = v"
| "render_pattern_token (TokAlts alternatives) = lit ''['' @ join (lit ''|'') alternatives @ lit '']''"

definition rule_prefix :: "prefix_rule \<Rightarrow> ustr list" where
  "rule_prefix rule = pat_first (rule_pattern rule) # map render_pattern_token (pat_rest (rule_pattern rule))"

definition get_allowed_prefixes :: "policy \<Rightarrow> ustr list list" where
  "get_allowed_prefixes p =
     remdups_adj (sort (map rule_prefix
       (filter (\<lambda>rule. rule_decision rule = Allow) (concat (map snd (rules_by_program p))))))"

definition add_prefix_rule :: "ustr list \<Rightarrow> decision \<Rightarrow> policy \<Rightarrow> (exec_error, policy) result" where
  "add_prefix_rule pre d p =
     (case pre of
        [] \<Rightarrow> Err (InvalidPattern (lit ''prefix cannot be empty''))
      | first_token # rest \<Rightarrow>
          Ok (p\<lparr>rules_by_program := mm_insert first_token
                 \<lparr>rule_pattern = \<lparr>pat_first = first_token, pat_rest = map TokSingle rest\<rparr>,
                  rule_decision = d, rule_justification = None\<rparr> (rules_by_program p)\<rparr>))"

definition blank_justification :: "ustr option \<Rightarrow> bool" where
  "blank_justification justification =
     (case justification of Some raw \<Rightarrow> trim raw = [] | None \<Rightarrow> False)"

definition add_network_rule ::
  "ustr \<Rightarrow> network_rule_protocol \<Rightarrow> decision \<Rightarrow> ustr option \<Rightarrow> policy \<Rightarrow> (exec_error, policy) result" where
  "add_network_rule host protocol d justification p =
     (case normalize_network_rule_host host of
        Err e \<Rightarrow> Err e
      | Ok host \<Rightarrow>
          if blank_justification justification
          then Err (InvalidRule (lit ''justification cannot be empty''))
          else Ok (p\<lparr>network_rules := network_rules p @
                 [\<lparr>net_host = host, net_protocol = protocol, net_decision = d,
                   net_justification = justification\<rparr>]\<rparr>))"

definition set_host_executable_paths :: "ustr \<Rightarrow> path list \<Rightarrow> policy \<Rightarrow> policy" where
  "set_host_executable_paths name paths p =
     p\<lparr>host_executables_by_name := AList.update name paths (host_executables_by_name p)\<rparr>"

definition merge_overlay :: "policy \<Rightarrow> policy \<Rightarrow> policy" where
  "merge_overlay p overlay =
     \<lparr>rules_by_program = mm_extend (rules_by_program p) (rules_by_program overlay),
      network_rules = network_rules p @ network_rules overlay,
      host_executables_by_name =
        foldl (\<lambda>m (name, paths). AList.update name paths m) (host_executables_by_name p)
          (host_executables_by_name overlay)\<rparr>"

definition upsert_domain :: "ustr list \<Rightarrow> ustr \<Rightarrow> ustr list" where
  "upsert_domain entries host = filter (\<lambda>entry. entry \<noteq> host) entries @ [host]"

fun compile_network_rule :: "ustr list \<times> ustr list \<Rightarrow> network_rule \<Rightarrow> ustr list \<times> ustr list" where
  "compile_network_rule (allowed, denied) rule =
     (case net_decision rule of
        Allow \<Rightarrow> (upsert_domain allowed (net_host rule), filter (\<lambda>entry. entry \<noteq> net_host rule) denied)
      | Forbidden \<Rightarrow> (filter (\<lambda>entry. entry \<noteq> net_host rule) allowed, upsert_domain denied (net_host rule))
      | Prompt \<Rightarrow> (allowed, denied))"

definition compiled_network_domains :: "policy \<Rightarrow> ustr list \<times> ustr list" where
  "compiled_network_domains p = foldl compile_network_rule ([], []) (network_rules p)"

definition match_exact_rules :: "policy \<Rightarrow> ustr list \<Rightarrow> rule_match list option" where
  "match_exact_rules p cmd =
     (case cmd of
        [] \<Rightarrow> None
      | first # _ \<Rightarrow> Some (List.map_filter (\<lambda>rule. rule_matches rule cmd) (mm_get (rules_by_program p) first)))"

definition match_host_executable_rules :: "host_env \<Rightarrow> policy \<Rightarrow> ustr list \<Rightarrow> rule_match list" where
  "match_host_executable_rules env p cmd =
     (case cmd of
        [] \<Rightarrow> []
      | first # rest \<Rightarrow>
          (case from_absolute_path (env_home env) (env_current_dir env) first of
             Err _ \<Rightarrow> []
           | Ok program \<Rightarrow>
               (case executable_path_lookup_key program of
                  None \<Rightarrow> []
                | Some basename \<Rightarrow>
                    (case map_of (rules_by_program p) basename of
                       None \<Rightarrow> []
                     | Some rules \<Rightarrow>
                         if (case map_of (host_executables_by_name p) basename of
                               Some paths \<Rightarrow> \<not> list_ex (\<lambda>path. path = program) paths
                             | None \<Rightarrow> False)
                         then []
                         else map (with_resolved_program program)
                                (List.map_filter (\<lambda>rule. rule_matches rule (basename # rest)) rules)))))"

definition matches_for_command_with_options ::
  "host_env \<Rightarrow> policy \<Rightarrow> ustr list \<Rightarrow> (ustr list \<Rightarrow> decision) option \<Rightarrow> bool \<Rightarrow> rule_match list" where
  "matches_for_command_with_options env p cmd heuristics_fallback resolve_host_executables =
     (let exact = (case match_exact_rules p cmd of Some ms \<Rightarrow> ms | None \<Rightarrow> []);
          matched_rules = (if exact \<noteq> [] then exact
                           else if resolve_host_executables then match_host_executable_rules env p cmd
                           else [])
      in case heuristics_fallback of
           Some fallback \<Rightarrow>
             if matched_rules = [] then [HeuristicsRuleMatch cmd (fallback cmd)] else matched_rules
         | None \<Rightarrow> matched_rules)"

record evaluation =
  eval_decision :: decision
  matched_rules :: "rule_match list"

definition from_matches :: "rule_match list \<Rightarrow> (unit fault, evaluation) result" where
  "from_matches ms =
     (if ms = [] then Err Panic
      else Ok \<lparr>eval_decision = fold max (map match_decision (tl ms)) (match_decision (hd ms)), matched_rules = ms\<rparr>)"

definition check_with_options ::
  "host_env \<Rightarrow> policy \<Rightarrow> ustr list \<Rightarrow> (ustr list \<Rightarrow> decision) \<Rightarrow> bool \<Rightarrow> (unit fault, evaluation) result" where
  "check_with_options env p cmd fallback options =
     from_matches (matches_for_command_with_options env p cmd (Some fallback) options)"

definition check :: "host_env \<Rightarrow> policy \<Rightarrow> ustr list \<Rightarrow> (ustr list \<Rightarrow> decision) \<Rightarrow> (unit fault, evaluation) result" where
  "check env p cmd fallback =
     from_matches (matches_for_command_with_options env p cmd (Some fallback) False)"

definition check_multiple_with_options ::
  "host_env \<Rightarrow> policy \<Rightarrow> ustr list list \<Rightarrow> (ustr list \<Rightarrow> decision) \<Rightarrow> bool \<Rightarrow> (unit fault, evaluation) result" where
  "check_multiple_with_options env p commands fallback options =
     from_matches (concat (map (\<lambda>cmd.
       matches_for_command_with_options env p cmd (Some fallback) options) commands))"

definition check_multiple ::
  "host_env \<Rightarrow> policy \<Rightarrow> ustr list list \<Rightarrow> (ustr list \<Rightarrow> decision) \<Rightarrow> (unit fault, evaluation) result" where
  "check_multiple env p commands fallback = check_multiple_with_options env p commands fallback False"

fun is_heuristics_match :: "rule_match \<Rightarrow> bool" where
  "is_heuristics_match (HeuristicsRuleMatch _ _) = True"
| "is_heuristics_match (PrefixRuleMatch _ _ _ _) = False"

definition is_match :: "evaluation \<Rightarrow> bool" where
  "is_match ev \<longleftrightarrow> list_ex (\<lambda>m. \<not> is_heuristics_match m) (matched_rules ev)"

text \<open>The validation of the examples of a rule, in \<^verbatim>\<open>rule.rs\<close>.\<close>

definition validate_match_examples ::
  "host_env \<Rightarrow> policy \<Rightarrow> prefix_rule list \<Rightarrow> ustr list list \<Rightarrow> (exec_error, unit) result" where
  "validate_match_examples env p rules examples =
     (let unmatched = filter (\<lambda>ex. matches_for_command_with_options env p ex None True = []) examples
      in if unmatched = [] then Ok () else Err (ExampleDidNotMatch rules unmatched))"

fun validate_not_match_examples ::
  "host_env \<Rightarrow> policy \<Rightarrow> ustr list list \<Rightarrow> (exec_error, unit) result" where
  "validate_not_match_examples env p [] = Ok ()"
| "validate_not_match_examples env p (ex # examples) =
     (case matches_for_command_with_options env p ex None True of
        m # _ \<Rightarrow> Err (ExampleDidMatch m ex)
      | [] \<Rightarrow> validate_not_match_examples env p examples)"

section \<open>The index\<close>

lemma mm_get_insert: "mm_get (mm_insert k v m) k' = (if k' = k then mm_get m k @ [v] else mm_get m k')"
  by (auto simp: mm_get_def mm_insert_def AList.update_conv')

lemma mm_get_insert_all:
  "mm_get (foldl (\<lambda>m v. mm_insert k v m) m vs) k' = (if k' = k then mm_get m k @ vs else mm_get m k')"
  by (induction vs arbitrary: m) (auto simp: mm_get_insert)

lemma distinct_mm_insert: "distinct (map fst m) \<Longrightarrow> distinct (map fst (mm_insert k v m))"
  by (simp add: mm_insert_def AList.distinct_update)

lemma distinct_mm_insert_all:
  "distinct (map fst m) \<Longrightarrow> distinct (map fst (foldl (\<lambda>m v. mm_insert k v m) m vs))"
  by (induction vs arbitrary: m) (auto simp: distinct_mm_insert)

lemma mm_extend_Cons:
  "mm_extend m ((k, vs) # overlay) = mm_extend (foldl (\<lambda>m v. mm_insert k v m) m vs) overlay"
  by (simp add: mm_extend_def)

lemma distinct_mm_extend: "distinct (map fst m) \<Longrightarrow> distinct (map fst (mm_extend m overlay))"
proof (induction overlay arbitrary: m)
  case (Cons x overlay)
  then show ?case by (cases x) (simp add: mm_extend_Cons distinct_mm_insert_all)
qed (simp add: mm_extend_def)

lemma mm_get_extend:
  "distinct (map fst overlay) \<Longrightarrow> mm_get (mm_extend m overlay) k = mm_get m k @ mm_get overlay k"
proof (induction overlay arbitrary: m)
  case (Cons x overlay)
  obtain k' vs where x: "x = (k', vs)" by (cases x)
  have "mm_get overlay k' = []"
    using Cons.prems x by (auto simp: mm_get_def split: option.splits dest!: map_of_SomeD intro: rev_image_eqI)
  then show ?case
    using Cons by (auto simp: x mm_extend_Cons mm_get_insert_all) (auto simp: mm_get_def)
qed (simp add: mm_extend_def mm_get_def)

lemma mm_get_in: "distinct (map fst m) \<Longrightarrow> (k, vs) \<in> set m \<Longrightarrow> mm_get m k = vs"
  by (simp add: mm_get_def)

text \<open>Every rule is stored under its own program, and every program once.\<close>

definition policy_ok :: "policy \<Rightarrow> bool" where
  "policy_ok p \<longleftrightarrow> distinct (map fst (rules_by_program p))
     \<and> (\<forall>k. \<forall>rule\<in>set (mm_get (rules_by_program p) k). rule_program rule = k)"

definition all_rules :: "policy \<Rightarrow> prefix_rule list" where
  "all_rules p = concat (map snd (rules_by_program p))"

lemma set_all_rules:
  assumes "policy_ok p"
  shows "set (all_rules p) = (\<Union>k. set (mm_get (rules_by_program p) k))"
proof (intro equalityI subsetI)
  fix r assume "r \<in> set (all_rules p)"
  then obtain k vs where "(k, vs) \<in> set (rules_by_program p)" "r \<in> set vs"
    by (auto simp: all_rules_def)
  with mm_get_in [of "rules_by_program p" k vs] assms show "r \<in> (\<Union>k. set (mm_get (rules_by_program p) k))"
    by (auto simp: policy_ok_def)
next
  fix r assume "r \<in> (\<Union>k. set (mm_get (rules_by_program p) k))"
  then obtain k where "r \<in> set (mm_get (rules_by_program p) k)" by blast
  then obtain vs where "map_of (rules_by_program p) k = Some vs" "r \<in> set vs"
    by (cases "map_of (rules_by_program p) k") (auto simp: mm_get_def)
  then show "r \<in> set (all_rules p)" by (force simp: all_rules_def dest: map_of_SomeD)
qed

lemma rule_in_index:
  assumes "policy_ok p" and "rule \<in> set (all_rules p)"
  shows "rule \<in> set (mm_get (rules_by_program p) (rule_program rule))"
proof -
  from assms obtain k where "rule \<in> set (mm_get (rules_by_program p) k)"
    by (auto simp: set_all_rules)
  with assms(1) show ?thesis by (auto simp: policy_ok_def)
qed

lemma set_map_filter_Some: "m \<in> set (List.map_filter f xs) \<longleftrightarrow> (\<exists>x\<in>set xs. f x = Some m)"
  by (induction xs) (auto simp: List.map_filter_simps split: option.splits)

section \<open>Decisions\<close>

lemma from_matches_Ok:
  "ms \<noteq> [] \<Longrightarrow>
   from_matches ms = Ok \<lparr>eval_decision = Max (match_decision ` set ms), matched_rules = ms\<rparr>"
  using Max.set_eq_fold [of "match_decision (hd ms)" "map match_decision (tl ms)"]
  by (cases ms) (simp_all add: from_matches_def)

lemma matches_with_fallback_nonempty [simp]:
  "matches_for_command_with_options env p cmd (Some fallback) options \<noteq> []"
  by (simp add: matches_for_command_with_options_def Let_def)

lemmas check_defs = check_def check_with_options_def check_multiple_def check_multiple_with_options_def

lemma matches_for_exact:
  "match_exact_rules p cmd = Some ms \<Longrightarrow> ms \<noteq> [] \<Longrightarrow>
   matches_for_command_with_options env p cmd fallback options = ms"
  by (simp add: matches_for_command_with_options_def Let_def split: option.splits)

lemma merge_exact:
  assumes "policy_ok overlay"
  shows "match_exact_rules (merge_overlay p overlay) cmd =
    (case match_exact_rules p cmd of None \<Rightarrow> None
     | Some ms \<Rightarrow> Some (ms @ (case match_exact_rules overlay cmd of Some ns \<Rightarrow> ns | None \<Rightarrow> [])))"
proof -
  have "List.map_filter f (xs @ ys) = List.map_filter f xs @ List.map_filter f ys"
    for f :: "prefix_rule \<Rightarrow> rule_match option" and xs ys by (simp add: List.map_filter_def)
  then show ?thesis
    using assms by (simp add: match_exact_rules_def merge_overlay_def mm_get_extend policy_ok_def split: list.splits)
qed

lemma Max_UN:
  fixes f :: "'a \<Rightarrow> 'b::linorder set"
  assumes "finite A" and "A \<noteq> {}" and "\<And>a. a \<in> A \<Longrightarrow> finite (f a) \<and> f a \<noteq> {}"
  shows "Max (\<Union>a\<in>A. f a) = Max ((\<lambda>a. Max (f a)) ` A)"
proof (rule antisym)
  have fin: "finite (\<Union>a\<in>A. f a)" "(\<Union>a\<in>A. f a) \<noteq> {}" using assms by auto
  have "x \<le> Max ((\<lambda>a. Max (f a)) ` A)" if "a \<in> A" "x \<in> f a" for a x
  proof -
    have "x \<le> Max (f a)" using assms that by simp
    also have "\<dots> \<le> Max ((\<lambda>a. Max (f a)) ` A)" using assms that by (intro Max_ge) auto
    finally show ?thesis .
  qed
  then show "Max (\<Union>a\<in>A. f a) \<le> Max ((\<lambda>a. Max (f a)) ` A)"
    using fin by (subst Max_le_iff) auto
  have "Max (f a) \<le> Max (\<Union>a\<in>A. f a)" if "a \<in> A" for a
    using that assms fin by (intro Max_mono) auto
  then show "Max ((\<lambda>a. Max (f a)) ` A) \<le> Max (\<Union>a\<in>A. f a)"
    using assms by (subst Max_le_iff) auto
qed

section \<open>Properties\<close>

text \<open>
  The index by program misses nothing and adds nothing: looking only at the rules stored under
  the first token of a command finds exactly the matches of all rules of the policy.
\<close>

theorem match_exact_rules_complete:
  assumes "policy_ok p" and "cmd \<noteq> []"
  shows "\<exists>ms. match_exact_rules p cmd = Some ms
    \<and> set ms = {m. \<exists>rule\<in>set (all_rules p). rule_matches rule cmd = Some m}"
proof -
  obtain c cs where cmd: "cmd = c # cs" using assms(2) by (cases cmd) auto
  have "rule \<in> set (mm_get (rules_by_program p) c)"
    if "rule \<in> set (all_rules p)" "rule_matches rule cmd = Some m" for rule m
    using rule_in_index [OF assms(1) that(1)] prefix_rules.matches_program [OF that(2)] cmd by simp
  moreover have "set (mm_get (rules_by_program p) c) \<subseteq> set (all_rules p)"
    using set_all_rules [OF assms(1)] by blast
  ultimately have "(\<exists>rule\<in>set (mm_get (rules_by_program p) c). rule_matches rule cmd = Some m) \<longleftrightarrow>
      (\<exists>rule\<in>set (all_rules p). rule_matches rule cmd = Some m)" for m by blast
  then show ?thesis
    by (simp add: cmd match_exact_rules_def set_eq_iff set_map_filter_Some)
qed

text \<open>
  Which rules decide on a command, said without the index and without the matching code: a rule speaks about
  a command that starts with words its pattern allows, one by one.  When no rule does, and only if the options
  ask for it, a program named by an absolute path stands for its file name, provided that the policy lists no paths
  for that name or lists this one.
\<close>

definition speaks_about :: "prefix_rule \<Rightarrow> ustr list \<Rightarrow> bool" where
  "speaks_about rule cmd \<longleftrightarrow>
     (\<exists>words rest. cmd = words @ rest
        \<and> list_all2 (\<lambda>token word. word \<in> set (token_alternatives token))
            (TokSingle (pat_first (rule_pattern rule)) # pat_rest (rule_pattern rule)) words)"

definition rules_for :: "policy \<Rightarrow> ustr list \<Rightarrow> prefix_rule set" where
  "rules_for p cmd = {rule \<in> set (all_rules p). speaks_about rule cmd}"

definition stands_for :: "host_env \<Rightarrow> policy \<Rightarrow> ustr list \<Rightarrow> ustr list \<Rightarrow> bool" where
  "stands_for env p cmd cmd' \<longleftrightarrow>
     (\<exists>first rest program name. cmd = first # rest \<and> cmd' = name # rest
        \<and> from_absolute_path (env_home env) (env_current_dir env) first = Ok program
        \<and> executable_path_lookup_key program = Some name
        \<and> (\<forall>paths. map_of (host_executables_by_name p) name = Some paths \<longrightarrow> program \<in> set paths))"

definition deciding_rules :: "host_env \<Rightarrow> policy \<Rightarrow> ustr list \<Rightarrow> bool \<Rightarrow> prefix_rule set" where
  "deciding_rules env p cmd resolve =
     (if rules_for p cmd \<noteq> {} then rules_for p cmd
      else {rule. resolve \<and> (\<exists>cmd'. stands_for env p cmd cmd' \<and> rule \<in> rules_for p cmd')})"

lemma speaks_about_matches: "speaks_about rule cmd \<longleftrightarrow> rule_matches rule cmd \<noteq> None"
proof -
  let ?first = "pat_first (rule_pattern rule)" and ?rest = "pat_rest (rule_pattern rule)"
  have "speaks_about rule cmd \<longleftrightarrow> (\<exists>words rest. cmd = (?first # words) @ rest \<and> list_all2 token_matches ?rest words)"
    unfolding speaks_about_def list_all2_Cons1 token_matches_alternatives by (simp only: token_alternatives.simps set_simps singleton_iff) blast
  then show ?thesis by (auto simp: rule_matches_def matches_prefix_Some)
qed

lemma rule_matches_decision: "rule_matches rule cmd = Some m \<Longrightarrow> match_decision m = rule_decision rule"
  by (auto simp: rule_matches_def)

lemma indexed_matches:
  assumes "policy_ok p"
  shows "match_decision ` set (List.map_filter (\<lambda>rule. rule_matches rule (c # cs)) (mm_get (rules_by_program p) c))
    = rule_decision ` rules_for p (c # cs)"
proof -
  obtain ms where ms: "match_exact_rules p (c # cs) = Some ms"
      "set ms = {m. \<exists>rule\<in>set (all_rules p). rule_matches rule (c # cs) = Some m}"
    using match_exact_rules_complete [OF assms, of "c # cs"] by auto
  then have "match_decision ` set ms = rule_decision ` rules_for p (c # cs)"
    by (force simp: rules_for_def speaks_about_matches image_iff dest: rule_matches_decision)
  then show ?thesis using ms(1) by (simp add: match_exact_rules_def)
qed

lemma rules_for_Nil: "rules_for p [] = {}"
  by (simp add: rules_for_def speaks_about_def)

lemma exact_decisions:
  assumes "policy_ok p"
  shows "match_decision ` set (case match_exact_rules p cmd of Some ms \<Rightarrow> ms | None \<Rightarrow> []) = rule_decision ` rules_for p cmd"
  using indexed_matches [OF assms] by (cases cmd) (simp_all add: match_exact_rules_def rules_for_Nil)

lemma host_decisions:
  assumes "policy_ok p"
  shows "match_decision ` set (match_host_executable_rules env p cmd)
    = rule_decision ` {rule. \<exists>cmd'. stands_for env p cmd cmd' \<and> rule \<in> rules_for p cmd'}"
proof (cases "\<exists>cmd'. stands_for env p cmd cmd'")
  case False
  then have "match_host_executable_rules env p cmd = []"
    by (auto simp: match_host_executable_rules_def stands_for_def list_ex_iff split: list.splits result.splits option.splits)
  with False show ?thesis by simp
next
  case True
  then obtain first rest program name where c: "cmd = first # rest"
      "from_absolute_path (env_home env) (env_current_dir env) first = Ok program" "executable_path_lookup_key program = Some name"
      "\<forall>paths. map_of (host_executables_by_name p) name = Some paths \<longrightarrow> program \<in> set paths"
    by (auto simp: stands_for_def)
  then have "stands_for env p cmd cmd' \<longleftrightarrow> cmd' = name # rest" for cmd' by (auto simp: stands_for_def)
  moreover have "match_host_executable_rules env p cmd = map (with_resolved_program program)
      (List.map_filter (\<lambda>rule. rule_matches rule (name # rest)) (mm_get (rules_by_program p) name))"
    using c by (auto simp: match_host_executable_rules_def mm_get_def list_ex_iff List.map_filter_simps split: option.splits)
  ultimately show ?thesis using indexed_matches [OF assms, of name rest] by (simp add: image_image)
qed


definition sample_rule :: "ustr \<Rightarrow> ustr list \<Rightarrow> decision \<Rightarrow> prefix_rule" where
  "sample_rule prog args d =
     \<lparr>rule_pattern = \<lparr>pat_first = prog, pat_rest = map TokSingle args\<rparr>, rule_decision = d,
      rule_justification = None\<rparr>"

definition sample_policy :: policy where
  "sample_policy =
     \<lparr>rules_by_program =
        [(lit ''git'', [sample_rule (lit ''git'') [] Prompt, sample_rule (lit ''git'') [lit ''status''] Allow]),
         (lit ''rm'', [sample_rule (lit ''rm'') [] Forbidden])],
      network_rules = [], host_executables_by_name = []\<rparr>"

lemma sample_policy_ok: "policy_ok sample_policy"
  by (auto simp: policy_ok_def sample_policy_def sample_rule_def mm_get_def rule_program_def
      split: option.splits if_splits)

theorem match_exact_rules_complete_witness:
  "\<exists>ms. match_exact_rules sample_policy [lit ''git'', lit ''status''] = Some ms
    \<and> set ms = {m. \<exists>rule\<in>set (all_rules sample_policy). rule_matches rule [lit ''git'', lit ''status''] = Some m}
    \<and> map match_decision ms = [Prompt, Allow]"
proof -
  have d: "map_option (map match_decision) (match_exact_rules sample_policy [lit ''git'', lit ''status''])
      = Some [Prompt, Allow]" by code_simp
  show ?thesis
    using match_exact_rules_complete [OF sample_policy_ok, of "[lit ''git'', lit ''status'']"] d by auto
qed


text \<open>
  every operation on policies keeps each rule in the index under its own program: adding a
  prefix rule, adding a network rule, setting host executables and merging an overlay.
\<close>

theorem policy_operations_keep_index:
  assumes "policy_ok p" and "policy_ok overlay"
  shows "policy_ok policy_empty
    \<and> (case add_prefix_rule pre d p of Ok p' \<Rightarrow> policy_ok p' | Err _ \<Rightarrow> pre = [])
    \<and> (case add_network_rule host protocol d justification p of Ok p' \<Rightarrow> policy_ok p' | Err _ \<Rightarrow> True)
    \<and> policy_ok (set_host_executable_paths name paths p)
    \<and> policy_ok (merge_overlay p overlay)"
proof (intro conjI)
  show "policy_ok policy_empty" by (simp add: policy_ok_def policy_empty_def mm_get_def)
  show "case add_prefix_rule pre d p of Ok p' \<Rightarrow> policy_ok p' | Err _ \<Rightarrow> pre = []"
    using assms(1) by (auto simp: add_prefix_rule_def policy_ok_def distinct_mm_insert mm_get_insert
        rule_program_def split: list.splits)
  show "case add_network_rule host protocol d justification p of Ok p' \<Rightarrow> policy_ok p' | Err _ \<Rightarrow> True"
    using assms(1) by (simp add: add_network_rule_def policy_ok_def split: result.splits)
  show "policy_ok (set_host_executable_paths name paths p)"
    using assms(1) by (simp add: set_host_executable_paths_def policy_ok_def)
  show "policy_ok (merge_overlay p overlay)"
    using assms by (auto simp: merge_overlay_def policy_ok_def distinct_mm_extend mm_get_extend)
qed

theorem policy_operations_keep_index_witness:
  "policy_ok (merge_overlay sample_policy sample_policy)
   \<and> length (all_rules (merge_overlay sample_policy sample_policy)) = 6"
proof -
  have "length (all_rules (merge_overlay sample_policy sample_policy)) = 6" by code_simp
  then show ?thesis using policy_operations_keep_index [OF sample_policy_ok sample_policy_ok] by blast
qed

text \<open>
  an overlay can only make a policy stricter where the policy has a rule for the command: the
  matches of the merged policy are those of the base followed by those of the overlay, so the
  decision never becomes more permissive than either one's.
\<close>

theorem merge_overlay_never_weakens:
  assumes "policy_ok overlay" and "match_exact_rules p cmd = Some ms" and "ms \<noteq> []"
    and "match_exact_rules overlay cmd = Some ns"
  shows "\<exists>ev ev'. check_with_options env p cmd fallback options = Ok ev
    \<and> check_with_options env (merge_overlay p overlay) cmd fallback options = Ok ev'
    \<and> matched_rules ev' = ms @ ns
    \<and> eval_decision ev \<le> eval_decision ev'
    \<and> (\<forall>n\<in>set ns. match_decision n \<le> eval_decision ev')"
proof -
  have "match_exact_rules (merge_overlay p overlay) cmd = Some (ms @ ns)"
    using merge_exact [OF assms(1)] assms(2,4) by simp
  moreover have "Max (match_decision ` set ms) \<le> Max (match_decision ` set (ms @ ns))"
    using assms(3) by (intro Max_mono) auto
  moreover have "match_decision n \<le> Max (match_decision ` set (ms @ ns))" if "n \<in> set ns" for n
    using that by (intro Max_ge) auto
  ultimately show ?thesis
    using assms(2,3) by (simp add: check_defs matches_for_exact from_matches_Ok)
qed

definition sample_overlay :: policy where
  "sample_overlay =
     \<lparr>rules_by_program = [(lit ''git'', [sample_rule (lit ''git'') [lit ''push''] Forbidden])],
      network_rules = [], host_executables_by_name = []\<rparr>"

definition no_env :: host_env where
  "no_env = \<lparr>env_home = None, env_current_dir = Err ()\<rparr>"

theorem merge_overlay_never_weakens_witness:
  "\<exists>ev ev'. check_with_options no_env sample_policy [lit ''git'', lit ''push''] (\<lambda>_. Allow) False = Ok ev
    \<and> check_with_options no_env (merge_overlay sample_policy sample_overlay) [lit ''git'', lit ''push''] (\<lambda>_. Allow) False = Ok ev'
    \<and> eval_decision ev \<le> eval_decision ev' \<and> Forbidden \<le> eval_decision ev'"
proof -
  let ?cmd = "[lit ''git'', lit ''push'']"
  have ok: "policy_ok sample_overlay"
    by (auto simp: policy_ok_def sample_overlay_def sample_rule_def mm_get_def rule_program_def
        split: option.splits if_splits)
  have m: "match_exact_rules sample_policy ?cmd = Some [PrefixRuleMatch [lit ''git''] Prompt None None]"
    and n: "match_exact_rules sample_overlay ?cmd = Some [PrefixRuleMatch ?cmd Forbidden None None]"
    by code_simp+
  show ?thesis
    using merge_overlay_never_weakens [OF ok m _ n, of no_env "\<lambda>_. Allow" False] by auto
qed

text \<open>
  checking several commands at once panics exactly when there is none; otherwise the decision
  is the strictest decision any one of the commands gets alone, so a command cannot hide behind
  harmless ones.
\<close>

theorem check_multiple_is_strictest:
  "(if commands = [] then check_multiple_with_options env p commands fallback options = Err Panic
    else \<exists>ev. check_multiple_with_options env p commands fallback options = Ok ev
      \<and> eval_decision ev = Max ((\<lambda>cmd. case check_with_options env p cmd fallback options of
           Ok ev \<Rightarrow> eval_decision ev | Err _ \<Rightarrow> Forbidden) ` set commands))"
proof (cases "commands = []")
  case True
  then show ?thesis by (simp add: check_defs from_matches_def)
next
  case False
  let ?ms = "\<lambda>cmd. matches_for_command_with_options env p cmd (Some fallback) options"
  have ne: "concat (map ?ms commands) \<noteq> []" using False by (cases commands) auto
  have "Max (match_decision ` set (concat (map ?ms commands)))
      = Max (\<Union>cmd\<in>set commands. match_decision ` set (?ms cmd))"
    by (simp add: image_UN)
  also have "\<dots> = Max ((\<lambda>cmd. Max (match_decision ` set (?ms cmd))) ` set commands)"
    using False by (intro Max_UN) auto
  finally show ?thesis using False ne by (simp add: check_defs from_matches_Ok)
qed

definition last_verdict :: "network_rule list \<Rightarrow> ustr \<Rightarrow> decision option" where
  "last_verdict rules host =
     (let rs = filter (\<lambda>r. net_host r = host \<and> net_decision r \<noteq> Prompt) rules
      in if rs = [] then None else Some (net_decision (last rs)))"

lemma last_verdict_snoc:
  "last_verdict (rules @ [r]) host =
     (if net_host r = host \<and> net_decision r \<noteq> Prompt then Some (net_decision r)
      else last_verdict rules host)"
  by (simp add: last_verdict_def)

lemma compile_network_rules:
  "foldl compile_network_rule ([], []) rules = (allowed, denied) \<Longrightarrow>
   distinct allowed \<and> distinct denied
   \<and> (\<forall>host. (host \<in> set allowed \<longleftrightarrow> last_verdict rules host = Some Allow)
        \<and> (host \<in> set denied \<longleftrightarrow> last_verdict rules host = Some Forbidden))"
proof (induction rules arbitrary: allowed denied rule: rev_induct)
  case (snoc r rules)
  obtain a d where ad: "foldl compile_network_rule ([], []) rules = (a, d)" by fastforce
  with snoc.prems have "compile_network_rule (a, d) r = (allowed, denied)" by simp
  then have step: "allowed = (case net_decision r of Allow \<Rightarrow> upsert_domain a (net_host r)
        | Forbidden \<Rightarrow> filter (\<lambda>e. e \<noteq> net_host r) a | Prompt \<Rightarrow> a)"
      "denied = (case net_decision r of Allow \<Rightarrow> filter (\<lambda>e. e \<noteq> net_host r) d
        | Forbidden \<Rightarrow> upsert_domain d (net_host r) | Prompt \<Rightarrow> d)"
    by (simp_all split: decision.splits)
  from snoc.IH [OF ad] have IH: "distinct a" "distinct d"
      "\<And>h. h \<in> set a \<longleftrightarrow> last_verdict rules h = Some Allow"
      "\<And>h. h \<in> set d \<longleftrightarrow> last_verdict rules h = Some Forbidden" by blast+
  show ?case unfolding step
    by (cases "net_decision r") (simp_all add: IH upsert_domain_def last_verdict_snoc eq_commute [of "net_host r"])
qed (simp add: last_verdict_def)

text \<open>
  of the compiled network domains, none is both allowed and denied, none is listed twice, and a
  host is allowed (denied) exactly when the last rule for it that is not a prompt allows (forbids) it.
\<close>

theorem compiled_network_domains_last_rule_wins:
  "case compiled_network_domains p of (allowed, denied) \<Rightarrow>
     distinct allowed \<and> distinct denied \<and> set allowed \<inter> set denied = {}
     \<and> (\<forall>host. (host \<in> set allowed \<longleftrightarrow> last_verdict (network_rules p) host = Some Allow)
          \<and> (host \<in> set denied \<longleftrightarrow> last_verdict (network_rules p) host = Some Forbidden))"
  using compile_network_rules [of "network_rules p"]
  by (cases "compiled_network_domains p") (auto simp: compiled_network_domains_def)

lemma distinct_remdups_adj_sorted: "sorted xs \<Longrightarrow> distinct (remdups_adj xs)"
  for xs :: "'a :: linorder list"
proof (induction xs rule: remdups_adj.induct)
  case (3 x y xs)
  then show ?case by (cases "x = y") fastforce+
qed auto

text \<open>
  the allowed prefixes are listed in order without repetition, and they are exactly the
  renderings of the rules that allow. A listed prefix that comes from a rule without alternatives
  is itself a command that the rule matches.
\<close>

theorem get_allowed_prefixes_exact:
  "sorted (get_allowed_prefixes p) \<and> distinct (get_allowed_prefixes p)
   \<and> set (get_allowed_prefixes p) = rule_prefix ` {rule \<in> set (all_rules p). rule_decision rule = Allow}
   \<and> (\<forall>first args d j extra.
        let rule = \<lparr>rule_pattern = \<lparr>pat_first = first, pat_rest = map TokSingle args\<rparr>,
                    rule_decision = d, rule_justification = j\<rparr>
        in rule_prefix rule = first # args
           \<and> rule_matches rule (first # args @ extra) = Some (PrefixRuleMatch (first # args) d None j))"
proof (intro conjI allI)
  show "sorted (get_allowed_prefixes p)"
    by (simp add: get_allowed_prefixes_def)
  show "distinct (get_allowed_prefixes p)"
    by (simp add: get_allowed_prefixes_def distinct_remdups_adj_sorted)
  show "set (get_allowed_prefixes p) = rule_prefix ` {rule \<in> set (all_rules p). rule_decision rule = Allow}"
    by (auto simp: get_allowed_prefixes_def all_rules_def)
  fix first args d j extra
  have "list_all2 token_matches (map TokSingle args) args" by (simp add: list_all2_conv_all_nth)
  then have "matches_prefix \<lparr>pat_first = first, pat_rest = map TokSingle args\<rparr> (first # args @ extra) = Some (first # args)"
    by (auto simp: matches_prefix_Some)
  then show "let rule = \<lparr>rule_pattern = \<lparr>pat_first = first, pat_rest = map TokSingle args\<rparr>,
        rule_decision = d, rule_justification = j\<rparr>
      in rule_prefix rule = first # args
         \<and> rule_matches rule (first # args @ extra) = Some (PrefixRuleMatch (first # args) d None j)"
    by (simp add: rule_matches_def rule_prefix_def comp_def)
qed

end
