(* ===== verification/Policy_Builder.thy ===== *)
theory Policy_Builder
  imports Exec_Policy
begin

text \<open>
  Building a policy from a rules file (\<^verbatim>\<open>src/execpolicy/src/parser.rs\<close>). A rules file is a Starlark
  program; the Starlark interpreter is third-party code, so its evaluation of a file is the
  parameter \<open>starlark\<close>: the calls of the three builtins in order, then possibly an error of the
  program itself, or a syntax error. The builtins return \<^verbatim>\<open>None\<close>, so the calls do not depend on the
  builder. The shell word splitter of the \<^verbatim>\<open>shlex\<close> crate is the parameter \<open>shlex\<close>. Source locations
  of errors are left out.
\<close>

section \<open>Definitions\<close>

text \<open>A Starlark value as the builtins see it: a string, a list, or a value of another type.\<close>

datatype star_value = SStr ustr | SList "star_value list" | SOther ustr

fun get_type :: "star_value \<Rightarrow> ustr" where
  "get_type (SStr _) = lit ''string''"
| "get_type (SList _) = lit ''list''"
| "get_type (SOther t) = t"

fun unpack_str :: "star_value \<Rightarrow> ustr option" where
  "unpack_str (SStr s) = Some s"
| "unpack_str _ = None"

record pending_validation =
  pend_rules :: "prefix_rule list"
  pend_matches :: "ustr list list"
  pend_not_matches :: "ustr list list"

text \<open>The fields of \<^verbatim>\<open>PolicyBuilder\<close>: those of a policy, and the pending validations.\<close>

record policy_builder =
  builder_policy :: policy
  pending_example_validations :: "pending_validation list"

definition builder_new :: policy_builder where
  "builder_new = \<lparr>builder_policy = policy_empty, pending_example_validations = []\<rparr>"

definition builder_add_rule :: "prefix_rule \<Rightarrow> policy_builder \<Rightarrow> policy_builder" where
  "builder_add_rule rule b =
     b\<lparr>builder_policy := (builder_policy b)\<lparr>rules_by_program :=
        mm_insert (rule_program rule) rule (rules_by_program (builder_policy b))\<rparr>\<rparr>"

definition builder_add_network_rule :: "network_rule \<Rightarrow> policy_builder \<Rightarrow> policy_builder" where
  "builder_add_network_rule rule b =
     b\<lparr>builder_policy := (builder_policy b)\<lparr>network_rules := network_rules (builder_policy b) @ [rule]\<rparr>\<rparr>"

definition builder_add_host_executable :: "ustr \<Rightarrow> path list \<Rightarrow> policy_builder \<Rightarrow> policy_builder" where
  "builder_add_host_executable name paths b =
     b\<lparr>builder_policy := set_host_executable_paths name paths (builder_policy b)\<rparr>"

definition add_pending_example_validation ::
  "prefix_rule list \<Rightarrow> ustr list list \<Rightarrow> ustr list list \<Rightarrow> policy_builder \<Rightarrow> policy_builder" where
  "add_pending_example_validation rules ms nms b =
     b\<lparr>pending_example_validations := pending_example_validations b @
        [\<lparr>pend_rules = rules, pend_matches = ms, pend_not_matches = nms\<rparr>]\<rparr>"

text \<open>The policy of one validation: its own rules, with the host executables of the builder.\<close>

definition validation_policy :: "policy_builder \<Rightarrow> pending_validation \<Rightarrow> policy" where
  "validation_policy b v =
     \<lparr>rules_by_program = foldl (\<lambda>m rule. mm_insert (rule_program rule) rule m) [] (pend_rules v),
      network_rules = [], host_executables_by_name = host_executables_by_name (builder_policy b)\<rparr>"

fun validate_examples :: "host_env \<Rightarrow> policy_builder \<Rightarrow> pending_validation list \<Rightarrow> (exec_error, unit) result" where
  "validate_examples env b [] = Ok ()"
| "validate_examples env b (v # vs) =
     (case validate_not_match_examples env (validation_policy b v) (pend_not_matches v) of
        Err e \<Rightarrow> Err e
      | Ok _ \<Rightarrow>
          (case validate_match_examples env (validation_policy b v) (pend_rules v) (pend_matches v) of
             Err e \<Rightarrow> Err e
           | Ok _ \<Rightarrow> validate_examples env b vs))"

text \<open>\<^verbatim>\<open>start\<close> is a length the vector had before, so the slice is in range.\<close>

definition validate_pending_examples_from ::
  "host_env \<Rightarrow> policy_builder \<Rightarrow> nat \<Rightarrow> (exec_error, unit) result" where
  "validate_pending_examples_from env b start =
     validate_examples env b (drop start (pending_example_validations b))"

definition builder_build :: "policy_builder \<Rightarrow> policy" where
  "builder_build b = builder_policy b"

subsection \<open>Arguments of the builtins\<close>

definition parse_pattern_token :: "star_value \<Rightarrow> (exec_error, pattern_token) result" where
  "parse_pattern_token v =
     (case v of
        SStr s \<Rightarrow> Ok (TokSingle s)
      | SList vs \<Rightarrow>
          (case collect_results (\<lambda>v. case unpack_str v of
                    Some s \<Rightarrow> Ok s
                  | None \<Rightarrow> Err (InvalidPattern
                      (lit ''pattern alternative must be a string (got '' @ get_type v @ lit '')''))) vs of
             Err e \<Rightarrow> Err e
           | Ok [] \<Rightarrow> Err (InvalidPattern (lit ''pattern alternatives cannot be empty''))
           | Ok [single] \<Rightarrow> Ok (TokSingle single)
           | Ok tokens \<Rightarrow> Ok (TokAlts tokens))
      | SOther t \<Rightarrow> Err (InvalidPattern
          (lit ''pattern element must be a string or list of strings (got '' @ t @ lit '')'')))"

definition parse_pattern :: "star_value list \<Rightarrow> (exec_error, pattern_token list) result" where
  "parse_pattern vs =
     (case collect_results parse_pattern_token vs of
        Err e \<Rightarrow> Err e
      | Ok tokens \<Rightarrow>
          if tokens = [] then Err (InvalidPattern (lit ''pattern cannot be empty'')) else Ok tokens)"

definition parse_string_example ::
  "(ustr \<Rightarrow> ustr list option) \<Rightarrow> ustr \<Rightarrow> (exec_error, ustr list) result" where
  "parse_string_example shlex raw =
     (case shlex raw of
        None \<Rightarrow> Err (InvalidExample (lit ''example string has invalid shell syntax''))
      | Some tokens \<Rightarrow>
          if tokens = [] then Err (InvalidExample (lit ''example cannot be an empty string''))
          else Ok tokens)"

definition parse_list_example :: "star_value list \<Rightarrow> (exec_error, ustr list) result" where
  "parse_list_example vs =
     (case collect_results (\<lambda>v. case unpack_str v of
               Some s \<Rightarrow> Ok s
             | None \<Rightarrow> Err (InvalidExample
                 (lit ''example tokens must be strings (got '' @ get_type v @ lit '')''))) vs of
        Err e \<Rightarrow> Err e
      | Ok tokens \<Rightarrow>
          if tokens = [] then Err (InvalidExample (lit ''example cannot be an empty list''))
          else Ok tokens)"

definition parse_example ::
  "(ustr \<Rightarrow> ustr list option) \<Rightarrow> star_value \<Rightarrow> (exec_error, ustr list) result" where
  "parse_example shlex v =
     (case v of
        SStr raw \<Rightarrow> parse_string_example shlex raw
      | SList vs \<Rightarrow> parse_list_example vs
      | SOther t \<Rightarrow> Err (InvalidExample
          (lit ''example must be a string or list of strings (got '' @ t @ lit '')'')))"

definition parse_examples ::
  "(ustr \<Rightarrow> ustr list option) \<Rightarrow> star_value list option \<Rightarrow> (exec_error, ustr list list) result" where
  "parse_examples shlex examples =
     (case examples of None \<Rightarrow> Ok [] | Some vs \<Rightarrow> collect_results (parse_example shlex) vs)"

text \<open>The raw text is absolute, so the working directory is never read and the call cannot fail.\<close>

definition parse_literal_absolute_path :: "host_env \<Rightarrow> ustr \<Rightarrow> (exec_error, path) result" where
  "parse_literal_absolute_path env raw =
     (if \<not> is_absolute (components raw) then
        Err (InvalidRule (lit ''host_executable paths must be absolute (got '' @ raw @ lit '')''))
      else case from_absolute_path (env_home env) (env_current_dir env) raw of
             Ok p \<Rightarrow> Ok p
           | Err _ \<Rightarrow> Err (InvalidRule (lit ''invalid absolute path `'' @ raw @ lit ''`: '')))"

definition validate_host_executable_name :: "ustr \<Rightarrow> (exec_error, unit) result" where
  "validate_host_executable_name name =
     (if name = [] then Err (InvalidRule (lit ''host_executable name cannot be empty''))
      else if length (components name) \<noteq> 1 \<or> path_file_name (components name) \<noteq> Some name then
        Err (InvalidRule (lit ''host_executable name must be a bare executable name (got '' @ name @ lit '')''))
      else Ok ())"

definition parse_network_rule_decision :: "ustr \<Rightarrow> (exec_error, decision) result" where
  "parse_network_rule_decision raw =
     (if raw = lit ''deny'' then Ok Forbidden else parse_decision raw)"

definition parse_justification :: "ustr option \<Rightarrow> (exec_error, ustr option) result" where
  "parse_justification justification =
     (if blank_justification justification
      then Err (InvalidRule (lit ''justification cannot be empty'')) else Ok justification)"

subsection \<open>The builtins\<close>

definition expand_rules :: "pattern_token list \<Rightarrow> decision \<Rightarrow> ustr option \<Rightarrow> prefix_rule list" where
  "expand_rules tokens d justification =
     map (\<lambda>head. \<lparr>rule_pattern = \<lparr>pat_first = head, pat_rest = tl tokens\<rparr>,
                 rule_decision = d, rule_justification = justification\<rparr>)
       (token_alternatives (hd tokens))"

definition prefix_rule_builtin ::
  "(ustr \<Rightarrow> ustr list option) \<Rightarrow> star_value list \<Rightarrow> ustr option \<Rightarrow> star_value list option
     \<Rightarrow> star_value list option \<Rightarrow> ustr option \<Rightarrow> policy_builder \<Rightarrow> (exec_error, policy_builder) result" where
  "prefix_rule_builtin shlex pattern d ms nms justification b =
     (case (case d of Some raw \<Rightarrow> parse_decision raw | None \<Rightarrow> Ok Allow) of
        Err e \<Rightarrow> Err e
      | Ok d \<Rightarrow>
        (case parse_justification justification of
           Err e \<Rightarrow> Err e
         | Ok justification \<Rightarrow>
           (case parse_pattern pattern of
              Err e \<Rightarrow> Err e
            | Ok tokens \<Rightarrow>
              (case parse_examples shlex ms of
                 Err e \<Rightarrow> Err e
               | Ok ms \<Rightarrow>
                 (case parse_examples shlex nms of
                    Err e \<Rightarrow> Err e
                  | Ok nms \<Rightarrow>
                      (let rules = expand_rules tokens d justification
                       in Ok (foldl (\<lambda>b rule. builder_add_rule rule b)
                            (add_pending_example_validation rules ms nms b) rules)))))))"

definition network_rule_builtin ::
  "ustr \<Rightarrow> ustr \<Rightarrow> ustr \<Rightarrow> ustr option \<Rightarrow> policy_builder \<Rightarrow> (exec_error, policy_builder) result" where
  "network_rule_builtin host protocol d justification b =
     (case parse_protocol protocol of
        Err e \<Rightarrow> Err e
      | Ok protocol \<Rightarrow>
        (case parse_network_rule_decision d of
           Err e \<Rightarrow> Err e
         | Ok d \<Rightarrow>
           (case parse_justification justification of
              Err e \<Rightarrow> Err e
            | Ok justification \<Rightarrow>
              (case normalize_network_rule_host host of
                 Err e \<Rightarrow> Err e
               | Ok host \<Rightarrow>
                   Ok (builder_add_network_rule
                     \<lparr>net_host = host, net_protocol = protocol, net_decision = d,
                      net_justification = justification\<rparr> b)))))"

text \<open>The loop over the paths of a host executable.\<close>

fun host_executable_paths ::
  "host_env \<Rightarrow> ustr \<Rightarrow> star_value list \<Rightarrow> path list \<Rightarrow> (exec_error, path list) result" where
  "host_executable_paths env name [] parsed_paths = Ok parsed_paths"
| "host_executable_paths env name (v # vs) parsed_paths =
     (case unpack_str v of
        None \<Rightarrow> Err (InvalidRule (lit ''host_executable paths must be strings (got '' @ get_type v @ lit '')''))
      | Some raw \<Rightarrow>
        (case parse_literal_absolute_path env raw of
           Err e \<Rightarrow> Err e
         | Ok path \<Rightarrow>
             if executable_path_lookup_key path \<noteq> Some (executable_lookup_key name) then
               Err (InvalidRule (lit ''host_executable path `'' @ raw @ lit ''` must have basename `'' @ name @ lit ''`''))
             else host_executable_paths env name vs
               (if path \<in> set parsed_paths then parsed_paths else parsed_paths @ [path])))"

definition host_executable_builtin ::
  "host_env \<Rightarrow> ustr \<Rightarrow> star_value list \<Rightarrow> policy_builder \<Rightarrow> (exec_error, policy_builder) result" where
  "host_executable_builtin env name paths b =
     (case validate_host_executable_name name of
        Err e \<Rightarrow> Err e
      | Ok _ \<Rightarrow>
          (case host_executable_paths env name paths [] of
             Err e \<Rightarrow> Err e
           | Ok parsed_paths \<Rightarrow> Ok (builder_add_host_executable (executable_lookup_key name) parsed_paths b)))"

subsection \<open>Parsing a file\<close>

datatype builtin_call =
    CallPrefixRule "star_value list" "ustr option" "star_value list option" "star_value list option" "ustr option"
  | CallNetworkRule ustr ustr ustr "ustr option"
  | CallHostExecutable ustr "star_value list"

text \<open>What the interpreter does with a file: a syntax error, or calls and possibly a final error.\<close>

datatype star_program = SyntaxError ustr | Calls "builtin_call list" "ustr option"

fun run_call ::
  "(ustr \<Rightarrow> ustr list option) \<Rightarrow> host_env \<Rightarrow> builtin_call \<Rightarrow> policy_builder \<Rightarrow> (exec_error, policy_builder) result" where
  "run_call shlex env (CallPrefixRule pattern d ms nms j) b = prefix_rule_builtin shlex pattern d ms nms j b"
| "run_call shlex env (CallNetworkRule host protocol d j) b = network_rule_builtin host protocol d j b"
| "run_call shlex env (CallHostExecutable name paths) b = host_executable_builtin env name paths b"

fun exec_error_message :: "exec_error \<Rightarrow> ustr" where
  "exec_error_message (InvalidDecision m) = lit ''invalid decision: '' @ m"
| "exec_error_message (InvalidPattern m) = lit ''invalid pattern element: '' @ m"
| "exec_error_message (InvalidExample m) = lit ''invalid example: '' @ m"
| "exec_error_message (InvalidRule m) = lit ''invalid rule: '' @ m"
| "exec_error_message (Starlark m) = lit ''starlark error: '' @ m"
| "exec_error_message _ = []"

text \<open>An error of a builtin ends the evaluation; the builder keeps what came before.\<close>

fun run_calls ::
  "(ustr \<Rightarrow> ustr list option) \<Rightarrow> host_env \<Rightarrow> builtin_call list \<Rightarrow> ustr option \<Rightarrow> policy_builder
     \<Rightarrow> (exec_error, unit) result \<times> policy_builder" where
  "run_calls shlex env [] final_error b =
     (case final_error of None \<Rightarrow> (Ok (), b) | Some m \<Rightarrow> (Err (Starlark m), b))"
| "run_calls shlex env (c # cs) final_error b =
     (case run_call shlex env c b of
        Err e \<Rightarrow> (Err (Starlark (exec_error_message e)), b)
      | Ok b' \<Rightarrow> run_calls shlex env cs final_error b')"

definition policy_parser_parse ::
  "(ustr \<Rightarrow> ustr \<Rightarrow> star_program) \<Rightarrow> (ustr \<Rightarrow> ustr list option) \<Rightarrow> host_env \<Rightarrow> ustr \<Rightarrow> ustr \<Rightarrow> policy_builder
     \<Rightarrow> (exec_error, unit) result \<times> policy_builder" where
  "policy_parser_parse starlark shlex env policy_identifier policy_file_contents b =
     (let pending_validation_count = length (pending_example_validations b)
      in case starlark policy_identifier policy_file_contents of
           SyntaxError m \<Rightarrow> (Err (Starlark m), b)
         | Calls cs final_error \<Rightarrow>
             (case run_calls shlex env cs final_error b of
                (Err e, b') \<Rightarrow> (Err e, b')
              | (Ok _, b') \<Rightarrow> (validate_pending_examples_from env b' pending_validation_count, b')))"

section \<open>What a rules file establishes\<close>

text \<open>Every host executable is listed with absolute paths that have its name as their last component.\<close>

definition host_paths_ok :: "policy \<Rightarrow> bool" where
  "host_paths_ok p \<longleftrightarrow> (\<forall>name paths. map_of (host_executables_by_name p) name = Some paths \<longrightarrow>
     (\<forall>q\<in>set paths. absolute_path q \<and> executable_path_lookup_key q = Some name))"

definition builder_ok :: "policy_builder \<Rightarrow> bool" where
  "builder_ok b \<longleftrightarrow> policy_ok (builder_policy b) \<and> host_paths_ok (builder_policy b)"

lemma builder_ok_new: "builder_ok builder_new"
  by (simp add: builder_ok_def builder_new_def policy_empty_def policy_ok_def host_paths_ok_def mm_get_def)

lemma builder_add_rule_ok: "builder_ok b \<Longrightarrow> builder_ok (builder_add_rule rule b)"
  by (auto simp: builder_ok_def builder_add_rule_def policy_ok_def host_paths_ok_def distinct_mm_insert
      mm_get_insert)

lemma builder_add_rules_ok: "builder_ok b \<Longrightarrow> builder_ok (foldl (\<lambda>b rule. builder_add_rule rule b) b rules)"
  by (induction rules arbitrary: b) (auto intro: builder_add_rule_ok)

lemma builder_add_rules_pending:
  "pending_example_validations (foldl (\<lambda>b rule. builder_add_rule rule b) b rules) = pending_example_validations b"
  by (induction rules arbitrary: b) (auto simp: builder_add_rule_def)

lemma parse_literal_absolute_path_absolute:
  assumes "parse_literal_absolute_path env raw = Ok p"
  shows "absolute_path p"
proof -
  from assms have abs: "is_absolute (components raw)"
    and p: "from_absolute_path (env_home env) (env_current_dir env) raw = Ok p"
    by (auto simp: parse_literal_absolute_path_def split: if_splits result.splits)
  have "prefix [slash] raw" using abs by (simp add: is_absolute_components)
  then have "maybe_expand_home_directory (env_home env) raw = components raw"
    by (auto simp: maybe_expand_home_directory_def strip_prefix_def prefix_def split: option.splits)
  then have "p = normalize_path (components raw)"
    using p abs by (simp add: from_absolute_path_def absolutize_def)
  then show ?thesis using normalize_path_absolute [OF abs] by simp
qed

lemma host_executable_paths_ok:
  "host_executable_paths env name vs acc = Ok paths \<Longrightarrow>
   \<forall>q\<in>set acc. absolute_path q \<and> executable_path_lookup_key q = Some (executable_lookup_key name) \<Longrightarrow>
   \<forall>q\<in>set paths. absolute_path q \<and> executable_path_lookup_key q = Some (executable_lookup_key name)"
proof (induction vs arbitrary: acc)
  case (Cons v vs)
  from Cons.prems(1) obtain raw p where p: "parse_literal_absolute_path env raw = Ok p"
      "executable_path_lookup_key p = Some (executable_lookup_key name)"
      "host_executable_paths env name vs (if p \<in> set acc then acc else acc @ [p]) = Ok paths"
    by (auto split: option.splits result.splits if_splits)
  have "\<forall>q\<in>set (if p \<in> set acc then acc else acc @ [p]).
      absolute_path q \<and> executable_path_lookup_key q = Some (executable_lookup_key name)"
    using Cons.prems(2) p(2) parse_literal_absolute_path_absolute [OF p(1)] by simp
  from Cons.IH [OF p(3) this] show ?case .
qed simp

lemma run_call_ok:
  assumes "builder_ok b" and "run_call shlex env c b = Ok b'"
  shows "builder_ok b'"
proof (cases c)
  case (CallPrefixRule pattern d ms nms j)
  then obtain rules ms' nms' where
    "b' = foldl (\<lambda>b rule. builder_add_rule rule b) (add_pending_example_validation rules ms' nms' b) rules"
    using assms(2) by (auto simp: prefix_rule_builtin_def Let_def split: result.splits)
  moreover have "builder_ok (add_pending_example_validation rules ms' nms' b)"
    using assms(1) by (simp add: add_pending_example_validation_def builder_ok_def)
  ultimately show ?thesis using builder_add_rules_ok by blast
next
  case (CallNetworkRule host protocol d j)
  then obtain rule where "b' = builder_add_network_rule rule b"
    using assms(2) by (auto simp: network_rule_builtin_def split: result.splits)
  with assms(1) show ?thesis
    by (simp add: builder_add_network_rule_def builder_ok_def policy_ok_def host_paths_ok_def)
next
  case (CallHostExecutable name vs)
  then obtain paths where p: "host_executable_paths env name vs [] = Ok paths"
      "b' = builder_add_host_executable (executable_lookup_key name) paths b"
    using assms(2) by (auto simp: host_executable_builtin_def split: result.splits)
  with host_executable_paths_ok [OF p(1)] assms(1) show ?thesis
    by (auto simp: builder_add_host_executable_def set_host_executable_paths_def builder_ok_def
        policy_ok_def host_paths_ok_def AList.update_conv')
qed

lemma run_calls_ok: "builder_ok b \<Longrightarrow> builder_ok (snd (run_calls shlex env cs final_error b))"
  by (induction cs arbitrary: b) (auto split: option.splits result.splits dest: run_call_ok)

lemma parse_ok: "builder_ok b \<Longrightarrow> builder_ok (snd (policy_parser_parse starlark shlex env ident contents b))"
  using run_calls_ok [of b shlex env]
  by (auto simp: policy_parser_parse_def Let_def split: star_program.splits result.splits prod.splits)
    (metis snd_conv)+

text \<open>The examples that the prefix rules of a file give, as they are validated.\<close>

definition examples_hold :: "host_env \<Rightarrow> policy_builder \<Rightarrow> pending_validation \<Rightarrow> bool" where
  "examples_hold env b v \<longleftrightarrow>
     (\<forall>ex\<in>set (pend_matches v). matches_for_command_with_options env (validation_policy b v) ex None True \<noteq> [])
     \<and> (\<forall>ex\<in>set (pend_not_matches v). matches_for_command_with_options env (validation_policy b v) ex None True = [])"

lemma validate_not_match_Ok:
  "validate_not_match_examples env p exs = Ok () \<longleftrightarrow>
   (\<forall>ex\<in>set exs. matches_for_command_with_options env p ex None True = [])"
  by (induction exs) (auto split: list.splits)

lemma validate_match_Ok:
  "validate_match_examples env p rules exs = Ok () \<longleftrightarrow>
   (\<forall>ex\<in>set exs. matches_for_command_with_options env p ex None True \<noteq> [])"
  by (auto simp: validate_match_examples_def Let_def filter_empty_conv)

lemma validate_examples_Ok: "validate_examples env b vs = Ok () \<longleftrightarrow> list_all (examples_hold env b) vs"
proof (induction vs)
  case (Cons v vs)
  have "r = Ok () \<longleftrightarrow> (\<exists>u. r = Ok u)" for r :: "(exec_error, unit) result" by auto
  then have "validate_examples env b (v # vs) = Ok () \<longleftrightarrow>
      validate_not_match_examples env (validation_policy b v) (pend_not_matches v) = Ok () \<and>
      validate_match_examples env (validation_policy b v) (pend_rules v) (pend_matches v) = Ok () \<and>
      validate_examples env b vs = Ok ()"
    by (auto split: result.splits)
  then show ?case
    by (auto simp: validate_not_match_Ok validate_match_Ok Cons.IH examples_hold_def)
qed simp

section \<open>Properties\<close>

text \<open>
  after any sequence of rules files, well-formed or not, every rule of the resulting policy is
  stored under its own program, and every path listed for a host executable is absolute and ends
  in the name it is listed under.
\<close>

theorem parsed_policies_are_indexed:
  "let parse = (\<lambda>b (ident, contents). snd (policy_parser_parse starlark shlex env ident contents b));
       p = builder_build (foldl parse builder_new policy_files)
   in policy_ok p \<and> host_paths_ok p"
proof -
  let ?parse = "\<lambda>b (ident, contents). snd (policy_parser_parse starlark shlex env ident contents b)"
  have "builder_ok (foldl ?parse b policy_files)" if "builder_ok b" for b
    using that by (induction policy_files arbitrary: b) (auto intro!: parse_ok)
  from this [OF builder_ok_new] show ?thesis by (simp add: Let_def builder_ok_def builder_build_def)
qed

text \<open>
  a rules file is accepted only if the examples of all its prefix rules hold: each positive
  example is matched by the rules of its own call, and no negative example is.
\<close>

theorem accepted_file_examples_hold:
  assumes "policy_parser_parse starlark shlex env ident contents b = (Ok (), b')"
  shows "list_all (examples_hold env b')
    (drop (length (pending_example_validations b)) (pending_example_validations b'))"
  using assms
  by (auto simp: policy_parser_parse_def Let_def validate_pending_examples_from_def validate_examples_Ok
      split: star_program.splits result.splits prod.splits)

definition sample_starlark :: "ustr \<Rightarrow> ustr \<Rightarrow> star_program" where
  "sample_starlark ident contents =
     Calls [CallPrefixRule [SStr (lit ''git''), SList [SStr (lit ''add''), SStr (lit ''rm'')]] (Some (lit ''prompt''))
              (Some [SList [SStr (lit ''git''), SStr (lit ''rm''), SStr (lit ''x'')]])
              (Some [SList [SStr (lit ''git''), SStr (lit ''log'')]]) None] None"

theorem accepted_file_examples_hold_witness:
  "\<exists>b'. policy_parser_parse sample_starlark (\<lambda>_. None) no_env [] [] builder_new = (Ok (), b')
     \<and> length (pending_example_validations b') = 1
     \<and> list_all (examples_hold no_env b') (pending_example_validations b')"
proof -
  let ?run = "policy_parser_parse sample_starlark (\<lambda>_. None) no_env [] [] builder_new"
  have ok: "is_ok (fst ?run)" and len: "length (pending_example_validations (snd ?run)) = 1" by code_simp+
  obtain b' where run: "?run = (Ok (), b')" using ok by (cases ?run) (auto simp: is_ok_iff)
  show ?thesis
    using accepted_file_examples_hold [OF run] run len by (simp add: builder_new_def)
qed

text \<open>
  listing alternatives for the first token of a pattern means what it means for the others: some
  rule of the expansion matches a command exactly when the command starts with one alternative of
  every pattern token, in order.
\<close>

theorem expand_rules_matches:
  assumes "parse_pattern vs = Ok tokens"
  shows "(\<exists>rule\<in>set (expand_rules tokens d justification). rule_matches rule cmd \<noteq> None) \<longleftrightarrow>
    (\<exists>args extra. cmd = args @ extra \<and> list_all2 (\<lambda>tok arg. arg \<in> set (token_alternatives tok)) tokens args)"
proof -
  obtain t ts where tokens: "tokens = t # ts"
    using assms by (cases tokens) (auto simp: parse_pattern_def split: result.splits if_splits)
  have "(\<exists>rule\<in>set (expand_rules tokens d justification). rule_matches rule cmd \<noteq> None) \<longleftrightarrow>
      (\<exists>head\<in>set (token_alternatives t). \<exists>rest extra. cmd = head # rest @ extra \<and> list_all2 token_matches ts rest)"
    by (auto simp: tokens expand_rules_def rule_matches_def matches_prefix_Some)
  also have "\<dots> \<longleftrightarrow> (\<exists>args extra. cmd = args @ extra \<and> list_all2 token_matches tokens args)"
    unfolding tokens list_all2_Cons1 token_matches_alternatives by (metis append_Cons)
  finally show ?thesis by (simp add: token_matches_alternatives)
qed

theorem expand_rules_matches_witness:
  "\<exists>rule\<in>set (expand_rules [TokAlts [lit ''npm'', lit ''yarn''], TokSingle (lit ''test'')] Allow None).
     rule_matches rule [lit ''yarn'', lit ''test'', lit ''-v''] \<noteq> None"
proof -
  have p: "parse_pattern [SList [SStr (lit ''npm''), SStr (lit ''yarn'')], SStr (lit ''test'')]
      = Ok [TokAlts [lit ''npm'', lit ''yarn''], TokSingle (lit ''test'')]" by code_simp
  have "[lit ''yarn'', lit ''test'', lit ''-v''] = [lit ''yarn'', lit ''test''] @ [lit ''-v''] \<and>
      list_all2 (\<lambda>tok arg. arg \<in> set (token_alternatives tok))
        [TokAlts [lit ''npm'', lit ''yarn''], TokSingle (lit ''test'')] [lit ''yarn'', lit ''test'']"
    by simp
  then show ?thesis using expand_rules_matches [OF p, of Allow None] by blast
qed

end
