(* ===== verification/Config_Toml.thy ===== *)
theory Config_Toml
  imports Prelude "HOL-Library.AList" "HOL-Library.List_Lexorder" "HOL-Library.Word"
begin

text \<open>
  TOML values of configuration layers: key aliases (\<^verbatim>\<open>src/config/src/key_aliases.rs\<close>), merging
  (\<^verbatim>\<open>merge.rs\<close>), command-line overrides (\<^verbatim>\<open>overrides.rs\<close>), the leaves of a value with their origin (\<^verbatim>\<open>fingerprint.rs\<close>)
  and project root markers (\<^verbatim>\<open>project_root_markers.rs\<close>).  A table is the list of its entries in key order,
  as the ordered map of the \<^verbatim>\<open>toml\<close> crate keeps them; a float is its bits and a date its text.
\<close>

section \<open>Values\<close>

datatype toml =
    TStr ustr
  | TInt int
  | TFloat "64 word"
  | TBool bool
  | TDatetime ustr
  | TArr "toml list"
  | TTable "(ustr \<times> toml) list"

type_synonym table = "(ustr \<times> toml) list"

text \<open>\<^verbatim>\<open>Map::insert\<close> and \<^verbatim>\<open>Map::remove\<close>.\<close>

fun tbl_insert :: "ustr \<Rightarrow> 'v \<Rightarrow> (ustr \<times> 'v) list \<Rightarrow> (ustr \<times> 'v) list" where
  "tbl_insert k v [] = [(k, v)]"
| "tbl_insert k v ((k', v') # t) =
     (if k = k' then (k, v) # t else if k < k' then (k, v) # (k', v') # t else (k', v') # tbl_insert k v t)"

abbreviation tbl_remove :: "ustr \<Rightarrow> table \<Rightarrow> table" where
  "tbl_remove \<equiv> AList.delete"

lemma map_of_tbl_insert [simp]: "map_of (tbl_insert k v t) = (map_of t)(k \<mapsto> v)"
  by (induction t) (auto simp: fun_eq_iff)

section \<open>Key aliases\<close>

record config_key_alias =
  table_path :: "ustr list"
  legacy_key :: ustr
  canonical_key :: ustr

definition memories_alias :: config_key_alias where
  "memories_alias =
     \<lparr>table_path = [lit ''memories''], legacy_key = lit ''no_memories_if_mcp_or_web_search'',
      canonical_key = lit ''disable_on_external_context''\<rparr>"

definition CONFIG_KEY_ALIASES :: "config_key_alias list" where
  "CONFIG_KEY_ALIASES = [memories_alias]"

definition normalize_key_alias :: "ustr list \<Rightarrow> config_key_alias \<Rightarrow> table \<Rightarrow> table" where
  "normalize_key_alias path alias t =
     (if path = table_path alias then
        (case map_of t (legacy_key alias) of
           None \<Rightarrow> t
         | Some v \<Rightarrow>
             (let t' = tbl_remove (legacy_key alias) t
              in if map_of t' (canonical_key alias) = None then tbl_insert (canonical_key alias) v t' else t'))
      else t)"

definition normalize_key_aliases :: "ustr list \<Rightarrow> table \<Rightarrow> table" where
  "normalize_key_aliases path t = foldl (\<lambda>t alias. normalize_key_alias path alias t) t CONFIG_KEY_ALIASES"

fun normalized_with_key_aliases :: "toml \<Rightarrow> ustr list \<Rightarrow> toml" where
  "normalized_with_key_aliases (TTable t) path =
     TTable (normalize_key_aliases path (map (\<lambda>(key, child). (key, normalized_with_key_aliases child (path @ [key]))) t))"
| "normalized_with_key_aliases (TArr items) path = TArr (map (\<lambda>item. normalized_with_key_aliases item path) items)"
| "normalized_with_key_aliases v path = v"

section \<open>Merging\<close>

definition entries_size :: "table \<Rightarrow> nat" where
  "entries_size t = sum_list (map (\<lambda>(k, v). Suc (size v)) t)"

lemma entries_size_simps [simp]:
  "entries_size [] = 0" "entries_size ((k, v) # t) = Suc (size v) + entries_size t"
  by (simp_all add: entries_size_def)

lemma entries_size_insert: "entries_size (tbl_insert k v t) \<le> Suc (size v) + entries_size t"
  by (induction t) auto

lemma entries_size_remove: "map_of t k = Some v \<Longrightarrow> entries_size (tbl_remove k t) + Suc (size v) \<le> entries_size t"
proof (induction t)
  case (Cons x t)
  have "entries_size (tbl_remove k t) \<le> entries_size t" for t by (induction t) auto
  with Cons show ?case by (cases x) (auto split: if_splits intro: le_trans add_mono)
qed simp

lemma entries_size_alias: "entries_size (normalize_key_alias path alias t) \<le> entries_size t"
proof (cases "map_of t (legacy_key alias)")
  case (Some v)
  then show ?thesis
    using entries_size_remove [OF Some] entries_size_insert [of "canonical_key alias" v "tbl_remove (legacy_key alias) t"]
    by (simp add: normalize_key_alias_def Let_def)
qed (simp add: normalize_key_alias_def)

lemma entries_size_aliases: "entries_size (normalize_key_aliases path t) \<le> entries_size t"
  using entries_size_alias by (simp add: normalize_key_aliases_def CONFIG_KEY_ALIASES_def)

lemma entries_size_table: "entries_size t < size (TTable t)"
  by (induction t) (auto simp: entries_size_def)

text \<open>The loop over the entries of the overlay is \<open>merge_entries\<close>; the path is that of the tables.\<close>

function merge_toml_values_at_path :: "toml \<Rightarrow> toml \<Rightarrow> ustr list \<Rightarrow> toml"
  and merge_entries :: "table \<Rightarrow> table \<Rightarrow> ustr list \<Rightarrow> table" where
  "merge_toml_values_at_path base overlay path =
     (case (overlay, base) of
        (TTable overlay_table, TTable base_table) \<Rightarrow>
          TTable (merge_entries (normalize_key_aliases path base_table) (normalize_key_aliases path overlay_table) path)
      | _ \<Rightarrow> normalized_with_key_aliases overlay path)"
| "merge_entries base_table [] path = base_table"
| "merge_entries base_table ((key, v) # rest) path =
     merge_entries
       (case map_of base_table key of
          Some existing \<Rightarrow> tbl_insert key (merge_toml_values_at_path existing v (path @ [key])) base_table
        | None \<Rightarrow> tbl_insert key (normalized_with_key_aliases v (path @ [key])) base_table)
       rest path"
  by pat_completeness auto
termination
proof (relation "measure (\<lambda>x. case x of Inl (base, overlay, path) \<Rightarrow> size overlay | Inr (bt, ot, path) \<Rightarrow> entries_size ot)",
    goal_cases)
  case (2 base overlay path v va ot bt)
  then show ?case using entries_size_aliases [of path ot] entries_size_table [of ot] by simp
qed auto

definition merge_toml_values :: "toml \<Rightarrow> toml \<Rightarrow> toml" where
  "merge_toml_values base overlay = merge_toml_values_at_path base overlay []"

declare merge_toml_values_at_path.simps [simp del]

section \<open>Overrides\<close>

definition default_empty_table :: toml where
  "default_empty_table = TTable []"

text \<open>The walk down the segments, with the value put back on the way up.\<close>

fun apply_segments :: "toml \<Rightarrow> ustr list \<Rightarrow> toml \<Rightarrow> toml" where
  "apply_segments current [] v = current"
| "apply_segments current [segment] v =
     (case current of
        TTable t \<Rightarrow> TTable (tbl_insert segment v t)
      | _ \<Rightarrow> TTable (tbl_insert segment v []))"
| "apply_segments current (segment # following # rest) v =
     (let t = (case current of TTable t \<Rightarrow> t | _ \<Rightarrow> []);
          child = (case map_of t segment of Some c \<Rightarrow> c | None \<Rightarrow> default_empty_table)
      in TTable (tbl_insert segment (apply_segments child (following # rest) v) t))"

definition apply_toml_override :: "toml \<Rightarrow> ustr \<Rightarrow> toml \<Rightarrow> toml" where
  "apply_toml_override root path v = apply_segments root (split_char 46 path) v"

definition build_cli_overrides_layer :: "(ustr \<times> toml) list \<Rightarrow> toml" where
  "build_cli_overrides_layer cli_overrides =
     foldl (\<lambda>root (path, v). apply_toml_override root path v) default_empty_table cli_overrides"

section \<open>Origins\<close>

type_synonym 'm origins = "(ustr \<times> 'm) list"

function record_origins :: "toml \<Rightarrow> 'm \<Rightarrow> ustr list \<Rightarrow> 'm origins \<Rightarrow> 'm origins" where
  "record_origins (TTable t) meta path origins =
     fold (\<lambda>(key, val) origins. record_origins val meta (path @ [key]) origins) t origins"
| "record_origins (TArr items) meta path origins =
     fold (\<lambda>(idx, item) origins. record_origins item meta (path @ [to_decimal idx]) origins)
       (enumerate 0 items) origins"
| "record_origins (TStr v) meta path origins =
     (if path \<noteq> [] then AList.update (join [46] path) meta origins else origins)"
| "record_origins (TInt n) meta path origins =
     (if path \<noteq> [] then AList.update (join [46] path) meta origins else origins)"
| "record_origins (TFloat f) meta path origins =
     (if path \<noteq> [] then AList.update (join [46] path) meta origins else origins)"
| "record_origins (TBool b) meta path origins =
     (if path \<noteq> [] then AList.update (join [46] path) meta origins else origins)"
| "record_origins (TDatetime d) meta path origins =
     (if path \<noteq> [] then AList.update (join [46] path) meta origins else origins)"
  by pat_completeness auto

lemma size_table_entry: "(k, c) \<in> set t \<Longrightarrow> size c < size (TTable t)"
  by (induction t) auto

lemma size_array_item: "(i, c) \<in> set (enumerate n items) \<Longrightarrow> size c < size (TArr items)"
proof -
  assume "(i, c) \<in> set (enumerate n items)"
  then have "c \<in> set items" by (metis in_set_enumerate_eq nth_mem fst_conv snd_conv less_diff_conv2 add_diff_cancel_left')
  then show ?thesis by (induction items) auto
qed

termination record_origins
  by (relation "measure (\<lambda>(v, _). size v)") (use size_table_entry size_array_item in auto)

section \<open>Project root markers\<close>

definition DEFAULT_PROJECT_ROOT_MARKERS :: "ustr list" where
  "DEFAULT_PROJECT_ROOT_MARKERS = [lit ''.git'']"

definition default_project_root_markers :: "ustr list" where
  "default_project_root_markers = DEFAULT_PROJECT_ROOT_MARKERS"

fun as_str :: "toml \<Rightarrow> ustr option" where
  "as_str (TStr s) = Some s"
| "as_str _ = None"

definition project_root_markers_from_config :: "toml \<Rightarrow> (ustr, ustr list option) result" where
  "project_root_markers_from_config config =
     (case config of
        TTable t \<Rightarrow>
          (case map_of t (lit ''project_root_markers'') of
             None \<Rightarrow> Ok None
           | Some (TArr entries) \<Rightarrow>
               (case those (map as_str entries) of
                  Some markers \<Rightarrow> Ok (Some markers)
                | None \<Rightarrow> Err (lit ''project_root_markers must be an array of strings''))
           | Some _ \<Rightarrow> Err (lit ''project_root_markers must be an array of strings''))
      | _ \<Rightarrow> Ok None)"

section \<open>Well-formed and canonical values\<close>

text \<open>The entries of every table are in key order, without repetition; no table has a legacy key.\<close>

definition table_sorted :: "(ustr \<times> 'v) list \<Rightarrow> bool" where
  "table_sorted t \<longleftrightarrow> sorted_wrt (<) (map fst t)"

fun toml_ok :: "toml \<Rightarrow> bool" where
  "toml_ok (TTable t) \<longleftrightarrow> table_sorted t \<and> list_all (\<lambda>(k, c). toml_ok c) t"
| "toml_ok (TArr items) \<longleftrightarrow> list_all toml_ok items"
| "toml_ok v \<longleftrightarrow> True"

definition no_legacy_key :: "ustr list \<Rightarrow> table \<Rightarrow> bool" where
  "no_legacy_key path t \<longleftrightarrow> list_all (\<lambda>a. path \<noteq> table_path a \<or> legacy_key a \<notin> fst ` set t) CONFIG_KEY_ALIASES"

fun canonical :: "toml \<Rightarrow> ustr list \<Rightarrow> bool" where
  "canonical (TTable t) path \<longleftrightarrow> no_legacy_key path t \<and> list_all (\<lambda>(k, c). canonical c (path @ [k])) t"
| "canonical (TArr items) path \<longleftrightarrow> list_all (\<lambda>c. canonical c path) items"
| "canonical v path \<longleftrightarrow> True"

lemma memories_alias_facts:
  "length (table_path memories_alias) = 1" "legacy_key memories_alias \<noteq> canonical_key memories_alias"
  by (simp_all add: memories_alias_def)

lemma aliases_memories:
  "normalize_key_aliases path t = normalize_key_alias path memories_alias t"
  "no_legacy_key path t \<longleftrightarrow> path \<noteq> table_path memories_alias \<or> legacy_key memories_alias \<notin> fst ` set t"
  by (simp_all add: normalize_key_aliases_def CONFIG_KEY_ALIASES_def no_legacy_key_def)

lemma aliases_only_at_top:
  "length path \<noteq> 1 \<Longrightarrow> normalize_key_aliases path t = t" "length path \<noteq> 1 \<Longrightarrow> no_legacy_key path t"
  using memories_alias_facts(1) by (auto simp: aliases_memories normalize_key_alias_def)

lemma normalize_deep: "length path > 1 \<Longrightarrow> normalized_with_key_aliases v path = v"
proof (induction v path rule: normalized_with_key_aliases.induct)
  case (1 t path)
  then have "map (\<lambda>(k, c). (k, normalized_with_key_aliases c (path @ [k]))) t = t"
    by (intro map_idI) force
  with 1 show ?case by (simp add: aliases_only_at_top)
next
  case (2 items path)
  then show ?case by (simp add: map_idI)
qed simp_all

lemma canonical_deep: "length path > 1 \<Longrightarrow> canonical v path"
  by (induction v path rule: canonical.induct) (force simp: list_all_iff aliases_only_at_top)+

lemma set_tbl_insert: "set (tbl_insert k v t) \<subseteq> insert (k, v) (set t)"
  by (induction t) (auto split: if_splits)

lemma fst_tbl_insert: "fst ` set (tbl_insert k v t) = insert k (fst ` set t)"
  by (metis dom_map_of_conv_image_fst map_of_tbl_insert dom_fun_upd option.distinct(1))

lemma table_sorted_insert: "table_sorted t \<Longrightarrow> table_sorted (tbl_insert k v t)"
proof (induction t)
  case (Cons x t)
  obtain k' v' where x: "x = (k', v')" by (cases x)
  have above: "\<forall>a\<in>fst ` set t. k' < a" and t: "table_sorted t"
    using Cons.prems by (auto simp: x table_sorted_def)
  consider "k = k'" | "k < k'" | "k' < k" by (rule linorder_cases)
  then show ?case
  proof cases
    case 1
    then show ?thesis using Cons.prems by (simp add: x table_sorted_def)
  next
    case 2
    then show ?thesis using Cons.prems above by (auto simp: x table_sorted_def)
  next
    case 3
    then have "\<forall>a\<in>fst ` set (tbl_insert k v t). k' < a" using above by (simp add: fst_tbl_insert)
    moreover have "\<not> k < k'" "k \<noteq> k'" using 3 by (auto dest: less_asym)
    ultimately show ?thesis using Cons.IH [OF t] by (simp add: x table_sorted_def)
  qed
qed (simp add: table_sorted_def)

lemma set_tbl_remove: "set (tbl_remove k t) = {(a, b) \<in> set t. a \<noteq> k}"
  by (induction t) auto

lemma table_sorted_remove: "table_sorted t \<Longrightarrow> table_sorted (tbl_remove k t)"
  by (induction t) (auto simp: table_sorted_def set_tbl_remove)

lemma table_sorted_distinct: "table_sorted t \<Longrightarrow> distinct (map fst t)"
  unfolding table_sorted_def using strict_sorted_iff by blast

lemma table_sorted_aliases: "table_sorted t \<Longrightarrow> table_sorted (normalize_key_aliases path t)"
  by (auto simp: normalize_key_aliases_def CONFIG_KEY_ALIASES_def normalize_key_alias_def Let_def
      intro: table_sorted_insert table_sorted_remove split: option.splits)

section \<open>What merging keeps\<close>

text \<open>What the aliases do to a table: the value of the legacy key moves to the canonical key, if that is free.\<close>

lemma map_of_aliases:
  "map_of (normalize_key_aliases path t) k =
     (if path = table_path memories_alias then
        (if k = legacy_key memories_alias then None
         else if k = canonical_key memories_alias \<and> map_of t k = None then map_of t (legacy_key memories_alias)
         else map_of t k)
      else map_of t k)"
proof (cases "map_of t (legacy_key memories_alias)")
  case None
  then show ?thesis by (auto simp: aliases_memories normalize_key_alias_def)
next
  case (Some v)
  have "map_of (tbl_remove l t) = (map_of t)(l := None)" for l by (simp add: AList.delete_conv')
  with Some memories_alias_facts(2) show ?thesis
    by (auto simp: aliases_memories normalize_key_alias_def Let_def)
qed

lemma no_legacy_key_aliases: "no_legacy_key path (normalize_key_aliases path t)"
  using map_of_aliases [of path t "legacy_key memories_alias"]
  by (auto simp: aliases_memories(2) map_of_eq_None_iff split: if_splits)

lemma normalize_canonical_table: "no_legacy_key path t \<Longrightarrow> normalize_key_aliases path t = t"
  by (auto simp: aliases_memories normalize_key_alias_def map_of_eq_None_iff [THEN iffD2] split: option.splits
      dest: map_of_SomeD intro: rev_image_eqI)

lemma set_aliases:
  assumes "(k, c) \<in> set (normalize_key_aliases path t)"
  shows "(k, c) \<in> set t \<or> length path = 1 \<and> c \<in> snd ` set t"
  using assms memories_alias_facts(1)
  by (auto simp: aliases_memories normalize_key_alias_def Let_def set_tbl_remove
      dest!: set_tbl_insert [THEN subsetD] dest: map_of_SomeD intro: rev_image_eqI split: option.splits if_splits)

lemma map_of_map_entries: "map_of (map (\<lambda>(k, c). (k, f k c)) t) k = map_option (f k) (map_of t k)"
  by (induction t) auto

lemma normalized_table:
  "\<exists>t'. normalized_with_key_aliases (TTable t) path = TTable t'
     \<and> (\<forall>k. map_of t' k =
          map_option (\<lambda>c. normalized_with_key_aliases c (path @ [k])) (map_of (normalize_key_aliases path t) k))"
proof -
  let ?t = "map (\<lambda>(k, c). (k, normalized_with_key_aliases c (path @ [k]))) t"
  have "map_of (normalize_key_aliases path ?t) k =
      map_option (\<lambda>c. normalized_with_key_aliases c (path @ [k])) (map_of (normalize_key_aliases path t) k)" for k
    using memories_alias_facts(1)
    by (auto simp: map_of_aliases map_of_map_entries normalize_deep option.map_comp comp_def option.map_ident)
  then show ?thesis by simp
qed

lemma merge_entries_map_of:
  assumes "distinct (map fst overlay_table)"
  shows "map_of (merge_entries base_table overlay_table path) k =
    (case map_of overlay_table k of
       None \<Rightarrow> map_of base_table k
     | Some v \<Rightarrow>
         (case map_of base_table k of
            Some existing \<Rightarrow> Some (merge_toml_values_at_path existing v (path @ [k]))
          | None \<Rightarrow> Some (normalized_with_key_aliases v (path @ [k]))))"
  using assms
proof (induction overlay_table arbitrary: base_table)
  case (Cons x rest)
  obtain key v where x: "x = (key, v)" by (cases x)
  with Cons.prems have "map_of rest key = None" by (auto simp: map_of_eq_None_iff)
  then show ?case
    using Cons by (auto simp: x split: option.splits)
qed simp

section \<open>Leaves\<close>

fun toml_lookup :: "toml \<Rightarrow> ustr list \<Rightarrow> toml option" where
  "toml_lookup v [] = Some v"
| "toml_lookup (TTable t) (k # p) = (case map_of t k of None \<Rightarrow> None | Some c \<Rightarrow> toml_lookup c p)"
| "toml_lookup _ (k # p) = None"

fun is_table :: "toml \<Rightarrow> bool" where
  "is_table (TTable _) = True"
| "is_table _ = False"

definition leaf_at :: "toml \<Rightarrow> ustr list \<Rightarrow> toml option" where
  "leaf_at v p = (case toml_lookup v p of Some x \<Rightarrow> if is_table x then None else Some x | None \<Rightarrow> None)"

text \<open>A value hides a path that leads through one of its leaves, or to one of its tables.\<close>

fun hides :: "toml \<Rightarrow> ustr list \<Rightarrow> bool" where
  "hides v [] = True"
| "hides (TTable t) (k # p) = (case map_of t k of None \<Rightarrow> False | Some c \<Rightarrow> hides c p)"
| "hides _ (k # p) = True"

definition overlay_leaf :: "toml \<Rightarrow> (ustr list \<Rightarrow> toml option) \<Rightarrow> ustr list \<Rightarrow> toml option" where
  "overlay_leaf v below p = (if hides v p then leaf_at v p else below p)"

lemma not_table_normalized: "\<not> is_table v \<Longrightarrow> \<not> is_table (normalized_with_key_aliases v path)"
  by (cases v) auto

lemma leaf_at_Nil: "leaf_at v [] = (if is_table v then None else Some v)"
  by (simp add: leaf_at_def)

lemma leaf_at_Cons: "leaf_at v (k # p) = (case v of TTable t \<Rightarrow> (case map_of t k of None \<Rightarrow> None | Some c \<Rightarrow> leaf_at c p) | _ \<Rightarrow> None)"
  by (cases v) (auto simp: leaf_at_def split: option.splits)

lemma hides_leaf: "\<not> hides v p \<Longrightarrow> leaf_at v p = None"
proof (induction p arbitrary: v)
  case (Cons k p)
  then show ?case by (cases v) (auto simp: leaf_at_Cons split: option.splits)
qed simp

lemma merge_not_tables:
  "\<not> (is_table overlay \<and> is_table base) \<Longrightarrow>
   merge_toml_values_at_path base overlay path = normalized_with_key_aliases overlay path"
  by (cases overlay; cases base) (simp_all add: merge_toml_values_at_path.simps)

lemma merge_tables:
  "merge_toml_values_at_path (TTable bt) (TTable ot) path =
     TTable (merge_entries (normalize_key_aliases path bt) (normalize_key_aliases path ot) path)"
  by (simp add: merge_toml_values_at_path.simps)

lemma toml_ok_entry: "toml_ok (TTable t) \<Longrightarrow> (k, c) \<in> set t \<Longrightarrow> toml_ok c"
  by (auto simp: list_all_iff)

lemma map_of_aliases_member:
  assumes "map_of (normalize_key_aliases path t) k = Some c"
  shows "c \<in> snd ` set t"
  using assms by (auto simp: map_of_aliases split: if_splits dest!: map_of_SomeD intro: rev_image_eqI)

lemma leaf_at_normalized_leaf:
  "\<not> is_table base \<Longrightarrow> leaf_at v p = overlay_leaf v (leaf_at base) p"
proof (cases "hides v p")
  case False
  then obtain k q where "p = k # q" by (cases p) auto
  moreover assume "\<not> is_table base"
  ultimately have "leaf_at base p = None" by (cases base) (auto simp: leaf_at_Cons)
  with False show ?thesis by (simp add: overlay_leaf_def hides_leaf)
qed (simp add: overlay_leaf_def)

lemma leaf_at_merge_at:
  assumes "canonical base path" and "toml_ok overlay"
  shows "leaf_at (merge_toml_values_at_path base overlay path) p =
    overlay_leaf (normalized_with_key_aliases overlay path) (leaf_at base) p"
  using assms
proof (induction p arbitrary: base overlay path)
  case Nil
  then show ?case
    by (cases "is_table overlay \<and> is_table base")
       (auto simp: overlay_leaf_def merge_not_tables leaf_at_Nil merge_tables elim!: is_table.elims)
next
  case (Cons k p)
  show ?case
  proof (cases "is_table overlay \<and> is_table base")
    case False
    then consider "\<not> is_table overlay" | "\<not> is_table base" by blast
    then show ?thesis
    proof cases
      case 1
      then have "hides (normalized_with_key_aliases overlay path) (k # p)"
        by (cases overlay) auto
      with False show ?thesis by (simp add: overlay_leaf_def merge_not_tables)
    next
      case 2
      with False leaf_at_normalized_leaf [OF 2] show ?thesis by (metis merge_not_tables)
    qed
  next
    case True
    then obtain ot bt where o: "overlay = TTable ot" and b: "base = TTable bt" by (auto elim!: is_table.elims)
    obtain t' where t': "normalized_with_key_aliases overlay path = TTable t'"
      "map_of t' k = map_option (\<lambda>c. normalized_with_key_aliases c (path @ [k])) (map_of (normalize_key_aliases path ot) k)"
      using normalized_table [of ot path] o by blast
    have sorted: "table_sorted ot" using Cons.prems(2) by (simp add: o)
    have d: "distinct (map fst (normalize_key_aliases path ot))"
      by (intro table_sorted_distinct table_sorted_aliases sorted)
    have bt: "normalize_key_aliases path bt = bt"
      using Cons.prems(1) by (simp add: b normalize_canonical_table)
    note m = merge_entries_map_of [OF d, of bt path k]
    show ?thesis
    proof (cases "map_of (normalize_key_aliases path ot) k")
      case None
      then show ?thesis using m t' by (simp add: o b merge_tables bt leaf_at_Cons overlay_leaf_def)
    next
      case (Some v)
      have okv: "toml_ok v" using map_of_aliases_member [OF Some] Cons.prems(2) by (auto simp: o list_all_iff)
      show ?thesis
      proof (cases "map_of bt k")
        case None
        then show ?thesis using m t' Some
          by (simp add: o b merge_tables bt leaf_at_Cons overlay_leaf_def hides_leaf)
      next
        case (Some existing)
        then have "canonical existing (path @ [k])"
          using Cons.prems(1) by (auto simp: b list_all_iff dest: map_of_SomeD)
        from Cons.IH [OF this okv] show ?thesis
          using m t' Some \<open>map_of (normalize_key_aliases path ot) k = Some v\<close>
          by (simp add: o b merge_tables bt leaf_at_Cons overlay_leaf_def)
      qed
    qed
  qed
qed

lemma canonical_normalized: "canonical (normalized_with_key_aliases v path) path"
proof (induction v path rule: normalized_with_key_aliases.induct)
  case (1 t path)
  let ?t = "map (\<lambda>(k, c). (k, normalized_with_key_aliases c (path @ [k]))) t"
  have "canonical c (path @ [k])" if "(k, c) \<in> set (normalize_key_aliases path ?t)" for k c
    using set_aliases [OF that] 1 by (auto intro: canonical_deep)
  then show ?case by (auto simp: no_legacy_key_aliases list_all_iff)
qed (auto simp: list_all_iff)

lemma canonical_insert:
  assumes "canonical (TTable t) path" and "no_legacy_key path [(k, v)]" and "canonical v (path @ [k])"
  shows "canonical (TTable (tbl_insert k v t)) path"
  using assms set_tbl_insert [of k v t]
  by (auto simp: list_all_iff aliases_memories(2) fst_tbl_insert)

lemma canonical_merge:
  "canonical base path \<longrightarrow> canonical (merge_toml_values_at_path base overlay path) path"
  "canonical (TTable bt) path \<and> no_legacy_key path ot \<longrightarrow> canonical (TTable (merge_entries bt ot path)) path"
proof (induction base overlay path and bt ot path rule: merge_toml_values_at_path_merge_entries.induct)
  case (1 base overlay path)
  show ?case
  proof (cases "is_table overlay \<and> is_table base")
    case True
    then obtain ot bt where t: "overlay = TTable ot" "base = TTable bt" by (auto elim!: is_table.elims)
    then show ?thesis
      using 1 no_legacy_key_aliases [of path ot] by (auto simp: merge_tables normalize_canonical_table)
  next
    case False
    then show ?thesis by (simp add: merge_not_tables canonical_normalized)
  qed
next
  case (3 bt key v rest path)
  show ?case
  proof
    assume a: "canonical (TTable bt) path \<and> no_legacy_key path ((key, v) # rest)"
    then have n: "no_legacy_key path rest" "no_legacy_key path [(key, v)]" by (auto simp: aliases_memories(2))
    have "canonical existing (path @ [key])" if "map_of bt key = Some existing" for existing
      using a that by (auto simp: list_all_iff dest: map_of_SomeD)
    then have "canonical (TTable (case map_of bt key of
        Some existing \<Rightarrow> tbl_insert key (merge_toml_values_at_path existing v (path @ [key])) bt
      | None \<Rightarrow> tbl_insert key (normalized_with_key_aliases v (path @ [key])) bt)) path"
      using a 3(1) n(2) by (cases "map_of bt key")
        (auto intro!: canonical_insert canonical_normalized simp del: canonical.simps simp: aliases_memories(2))
    with 3(2) n(1) show "canonical (TTable (merge_entries bt ((key, v) # rest) path)) path" by simp
  qed
qed simp

lemma toml_ok_insert: "toml_ok (TTable t) \<Longrightarrow> toml_ok v \<Longrightarrow> toml_ok (TTable (tbl_insert k v t))"
  using set_tbl_insert [of k v t] by (auto simp: list_all_iff table_sorted_insert)

lemma toml_ok_aliases: "toml_ok (TTable t) \<Longrightarrow> toml_ok (TTable (normalize_key_aliases path t))"
  using set_aliases by (fastforce simp: list_all_iff table_sorted_aliases)

lemma toml_ok_normalized: "toml_ok v \<Longrightarrow> toml_ok (normalized_with_key_aliases v path)"
proof (induction v path rule: normalized_with_key_aliases.induct)
  case (1 t path)
  let ?t = "map (\<lambda>(k, c). (k, normalized_with_key_aliases c (path @ [k]))) t"
  have "map fst ?t = map fst t" by (simp add: case_prod_unfold comp_def)
  then have "table_sorted ?t" using "1.prems" by (simp only: table_sorted_def toml_ok.simps)
  moreover have "list_all (\<lambda>(k, c). toml_ok c) ?t" using 1 by (auto simp: list_all_iff)
  ultimately have "toml_ok (TTable ?t)" by simp
  then show ?case using toml_ok_aliases by simp
qed (auto simp: list_all_iff)

lemma toml_ok_merge:
  "toml_ok base \<and> toml_ok overlay \<longrightarrow> toml_ok (merge_toml_values_at_path base overlay path)"
  "toml_ok (TTable bt) \<and> list_all (\<lambda>(k, c). toml_ok c) ot \<longrightarrow> toml_ok (TTable (merge_entries bt ot path))"
proof (induction base overlay path and bt ot path rule: merge_toml_values_at_path_merge_entries.induct)
  case (1 base overlay path)
  show ?case
  proof (cases "is_table overlay \<and> is_table base")
    case True
    then obtain ot bt where t: "overlay = TTable ot" "base = TTable bt" by (auto elim!: is_table.elims)
    then show ?thesis
      using 1 toml_ok_aliases [of ot path] toml_ok_aliases [of bt path] by (auto simp: merge_tables)
  next
    case False
    then show ?thesis by (simp add: merge_not_tables toml_ok_normalized)
  qed
next
  case (3 bt key v rest path)
  show ?case
  proof
    assume a: "toml_ok (TTable bt) \<and> list_all (\<lambda>(k, c). toml_ok c) ((key, v) # rest)"
    then have "toml_ok (TTable (case map_of bt key of
        Some existing \<Rightarrow> tbl_insert key (merge_toml_values_at_path existing v (path @ [key])) bt
      | None \<Rightarrow> tbl_insert key (normalized_with_key_aliases v (path @ [key])) bt))"
    proof (cases "map_of bt key")
      case None
      with a show ?thesis using toml_ok_insert toml_ok_normalized by simp
    next
      case (Some existing)
      have "toml_ok existing" using a toml_ok_entry map_of_SomeD [OF Some] by blast
      with a Some 3(1) toml_ok_insert show ?thesis by simp
    qed
    with 3(2) a show "toml_ok (TTable (merge_entries bt ((key, v) # rest) path))" by simp
  qed
qed simp

text \<open>
  Merging gives the overlay precedence, leaf by leaf: below a path the overlay speaks about the
  result has the leaf of the overlay, with legacy keys renamed, and everywhere else the leaf of the
  base; the result is again a well-formed table without legacy keys.
\<close>
theorem merge_toml_values_leaves:
  assumes "canonical base []" and "toml_ok base" and "toml_ok overlay"
  shows "leaf_at (merge_toml_values base overlay) p
      = overlay_leaf (normalized_with_key_aliases overlay []) (leaf_at base) p
    \<and> canonical (merge_toml_values base overlay) [] \<and> toml_ok (merge_toml_values base overlay)"
  using leaf_at_merge_at [OF assms(1,3)] canonical_merge(1) [of base "[]" overlay] toml_ok_merge(1) [of base overlay "[]"] assms
  by (simp add: merge_toml_values_def)

definition sample_base :: toml where
  "sample_base = TTable [(lit ''memories'', TTable [(lit ''disable_on_external_context'', TBool True)]),
     (lit ''model'', TStr (lit ''a''))]"

definition sample_overlay_layer :: toml where
  "sample_overlay_layer = TTable [(lit ''memories'', TTable [(lit ''no_memories_if_mcp_or_web_search'', TBool False)])]"

theorem merge_toml_values_leaves_witness:
  "leaf_at (merge_toml_values sample_base sample_overlay_layer) [lit ''memories'', lit ''disable_on_external_context'']
     = Some (TBool False)
   \<and> leaf_at (merge_toml_values sample_base sample_overlay_layer) [lit ''model''] = Some (TStr (lit ''a''))"
proof -
  have ok: "canonical sample_base []" "toml_ok sample_base" "toml_ok sample_overlay_layer" by code_simp+
  let ?o = "overlay_leaf (normalized_with_key_aliases sample_overlay_layer []) (leaf_at sample_base)"
  have "?o [lit ''memories'', lit ''disable_on_external_context''] = Some (TBool False)"
    "?o [lit ''model''] = Some (TStr (lit ''a''))" by code_simp+
  with merge_toml_values_leaves [OF ok] show ?thesis by metis
qed

section \<open>What overrides do\<close>

lemma lookup_apply_segments: "ps \<noteq> [] \<Longrightarrow> toml_lookup (apply_segments root ps v) ps = Some v"
  by (induction root ps v rule: apply_segments.induct) (auto split: toml.splits simp: Let_def)

lemma lookup_through_leaf: "\<not> is_table v \<Longrightarrow> q \<noteq> [] \<Longrightarrow> toml_lookup v q = None"
  by (cases v; cases q) auto

lemma lookup_empty_table: "q \<noteq> [] \<Longrightarrow> toml_lookup (TTable []) q = None"
  by (cases q) auto

lemma lookup_apply_other:
  assumes "\<not> prefix q ps" and "\<not> prefix ps q"
  shows "toml_lookup (apply_segments root ps v) q = toml_lookup root q"
  using assms
proof (induction root ps v arbitrary: q rule: apply_segments.induct)
  case (2 root seg v)
  then obtain k q' where q: "q = k # q'" "k \<noteq> seg" by (cases q) auto
  then show ?case by (cases root) auto
next
  case (3 root seg nxt rest v)
  then obtain k q' where q: "q = k # q'" by (cases q) auto
  show ?case
  proof (cases "k = seg")
    case False
    with q show ?thesis by (cases root) (auto simp: Let_def)
  next
    case True
    let ?t = "case root of TTable t \<Rightarrow> t | _ \<Rightarrow> []"
    let ?c = "case map_of ?t seg of Some c \<Rightarrow> c | None \<Rightarrow> default_empty_table"
    have "toml_lookup (apply_segments ?c (nxt # rest) v) q' = toml_lookup ?c q'"
      using 3 q True by (intro "3.IH") auto
    moreover have "q' \<noteq> []" using 3 q True by auto
    ultimately show ?thesis
      using q True by (cases root; cases "map_of ?t seg")
        (auto simp: Let_def default_empty_table_def lookup_empty_table)
  qed
qed simp

text \<open>
  An override on the command line sets exactly the path it names: that path then has the value,
  and every path that neither leads to it nor passes through it has the value it had.
\<close>
theorem apply_toml_override_sets_path:
  assumes "\<not> prefix q (split_char 46 path)" and "\<not> prefix (split_char 46 path) q"
  shows "toml_lookup (apply_toml_override root path v) (split_char 46 path) = Some v
    \<and> toml_lookup (apply_toml_override root path v) q = toml_lookup root q"
  using lookup_apply_segments lookup_apply_other [OF assms] by (simp add: apply_toml_override_def)

theorem apply_toml_override_sets_path_witness:
  "toml_lookup (apply_toml_override sample_base (lit ''features.x'') (TBool True)) (split_char 46 (lit ''features.x''))
     = Some (TBool True)
   \<and> toml_lookup (apply_toml_override sample_base (lit ''features.x'') (TBool True)) [lit ''model'']
       = toml_lookup sample_base [lit ''model'']"
  by (rule apply_toml_override_sets_path; code_simp)

end
