(* ===== verification/Config_Layers.thy ===== *)
theory Config_Layers
  imports Config_Toml Paths
begin

text \<open>
  The stack of configuration layers (\<^verbatim>\<open>src/config/src/state.rs\<close>) over the sources of layers
  (\<^verbatim>\<open>src/app-server-protocol/src/protocol/v2.rs\<close>).  The fingerprint of a value is the parameter \<open>version_for_toml\<close>; the
  requirements and their TOML form are only passed on, so that their types are parameters.
\<close>

section \<open>Layers\<close>

datatype config_layer_source =
    Mdm ustr ustr
  | System path
  | User path
  | Project path
  | SessionFlags
  | LegacyManagedConfigTomlFromFile path
  | LegacyManagedConfigTomlFromMdm

fun precedence :: "config_layer_source \<Rightarrow> int" where
  "precedence (Mdm _ _) = 0"
| "precedence (System _) = 10"
| "precedence (User _) = 20"
| "precedence (Project _) = 25"
| "precedence SessionFlags = 30"
| "precedence (LegacyManagedConfigTomlFromFile _) = 40"
| "precedence LegacyManagedConfigTomlFromMdm = 50"

record config_layer_entry =
  layer_name :: config_layer_source
  layer_config :: toml
  layer_raw_toml :: "ustr option"
  layer_version :: ustr
  disabled_reason :: "ustr option"

record config_layer_metadata =
  meta_name :: config_layer_source
  meta_version :: ustr

definition layer_new :: "(toml \<Rightarrow> ustr) \<Rightarrow> config_layer_source \<Rightarrow> toml \<Rightarrow> config_layer_entry" where
  "layer_new version_for_toml name config =
     \<lparr>layer_name = name, layer_config = config, layer_raw_toml = None, layer_version = version_for_toml config,
      disabled_reason = None\<rparr>"

definition layer_new_with_raw_toml ::
  "(toml \<Rightarrow> ustr) \<Rightarrow> config_layer_source \<Rightarrow> toml \<Rightarrow> ustr \<Rightarrow> config_layer_entry" where
  "layer_new_with_raw_toml version_for_toml name config raw =
     \<lparr>layer_name = name, layer_config = config, layer_raw_toml = Some raw, layer_version = version_for_toml config,
      disabled_reason = None\<rparr>"

definition layer_new_disabled ::
  "(toml \<Rightarrow> ustr) \<Rightarrow> config_layer_source \<Rightarrow> toml \<Rightarrow> ustr \<Rightarrow> config_layer_entry" where
  "layer_new_disabled version_for_toml name config reason =
     \<lparr>layer_name = name, layer_config = config, layer_raw_toml = None, layer_version = version_for_toml config,
      disabled_reason = Some reason\<rparr>"

definition is_disabled :: "config_layer_entry \<Rightarrow> bool" where
  "is_disabled layer \<longleftrightarrow> disabled_reason layer \<noteq> None"

definition metadata :: "config_layer_entry \<Rightarrow> config_layer_metadata" where
  "metadata layer = \<lparr>meta_name = layer_name layer, meta_version = layer_version layer\<rparr>"

definition config_folder :: "config_layer_entry \<Rightarrow> path option" where
  "config_folder layer =
     (case layer_name layer of
        Mdm _ _ \<Rightarrow> None
      | System file \<Rightarrow> path_parent file
      | User file \<Rightarrow> path_parent file
      | Project dot_agere_folder \<Rightarrow> Some dot_agere_folder
      | SessionFlags \<Rightarrow> None
      | LegacyManagedConfigTomlFromFile _ \<Rightarrow> None
      | LegacyManagedConfigTomlFromMdm \<Rightarrow> None)"

section \<open>The order of layers\<close>

text \<open>\<^verbatim>\<open>Path::ancestors\<close> of an absolute path: itself and its parents.\<close>

definition path_ancestors :: "path \<Rightarrow> path list" where
  "path_ancestors p = map (\<lambda>n. take n p) (rev [1..<Suc (length p)])"

fun verify_layers :: "nat \<Rightarrow> nat option \<Rightarrow> path option \<Rightarrow> config_layer_entry list \<Rightarrow> (ustr, nat option) result" where
  "verify_layers index user_index previous [] = Ok user_index"
| "verify_layers index user_index previous (layer # layers) =
     (case layer_name layer of
        User _ \<Rightarrow>
          if user_index \<noteq> None then Err (lit ''multiple user config layers found'')
          else verify_layers (Suc index) (Some index) previous layers
      | Project current \<Rightarrow>
          (case previous of
             None \<Rightarrow> verify_layers (Suc index) user_index (Some current) layers
           | Some prev \<Rightarrow>
               (case path_parent prev of
                  None \<Rightarrow> Err (lit ''project layer has no parent directory'')
                | Some parent \<Rightarrow>
                    if prev = current \<or> \<not> list_ex (\<lambda>ancestor. ancestor = parent) (path_ancestors current)
                    then Err (lit ''project layers are not ordered from root to cwd'')
                    else verify_layers (Suc index) user_index (Some current) layers))
      | _ \<Rightarrow> verify_layers (Suc index) user_index previous layers)"

definition verify_layer_ordering :: "config_layer_entry list \<Rightarrow> (ustr, nat option) result" where
  "verify_layer_ordering layers =
     (if \<not> sorted (map (\<lambda>layer. precedence (layer_name layer)) layers)
      then Err (lit ''config layers are not in correct precedence order'')
      else verify_layers 0 None None layers)"

section \<open>The stack\<close>

datatype config_layer_stack_ordering = LowestPrecedenceFirst | HighestPrecedenceFirst

record ('r, 't) config_layer_stack =
  stack_layers :: "config_layer_entry list"
  user_layer_index :: "nat option"
  requirements :: 'r
  requirements_toml :: 't
  ignore_user_and_project_exec_policy_rules :: bool

definition stack_new :: "config_layer_entry list \<Rightarrow> 'r \<Rightarrow> 't \<Rightarrow> (ustr, ('r, 't) config_layer_stack) result" where
  "stack_new layers reqs reqs_toml =
     (case verify_layer_ordering layers of
        Err e \<Rightarrow> Err e
      | Ok user_index \<Rightarrow>
          Ok \<lparr>stack_layers = layers, user_layer_index = user_index, requirements = reqs,
              requirements_toml = reqs_toml, ignore_user_and_project_exec_policy_rules = False\<rparr>)"

definition with_user_and_project_exec_policy_rules_ignored ::
  "bool \<Rightarrow> ('r, 't) config_layer_stack \<Rightarrow> ('r, 't) config_layer_stack" where
  "with_user_and_project_exec_policy_rules_ignored ignored st =
     st\<lparr>ignore_user_and_project_exec_policy_rules := ignored\<rparr>"

definition get_user_layer :: "('r, 't) config_layer_stack \<Rightarrow> config_layer_entry option" where
  "get_user_layer st =
     (case user_layer_index st of
        None \<Rightarrow> None
      | Some i \<Rightarrow> if i < length (stack_layers st) then Some (stack_layers st ! i) else None)"

text \<open>\<^verbatim>\<open>Iterator::position\<close>.\<close>

fun position :: "('a \<Rightarrow> bool) \<Rightarrow> 'a list \<Rightarrow> nat option" where
  "position P [] = None"
| "position P (x # xs) = (if P x then Some 0 else map_option Suc (position P xs))"

definition with_user_config ::
  "(toml \<Rightarrow> ustr) \<Rightarrow> path \<Rightarrow> toml \<Rightarrow> ('r, 't) config_layer_stack \<Rightarrow> ('r, 't) config_layer_stack" where
  "with_user_config version_for_toml config_toml user_config st =
     (let user_layer = layer_new version_for_toml (User config_toml) user_config;
          layers = stack_layers st
      in case user_layer_index st of
           Some index \<Rightarrow> st\<lparr>stack_layers := layers[index := user_layer]\<rparr>
         | None \<Rightarrow>
             (case position (\<lambda>layer. precedence (layer_name layer) > precedence (layer_name user_layer)) layers of
                Some index \<Rightarrow>
                  st\<lparr>stack_layers := take index layers @ user_layer # drop index layers, user_layer_index := Some index\<rparr>
              | None \<Rightarrow>
                  st\<lparr>stack_layers := layers @ [user_layer], user_layer_index := Some (length layers)\<rparr>))"

definition get_layers ::
  "config_layer_stack_ordering \<Rightarrow> bool \<Rightarrow> ('r, 't) config_layer_stack \<Rightarrow> config_layer_entry list" where
  "get_layers order include_disabled st =
     (let layers = filter (\<lambda>layer. include_disabled \<or> \<not> is_disabled layer) (stack_layers st)
      in if order = HighestPrecedenceFirst then rev layers else layers)"

definition layers_high_to_low :: "('r, 't) config_layer_stack \<Rightarrow> config_layer_entry list" where
  "layers_high_to_low st = get_layers HighestPrecedenceFirst False st"

definition effective_config :: "('r, 't) config_layer_stack \<Rightarrow> toml" where
  "effective_config st =
     foldl (\<lambda>merged layer. merge_toml_values merged (layer_config layer)) (TTable [])
       (get_layers LowestPrecedenceFirst False st)"

definition stack_origins :: "('r, 't) config_layer_stack \<Rightarrow> config_layer_metadata origins" where
  "stack_origins st =
     foldl (\<lambda>origins layer.
         record_origins (normalized_with_key_aliases (layer_config layer) []) (metadata layer) [] origins) []
       (get_layers LowestPrecedenceFirst False st)"

section \<open>Verified stacks\<close>

definition layer_rank :: "config_layer_entry \<Rightarrow> int" where
  "layer_rank layer = precedence (layer_name layer)"

fun is_user :: "config_layer_source \<Rightarrow> bool" where
  "is_user (User _) = True"
| "is_user _ = False"

fun project_folder :: "config_layer_source \<Rightarrow> path option" where
  "project_folder (Project folder) = Some folder"
| "project_folder _ = None"

text \<open>Two project folders follow each other when the second lies below the directory that holds the first.\<close>

definition follows :: "path \<Rightarrow> path \<Rightarrow> bool" where
  "follows prev current \<longleftrightarrow>
     prev \<noteq> current \<and> (\<exists>parent. path_parent prev = Some parent \<and> parent \<in> set (path_ancestors current))"

fun project_chain :: "path option \<Rightarrow> path list \<Rightarrow> bool" where
  "project_chain previous [] = True"
| "project_chain None (p # ps) = project_chain (Some p) ps"
| "project_chain (Some q) (p # ps) = (follows q p \<and> project_chain (Some p) ps)"

definition project_folders :: "config_layer_entry list \<Rightarrow> path list" where
  "project_folders layers = List.map_filter (\<lambda>layer. project_folder (layer_name layer)) layers"

definition user_positions :: "nat \<Rightarrow> config_layer_entry list \<Rightarrow> nat list" where
  "user_positions n layers = map fst (filter (\<lambda>(i, layer). is_user (layer_name layer)) (enumerate n layers))"

lemma project_folders_Cons:
  "project_folders (l # ls) = (case project_folder (layer_name l) of Some p \<Rightarrow> p # project_folders ls | None \<Rightarrow> project_folders ls)"
  by (simp add: project_folders_def List.map_filter_simps split: option.splits)

lemma user_positions_Cons:
  "user_positions n (l # ls) = (if is_user (layer_name l) then n # user_positions (Suc n) ls else user_positions (Suc n) ls)"
  by (simp add: user_positions_def)

lemma verify_layers_iff:
  "verify_layers n user previous layers = Ok result \<longleftrightarrow>
     project_chain previous (project_folders layers)
     \<and> (case user of
          None \<Rightarrow> user_positions n layers = [] \<and> result = None \<or> (\<exists>i. user_positions n layers = [i] \<and> result = Some i)
        | Some i \<Rightarrow> user_positions n layers = [] \<and> result = Some i)"
proof (induction n user previous layers rule: verify_layers.induct)
  case (1 n user previous)
  then show ?case by (auto simp: project_folders_def user_positions_def List.map_filter_simps split: option.splits)
next
  case (2 n user previous layer layers)
  show ?case
  proof (cases "layer_name layer")
    case (User f)
    with 2 show ?thesis
      by (cases user) (auto simp: project_folders_Cons user_positions_Cons)
  next
    case (Project p)
    with 2 show ?thesis
      by (cases previous)
         (auto simp: project_folders_Cons user_positions_Cons follows_def list_ex_iff split: option.splits)
  qed (use 2 in \<open>auto simp: project_folders_Cons user_positions_Cons split: option.splits\<close>)
qed

lemma verify_layer_ordering_iff:
  "verify_layer_ordering layers = Ok index \<longleftrightarrow>
     sorted (map layer_rank layers) \<and> project_chain None (project_folders layers)
     \<and> (user_positions 0 layers = [] \<and> index = None \<or> (\<exists>i. user_positions 0 layers = [i] \<and> index = Some i))"
  by (simp add: verify_layer_ordering_def verify_layers_iff layer_rank_def [abs_def])

text \<open>A stack as \<^verbatim>\<open>ConfigLayerStack::new\<close> builds it.\<close>

definition stack_ok :: "('r, 't) config_layer_stack \<Rightarrow> bool" where
  "stack_ok st \<longleftrightarrow> verify_layer_ordering (stack_layers st) = Ok (user_layer_index st)"

lemma user_positions_append:
  "user_positions n (xs @ ys) = user_positions n xs @ user_positions (n + length xs) ys"
  by (simp add: user_positions_def enumerate_append_eq)

lemma project_folders_append: "project_folders (xs @ ys) = project_folders xs @ project_folders ys"
  by (simp add: project_folders_def List.map_filter_def)

lemma user_positions_member:
  "i \<in> set (user_positions 0 layers) \<longleftrightarrow> i < length layers \<and> is_user (layer_name (layers ! i))"
  by (auto simp: user_positions_def in_set_enumerate_eq image_iff)

lemma user_positions_shift: "user_positions n layers = [] \<longleftrightarrow> list_all (\<lambda>l. \<not> is_user (layer_name l)) layers"
  by (induction layers arbitrary: n) (auto simp: user_positions_Cons user_positions_def)

text \<open>What the order of layers depends on.\<close>

definition layer_kind :: "config_layer_entry \<Rightarrow> int \<times> bool \<times> path option" where
  "layer_kind layer = (layer_rank layer, is_user (layer_name layer), project_folder (layer_name layer))"

lemma same_kinds:
  assumes "map layer_kind xs = map layer_kind ys"
  shows "map layer_rank xs = map layer_rank ys" "user_positions n xs = user_positions n ys"
    "project_folders xs = project_folders ys"
proof -
  have "list_all2 (\<lambda>x y. layer_kind x = layer_kind y) xs ys" using assms by (simp add: list_all2_conv_all_nth list_eq_iff_nth_eq)
  then have "map layer_rank xs = map layer_rank ys \<and> user_positions n xs = user_positions n ys
      \<and> project_folders xs = project_folders ys"
    by (induction arbitrary: n rule: list_all2_induct)
       (auto simp: layer_kind_def project_folders_Cons user_positions_Cons user_positions_def project_folders_def
          List.map_filter_simps split: option.splits)
  then show "map layer_rank xs = map layer_rank ys" "user_positions n xs = user_positions n ys"
    "project_folders xs = project_folders ys" by blast+
qed

lemma position_Some:
  "position P xs = Some i \<Longrightarrow> i < length xs \<and> P (xs ! i) \<and> list_all (\<lambda>x. \<not> P x) (take i xs)"
  by (induction xs arbitrary: i) (auto split: if_splits)

lemma position_None: "position P xs = None \<longleftrightarrow> list_all (\<lambda>x. \<not> P x) xs"
  by (induction xs) auto

lemma insert_user_layer_ok:
  assumes "sorted (map layer_rank (xs @ ys))" and "project_chain None (project_folders (xs @ ys))"
    and "user_positions 0 (xs @ ys) = []" and "layer_name u = User f"
    and "list_all (\<lambda>l. layer_rank l \<le> 20) xs" and "list_all (\<lambda>l. 20 < layer_rank l) ys"
  shows "verify_layer_ordering (xs @ u # ys) = Ok (Some (length xs))"
proof -
  have u: "layer_rank u = 20" "project_folder (layer_name u) = None" "is_user (layer_name u)"
    using assms(4) by (simp_all add: layer_rank_def)
  have "sorted (map layer_rank (xs @ u # ys))"
    using assms(1,5,6) u(1) by (auto simp: sorted_append list_all_iff)
  moreover have "user_positions 0 (xs @ u # ys) = [length xs]"
  proof -
    have "user_positions 0 xs = []" "user_positions (length xs) ys = []"
      using assms(3) by (simp_all add: user_positions_append)
    moreover from this(2) have "user_positions (Suc (length xs)) ys = []" by (simp add: user_positions_shift)
    ultimately show ?thesis using u(3) by (simp add: user_positions_append user_positions_Cons)
  qed
  moreover have "project_folders (xs @ u # ys) = project_folders (xs @ ys)"
    using u(2) by (simp add: project_folders_append project_folders_Cons)
  ultimately show ?thesis using assms(2) by (auto simp: verify_layer_ordering_iff)
qed

text \<open>
  C38: Setting the user configuration keeps a stack in its verified order with one user layer, which
  is then the new one, and leaves every other layer alone.
\<close>
theorem with_user_config_keeps_order:
  assumes "stack_ok st" and st'_def: "st' = with_user_config version_for_toml config_toml user_config st"
  shows "stack_ok st'
    \<and> get_user_layer st' = Some (layer_new version_for_toml (User config_toml) user_config)
    \<and> filter (\<lambda>l. \<not> is_user (layer_name l)) (stack_layers st') = filter (\<lambda>l. \<not> is_user (layer_name l)) (stack_layers st)"
proof -
  let ?u = "layer_new version_for_toml (User config_toml) user_config"
  let ?ls = "stack_layers st" and ?rank = "\<lambda>l. precedence (layer_name ?u) < precedence (layer_name l)"
  have u: "layer_name ?u = User config_toml" "precedence (layer_name ?u) = 20" by (simp_all add: layer_new_def)
  note ok = assms(1) [unfolded stack_ok_def verify_layer_ordering_iff]
  show ?thesis
  proof (cases "user_layer_index st")
    case None
    with ok have none: "user_positions 0 ?ls = []" by auto
    obtain xs ys where split: "?ls = xs @ ys" "stack_layers st' = xs @ ?u # ys"
      "user_layer_index st' = Some (length xs)" and low: "list_all (\<lambda>l. \<not> ?rank l) xs" and high: "ys = [] \<or> ?rank (hd ys)"
    proof (cases "position ?rank ?ls")
      case (Some i)
      from position_Some [OF Some] show thesis
        using that [of "take i ?ls" "drop i ?ls"] None Some
        by (auto simp: st'_def with_user_config_def Let_def hd_drop_conv_nth)
    next
      case no: None
      then show thesis
        using that [of ?ls "[]"] None position_None [THEN iffD1, OF no]
        by (auto simp: st'_def with_user_config_def Let_def)
    qed
    have "list_all (\<lambda>l. 20 < layer_rank l) ys"
      using high ok u(2) by (cases ys) (auto simp: split(1) sorted_append layer_rank_def list_all_iff)
    with low ok none have "verify_layer_ordering (xs @ ?u # ys) = Ok (Some (length xs))"
      using u by (intro insert_user_layer_ok [OF _ _ _ u(1)]) (auto simp: split(1) layer_rank_def list_all_iff)
    then show ?thesis by (simp add: stack_ok_def get_user_layer_def split u)
  next
    case (Some i)
    with ok have pos: "user_positions 0 ?ls = [i]" by auto
    then have i: "i < length ?ls" "is_user (layer_name (?ls ! i))" using user_positions_member [of i ?ls] by auto
    then have k: "layer_kind (?ls ! i) = layer_kind ?u"
      using u by (cases "layer_name (?ls ! i)") (auto simp: layer_kind_def layer_rank_def)
    have st': "stack_layers st' = ?ls[i := ?u]" "user_layer_index st' = Some i"
      using Some by (simp_all add: st'_def with_user_config_def Let_def)
    have "map layer_kind (?ls[i := ?u]) = map layer_kind ?ls"
      using k i(1) by (simp add: map_update) (metis list_update_id nth_map)
    from same_kinds [OF this] ok st' Some have "stack_ok st'" by (simp add: stack_ok_def verify_layer_ordering_iff)
    moreover have "filter (\<lambda>l. \<not> is_user (layer_name l)) (?ls[i := ?u]) = filter (\<lambda>l. \<not> is_user (layer_name l)) ?ls"
      using i u(1) by (subst (2) id_take_nth_drop [OF i(1)]) (simp add: upd_conv_take_nth_drop)
    ultimately show ?thesis using i st' by (simp add: get_user_layer_def)
  qed
qed

definition sample_stack :: "(unit, unit) config_layer_stack" where
  "sample_stack =
     \<lparr>stack_layers = [layer_new (\<lambda>_. []) (System [RootDir, Normal (lit ''etc'')]) sample_base,
        layer_new (\<lambda>_. []) SessionFlags sample_overlay_layer],
      user_layer_index = None, requirements = (), requirements_toml = (), ignore_user_and_project_exec_policy_rules = False\<rparr>"

theorem with_user_config_keeps_order_witness:
  "stack_ok (with_user_config (\<lambda>_. []) [RootDir, Normal (lit ''home'')] (TTable []) sample_stack)
   \<and> length (stack_layers (with_user_config (\<lambda>_. []) [RootDir, Normal (lit ''home'')] (TTable []) sample_stack)) = 3"
proof
  have "stack_ok sample_stack" by code_simp
  from with_user_config_keeps_order [OF this refl]
  show "stack_ok (with_user_config (\<lambda>_. []) [RootDir, Normal (lit ''home'')] (TTable []) sample_stack)" by blast
  show "length (stack_layers (with_user_config (\<lambda>_. []) [RootDir, Normal (lit ''home'')] (TTable []) sample_stack)) = 3"
    by code_simp
qed

section \<open>The effective configuration\<close>

text \<open>The leaf that the first value that speaks about a path has there.\<close>

fun layered_leaf :: "toml list \<Rightarrow> ustr list \<Rightarrow> toml option" where
  "layered_leaf [] p = None"
| "layered_leaf (v # vs) p = overlay_leaf v (layered_leaf vs) p"

definition layer_value :: "config_layer_entry \<Rightarrow> toml" where
  "layer_value layer = normalized_with_key_aliases (layer_config layer) []"

abbreviation merge_layers :: "config_layer_entry list \<Rightarrow> toml" where
  "merge_layers layers \<equiv> foldl (\<lambda>merged layer. merge_toml_values merged (layer_config layer)) (TTable []) layers"

lemma merge_layers_leaves:
  assumes "list_all (\<lambda>l. toml_ok (layer_config l)) layers"
  shows "leaf_at (merge_layers layers) = layered_leaf (rev (map layer_value layers))
    \<and> canonical (merge_layers layers) [] \<and> toml_ok (merge_layers layers)"
  using assms
proof (induction layers rule: rev_induct)
  case Nil
  have "leaf_at (TTable []) p = None" for p by (cases p) (auto simp: leaf_at_def)
  then show ?case by (auto simp: fun_eq_iff no_legacy_key_def table_sorted_def list_all_iff)
next
  case (snoc l layers)
  define merged where "merged = merge_layers layers"
  from snoc have ih: "leaf_at merged = layered_leaf (rev (map layer_value layers))"
    "canonical merged []" "toml_ok merged" "toml_ok (layer_config l)" by (auto simp: merged_def)
  have "leaf_at (merge_toml_values merged (layer_config l)) p
      = overlay_leaf (layer_value l) (layered_leaf (rev (map layer_value layers))) p" for p
    using leaf_at_merge_at [OF ih(2,4)] ih(1) by (simp add: merge_toml_values_def layer_value_def)
  moreover have "canonical (merge_toml_values merged (layer_config l)) []" "toml_ok (merge_toml_values merged (layer_config l))"
    using canonical_merge(1) toml_ok_merge(1) ih by (simp_all add: merge_toml_values_def)
  ultimately show ?case by (simp add: merged_def fun_eq_iff)
qed

lemma high_to_low: "layers_high_to_low st = rev (get_layers LowestPrecedenceFirst False st)"
  by (simp add: layers_high_to_low_def get_layers_def Let_def)

lemma set_get_layers: "set (get_layers order include st) \<subseteq> set (stack_layers st)"
  by (auto simp: get_layers_def Let_def)

text \<open>
  C36: The effective configuration has, at every path, the leaf of the enabled layer of highest
  precedence that speaks about that path, with legacy keys renamed; no layer below it shows through
  there, and no legacy key is left.
\<close>
theorem effective_config_by_precedence:
  assumes "list_all (\<lambda>l. toml_ok (layer_config l)) (stack_layers st)"
  shows "leaf_at (effective_config st) p = layered_leaf (map layer_value (layers_high_to_low st)) p
    \<and> canonical (effective_config st) []"
proof -
  have "list_all (\<lambda>l. toml_ok (layer_config l)) (get_layers LowestPrecedenceFirst False st)"
    using assms set_get_layers [of LowestPrecedenceFirst False st] by (auto simp: list_all_iff)
  from merge_layers_leaves [OF this] show ?thesis
    by (simp add: effective_config_def high_to_low rev_map)
qed

theorem effective_config_by_precedence_witness:
  "leaf_at (effective_config sample_stack) [lit ''memories'', lit ''disable_on_external_context''] = Some (TBool False)"
proof -
  have ok: "list_all (\<lambda>l. toml_ok (layer_config l)) (stack_layers sample_stack)" by code_simp
  have "layered_leaf (map layer_value (layers_high_to_low sample_stack))
      [lit ''memories'', lit ''disable_on_external_context''] = Some (TBool False)" by code_simp
  with effective_config_by_precedence [OF ok] show ?thesis by metis
qed

section \<open>Origins\<close>

text \<open>The paths a value is recorded under.\<close>

function recorded :: "toml \<Rightarrow> ustr list list" where
  "recorded (TTable t) = concat (map (\<lambda>(k, c). map ((#) k) (recorded c)) t)"
| "recorded (TArr items) = concat (map (\<lambda>(i, c). map ((#) (to_decimal i)) (recorded c)) (enumerate 0 items))"
| "recorded (TStr s) = [[]]"
| "recorded (TInt n) = [[]]"
| "recorded (TFloat f) = [[]]"
| "recorded (TBool b) = [[]]"
| "recorded (TDatetime d) = [[]]"
  by pat_completeness auto
termination
  by (relation "measure size") (use size_table_entry size_array_item in auto)

definition record_path :: "'m \<Rightarrow> ustr list \<Rightarrow> 'm origins \<Rightarrow> 'm origins" where
  "record_path meta path origins = (if path \<noteq> [] then AList.update (join [46] path) meta origins else origins)"

lemma fold_entries:
  assumes "\<And>k c origins. (k, c) \<in> set xs \<Longrightarrow> f k c origins = fold g (h k c) origins"
  shows "fold (\<lambda>(k, c). f k c) xs origins = fold g (concat (map (\<lambda>(k, c). h k c) xs)) origins"
  using assms
proof (induction xs arbitrary: origins)
  case (Cons x xs)
  have "fold (\<lambda>(k, c). f k c) xs o' = fold g (concat (map (\<lambda>(k, c). h k c) xs)) o'" for o'
    using Cons.prems by (intro Cons.IH) auto
  moreover have "f (fst x) (snd x) origins = fold g (h (fst x) (snd x)) origins"
    using Cons.prems [of "fst x" "snd x"] by simp
  ultimately show ?case by (simp add: case_prod_unfold)
qed simp

lemma record_origins_recorded:
  "record_origins v meta path origins = fold (\<lambda>q. record_path meta (path @ q)) (recorded v) origins"
proof (induction v arbitrary: path origins rule: recorded.induct)
  case (1 t)
  have "record_origins c meta (path @ [k]) o' = fold (\<lambda>q. record_path meta (path @ q)) (map ((#) k) (recorded c)) o'"
    if "(k, c) \<in> set t" for k c o'
    using 1 [OF that refl] by (simp add: fold_map comp_def)
  from fold_entries [OF this] show ?case by (simp only: record_origins.simps recorded.simps)
next
  case (2 items)
  have "record_origins c meta (path @ [to_decimal i]) o'
      = fold (\<lambda>q. record_path meta (path @ q)) (map ((#) (to_decimal i)) (recorded c)) o'"
    if "(i, c) \<in> set (enumerate 0 items)" for i c o'
    using 2 [OF that refl] by (simp add: fold_map comp_def)
  from fold_entries [OF this] show ?case by (simp only: record_origins.simps recorded.simps)
qed (simp_all add: record_path_def)

lemma map_of_record_paths:
  "map_of (fold (record_path meta) qs origins) s =
     (if \<exists>q\<in>set qs. q \<noteq> [] \<and> s = join [46] q then Some meta else map_of origins s)"
  by (induction qs arbitrary: origins) (auto simp: record_path_def AList.update_conv')

fun is_array :: "toml \<Rightarrow> bool" where
  "is_array (TArr _) = True"
| "is_array _ = False"

definition keys_dot_free :: "toml \<Rightarrow> bool" where
  "keys_dot_free v \<longleftrightarrow> list_all (list_all (\<lambda>k. 46 \<notin> set k)) (recorded v)"

lemma recorded_hides: "toml_ok v \<Longrightarrow> q \<in> set (recorded v) \<Longrightarrow> hides v q"
proof (induction v arbitrary: q rule: recorded.induct)
  case (1 t)
  then obtain k c q' where q: "q = k # q'" "(k, c) \<in> set t" "q' \<in> set (recorded c)" by auto
  moreover have "map_of t k = Some c" using q(2) 1(2) by (simp add: table_sorted_distinct)
  ultimately show ?case using 1(1) [OF q(2) refl _ q(3)] 1(2) by (auto simp: list_all_iff)
qed auto

lemma leaf_recorded: "leaf_at v p = Some x \<Longrightarrow> \<not> is_array x \<Longrightarrow> p \<in> set (recorded v)"
proof (induction p arbitrary: v)
  case Nil
  then show ?case by (cases v) (auto simp: leaf_at_def)
next
  case (Cons k p)
  then obtain t c where v: "v = TTable t" "map_of t k = Some c" "leaf_at c p = Some x"
    by (auto simp: leaf_at_Cons split: toml.splits option.splits)
  from Cons.IH [OF v(3) Cons.prems(2)] map_of_SomeD [OF v(2)] show ?case by (force simp: v(1))
qed

lemma join_dot_inj:
  assumes "join [46] p = join [46] q" and "p \<noteq> []" and "q \<noteq> []"
    and "list_all (\<lambda>k. 46 \<notin> set k) p" and "list_all (\<lambda>k. (46::uchar) \<notin> set k) q"
  shows "p = q"
proof -
  have "split_char 46 (join [46] p) = p" "split_char 46 (join [46] q) = q"
    using split_char_join [of p 46] split_char_join [of q 46] assms(2-) by (simp_all add: list_all_iff)
  then show ?thesis using assms(1) by metis
qed

abbreviation merge_origins :: "config_layer_entry list \<Rightarrow> config_layer_metadata origins" where
  "merge_origins layers \<equiv> foldl (\<lambda>origins layer.
     record_origins (normalized_with_key_aliases (layer_config layer) []) (metadata layer) [] origins) [] layers"

lemma merge_origins_snoc:
  "map_of (merge_origins (layers @ [l])) s =
     (if \<exists>q\<in>set (recorded (layer_value l)). q \<noteq> [] \<and> s = join [46] q then Some (metadata l)
      else map_of (merge_origins layers) s)"
proof -
  have "merge_origins (layers @ [l]) = fold (record_path (metadata l)) (recorded (layer_value l)) (merge_origins layers)"
    by (simp add: record_origins_recorded [of _ _ "[]"] layer_value_def)
  then show ?thesis by (simp only: map_of_record_paths)
qed

lemma layered_origin:
  assumes "list_all (\<lambda>l. toml_ok (layer_config l) \<and> keys_dot_free (layer_value l)) layers"
    and "layered_leaf (rev (map layer_value layers)) p = Some x" and "\<not> is_array x" and "p \<noteq> []"
  shows "(\<exists>l\<in>set layers. leaf_at (layer_value l) p = Some x \<and> map_of (merge_origins layers) (join [46] p) = Some (metadata l))
    \<and> list_all (\<lambda>k. 46 \<notin> set k) p"
  using assms
proof (induction layers rule: rev_induct)
  case (snoc l layers)
  show ?case
  proof (cases "hides (layer_value l) p")
    case True
    with snoc.prems have leaf: "leaf_at (layer_value l) p = Some x" by (simp add: overlay_leaf_def)
    have p: "p \<in> set (recorded (layer_value l))" by (rule leaf_recorded [OF leaf snoc.prems(3)])
    then have "map_of (merge_origins (layers @ [l])) (join [46] p) = Some (metadata l)"
      using snoc.prems(4) unfolding merge_origins_snoc by auto
    moreover have "list_all (\<lambda>k. 46 \<notin> set k) p"
      using snoc.prems(1) p by (auto simp: keys_dot_free_def list_all_iff)
    ultimately show ?thesis using leaf by auto
  next
    case False
    with snoc have ih: "(\<exists>l\<in>set layers. leaf_at (layer_value l) p = Some x
        \<and> map_of (merge_origins layers) (join [46] p) = Some (metadata l)) \<and> list_all (\<lambda>k. 46 \<notin> set k) p"
      by (simp add: overlay_leaf_def)
    have "toml_ok (layer_value l)" using snoc.prems(1) by (simp add: layer_value_def toml_ok_normalized)
    with False have new: "p \<notin> set (recorded (layer_value l))" using recorded_hides by blast
    have "q = p" if "q \<in> set (recorded (layer_value l))" "q \<noteq> []" "join [46] p = join [46] q" for q
      using that snoc.prems(1,4) ih by (intro join_dot_inj [symmetric]) (auto simp: keys_dot_free_def list_all_iff)
    with new have "map_of (merge_origins (layers @ [l])) (join [46] p) = map_of (merge_origins layers) (join [46] p)"
      unfolding merge_origins_snoc by auto
    with ih show ?thesis by auto
  qed
qed simp

text \<open>
  The origin recorded for a setting names the layer that the setting comes from: where the
  effective configuration has a scalar, the origin under its dotted path is the metadata of a layer
  that has this scalar there.  Keys must not contain dots, since origins are recorded under dotted
  paths.
\<close>
theorem origins_name_the_layer:
  assumes "list_all (\<lambda>l. toml_ok (layer_config l) \<and> keys_dot_free (layer_value l)) (stack_layers st)"
    and "leaf_at (effective_config st) p = Some x" and "\<not> is_array x" and "p \<noteq> []"
  shows "\<exists>l. l \<in> set (layers_high_to_low st) \<and> leaf_at (layer_value l) p = Some x
    \<and> map_of (stack_origins st) (join [46] p) = Some (metadata l)"
proof -
  let ?ls = "get_layers LowestPrecedenceFirst False st"
  have ok: "list_all (\<lambda>l. toml_ok (layer_config l) \<and> keys_dot_free (layer_value l)) ?ls"
    using assms(1) set_get_layers [of LowestPrecedenceFirst False st] by (auto simp: list_all_iff)
  then have "leaf_at (merge_layers ?ls) = layered_leaf (rev (map layer_value ?ls))"
    using merge_layers_leaves [of ?ls] by (auto simp: list_all_iff)
  then have "layered_leaf (rev (map layer_value ?ls)) p = Some x"
    using assms(2) by (simp add: effective_config_def)
  from layered_origin [OF ok this assms(3,4)] show ?thesis
    by (auto simp: high_to_low stack_origins_def)
qed

theorem origins_name_the_layer_witness:
  "\<exists>l. l \<in> set (layers_high_to_low sample_stack) \<and> leaf_at (layer_value l) [lit ''model''] = Some (TStr (lit ''a''))
    \<and> map_of (stack_origins sample_stack) (join [46] [lit ''model'']) = Some (metadata l)"
  by (rule origins_name_the_layer; code_simp)

end
