(* ===== verification/Requirements_Policy.thy ===== *)
theory Requirements_Policy
  imports Exec_Policy
begin

text \<open>
  The prefix rules of managed requirements (\<^verbatim>\<open>src/config/src/requirements_exec_policy.rs\<close>): their TOML form and the
  policy made of them.
\<close>

section \<open>Definitions\<close>

record requirements_pattern_token_toml =
  req_token :: "ustr option"
  req_any_of :: "ustr list option"

datatype requirements_decision_toml = TomlAllow | TomlPrompt | TomlForbidden

fun as_decision :: "requirements_decision_toml \<Rightarrow> decision" where
  "as_decision TomlAllow = Allow"
| "as_decision TomlPrompt = Prompt"
| "as_decision TomlForbidden = Forbidden"

record requirements_prefix_rule_toml =
  req_pattern :: "requirements_pattern_token_toml list"
  req_decision :: "requirements_decision_toml option"
  req_justification :: "ustr option"

datatype requirements_parse_error =
    EmptyPrefixRules
  | EmptyPattern nat
  | InvalidPatternToken nat nat ustr
  | EmptyJustification nat
  | MissingDecision nat
  | AllowDecisionNotAllowed nat

definition requirements_pattern_token ::
  "nat \<Rightarrow> nat \<times> requirements_pattern_token_toml \<Rightarrow> (requirements_parse_error, pattern_token) result" where
  "requirements_pattern_token rule_index entry =
     (let (token_index, tok) = entry; invalid = (\<lambda>reason. Err (InvalidPatternToken rule_index token_index reason))
      in case (req_token tok, req_any_of tok) of
           (Some single, None) \<Rightarrow>
             if trim single = [] then invalid (lit ''token cannot be empty'') else Ok (TokSingle single)
         | (None, Some alternatives) \<Rightarrow>
             if alternatives = [] then invalid (lit ''any_of cannot be empty'')
             else if list_ex (\<lambda>alt. trim alt = []) alternatives
             then invalid (lit ''any_of cannot include empty tokens'')
             else Ok (TokAlts alternatives)
         | (Some _, Some _) \<Rightarrow> invalid (lit ''set either token or any_of, not both'')
         | (None, None) \<Rightarrow> invalid (lit ''set either token or any_of''))"

definition requirements_rule ::
  "nat \<Rightarrow> requirements_prefix_rule_toml \<Rightarrow> (requirements_parse_error, prefix_rule list) result" where
  "requirements_rule rule_index rule =
     (if blank_justification (req_justification rule) then Err (EmptyJustification rule_index)
      else if req_pattern rule = [] then Err (EmptyPattern rule_index)
      else case collect_results (requirements_pattern_token rule_index) (enumerate 0 (req_pattern rule)) of
             Err e \<Rightarrow> Err e
           | Ok pattern_tokens \<Rightarrow>
               (case req_decision rule of
                  Some TomlAllow \<Rightarrow> Err (AllowDecisionNotAllowed rule_index)
                | None \<Rightarrow> Err (MissingDecision rule_index)
                | Some d \<Rightarrow>
                    (case pattern_tokens of
                       [] \<Rightarrow> Err (EmptyPattern rule_index)
                     | first_token # remaining_tokens \<Rightarrow>
                         Ok (map (\<lambda>head. \<lparr>rule_pattern = \<lparr>pat_first = head, pat_rest = remaining_tokens\<rparr>,
                                rule_decision = as_decision d, rule_justification = req_justification rule\<rparr>)
                              (token_alternatives first_token)))))"

fun requirements_rules ::
  "nat \<Rightarrow> requirements_prefix_rule_toml list \<Rightarrow> (ustr, prefix_rule) multimap
     \<Rightarrow> (requirements_parse_error, (ustr, prefix_rule) multimap) result" where
  "requirements_rules rule_index [] rules = Ok rules"
| "requirements_rules rule_index (rule # rest) rules =
     (case requirements_rule rule_index rule of
        Err e \<Rightarrow> Err e
      | Ok rs \<Rightarrow>
          requirements_rules (Suc rule_index) rest
            (foldl (\<lambda>m r. mm_insert (rule_program r) r m) rules rs))"

definition to_policy :: "requirements_prefix_rule_toml list \<Rightarrow> (requirements_parse_error, policy) result" where
  "to_policy prefix_rules =
     (if prefix_rules = [] then Err EmptyPrefixRules
      else case requirements_rules 0 prefix_rules [] of
             Err e \<Rightarrow> Err e
           | Ok rules \<Rightarrow>
               Ok \<lparr>rules_by_program = rules, network_rules = [], host_executables_by_name = []\<rparr>)"

section \<open>Requirements only restrict\<close>

definition restricting :: "(ustr, prefix_rule) multimap \<Rightarrow> bool" where
  "restricting m \<longleftrightarrow> distinct (map fst m)
     \<and> (\<forall>k. \<forall>r\<in>set (mm_get m k). rule_program r = k \<and> rule_decision r \<noteq> Allow)"

lemma restrictingD:
  "restricting m \<Longrightarrow> r \<in> set (mm_get m k) \<Longrightarrow> rule_program r = k \<and> rule_decision r \<noteq> Allow"
  unfolding restricting_def by blast

lemma restricting_empty: "restricting []"
  by (simp add: restricting_def mm_get_def)

lemma restricting_insert:
  assumes m: "restricting m" and r: "rule_decision r \<noteq> Allow"
  shows "restricting (mm_insert (rule_program r) r m)"
proof -
  have "rule_program q = k \<and> rule_decision q \<noteq> Allow"
    if "q \<in> set (mm_get (mm_insert (rule_program r) r m) k)" for q k
  proof (cases "k = rule_program r \<and> q = r")
    case False
    with that have "q \<in> set (mm_get m k)" by (auto simp: mm_get_insert split: if_splits)
    with m show ?thesis by (rule restrictingD)
  qed (simp add: r)
  moreover have "distinct (map fst (mm_insert (rule_program r) r m))"
    using m by (simp add: restricting_def distinct_mm_insert)
  ultimately show ?thesis unfolding restricting_def by blast
qed

lemma restricting_inserts:
  "restricting m \<Longrightarrow> list_all (\<lambda>r. rule_decision r \<noteq> Allow) rs \<Longrightarrow>
   restricting (foldl (\<lambda>m r. mm_insert (rule_program r) r m) m rs)"
  by (induction rs arbitrary: m) (simp_all add: restricting_insert)

lemma requirements_rule_restricts:
  "requirements_rule i rule = Ok rs \<Longrightarrow> list_all (\<lambda>r. rule_decision r \<noteq> Allow) rs"
  by (auto simp: requirements_rule_def list_all_iff
      split: if_splits result.splits option.splits requirements_decision_toml.splits list.splits)

lemma requirements_rules_restrict:
  "requirements_rules i rules m = Ok m' \<Longrightarrow> restricting m \<Longrightarrow> restricting m'"
  by (induction i rules m rule: requirements_rules.induct)
     (auto split: result.splits dest: requirements_rule_restricts restricting_inserts)

lemma to_policy_restricting: "to_policy prefix_rules = Ok p \<Longrightarrow> restricting (rules_by_program p)"
  using requirements_rules_restrict [OF _ restricting_empty]
  by (auto simp: to_policy_def split: if_splits result.splits)

lemma to_policy_ok: "to_policy prefix_rules = Ok p \<Longrightarrow> policy_ok p"
  using to_policy_restricting unfolding restricting_def policy_ok_def by blast

text \<open>
  The policy made of requirements is well-indexed and none of its rules allows anything, so
  that merging it into another policy can only restrict.
\<close>
theorem requirements_never_allow:
  assumes "to_policy prefix_rules = Ok p"
  shows "policy_ok p \<and> list_all (\<lambda>r. rule_decision r \<noteq> Allow) (all_rules p)"
  using to_policy_ok [OF assms] restrictingD [OF to_policy_restricting [OF assms]]
  unfolding list_all_iff set_all_rules [OF to_policy_ok [OF assms]] by blast

definition sample_requirements :: "requirements_prefix_rule_toml list" where
  "sample_requirements =
     [\<lparr>req_pattern = [\<lparr>req_token = None, req_any_of = Some [lit ''git'', lit ''hg'']\<rparr>, \<lparr>req_token = Some (lit ''push''), req_any_of = None\<rparr>],
       req_decision = Some TomlForbidden, req_justification = None\<rparr>]"

theorem requirements_never_allow_witness:
  "\<exists>p. to_policy sample_requirements = Ok p \<and> length (all_rules p) = 2
     \<and> policy_ok p \<and> list_all (\<lambda>r. rule_decision r \<noteq> Allow) (all_rules p)"
proof -
  have "(case to_policy sample_requirements of Ok p \<Rightarrow> length (all_rules p) = 2 | Err _ \<Rightarrow> False)" by code_simp
  then obtain p where "to_policy sample_requirements = Ok p" "length (all_rules p) = 2"
    by (auto split: result.splits)
  with requirements_never_allow show ?thesis by blast
qed

end
