(* ===== verification/Policy_Loading.thy ===== *)
theory Policy_Loading
  imports Policy_Builder File_System Config_Layers Requirements_Policy
begin

text \<open>
  Loading the execution policy from the rules files of the configuration layers (the loading part of
  \<^verbatim>\<open>src/core/src/exec_policy.rs\<close>), over the disk of \<open>File_System\<close> and the stack of \<open>Config_Layers\<close>.
  The Starlark interpreter and the word splitter are the parameters of \<open>Policy_Builder\<close>.  The
  lemmas show which files are read, that the rules of a layer can only be added to by the layers above
  it, and what becomes of managed rules.
\<close>

section \<open>Definitions\<close>

definition RULES_DIR_NAME :: ustr where "RULES_DIR_NAME = lit ''rules''"
definition RULE_EXTENSION :: ustr where "RULE_EXTENSION = lit ''rules''"
definition DEFAULT_POLICY_FILE :: ustr where "DEFAULT_POLICY_FILE = lit ''default.rules''"

datatype exec_policy_error =
    ReadDir path io_error
  | ReadFile path io_error
  | ParsePolicy ustr exec_error

text \<open>\<^verbatim>\<open>Path::extension\<close>: what follows the last dot of the file name, unless nothing precedes it.\<close>

definition path_extension :: "path \<Rightarrow> ustr option" where
  "path_extension p =
     (case path_file_name p of
        None \<Rightarrow> None
      | Some name \<Rightarrow>
          (case rsplit_once 46 name of
             None \<Rightarrow> None
           | Some (before, after) \<Rightarrow> if before = [] then None else Some after))"

text \<open>
  The paths of one directory differ in their last component only, so that sorting them as paths is
  sorting them by file name.
\<close>

definition collect_policy_files :: "disk \<Rightarrow> path \<Rightarrow> (exec_policy_error, path list) result" where
  "collect_policy_files d dir =
     (case std_metadata d dir of
        Err e \<Rightarrow> if err_kind e = NotFound then Ok [] else Err (ReadDir dir e)
      | Ok (File _) \<Rightarrow> Err (ReadDir dir (os_error NotADirectory))
      | Ok Dir \<Rightarrow>
          Ok (sort_key (\<lambda>q. component_str (last q))
                (filter (\<lambda>q. path_extension q = Some RULE_EXTENSION \<and> lookup d q \<noteq> Some Dir) (children d dir))))"

text \<open>The loop over the layers; \<^verbatim>\<open>config_folder.join\<close> resolves the name against the folder.\<close>

fun layer_policy_paths ::
  "path option \<Rightarrow> disk \<Rightarrow> bool \<Rightarrow> config_layer_entry list \<Rightarrow> (exec_policy_error, path list) result" where
  "layer_policy_paths home d ignored [] = Ok []"
| "layer_policy_paths home d ignored (layer # layers) =
     (if ignored \<and> (case layer_name layer of User _ \<Rightarrow> True | Project _ \<Rightarrow> True | _ \<Rightarrow> False)
      then layer_policy_paths home d ignored layers
      else case config_folder layer of
             None \<Rightarrow> layer_policy_paths home d ignored layers
           | Some folder \<Rightarrow>
               (case collect_policy_files d (resolve_path_against_base home RULES_DIR_NAME folder) of
                  Err e \<Rightarrow> Err e
                | Ok ps \<Rightarrow>
                    (case layer_policy_paths home d ignored layers of
                       Err e \<Rightarrow> Err e
                     | Ok qs \<Rightarrow> Ok (ps @ qs))))"

definition std_read_to_string :: "disk \<Rightarrow> path \<Rightarrow> (io_error, ustr) result" where
  "std_read_to_string d p =
     (case std_read d p of
        Err e \<Rightarrow> Err e
      | Ok bytes \<Rightarrow>
          (case from_utf8 bytes of
             Err _ \<Rightarrow> Err \<lparr>err_kind = InvalidData, err_message = lit ''stream did not contain valid UTF-8''\<rparr>
           | Ok contents \<Rightarrow> Ok contents))"

fun parse_policy_files ::
  "(ustr \<Rightarrow> ustr \<Rightarrow> star_program) \<Rightarrow> (ustr \<Rightarrow> ustr list option) \<Rightarrow> host_env \<Rightarrow> disk \<Rightarrow> path list
     \<Rightarrow> policy_builder \<Rightarrow> (exec_policy_error, policy_builder) result" where
  "parse_policy_files starlark shlex env d [] b = Ok b"
| "parse_policy_files starlark shlex env d (policy_path # policy_paths) b =
     (case std_read_to_string d policy_path of
        Err e \<Rightarrow> Err (ReadFile policy_path e)
      | Ok contents \<Rightarrow>
          (case policy_parser_parse starlark shlex env (display policy_path) contents b of
             (Err e, _) \<Rightarrow> Err (ParsePolicy (display policy_path) e)
           | (Ok _, b') \<Rightarrow> parse_policy_files starlark shlex env d policy_paths b'))"

text \<open>Of the requirements only the managed rules are read here.\<close>

record config_requirements =
  req_exec_policy :: "policy option"

type_synonym 't exec_config_stack = "(config_requirements, 't) config_layer_stack"

definition load_exec_policy ::
  "(ustr \<Rightarrow> ustr \<Rightarrow> star_program) \<Rightarrow> (ustr \<Rightarrow> ustr list option) \<Rightarrow> host_env \<Rightarrow> disk \<Rightarrow> 't exec_config_stack
     \<Rightarrow> (exec_policy_error, policy) result" where
  "load_exec_policy starlark shlex env d config_stack =
     (case layer_policy_paths (env_home env) d (ignore_user_and_project_exec_policy_rules config_stack)
             (get_layers LowestPrecedenceFirst False config_stack) of
        Err e \<Rightarrow> Err e
      | Ok policy_paths \<Rightarrow>
          (case parse_policy_files starlark shlex env d policy_paths builder_new of
             Err e \<Rightarrow> Err e
           | Ok b \<Rightarrow>
               Ok (case req_exec_policy (requirements config_stack) of
                     None \<Rightarrow> builder_build b
                   | Some requirements_policy \<Rightarrow> merge_overlay (builder_build b) requirements_policy)))"

definition load_exec_policy_with_warning ::
  "(ustr \<Rightarrow> ustr \<Rightarrow> star_program) \<Rightarrow> (ustr \<Rightarrow> ustr list option) \<Rightarrow> host_env \<Rightarrow> disk \<Rightarrow> 't exec_config_stack
     \<Rightarrow> (exec_policy_error, policy \<times> exec_policy_error option) result" where
  "load_exec_policy_with_warning starlark shlex env d config_stack =
     (case load_exec_policy starlark shlex env d config_stack of
        Ok p \<Rightarrow> Ok (p, None)
      | Err (ParsePolicy path source) \<Rightarrow> Ok (policy_empty, Some (ParsePolicy path source))
      | Err err \<Rightarrow> Err err)"

definition check_execpolicy_for_warnings ::
  "(ustr \<Rightarrow> ustr \<Rightarrow> star_program) \<Rightarrow> (ustr \<Rightarrow> ustr list option) \<Rightarrow> host_env \<Rightarrow> disk \<Rightarrow> 't exec_config_stack
     \<Rightarrow> (exec_policy_error, exec_policy_error option) result" where
  "check_execpolicy_for_warnings starlark shlex env d config_stack =
     (case load_exec_policy_with_warning starlark shlex env d config_stack of
        Err e \<Rightarrow> Err e
      | Ok (_, warning) \<Rightarrow> Ok warning)"

definition default_policy_path :: "path \<Rightarrow> path" where
  "default_policy_path agere_home =
     path_join (path_join agere_home [Normal RULES_DIR_NAME]) [Normal DEFAULT_POLICY_FILE]"

section \<open>Policies with more rules\<close>

definition rules_within :: "policy \<Rightarrow> policy \<Rightarrow> bool" where
  "rules_within p q \<longleftrightarrow>
     (\<forall>k. set (mm_get (rules_by_program p) k) \<subseteq> set (mm_get (rules_by_program q) k))"

lemma rules_within_refl [simp]: "rules_within p p"
  by (simp add: rules_within_def)

lemma rules_within_trans: "rules_within p q \<Longrightarrow> rules_within q r \<Longrightarrow> rules_within p r"
  unfolding rules_within_def by blast

lemma rules_within_exact:
  assumes "rules_within p q" and "match_exact_rules p cmd = Some ms" and "m \<in> set ms"
  shows "\<exists>ns. match_exact_rules q cmd = Some ns \<and> m \<in> set ns"
proof -
  from assms(2,3) obtain first rest rule where "cmd = first # rest"
      "rule \<in> set (mm_get (rules_by_program p) first)" "rule_matches rule cmd = Some m"
    by (auto simp: match_exact_rules_def set_map_filter_Some split: list.splits)
  with assms(1) show ?thesis
    by (auto simp: match_exact_rules_def set_map_filter_Some rules_within_def)
qed

lemma exact_match_decision:
  assumes "match_exact_rules p cmd = Some ms" and "m \<in> set ms"
  shows "\<exists>ev. check_with_options env p cmd fallback options = Ok ev \<and> matched_rules ev = ms
    \<and> match_decision m \<le> eval_decision ev"
proof -
  have ne: "ms \<noteq> []" using assms(2) by auto
  with assms show ?thesis
    by (simp add: check_defs matches_for_exact [OF assms(1) ne] from_matches_Ok)
qed

lemma rules_within_decision:
  assumes "rules_within p q" and "match_exact_rules p cmd = Some ms" and "m \<in> set ms"
  shows "\<exists>ev. check_with_options env q cmd fallback options = Ok ev \<and> match_decision m \<le> eval_decision ev"
proof -
  obtain ns where "match_exact_rules q cmd = Some ns" "m \<in> set ns"
    using rules_within_exact [OF assms] by blast
  from exact_match_decision [OF this] show ?thesis by blast
qed

lemma rules_within_add_prefix: "add_prefix_rule pre d p = Ok q \<Longrightarrow> rules_within p q"
  by (auto simp: add_prefix_rule_def rules_within_def mm_get_insert split: list.splits)

lemma rules_within_add_network: "add_network_rule host protocol d j p = Ok q \<Longrightarrow> rules_within p q"
  by (auto simp: add_network_rule_def rules_within_def split: result.splits if_splits)

lemma mm_get_merge:
  "policy_ok overlay \<Longrightarrow> mm_get (rules_by_program (merge_overlay p overlay)) k
     = mm_get (rules_by_program p) k @ mm_get (rules_by_program overlay) k"
  by (simp add: merge_overlay_def mm_get_extend policy_ok_def)

lemma rules_within_merge:
  assumes "policy_ok overlay"
  shows "rules_within overlay (merge_overlay p overlay)"
    and "rules_within p q \<Longrightarrow> rules_within (merge_overlay p overlay) (merge_overlay q overlay)"
  using mm_get_merge [OF assms] by (auto simp: rules_within_def)

section \<open>Files only add rules\<close>

lemma add_rules_within:
  "rules_within (builder_policy b) (builder_policy (foldl (\<lambda>b rule. builder_add_rule rule b) b rules))"
proof (induction rules arbitrary: b)
  case (Cons rule rules)
  have "rules_within (builder_policy b) (builder_policy (builder_add_rule rule b))"
    by (auto simp: rules_within_def builder_add_rule_def mm_get_insert)
  with Cons [of "builder_add_rule rule b"] show ?case by (auto intro: rules_within_trans)
qed simp

lemma run_call_within:
  assumes "run_call shlex env c b = Ok b'"
  shows "rules_within (builder_policy b) (builder_policy b')"
proof (cases c)
  case (CallPrefixRule pattern d ms nms j)
  then obtain rules ms' nms' where
    "b' = foldl (\<lambda>b rule. builder_add_rule rule b) (add_pending_example_validation rules ms' nms' b) rules"
    using assms by (auto simp: prefix_rule_builtin_def Let_def split: result.splits)
  with add_rules_within [of "add_pending_example_validation rules ms' nms' b" rules] show ?thesis
    by (simp add: add_pending_example_validation_def)
next
  case (CallNetworkRule host protocol d j)
  with assms show ?thesis
    by (auto simp: network_rule_builtin_def builder_add_network_rule_def rules_within_def split: result.splits)
next
  case (CallHostExecutable name vs)
  with assms show ?thesis
    by (auto simp: host_executable_builtin_def builder_add_host_executable_def set_host_executable_paths_def
        rules_within_def split: result.splits)
qed

lemma run_calls_within: "rules_within (builder_policy b) (builder_policy (snd (run_calls shlex env cs final_error b)))"
  by (induction cs arbitrary: b)
     (auto split: option.splits result.splits dest!: run_call_within intro: rules_within_trans)

lemma parse_within:
  "rules_within (builder_policy b) (builder_policy (snd (policy_parser_parse starlark shlex env ident contents b)))"
proof (cases "starlark ident contents")
  case (Calls cs final_error)
  have "snd (policy_parser_parse starlark shlex env ident contents b) = snd (run_calls shlex env cs final_error b)"
    using Calls by (auto simp: policy_parser_parse_def Let_def split: prod.splits result.splits)
  with run_calls_within show ?thesis by simp
qed (simp add: policy_parser_parse_def)

lemma parse_policy_files_within:
  "parse_policy_files starlark shlex env d ps b = Ok b' \<Longrightarrow> rules_within (builder_policy b) (builder_policy b')"
proof (induction ps arbitrary: b)
  case (Cons p ps)
  from Cons.prems obtain contents b1 where
    "policy_parser_parse starlark shlex env (display p) contents b = (Ok (), b1)"
    "parse_policy_files starlark shlex env d ps b1 = Ok b'"
    by (auto split: result.splits prod.splits)
  with Cons.IH parse_within [of b starlark shlex env "display p" contents] show ?case
    by (auto intro: rules_within_trans)
qed simp

lemma parse_policy_files_ok:
  "parse_policy_files starlark shlex env d ps b = Ok b' \<Longrightarrow> builder_ok b \<Longrightarrow> builder_ok b'"
proof (induction ps arbitrary: b)
  case (Cons p ps)
  from Cons.prems(1) obtain contents b1 where
    "policy_parser_parse starlark shlex env (display p) contents b = (Ok (), b1)"
    "parse_policy_files starlark shlex env d ps b1 = Ok b'"
    by (auto split: result.splits prod.splits)
  with Cons.IH Cons.prems(2) parse_ok [of b starlark shlex env "display p" contents] show ?case by auto
qed simp

lemma parse_policy_files_append:
  "parse_policy_files starlark shlex env d (ps @ qs) b =
     (case parse_policy_files starlark shlex env d ps b of
        Err e \<Rightarrow> Err e
      | Ok b' \<Rightarrow> parse_policy_files starlark shlex env d qs b')"
  by (induction ps arbitrary: b) (auto split: result.splits prod.splits)

lemma layer_policy_paths_append:
  "layer_policy_paths home d ignored (ls @ hs) = Ok ps \<Longrightarrow>
   \<exists>ps1 ps2. layer_policy_paths home d ignored ls = Ok ps1 \<and> ps = ps1 @ ps2"
proof (induction ls arbitrary: ps)
  case (Cons layer ls)
  then show ?case by (fastforce split: if_splits option.splits result.splits)
qed simp

section \<open>Properties\<close>

text \<open>
  An example: a user layer whose file forbids \<^verbatim>\<open>rm\<close>, a project layer whose file allows it, and the managed
  rules of \<open>sample_requirements\<close>; file contents stand for programs of the rules language.
\<close>

definition word_rule :: "ustr \<Rightarrow> ustr \<Rightarrow> builtin_call" where
  "word_rule program d = CallPrefixRule [SStr program] (Some d) None None None"

definition files_starlark :: "ustr \<Rightarrow> ustr \<Rightarrow> star_program" where
  "files_starlark ident contents =
     (if contents = lit ''forbid'' then Calls [word_rule (lit ''rm'') (lit ''forbidden'')] None
      else if contents = lit ''allow'' then Calls [word_rule (lit ''rm'') (lit ''allow'')] None
      else SyntaxError (lit ''parse error''))"

abbreviation sample_home :: path where "sample_home \<equiv> [RootDir, Normal (lit ''h'')]"
abbreviation sample_project :: path where "sample_project \<equiv> [RootDir, Normal (lit ''p'')]"

definition rules_disk :: "ustr \<Rightarrow> disk" where
  "rules_disk contents =
     [(sample_home, Dir), (sample_home @ [Normal (lit ''rules'')], Dir),
      (sample_home @ [Normal (lit ''rules''), Normal (lit ''b.rules'')], File (into_bytes (lit ''forbid''))),
      (sample_home @ [Normal (lit ''rules''), Normal (lit ''a.rules'')], File (into_bytes (lit ''forbid''))),
      (sample_home @ [Normal (lit ''rules''), Normal (lit ''c.txt'')], File []),
      (sample_project, Dir), (sample_project @ [Normal (lit ''rules'')], Dir),
      (sample_project @ [Normal (lit ''rules''), Normal (lit ''x.rules'')], File (into_bytes contents))]"

lemma rules_disk_wf: "wf_disk (rules_disk contents)"
  by (simp add: rules_disk_def wf_disk_def lookup_def absolute_path_def name_ok_def dot_def dotdot_def)

definition managed_policy :: policy where
  "managed_policy = (case to_policy sample_requirements of Ok p \<Rightarrow> p | Err _ \<Rightarrow> policy_empty)"

definition user_stack :: "unit exec_config_stack" where
  "user_stack =
     \<lparr>stack_layers = [layer_new (\<lambda>_. []) (User (sample_home @ [Normal (lit ''config.toml'')])) (TTable [])],
      user_layer_index = Some 0, requirements = \<lparr>req_exec_policy = Some managed_policy\<rparr>, requirements_toml = (),
      ignore_user_and_project_exec_policy_rules = False\<rparr>"

definition project_layer :: config_layer_entry where
  "project_layer = layer_new (\<lambda>_. []) (Project sample_project) (TTable [])"

text \<open>
  The rules files of a directory are its regular files with the extension \<^verbatim>\<open>rules\<close>, all of
  them, each once, in the order of their names; a directory that does not exist has none.
\<close>

theorem collect_policy_files_exact:
  assumes "wf_disk d" and "absolute_path dir" and "collect_policy_files d dir = Ok ps"
  shows "sorted (map (\<lambda>q. component_str (last q)) ps) \<and> distinct ps
    \<and> set ps = {q. butlast q = dir \<and> path_extension q = Some RULE_EXTENSION \<and> (\<exists>bytes. lookup d q = Some (File bytes))}"
proof -
  have dir: "dir \<noteq> []" using assms(2) by (auto simp: absolute_path_def)
  have child: "q \<in> set (children d dir) \<longleftrightarrow> butlast q = dir \<and> lookup d q \<noteq> None" for q
    using dir by (auto simp: children_def lookup_def map_of_eq_None_iff simp del: not_None_eq)
  show ?thesis
  proof (cases "std_metadata d dir")
    case (Err e)
    then have "lookup d dir \<noteq> Some Dir"
      using std_metadata_Ok [OF assms(1,2), of Dir] by (metis result.distinct(1))
    then have "lookup d q = None" if "butlast q = dir" for q
      using wf_disk_parent [OF assms(1), of q] that dir by (cases "lookup d q") (auto simp: lookup_def split: if_splits)
    moreover have "ps = []" using assms(3) Err by (auto simp: collect_policy_files_def split: if_splits)
    ultimately show ?thesis by auto
  next
    case (Ok n)
    with assms(3) have n: "n = Dir" and ps: "ps = sort_key (\<lambda>q. component_str (last q))
        (filter (\<lambda>q. path_extension q = Some RULE_EXTENSION \<and> lookup d q \<noteq> Some Dir) (children d dir))"
      by (auto simp: collect_policy_files_def split: node.splits)
    have "(lookup d q \<noteq> None \<and> lookup d q \<noteq> Some Dir) \<longleftrightarrow> (\<exists>bytes. lookup d q = Some (File bytes))" for q
      by (metis node.exhaust node.distinct(1) not_None_eq option.inject)
    then have "set ps = {q. butlast q = dir \<and> path_extension q = Some RULE_EXTENSION \<and> (\<exists>bytes. lookup d q = Some (File bytes))}"
      unfolding ps set_sort set_filter by (auto simp: child)
    moreover have "distinct ps" unfolding ps distinct_sort by (simp add: children_def)
    ultimately show ?thesis unfolding ps by simp
  qed
qed

theorem collect_policy_files_exact_witness:
  "\<exists>ps. collect_policy_files (rules_disk []) (sample_home @ [Normal (lit ''rules'')]) = Ok ps \<and> distinct ps
     \<and> set ps = {sample_home @ [Normal (lit ''rules''), Normal (lit ''a.rules'')],
         sample_home @ [Normal (lit ''rules''), Normal (lit ''b.rules'')]}"
proof -
  let ?dir = "sample_home @ [Normal (lit ''rules'')]"
  let ?a = "?dir @ [Normal (lit ''a.rules'')]" and ?b = "?dir @ [Normal (lit ''b.rules'')]"
  have run: "collect_policy_files (rules_disk []) ?dir = Ok [?a, ?b]" by code_simp
  have abs: "absolute_path ?dir" by (simp add: absolute_path_def name_ok_def dot_def dotdot_def)
  from collect_policy_files_exact [OF rules_disk_wf abs run] run show ?thesis by simp
qed

text \<open>
  A layer never relaxes what the layers below it say: whatever layers are put on top, the
  decision on a command is at least as strict as each rule of the lower layers that matches it.
\<close>

theorem higher_layers_never_relax:
  assumes low: "load_exec_policy starlark shlex env d stack = Ok p"
    and high: "load_exec_policy starlark shlex env d (stack\<lparr>stack_layers := stack_layers stack @ higher\<rparr>) = Ok q"
    and ok: "pred_option policy_ok (req_exec_policy (requirements stack))"
    and m: "match_exact_rules p cmd = Some ms" "m \<in> set ms"
  shows "\<exists>ev. check_with_options host q cmd fallback options = Ok ev \<and> match_decision m \<le> eval_decision ev"
proof -
  let ?on = "\<lambda>layer. \<not> is_disabled layer"
  let ?paths = "layer_policy_paths (env_home env) d (ignore_user_and_project_exec_policy_rules stack)"
  let ?parse = "parse_policy_files starlark shlex env d"
  let ?merge = "\<lambda>p. case req_exec_policy (requirements stack) of None \<Rightarrow> p | Some r \<Rightarrow> merge_overlay p r"
  obtain ps b where a: "?paths (filter ?on (stack_layers stack)) = Ok ps" "?parse ps builder_new = Ok b"
      "p = ?merge (builder_policy b)"
    using low by (auto simp: load_exec_policy_def get_layers_def builder_build_def split: result.splits option.splits)
  obtain qs b' where c: "?paths (filter ?on (stack_layers stack) @ filter ?on higher) = Ok qs"
      "?parse qs builder_new = Ok b'" "q = ?merge (builder_policy b')"
    using high by (auto simp: load_exec_policy_def get_layers_def builder_build_def split: result.splits option.splits)
  obtain rest where "qs = ps @ rest" using layer_policy_paths_append [OF c(1)] a(1) by auto
  with a(2) c(2) have "?parse rest b = Ok b'" by (simp add: parse_policy_files_append)
  then have "rules_within (builder_policy b) (builder_policy b')" by (rule parse_policy_files_within)
  then have "rules_within p q"
    unfolding a(3) c(3) using ok by (auto simp: rules_within_merge(2) split: option.splits)
  from rules_within_decision [OF this m] show ?thesis .
qed

theorem higher_layers_never_relax_witness:
  "\<exists>q ev. load_exec_policy files_starlark (\<lambda>_. None) no_env (rules_disk (lit ''allow''))
       (user_stack\<lparr>stack_layers := stack_layers user_stack @ [project_layer]\<rparr>) = Ok q
     \<and> check_with_options no_env q [lit ''rm'', lit ''x''] (\<lambda>_. Prompt) True = Ok ev
     \<and> Forbidden \<le> eval_decision ev"
proof -
  let ?load = "load_exec_policy files_starlark (\<lambda>_. None) no_env (rules_disk (lit ''allow''))"
  let ?st = "user_stack\<lparr>stack_layers := stack_layers user_stack @ [project_layer]\<rparr>"
  let ?m = "PrefixRuleMatch [lit ''rm''] Forbidden None None"
  have "(case ?load user_stack of
      Ok p \<Rightarrow> match_exact_rules p [lit ''rm'', lit ''x''] = Some [?m, ?m] | Err _ \<Rightarrow> False)" by code_simp
  then obtain p where p: "?load user_stack = Ok p"
      "match_exact_rules p [lit ''rm'', lit ''x''] = Some [?m, ?m]" by (auto split: result.splits)
  have "is_ok (?load ?st)" by code_simp
  then obtain q where q: "?load ?st = Ok q" by (auto simp: is_ok_iff)
  have "\<exists>r. to_policy sample_requirements = Ok r" by (simp add: is_ok_iff [symmetric]) code_simp
  then have ok: "pred_option policy_ok (req_exec_policy (requirements user_stack))"
    by (auto simp: user_stack_def managed_policy_def dest: to_policy_ok)
  show ?thesis
    using higher_layers_never_relax [OF p(1) q ok p(2), of ?m no_env "\<lambda>_. Prompt" True] q by auto
qed

text \<open>
  A rules file that does not parse takes the managed rules with it: the manager then starts
  with a warning and the empty policy, by which no command has any rule.
\<close>

theorem broken_rules_file_drops_requirements:
  assumes "load_exec_policy starlark shlex env d stack = Err (ParsePolicy path e)"
  shows "load_exec_policy_with_warning starlark shlex env d stack = Ok (policy_empty, Some (ParsePolicy path e))
    \<and> check_with_options host policy_empty cmd fallback options
        = Ok \<lparr>eval_decision = fallback cmd, matched_rules = [HeuristicsRuleMatch cmd (fallback cmd)]\<rparr>"
proof -
  have "matches_for_command_with_options host policy_empty cmd (Some fallback) options
      = [HeuristicsRuleMatch cmd (fallback cmd)]"
    by (auto simp: matches_for_command_with_options_def match_exact_rules_def match_host_executable_rules_def
        policy_empty_def mm_get_def List.map_filter_def Let_def split: list.splits result.splits option.splits)
  with assms show ?thesis
    by (simp add: load_exec_policy_with_warning_def check_with_options_def from_matches_def)
qed

theorem broken_rules_file_drops_requirements_witness:
  "check_with_options no_env managed_policy [lit ''git'', lit ''push''] (\<lambda>_. Allow) False
       = Ok \<lparr>eval_decision = Forbidden, matched_rules = [PrefixRuleMatch [lit ''git'', lit ''push''] Forbidden None None]\<rparr>
   \<and> (\<exists>w. load_exec_policy_with_warning files_starlark (\<lambda>_. None) no_env (rules_disk (lit ''broken''))
       (user_stack\<lparr>stack_layers := stack_layers user_stack @ [project_layer]\<rparr>) = Ok (policy_empty, Some w))
   \<and> check_with_options no_env policy_empty [lit ''git'', lit ''push''] (\<lambda>_. Allow) False
       = Ok \<lparr>eval_decision = Allow, matched_rules = [HeuristicsRuleMatch [lit ''git'', lit ''push''] Allow]\<rparr>"
proof -
  have m: "check_with_options no_env managed_policy [lit ''git'', lit ''push''] (\<lambda>_. Allow) False
      = Ok \<lparr>eval_decision = Forbidden, matched_rules = [PrefixRuleMatch [lit ''git'', lit ''push''] Forbidden None None]\<rparr>"
    by code_simp
  have e: "load_exec_policy files_starlark (\<lambda>_. None) no_env (rules_disk (lit ''broken''))
      (user_stack\<lparr>stack_layers := stack_layers user_stack @ [project_layer]\<rparr>)
      = Err (ParsePolicy (lit ''/p/rules/x.rules'') (Starlark (lit ''parse error'')))" by code_simp
  from broken_rules_file_drops_requirements [OF e, of no_env "[lit ''git'', lit ''push'']" "\<lambda>_. Allow" False] m
  show ?thesis by blast
qed

end
