(* ===== verification/Shell_Parse.thy ===== *)
theory Shell_Parse
  imports Paths "HOL-Library.Multiset"
begin

text \<open>
  Reading shell invocations: the shells (\<^verbatim>\<open>src/shell-command/src/shell_detect.rs\<close>), scripts of plain
  commands and here-documents (\<^verbatim>\<open>bash.rs\<close>), and PowerShell wrappers (\<^verbatim>\<open>powershell.rs\<close>).
  The grammar of the shell is a library: the syntax tree of a script is the result of the parameter
  \<open>bash_tree\<close>, a tree of nodes with a kind, a text and children as the library documents them.
\<close>

section \<open>Shells\<close>

datatype shell_type = ShZsh | ShBash | ShPowerShell | ShSh | ShCmd

lemma split_char_shorter: "s \<in> set (split_char c p) \<Longrightarrow> s = p \<or> length s < length p"
proof (induction p arbitrary: s)
  case (Cons x p)
  obtain q qs where q: "split_char c p = q # qs" by (meson list.exhaust split_char_nonempty)
  show ?case
  proof (cases "x = c")
    case True
    then show ?thesis using Cons by (auto simp: less_Suc_eq)
  next
    case False
    with Cons.prems q consider "s = x # q" | "s \<in> set qs" by auto
    then show ?thesis using Cons.IH [of q] Cons.IH [of s] q by cases (auto simp: less_Suc_eq)
  qed
qed simp

lemma path_file_name_shorter:
  assumes "path_file_name (components p) = Some n"
  shows "n = p \<or> length n < length p"
proof -
  have "Normal n \<in> set (components p)"
  proof -
    have "components p \<noteq> []" "last (components p) = Normal n"
      using assms by (auto simp: path_file_name_def split: if_splits component.splits)
    then show ?thesis using last_in_set by metis
  qed
  then have "n \<in> set (split_char slash p)"
    by (auto simp: components_def segment_component_def Let_def split: if_splits)
  then show ?thesis by (rule split_char_shorter)
qed

lemma name_stem_shorter: "name_stem n = n \<or> length (name_stem n) < length n"
proof -
  have "length (drop (Suc k) (rev n)) < length n" if "n \<noteq> []" for k using that by (cases n) auto
  then show ?thesis by (cases "n = []") (auto simp: name_stem_def Let_def)
qed

lemma file_stem_shorter:
  assumes "file_stem p = Some n" and "components n \<noteq> components p"
  shows "length n < length p"
proof -
  from assms(1) obtain m where m: "path_file_name (components p) = Some m" "n = name_stem m"
    by (auto simp: file_stem_def)
  with assms(2) path_file_name_shorter [OF m(1)] name_stem_shorter [of m] show ?thesis by auto
qed

text \<open>A shell is recognised by its name, or by the stem of its file name; \<^verbatim>\<open>Path::eq\<close> compares components.\<close>

function detect_shell_type :: "ustr \<Rightarrow> shell_type option" where
  "detect_shell_type shell_path =
     (if shell_path = lit ''zsh'' then Some ShZsh
      else if shell_path = lit ''sh'' then Some ShSh
      else if shell_path = lit ''cmd'' then Some ShCmd
      else if shell_path = lit ''bash'' then Some ShBash
      else if shell_path = lit ''pwsh'' then Some ShPowerShell
      else if shell_path = lit ''powershell'' then Some ShPowerShell
      else (case file_stem shell_path of
              Some shell_name \<Rightarrow>
                if components shell_name \<noteq> components shell_path then detect_shell_type shell_name else None
            | None \<Rightarrow> None))"
  by pat_completeness auto
termination by (relation "measure length") (auto intro: file_stem_shorter)

declare detect_shell_type.simps [simp del]

section \<open>Syntax trees\<close>

datatype ts_node =
  TsNode (ts_kind: ustr) (ts_named: bool) (ts_start: nat) (ts_text: "ustr option") (ts_children: "ts_node list")

record ts_tree =
  root_node :: ts_node
  has_error :: bool

definition named_children :: "ts_node \<Rightarrow> ts_node list" where
  "named_children n = filter ts_named (ts_children n)"

definition ALLOWED_KINDS :: "ustr list" where
  "ALLOWED_KINDS = [lit ''program'', lit ''list'', lit ''pipeline'', lit ''command'', lit ''command_name'', lit ''word'',
     lit ''string'', lit ''string_content'', lit ''raw_string'', lit ''number'', lit ''concatenation'']"

definition ALLOWED_PUNCT_TOKENS :: "ustr list" where
  "ALLOWED_PUNCT_TOKENS = [lit ''&&'', lit ''||'', lit '';'', lit ''|'', [34], [39]]"

text \<open>The checks on one node in the walk over a script of plain commands.\<close>

definition node_allowed :: "ts_node \<Rightarrow> bool" where
  "node_allowed n =
     (let kind = ts_kind n
      in if ts_named n then kind \<in> set ALLOWED_KINDS
         else \<not> (list_ex (\<lambda>c. c \<in> set (lit ''&;|'')) kind \<and> kind \<notin> set ALLOWED_PUNCT_TOKENS)
              \<and> (kind \<in> set ALLOWED_PUNCT_TOKENS \<or> trim kind = []))"

lemma size_children: "sum_list (map size (rev (ts_children n))) < size n"
proof -
  have "sum_list (map size xs) \<le> size_list size xs" for xs :: "ts_node list"
    by (induction xs) auto
  moreover have "size_list size (ts_children n) < size n" by (cases n) auto
  ultimately show ?thesis
    by (metis le_less_trans rev_map sum_list_rev)
qed

text \<open>The walk with its stack, whose top is the head of the list: children are pushed in order.\<close>

function command_nodes_loop :: "ts_node list \<Rightarrow> ts_node list \<Rightarrow> ts_node list option" where
  "command_nodes_loop [] command_nodes = Some command_nodes"
| "command_nodes_loop (node # stack) command_nodes =
     (if \<not> node_allowed node then None
      else command_nodes_loop (rev (ts_children node) @ stack)
             (if ts_named node \<and> ts_kind node = lit ''command'' then command_nodes @ [node] else command_nodes))"
  by pat_completeness auto
termination
  by (relation "measure (\<lambda>(stack, _). sum_list (map size stack))") (use size_children in auto)

definition parse_double_quoted_string :: "ts_node \<Rightarrow> ustr option" where
  "parse_double_quoted_string n =
     (if ts_kind n \<noteq> lit ''string'' then None
      else if list_ex (\<lambda>part. ts_kind part \<noteq> lit ''string_content'') (named_children n) then None
      else case ts_text n of
             None \<Rightarrow> None
           | Some raw \<Rightarrow>
               (case strip_prefix raw [34] of None \<Rightarrow> None | Some rest \<Rightarrow> strip_suffix rest [34]))"

definition parse_raw_string :: "ts_node \<Rightarrow> ustr option" where
  "parse_raw_string n =
     (if ts_kind n \<noteq> lit ''raw_string'' then None
      else case ts_text n of
             None \<Rightarrow> None
           | Some raw \<Rightarrow>
               (case strip_prefix raw [39] of None \<Rightarrow> None | Some rest \<Rightarrow> strip_suffix rest [39]))"

text \<open>One part of a concatenation and one argument of a plain command.\<close>

definition concatenation_part :: "ts_node \<Rightarrow> ustr option" where
  "concatenation_part part =
     (if ts_kind part \<in> {lit ''word'', lit ''number''} then ts_text part
      else if ts_kind part = lit ''string'' then parse_double_quoted_string part
      else if ts_kind part = lit ''raw_string'' then parse_raw_string part
      else None)"

definition plain_word :: "ts_node \<Rightarrow> ustr option" where
  "plain_word child =
     (if ts_kind child = lit ''command_name'' then
        (case named_children child of
           [] \<Rightarrow> None
         | word_node # _ \<Rightarrow> if ts_kind word_node \<noteq> lit ''word'' then None else ts_text word_node)
      else if ts_kind child \<in> {lit ''word'', lit ''number''} then ts_text child
      else if ts_kind child = lit ''string'' then parse_double_quoted_string child
      else if ts_kind child = lit ''raw_string'' then parse_raw_string child
      else if ts_kind child = lit ''concatenation'' then
        (case those (map concatenation_part (named_children child)) of
           None \<Rightarrow> None
         | Some parts \<Rightarrow> if concat parts = [] then None else Some (concat parts))
      else None)"

definition parse_plain_command_from_node :: "ts_node \<Rightarrow> ustr list option" where
  "parse_plain_command_from_node cmd =
     (if ts_kind cmd \<noteq> lit ''command'' then None else those (map plain_word (named_children cmd)))"

definition try_parse_word_only_commands_sequence :: "ts_tree \<Rightarrow> ustr list list option" where
  "try_parse_word_only_commands_sequence tree =
     (if has_error tree then None
      else case command_nodes_loop [root_node tree] [] of
             None \<Rightarrow> None
           | Some command_nodes \<Rightarrow>
               those (map parse_plain_command_from_node (sort_key ts_start command_nodes)))"

definition extract_bash_command :: "ustr list \<Rightarrow> (ustr \<times> ustr) option" where
  "extract_bash_command command =
     (case command of
        [shell, flag, script] \<Rightarrow>
          if flag \<notin> {lit ''-lc'', lit ''-c''} \<or> detect_shell_type shell \<notin> {Some ShZsh, Some ShBash, Some ShSh}
          then None else Some (shell, script)
      | _ \<Rightarrow> None)"

definition parse_shell_lc_plain_commands :: "(ustr \<Rightarrow> ts_tree option) \<Rightarrow> ustr list \<Rightarrow> ustr list list option" where
  "parse_shell_lc_plain_commands bash_tree command =
     (case extract_bash_command command of
        None \<Rightarrow> None
      | Some (_, script) \<Rightarrow>
          (case bash_tree script of
             None \<Rightarrow> None
           | Some tree \<Rightarrow> try_parse_word_only_commands_sequence tree))"

section \<open>Here-documents\<close>

function find_single_command_loop :: "ts_node list \<Rightarrow> ts_node option \<Rightarrow> ts_node option" where
  "find_single_command_loop [] single_command = single_command"
| "find_single_command_loop (node # stack) single_command =
     (if ts_kind node = lit ''command'' then
        (if single_command \<noteq> None then None
         else find_single_command_loop (rev (named_children node) @ stack) (Some node))
      else find_single_command_loop (rev (named_children node) @ stack) single_command)"
  by pat_completeness auto

lemma size_named_children: "sum_list (map size (rev (named_children n))) < size n"
proof -
  have "sum_list (map size (filter f xs)) \<le> sum_list (map size xs)" for xs :: "ts_node list" and f
    by (induction xs) auto
  then show ?thesis using size_children [of n]
    by (simp add: named_children_def rev_filter) (metis le_less_trans rev_filter)
qed

termination find_single_command_loop
  by (relation "measure (\<lambda>(stack, _). sum_list (map size stack))") (use size_named_children in auto)

definition find_single_command_node :: "ts_node \<Rightarrow> ts_node option" where
  "find_single_command_node root = find_single_command_loop [root] None"

function has_named_descendant_loop :: "ts_node list \<Rightarrow> ustr \<Rightarrow> bool" where
  "has_named_descendant_loop [] kind = False"
| "has_named_descendant_loop (current # stack) kind =
     (if ts_kind current = kind then True
      else has_named_descendant_loop (rev (named_children current) @ stack) kind)"
  by pat_completeness auto
termination
  by (relation "measure (\<lambda>(stack, _). sum_list (map size stack))") (use size_named_children in auto)

definition has_named_descendant_kind :: "ts_node \<Rightarrow> ustr \<Rightarrow> bool" where
  "has_named_descendant_kind n kind = has_named_descendant_loop [n] kind"

definition is_literal_word_or_number :: "ts_node \<Rightarrow> bool" where
  "is_literal_word_or_number n \<longleftrightarrow> ts_kind n \<in> {lit ''word'', lit ''number''} \<and> named_children n = []"

definition is_allowed_heredoc_attachment_kind :: "ustr \<Rightarrow> bool" where
  "is_allowed_heredoc_attachment_kind kind \<longleftrightarrow>
     kind \<in> set [lit ''heredoc_body'', lit ''simple_heredoc_body'', lit ''heredoc_redirect'', lit ''herestring_redirect'',
       lit ''file_redirect'', lit ''redirected_statement'']"

text \<open>One child of the command: a word, nothing, or a reason to give up.\<close>

definition heredoc_child :: "ts_node \<Rightarrow> ustr list option" where
  "heredoc_child child =
     (if ts_kind child = lit ''command_name'' then
        (case named_children child of
           [] \<Rightarrow> None
         | word_node # _ \<Rightarrow>
             if ts_kind word_node \<notin> {lit ''word'', lit ''number''} \<or> \<not> is_literal_word_or_number word_node then None
             else map_option (\<lambda>w. [w]) (ts_text word_node))
      else if ts_kind child \<in> {lit ''word'', lit ''number''} then
        (if \<not> is_literal_word_or_number child then None else map_option (\<lambda>w. [w]) (ts_text child))
      else if ts_kind child \<in> {lit ''variable_assignment'', lit ''comment''} then Some []
      else if is_allowed_heredoc_attachment_kind (ts_kind child) then Some []
      else None)"

definition parse_heredoc_command_words :: "ts_node \<Rightarrow> ustr list option" where
  "parse_heredoc_command_words cmd =
     (if ts_kind cmd \<noteq> lit ''command'' then None
      else case those (map heredoc_child (named_children cmd)) of
             None \<Rightarrow> None
           | Some ws \<Rightarrow> if concat ws = [] then None else Some (concat ws))"

definition parse_shell_lc_single_command_prefix :: "(ustr \<Rightarrow> ts_tree option) \<Rightarrow> ustr list \<Rightarrow> ustr list option" where
  "parse_shell_lc_single_command_prefix bash_tree command =
     (case extract_bash_command command of
        None \<Rightarrow> None
      | Some (_, script) \<Rightarrow>
          (case bash_tree script of
             None \<Rightarrow> None
           | Some tree \<Rightarrow>
               if has_error tree then None
               else if \<not> has_named_descendant_kind (root_node tree) (lit ''heredoc_redirect'') then None
               else case find_single_command_node (root_node tree) of
                      None \<Rightarrow> None
                    | Some command_node \<Rightarrow> parse_heredoc_command_words command_node))"

section \<open>PowerShell\<close>

definition POWERSHELL_FLAGS :: "ustr list" where
  "POWERSHELL_FLAGS = [lit ''-nologo'', lit ''-noprofile'', lit ''-command'', lit ''-c'']"

definition UTF8_OUTPUT_PREFIX :: ustr where
  "UTF8_OUTPUT_PREFIX = lit ''[Console]::OutputEncoding=[System.Text.Encoding]::UTF8;'' @ [newline]"

text \<open>The loop over the flags; a flag is only looked at when something follows it.\<close>

fun powershell_script :: "ustr list \<Rightarrow> ustr option" where
  "powershell_script (flag # script # rest) =
     (if to_ascii_lowercase flag \<notin> set POWERSHELL_FLAGS then None
      else if eq_ignore_ascii_case flag (lit ''-Command'') \<or> eq_ignore_ascii_case flag (lit ''-c'') then Some script
      else powershell_script (script # rest))"
| "powershell_script _ = None"

definition extract_powershell_command :: "ustr list \<Rightarrow> (ustr \<times> ustr) option" where
  "extract_powershell_command command =
     (if length command < 3 then None
      else if detect_shell_type (hd command) \<noteq> Some ShPowerShell then None
      else map_option (\<lambda>script. (hd command, script)) (powershell_script (tl command)))"

definition prefix_powershell_script_with_utf8 :: "ustr list \<Rightarrow> ustr list" where
  "prefix_powershell_script_with_utf8 command =
     (case extract_powershell_command command of
        None \<Rightarrow> command
      | Some (_, script) \<Rightarrow>
          butlast command @ [if prefix UTF8_OUTPUT_PREFIX (trim_start script) then script else UTF8_OUTPUT_PREFIX @ script])"

section \<open>What the walks find\<close>

text \<open>All nodes of a tree, in source order.\<close>

fun ts_nodes :: "ts_node \<Rightarrow> ts_node list" where
  "ts_nodes (TsNode k nm st t cs) = TsNode k nm st t cs # concat (map ts_nodes cs)"

fun ts_named_nodes :: "ts_node \<Rightarrow> ts_node list" where
  "ts_named_nodes (TsNode k nm st t cs) = TsNode k nm st t cs # concat (map ts_named_nodes (filter ts_named cs))"

lemma ts_nodes_unfold: "ts_nodes n = n # concat (map ts_nodes (ts_children n))"
  by (cases n) simp

lemma ts_named_nodes_unfold: "ts_named_nodes n = n # concat (map ts_named_nodes (named_children n))"
  by (cases n) (simp add: named_children_def)

text \<open>The nodes in the order in which a stack visits them.\<close>

fun ts_stack_nodes :: "ts_node \<Rightarrow> ts_node list" where
  "ts_stack_nodes (TsNode k nm st t cs) = TsNode k nm st t cs # concat (rev (map ts_stack_nodes cs))"

lemma ts_stack_nodes_unfold: "ts_stack_nodes n = n # concat (map ts_stack_nodes (rev (ts_children n)))"
  by (cases n) (simp add: rev_map)

lemma mset_concat_map: "mset (concat (map f xs)) = sum_list (map (\<lambda>x. mset (f x)) xs)"
  by (induction xs) auto

lemma mset_concat_rev: "mset (concat (rev xss)) = mset (concat xss)"
  by (induction xss) auto

lemma mset_stack_nodes: "mset (ts_stack_nodes n) = mset (ts_nodes n)"
proof (induction n)
  case (TsNode k nm st t cs)
  then have "map (\<lambda>x. mset (ts_stack_nodes x)) cs = map (\<lambda>x. mset (ts_nodes x)) cs" by simp
  then show ?case by (simp add: mset_concat_rev mset_concat_map del: map_eq_conv)
qed

lemma set_stack_nodes: "set (ts_stack_nodes n) = set (ts_nodes n)"
  by (metis mset_stack_nodes set_mset_mset)

definition is_command_node :: "ts_node \<Rightarrow> bool" where
  "is_command_node n \<longleftrightarrow> ts_named n \<and> ts_kind n = lit ''command''"

lemma command_nodes_loop_visits:
  "command_nodes_loop stack acc =
     (let visited = concat (map ts_stack_nodes stack)
      in if list_all node_allowed visited then Some (acc @ filter is_command_node visited) else None)"
proof (induction stack acc rule: command_nodes_loop.induct)
  case (2 node stack acc)
  then show ?case
    by (cases "node_allowed node")
       (simp_all add: Let_def ts_stack_nodes_unfold [of node] is_command_node_def del: lit_def)
qed simp

lemma sort_key_mset:
  assumes "mset xs = mset ys" and "sorted (map f ys)" and "inj_on f (set ys)"
  shows "sort_key f xs = ys"
proof (rule properties_for_sort_key)
  have eq: "set xs = set ys" using assms(1) by (metis set_mset_mset)
  have one: "filter (\<lambda>x. f k = f x) zs = replicate (count (mset zs) k) k"
    if "set zs = set ys" "k \<in> set ys" for zs k
  proof -
    have "filter (\<lambda>x. f k = f x) zs = filter (\<lambda>x. k = x) zs"
      using that assms(3) by (intro filter_cong) (auto dest: inj_onD)
    then show ?thesis by (simp add: replicate_count_mset_eq_filter_eq)
  qed
  show "filter (\<lambda>x. f k = f x) ys = filter (\<lambda>x. f k = f x) xs" if "k \<in> set ys" for k
    using one [OF refl that] one [OF eq that] assms(1) by simp
qed (use assms in simp_all)

text \<open>
  C23: The walk gives a result exactly when the tree of the script has no error, every node of it is an allowed
  one and every command consists of plain words.  The result is then the words of the commands of the script, in the
  order of the source: the stack and the sort do not lose, repeat or reorder a command.  The hypotheses say that the
  positions of the commands grow along the source and that two commands do not start at the same byte.
\<close>
theorem word_only_commands_exact:
  assumes "sorted (map ts_start (filter is_command_node (ts_nodes (root_node tree))))"
    and "distinct (map ts_start (filter is_command_node (ts_nodes (root_node tree))))"
  shows "try_parse_word_only_commands_sequence tree =
    (if \<not> has_error tree \<and> list_all node_allowed (ts_nodes (root_node tree))
     then those (map parse_plain_command_from_node (filter is_command_node (ts_nodes (root_node tree))))
     else None)"
proof -
  let ?root = "root_node tree"
  have "sort_key ts_start (filter is_command_node (ts_stack_nodes ?root)) = filter is_command_node (ts_nodes ?root)"
    using assms by (intro sort_key_mset) (auto simp: mset_stack_nodes distinct_map mset_filter)
  moreover have "list_all node_allowed (ts_stack_nodes ?root) = list_all node_allowed (ts_nodes ?root)"
    by (simp add: list_all_iff set_stack_nodes)
  ultimately show ?thesis
    by (simp add: try_parse_word_only_commands_sequence_def command_nodes_loop_visits)
qed

text \<open>The tree of the script \<^verbatim>\<open>ls -l | wc\<close>.\<close>

definition ls_wc_tree :: ts_tree where
  "ls_wc_tree =
     (let w = (\<lambda>k st t. TsNode (lit k) True st (Some (lit t)) []);
          name = (\<lambda>st t. TsNode (lit ''command_name'') True st (Some (lit t)) [w ''word'' st t]);
          ls = TsNode (lit ''command'') True 0 (Some (lit ''ls -l'')) [name 0 ''ls'', w ''word'' 3 ''-l''];
          wc = TsNode (lit ''command'') True 8 (Some (lit ''wc'')) [name 8 ''wc''];
          bar = TsNode (lit ''|'') False 6 (Some (lit ''|'')) []
      in \<lparr> root_node = TsNode (lit ''program'') True 0 (Some (lit ''ls -l | wc''))
             [TsNode (lit ''pipeline'') True 0 (Some (lit ''ls -l | wc'')) [ls, bar, wc]], has_error = False \<rparr>)"

theorem word_only_commands_exact_witness:
  "try_parse_word_only_commands_sequence ls_wc_tree = Some [[lit ''ls'', lit ''-l''], [lit ''wc'']]"
proof -
  have a: "sorted (map ts_start (filter is_command_node (ts_nodes (root_node ls_wc_tree))))"
    and b: "distinct (map ts_start (filter is_command_node (ts_nodes (root_node ls_wc_tree))))"
    and c: "(if \<not> has_error ls_wc_tree \<and> list_all node_allowed (ts_nodes (root_node ls_wc_tree))
     then those (map parse_plain_command_from_node (filter is_command_node (ts_nodes (root_node ls_wc_tree))))
     else None) = Some [[lit ''ls'', lit ''-l''], [lit ''wc'']]"
    by code_simp+
  show ?thesis unfolding word_only_commands_exact [OF a b] by (rule c)
qed

subsection \<open>The single command of a here-document\<close>

fun ts_named_stack_nodes :: "ts_node \<Rightarrow> ts_node list" where
  "ts_named_stack_nodes (TsNode k nm st t cs) =
     TsNode k nm st t cs # concat (rev (map ts_named_stack_nodes (filter ts_named cs)))"

lemma ts_named_stack_nodes_unfold:
  "ts_named_stack_nodes n = n # concat (map ts_named_stack_nodes (rev (named_children n)))"
  by (cases n) (simp add: rev_map named_children_def)

lemma mset_named_stack_nodes: "mset (ts_named_stack_nodes n) = mset (ts_named_nodes n)"
proof (induction n)
  case (TsNode k nm st t cs)
  then have "map (\<lambda>x. mset (ts_named_stack_nodes x)) (filter ts_named cs)
      = map (\<lambda>x. mset (ts_named_nodes x)) (filter ts_named cs)" by simp
  then show ?case by (simp add: mset_concat_rev mset_concat_map del: map_eq_conv)
qed

lemma set_named_stack_nodes: "set (ts_named_stack_nodes n) = set (ts_named_nodes n)"
  by (metis mset_named_stack_nodes set_mset_mset)

definition kind_is :: "ustr \<Rightarrow> ts_node \<Rightarrow> bool" where
  "kind_is k n \<longleftrightarrow> ts_kind n = k"

lemma has_named_descendant_loop_visits:
  "has_named_descendant_loop stack kind = list_ex (kind_is kind) (concat (map ts_named_stack_nodes stack))"
proof (induction stack kind rule: has_named_descendant_loop.induct)
  case (2 current stack kind)
  then show ?case
    by (cases "ts_kind current = kind") (simp_all add: ts_named_stack_nodes_unfold [of current] kind_is_def)
qed simp

lemma has_named_descendant_kind_iff:
  "has_named_descendant_kind n kind = list_ex (kind_is kind) (ts_named_nodes n)"
  by (simp add: has_named_descendant_kind_def has_named_descendant_loop_visits list_ex_iff set_named_stack_nodes)

definition the_single :: "'a list \<Rightarrow> 'a option" where
  "the_single xs = (case xs of [x] \<Rightarrow> Some x | _ \<Rightarrow> None)"

lemma find_single_command_loop_visits:
  "find_single_command_loop stack single =
     (let cs = filter (kind_is (lit ''command'')) (concat (map ts_named_stack_nodes stack))
      in case single of None \<Rightarrow> the_single cs | Some c \<Rightarrow> if cs = [] then Some c else None)"
proof (induction stack single rule: find_single_command_loop.induct)
  case (2 node stack single)
  then show ?case
    by (cases "ts_kind node = lit ''command''")
       (auto simp: Let_def ts_named_stack_nodes_unfold [of node] kind_is_def the_single_def
          simp del: lit_def split: option.splits list.splits)
qed (simp add: the_single_def split: option.splits)

lemma the_single_mset: "mset xs = mset ys \<Longrightarrow> the_single xs = the_single ys"
proof -
  assume m: "mset xs = mset ys"
  then have l: "length xs = length ys" by (metis size_mset)
  show ?thesis
  proof (cases "length ys = 1")
    case True
    with l obtain x y where "xs = [x]" "ys = [y]" by (metis One_nat_def length_0_conv length_Suc_conv)
    with m show ?thesis by simp
  next
    case False
    with l show ?thesis by (auto simp: the_single_def split: list.splits)
  qed
qed

lemma find_single_command_node_iff:
  "find_single_command_node root = the_single (filter (kind_is (lit ''command'')) (ts_named_nodes root))"
  unfolding find_single_command_node_def find_single_command_loop_visits Let_def option.case
  by (rule the_single_mset) (simp add: mset_filter mset_named_stack_nodes)

text \<open>
  A here-document invocation yields a command prefix exactly when the script parses, has a
  here-document, and has one command in all; the prefix is the words of that command, each of them a literal.
\<close>
theorem single_command_prefix_iff:
  "parse_shell_lc_single_command_prefix bash_tree command = Some words \<longleftrightarrow>
     (\<exists>shell script tree cmd. extract_bash_command command = Some (shell, script)
        \<and> bash_tree script = Some tree \<and> \<not> has_error tree
        \<and> list_ex (kind_is (lit ''heredoc_redirect'')) (ts_named_nodes (root_node tree))
        \<and> filter (kind_is (lit ''command'')) (ts_named_nodes (root_node tree)) = [cmd]
        \<and> parse_heredoc_command_words cmd = Some words)"
  by (auto simp: parse_shell_lc_single_command_prefix_def has_named_descendant_kind_iff
      find_single_command_node_iff the_single_def simp del: lit_def
      split: option.splits if_splits prod.splits list.splits)

subsection \<open>PowerShell scripts\<close>

text \<open>The script the flags lead to, seen when the last argument is exchanged.\<close>

lemma powershell_script_snoc:
  assumes "powershell_script (xs @ [y]) = Some s" and "powershell_script xs = None"
  shows "s = y \<and> powershell_script (xs @ [z]) = Some z"
  using assms by (induction xs rule: powershell_script.induct) (auto split: if_splits)

lemma powershell_script_append: "powershell_script xs = Some s \<Longrightarrow> powershell_script (xs @ ys) = Some s"
  by (induction xs rule: powershell_script.induct) (auto split: if_splits)

lemma trim_start_utf8_prefix: "trim_start (UTF8_OUTPUT_PREFIX @ script) = UTF8_OUTPUT_PREFIX @ script"
  by (simp add: UTF8_OUTPUT_PREFIX_def trim_start_def is_whitespace_def)

lemma extract_powershell_snoc:
  "extract_powershell_command (c # xs @ [y]) =
     (if xs = [] \<or> detect_shell_type c \<noteq> Some ShPowerShell then None
      else map_option (Pair c) (powershell_script (xs @ [y])))"
  by (cases xs) (auto simp: extract_powershell_command_def)

text \<open>
  Forcing UTF-8 output is idempotent: a command that already went through it is left as it is.
\<close>
theorem powershell_prefix_idempotent:
  "prefix_powershell_script_with_utf8 (prefix_powershell_script_with_utf8 command)
     = prefix_powershell_script_with_utf8 command"
proof (cases "extract_powershell_command command")
  case None
  then show ?thesis by (simp add: prefix_powershell_script_with_utf8_def)
next
  case (Some r)
  obtain shell script where r: "r = (shell, script)" by (cases r)
  have "length command \<ge> 3" using Some by (simp add: extract_powershell_command_def split: if_splits)
  then obtain c zs where "command = c # zs" "zs \<noteq> []" by (cases command) force+
  then obtain xs y where command: "command = c # xs @ [y]" by (cases zs rule: rev_cases) auto
  let ?s = "if prefix UTF8_OUTPUT_PREFIX (trim_start script) then script else UTF8_OUTPUT_PREFIX @ script"
  have ps: "xs \<noteq> []" "detect_shell_type c = Some ShPowerShell" "powershell_script (xs @ [y]) = Some script"
    using Some r by (auto simp: command extract_powershell_snoc split: if_splits)
  have once: "prefix_powershell_script_with_utf8 command = c # xs @ [?s]"
    using Some r by (simp add: prefix_powershell_script_with_utf8_def command)
  obtain script' where again: "powershell_script (xs @ [?s]) = Some script'"
    "script' = script \<or> script' = ?s"
  proof (cases "powershell_script xs")
    case None
    with that powershell_script_snoc [OF ps(3) None, of ?s] show thesis by blast
  next
    case (Some t)
    with ps(3) powershell_script_append [OF Some] that show thesis by fastforce
  qed
  have "(if prefix UTF8_OUTPUT_PREFIX (trim_start script') then script' else UTF8_OUTPUT_PREFIX @ script') = ?s"
    using again(2) by (auto simp: trim_start_utf8_prefix)
  with again(1) ps show ?thesis
    unfolding once by (simp add: prefix_powershell_script_with_utf8_def extract_powershell_snoc)
qed

text \<open>An argument after the script is replaced, not kept: \<^verbatim>\<open>pwsh -Command echo hi\<close> loses its \<^verbatim>\<open>hi\<close>.\<close>

lemma powershell_prefix_drops_last_argument:
  "prefix_powershell_script_with_utf8 [lit ''pwsh'', lit ''-Command'', lit ''echo'', lit ''hi'']
     = [lit ''pwsh'', lit ''-Command'', lit ''echo'', UTF8_OUTPUT_PREFIX @ lit ''echo'']"
  by code_simp


subsection \<open>Names of shells\<close>

fun shell_names :: "shell_type \<Rightarrow> ustr list" where
  "shell_names ShZsh = [lit ''zsh'']"
| "shell_names ShSh = [lit ''sh'']"
| "shell_names ShCmd = [lit ''cmd'']"
| "shell_names ShBash = [lit ''bash'']"
| "shell_names ShPowerShell = [lit ''pwsh'', lit ''powershell'']"

abbreviation before_dot :: "ustr \<Rightarrow> ustr" where
  "before_dot n \<equiv> takeWhile (\<lambda>c. c \<noteq> 46) n"

lemma file_name_no_slash: "path_file_name (components p) = Some n \<Longrightarrow> slash \<notin> set n"
proof -
  assume a: "path_file_name (components p) = Some n"
  then have "components p \<noteq> []" "last (components p) = Normal n"
    by (auto simp: path_file_name_def split: if_splits component.splits)
  then have "Normal n \<in> set (components p)" using last_in_set by metis
  then have "n \<in> set (split_char slash p)"
    by (auto simp: components_def segment_component_def Let_def split: if_splits)
  then show ?thesis by (rule split_char_pieces)
qed

lemma file_name_of_name:
  assumes "slash \<notin> set s" and "path_file_name (components s) = Some m"
  shows "m = s"
  using assms
  by (auto simp: components_def split_char_free segment_component_def path_file_name_def Let_def
      split: if_splits component.splits)

lemma before_dot_stem:
  assumes "before_dot (name_stem n) \<noteq> []"
  shows "before_dot (name_stem n) = before_dot n" and "set (name_stem n) \<subseteq> set n"
proof -
  let ?after = "takeWhile (\<lambda>c. c \<noteq> 46) (rev n)"
  let ?before = "rev (drop (Suc (length ?after)) (rev n))"
  show "set (name_stem n) \<subseteq> set n"
    by (auto simp: name_stem_def Let_def dest: in_set_dropD)
  show "before_dot (name_stem n) = before_dot n"
  proof (cases "46 \<notin> set n \<or> ?before = []")
    case True
    then show ?thesis by (simp add: name_stem_def Let_def)
  next
    case False
    then have "dropWhile (\<lambda>c. c \<noteq> 46) (rev n) \<noteq> []" by (auto simp: dropWhile_eq_Nil_conv)
    then obtain z zs where d: "dropWhile (\<lambda>c. c \<noteq> 46) (rev n) = z # zs" by (meson list.exhaust)
    then have z: "z = 46" using hd_dropWhile [of "\<lambda>c. c \<noteq> 46" "rev n"] by auto
    have r: "rev n = ?after @ 46 # zs" using takeWhile_dropWhile_id [of "\<lambda>c. c \<noteq> 46" "rev n"] d z by simp
    then have "drop (Suc (length ?after)) (rev n) = zs"
      by (metis append_Cons append_Nil append_assoc append_eq_conv_conj length_append_singleton)
    moreover from r have "n = rev zs @ 46 # rev ?after"
      by (metis rev.simps(2) rev_append rev_rev_ident append_assoc append_Cons append_Nil)
    ultimately have "n = ?before @ 46 # rev ?after" by simp
    moreover have "before_dot (b @ 46 # a) = before_dot b" for a b by (induction b) auto
    ultimately have "before_dot n = before_dot ?before" by metis
    with False show ?thesis by (simp add: name_stem_def Let_def)
  qed
qed

lemma detect_shell_type_names:
  "detect_shell_type p = Some t \<Longrightarrow>
     \<exists>n. path_file_name (components p) = Some n \<and> before_dot n \<in> set (shell_names t)"
proof (induction p rule: detect_shell_type.induct)
  case (1 p)
  consider "p \<in> set [lit ''zsh'', lit ''sh'', lit ''cmd'', lit ''bash'', lit ''pwsh'', lit ''powershell'']"
    | s where "p \<notin> set [lit ''zsh'', lit ''sh'', lit ''cmd'', lit ''bash'', lit ''pwsh'', lit ''powershell'']"
      "file_stem p = Some s" "components s \<noteq> components p" "detect_shell_type s = Some t"
    using 1(2) unfolding detect_shell_type.simps [of p] by (auto split: if_splits option.splits)
  then show ?case
  proof cases
    case 1
    then show ?thesis using \<open>detect_shell_type p = Some t\<close>
      unfolding detect_shell_type.simps [of p]
      by (auto simp: components_def segment_component_def path_file_name_def Let_def dot_def dotdot_def)
  next
    case 2
    then obtain m where m: "path_file_name (components s) = Some m" "before_dot m \<in> set (shell_names t)"
      using 1(1) [OF _ _ _ _ _ _ 2(2) 2(3) 2(4)] by auto
    obtain n where n: "path_file_name (components p) = Some n" "s = name_stem n"
      using 2(2) by (auto simp: file_stem_def)
    have "set s \<subseteq> set n" by (auto simp: n(2) name_stem_def Let_def dest: in_set_dropD)
    then have "slash \<notin> set s" using file_name_no_slash [OF n(1)] by auto
    with m have "m = s" by (intro file_name_of_name)
    moreover have "before_dot m \<noteq> []" using m(2) by (cases t) auto
    ultimately show ?thesis using before_dot_stem(1) [of n] m n by auto
  qed
qed

text \<open>
  Whatever is taken for a shell is one by the name of its file: up to the first dot, the file
  name is a name of the shell of the type returned.
\<close>
theorem detect_shell_type_sound:
  assumes "detect_shell_type shell_path = Some t"
  shows "\<exists>n. path_file_name (components shell_path) = Some n \<and> before_dot n \<in> set (shell_names t)"
  using assms by (rule detect_shell_type_names)

theorem detect_shell_type_sound_witness:
  "\<exists>n. path_file_name (components (lit ''/usr/bin/bash.exe'')) = Some n \<and> before_dot n \<in> set (shell_names ShBash)"
  by (rule detect_shell_type_sound) code_simp

end
