(* ===== verification/Command_Safety.thy ===== *)
theory Command_Safety
  imports Shell_Parse
begin

text \<open>
  Which commands run without asking: \<^verbatim>\<open>src/shell-command/src/command_safety\<close>, with the
  safe list (\<^verbatim>\<open>is_safe_command.rs\<close>), the dangerous ones (\<^verbatim>\<open>is_dangerous_command.rs\<close>) and the
  PowerShell safe list (\<^verbatim>\<open>windows_safe_commands.rs\<close>), for a target other than Windows.
  The parameters are \<open>linux\<close> (the target is Linux), \<open>bash_tree\<close> (the shell grammar) and \<open>ps_ast\<close> (the PowerShell
  parser process, asked for the commands of a script).
\<close>

section \<open>Git options\<close>

definition GIT_VALUE_OPTIONS :: "ustr list" where
  "GIT_VALUE_OPTIONS = [lit ''-C'', lit ''-c'', lit ''--config-env'', lit ''--exec-path'', lit ''--git-dir'',
     lit ''--namespace'', lit ''--super-prefix'', lit ''--work-tree'']"

definition GIT_INLINE_PREFIXES :: "ustr list" where
  "GIT_INLINE_PREFIXES = [lit ''--config-env='', lit ''--exec-path='', lit ''--git-dir='', lit ''--namespace='',
     lit ''--super-prefix='', lit ''--work-tree='']"

definition is_git_global_option_with_value :: "ustr \<Rightarrow> bool" where
  "is_git_global_option_with_value arg \<longleftrightarrow> arg \<in> set GIT_VALUE_OPTIONS"

definition is_git_global_option_with_inline_value :: "ustr \<Rightarrow> bool" where
  "is_git_global_option_with_inline_value arg \<longleftrightarrow>
     list_ex (starts_with arg) GIT_INLINE_PREFIXES
     \<or> ((starts_with arg (lit ''-C'') \<or> starts_with arg (lit ''-c'')) \<and> length arg > 2)"

definition git_global_option_requires_prompt :: "ustr \<Rightarrow> bool" where
  "git_global_option_requires_prompt arg \<longleftrightarrow>
     arg \<in> set GIT_VALUE_OPTIONS
     \<or> ((starts_with arg (lit ''-C'') \<or> starts_with arg (lit ''-c'')) \<and> length arg > 2)
     \<or> list_ex (starts_with arg) GIT_INLINE_PREFIXES"

definition executable_name_lookup_key :: "ustr \<Rightarrow> ustr option" where
  "executable_name_lookup_key raw = path_file_name (components raw)"

text \<open>The scan over the arguments after the executable, with the index of the next one.\<close>

fun git_subcommand_loop :: "ustr list \<Rightarrow> nat \<Rightarrow> bool \<Rightarrow> ustr list \<Rightarrow> (nat \<times> ustr) option" where
  "git_subcommand_loop subcommands idx skip_next [] = None"
| "git_subcommand_loop subcommands idx skip_next (arg # args) =
     (if skip_next then git_subcommand_loop subcommands (Suc idx) False args
      else if is_git_global_option_with_inline_value arg then git_subcommand_loop subcommands (Suc idx) False args
      else if is_git_global_option_with_value arg then git_subcommand_loop subcommands (Suc idx) True args
      else if arg = lit ''--'' \<or> starts_with arg (lit ''-'') then git_subcommand_loop subcommands (Suc idx) False args
      else if arg \<in> set subcommands then Some (idx, arg)
      else None)"

definition find_git_subcommand :: "ustr list \<Rightarrow> ustr list \<Rightarrow> (nat \<times> ustr) option" where
  "find_git_subcommand command subcommands =
     (case command of
        [] \<Rightarrow> None
      | cmd0 # args \<Rightarrow>
          if executable_name_lookup_key cmd0 \<noteq> Some (lit ''git'') then None
          else git_subcommand_loop subcommands 1 False args)"

section \<open>Dangerous commands\<close>

fun is_dangerous_to_call_with_exec :: "ustr list \<Rightarrow> bool" where
  "is_dangerous_to_call_with_exec [] \<longleftrightarrow> False"
| "is_dangerous_to_call_with_exec (cmd0 # args) \<longleftrightarrow>
     (if cmd0 = lit ''rm'' then (case args of [] \<Rightarrow> False | a # _ \<Rightarrow> a \<in> {lit ''-f'', lit ''-rf''})
      else if cmd0 = lit ''sudo'' then is_dangerous_to_call_with_exec args
      else False)"

definition command_might_be_dangerous :: "(ustr \<Rightarrow> ts_tree option) \<Rightarrow> ustr list \<Rightarrow> bool" where
  "command_might_be_dangerous bash_tree command =
     (if is_dangerous_to_call_with_exec command then True
      else case parse_shell_lc_plain_commands bash_tree command of
             Some all_commands \<Rightarrow> list_ex is_dangerous_to_call_with_exec all_commands
           | None \<Rightarrow> False)"

section \<open>Safe commands\<close>

definition UNSAFE_GIT_FLAGS :: "ustr list" where
  "UNSAFE_GIT_FLAGS = [lit ''--output'', lit ''--ext-diff'', lit ''--textconv'', lit ''--exec'', lit ''--paginate'']"

definition git_subcommand_args_are_read_only :: "ustr list \<Rightarrow> bool" where
  "git_subcommand_args_are_read_only args \<longleftrightarrow>
     \<not> list_ex (\<lambda>arg. arg \<in> set UNSAFE_GIT_FLAGS \<or> starts_with arg (lit ''--output='')
         \<or> starts_with arg (lit ''--exec='')) args"

definition git_has_unsafe_global_option :: "ustr list \<Rightarrow> bool" where
  "git_has_unsafe_global_option command \<longleftrightarrow> list_ex git_global_option_requires_prompt (drop 1 command)"

definition branch_query_flag :: "ustr \<Rightarrow> bool" where
  "branch_query_flag arg \<longleftrightarrow>
     arg \<in> set [lit ''--list'', lit ''-l'', lit ''--show-current'', lit ''-a'', lit ''--all'', lit ''-r'', lit ''--remotes'',
       lit ''-v'', lit ''-vv'', lit ''--verbose''] \<or> starts_with arg (lit ''--format='')"

fun branch_flags_loop :: "bool \<Rightarrow> ustr list \<Rightarrow> bool" where
  "branch_flags_loop saw_read_only_flag [] = saw_read_only_flag"
| "branch_flags_loop saw_read_only_flag (arg # args) =
     (if branch_query_flag arg then branch_flags_loop True args else False)"

definition git_branch_is_read_only :: "ustr list \<Rightarrow> bool" where
  "git_branch_is_read_only branch_args = (if branch_args = [] then True else branch_flags_loop False branch_args)"

definition is_valid_sed_n_arg :: "ustr option \<Rightarrow> bool" where
  "is_valid_sed_n_arg arg =
     (case arg of
        None \<Rightarrow> False
      | Some s \<Rightarrow>
          (case strip_suffix s (lit ''p'') of
             None \<Rightarrow> False
           | Some core \<Rightarrow>
               (case split_char 44 core of
                  [num] \<Rightarrow> num \<noteq> [] \<and> list_all is_ascii_digit num
                | [a, b] \<Rightarrow> a \<noteq> [] \<and> b \<noteq> [] \<and> list_all is_ascii_digit a \<and> list_all is_ascii_digit b
                | _ \<Rightarrow> False)))"

definition SAFE_EXECUTABLES :: "ustr list" where
  "SAFE_EXECUTABLES = [lit ''cat'', lit ''cd'', lit ''cut'', lit ''echo'', lit ''expr'', lit ''false'', lit ''grep'',
     lit ''head'', lit ''id'', lit ''ls'', lit ''nl'', lit ''paste'', lit ''pwd'', lit ''rev'', lit ''seq'', lit ''stat'',
     lit ''tail'', lit ''tr'', lit ''true'', lit ''uname'', lit ''uniq'', lit ''wc'', lit ''which'', lit ''whoami'']"

definition UNSAFE_BASE64_OPTIONS :: "ustr list" where
  "UNSAFE_BASE64_OPTIONS = [lit ''-o'', lit ''--output'']"

definition UNSAFE_FIND_OPTIONS :: "ustr list" where
  "UNSAFE_FIND_OPTIONS = [lit ''-exec'', lit ''-execdir'', lit ''-ok'', lit ''-okdir'', lit ''-delete'', lit ''-fls'',
     lit ''-fprint'', lit ''-fprint0'', lit ''-fprintf'']"

definition UNSAFE_RIPGREP_OPTIONS_WITH_ARGS :: "ustr list" where
  "UNSAFE_RIPGREP_OPTIONS_WITH_ARGS = [lit ''--pre'', lit ''--hostname-bin'']"

definition UNSAFE_RIPGREP_OPTIONS_WITHOUT_ARGS :: "ustr list" where
  "UNSAFE_RIPGREP_OPTIONS_WITHOUT_ARGS = [lit ''--search-zip'', lit ''-z'']"

definition unsafe_ripgrep_option :: "ustr \<Rightarrow> bool" where
  "unsafe_ripgrep_option arg \<longleftrightarrow>
     arg \<in> set UNSAFE_RIPGREP_OPTIONS_WITHOUT_ARGS
     \<or> list_ex (\<lambda>opt. arg = opt \<or> starts_with arg (opt @ lit ''='')) UNSAFE_RIPGREP_OPTIONS_WITH_ARGS"

definition SAFE_GIT_SUBCOMMANDS :: "ustr list" where
  "SAFE_GIT_SUBCOMMANDS = [lit ''status'', lit ''log'', lit ''diff'', lit ''show'', lit ''branch'']"

text \<open>The arm for \<^verbatim>\<open>git\<close>; its last branch is the one the code asserts to be unreachable.\<close>

definition is_safe_git_exec :: "ustr list \<Rightarrow> bool" where
  "is_safe_git_exec command =
     (if git_has_unsafe_global_option command then False
      else case find_git_subcommand command SAFE_GIT_SUBCOMMANDS of
             None \<Rightarrow> False
           | Some (subcommand_idx, subcommand) \<Rightarrow>
               (let subcommand_args = drop (subcommand_idx + 1) command
                in if subcommand \<in> set [lit ''status'', lit ''log'', lit ''diff'', lit ''show'']
                   then git_subcommand_args_are_read_only subcommand_args
                   else if subcommand = lit ''branch''
                   then git_subcommand_args_are_read_only subcommand_args \<and> git_branch_is_read_only subcommand_args
                   else False))"

definition is_safe_to_call_with_exec :: "bool \<Rightarrow> ustr list \<Rightarrow> bool" where
  "is_safe_to_call_with_exec linux command =
     (case command of
        [] \<Rightarrow> False
      | cmd0 # args \<Rightarrow>
          (case executable_name_lookup_key cmd0 of
             None \<Rightarrow> False
           | Some cmd \<Rightarrow>
               if linux \<and> cmd \<in> {lit ''numfmt'', lit ''tac''} then True
               else if cmd \<in> set SAFE_EXECUTABLES then True
               else if cmd = lit ''base64'' then
                 \<not> list_ex (\<lambda>arg. arg \<in> set UNSAFE_BASE64_OPTIONS \<or> starts_with arg (lit ''--output='')
                     \<or> starts_with arg (lit ''-o'') \<and> arg \<noteq> lit ''-o'') args
               else if cmd = lit ''find'' then \<not> list_ex (\<lambda>arg. arg \<in> set UNSAFE_FIND_OPTIONS) command
               else if cmd = lit ''rg'' then \<not> list_ex unsafe_ripgrep_option command
               else if cmd = lit ''git'' then is_safe_git_exec command
               else cmd = lit ''sed'' \<and> length command \<le> 4 \<and> args \<noteq> [] \<and> hd args = lit ''-n''
                    \<and> is_valid_sed_n_arg (if length args \<ge> 2 then Some (args ! 1) else None)))"

section \<open>PowerShell safe commands\<close>

datatype powershell_parse_outcome = Commands "ustr list list" | Unsupported | Failed

type_synonym ps_parser = "ustr \<Rightarrow> ustr \<Rightarrow> powershell_parse_outcome"

definition is_powershell_executable :: "ustr \<Rightarrow> bool" where
  "is_powershell_executable exe =
     (let executable_name =
            to_ascii_lowercase (case path_file_name (components exe) of Some n \<Rightarrow> n | None \<Rightarrow> exe)
      in executable_name \<in> set [lit ''powershell'', lit ''powershell.exe'', lit ''pwsh'', lit ''pwsh.exe''])"

definition parse_powershell_script :: "ps_parser \<Rightarrow> ustr \<Rightarrow> ustr \<Rightarrow> ustr list list option" where
  "parse_powershell_script ps_ast executable script =
     (case ps_ast executable script of Commands commands \<Rightarrow> Some commands | _ \<Rightarrow> None)"

text \<open>\<^verbatim>\<open>arg.replace('\'', "''")\<close>.\<close>

definition double_quotes :: "ustr \<Rightarrow> ustr" where
  "double_quotes arg = concat (map (\<lambda>c. if c = 39 then [39, 39] else [c]) arg)"

definition quote_argument :: "ustr \<Rightarrow> ustr" where
  "quote_argument arg =
     (if arg = [] then [39, 39]
      else if list_all (\<lambda>ch. \<not> is_whitespace ch) arg then arg
      else [39] @ double_quotes arg @ [39])"

definition join_arguments_as_script :: "ustr list \<Rightarrow> ustr" where
  "join_arguments_as_script args =
     join [32] (case args of [] \<Rightarrow> [] | a # rest \<Rightarrow> a # map quote_argument rest)"

fun powershell_args_loop :: "ps_parser \<Rightarrow> ustr \<Rightarrow> ustr list \<Rightarrow> ustr list list option" where
  "powershell_args_loop ps_ast executable [] = None"
| "powershell_args_loop ps_ast executable (arg # args) =
     (let lower = to_ascii_lowercase arg
      in if lower \<in> set [lit ''-command'', lit ''/command'', lit ''-c''] then
           (case args of
              [script] \<Rightarrow> parse_powershell_script ps_ast executable script
            | _ \<Rightarrow> None)
         else if starts_with lower (lit ''-command:'') \<or> starts_with lower (lit ''/command:'') then
           (if args \<noteq> [] then None
            else case split_once 58 arg of
                   None \<Rightarrow> None
                 | Some (_, script) \<Rightarrow> parse_powershell_script ps_ast executable script)
         else if lower \<in> set [lit ''-nologo'', lit ''-noprofile'', lit ''-noninteractive'', lit ''-mta'', lit ''-sta''] then
           powershell_args_loop ps_ast executable args
         else if lower \<in> set [lit ''-encodedcommand'', lit ''-ec'', lit ''-file'', lit ''/file'', lit ''-windowstyle'',
             lit ''-executionpolicy'', lit ''-workingdirectory''] then None
         else if starts_with lower (lit ''-'') then None
         else parse_powershell_script ps_ast executable (join_arguments_as_script (arg # args)))"

definition parse_powershell_invocation :: "ps_parser \<Rightarrow> ustr \<Rightarrow> ustr list \<Rightarrow> ustr list list option" where
  "parse_powershell_invocation ps_ast executable args =
     (if args = [] then None else powershell_args_loop ps_ast executable args)"

definition try_parse_powershell_command_sequence :: "ps_parser \<Rightarrow> ustr list \<Rightarrow> ustr list list option" where
  "try_parse_powershell_command_sequence ps_ast command =
     (case command of
        [] \<Rightarrow> None
      | exe # rest \<Rightarrow>
          if is_powershell_executable exe then parse_powershell_invocation ps_ast exe rest else None)"

definition PS_SIDE_EFFECTS :: "ustr list" where
  "PS_SIDE_EFFECTS = [lit ''set-content'', lit ''add-content'', lit ''out-file'', lit ''new-item'', lit ''remove-item'',
     lit ''move-item'', lit ''copy-item'', lit ''rename-item'', lit ''start-process'', lit ''stop-process'']"

definition PS_SAFE_COMMANDS :: "ustr list" where
  "PS_SAFE_COMMANDS = [lit ''echo'', lit ''write-output'', lit ''write-host'', lit ''dir'', lit ''ls'', lit ''get-childitem'',
     lit ''gci'', lit ''cat'', lit ''type'', lit ''gc'', lit ''get-content'', lit ''select-string'', lit ''sls'', lit ''findstr'',
     lit ''measure-object'', lit ''measure'', lit ''get-location'', lit ''gl'', lit ''pwd'', lit ''test-path'', lit ''tp'',
     lit ''resolve-path'', lit ''rvpa'', lit ''select-object'', lit ''select'', lit ''get-item'']"

text \<open>A word without the parentheses around it and the dashes before it, in lower case.\<close>

definition inner_word :: "ustr \<Rightarrow> ustr" where
  "inner_word w =
     (let paren = (\<lambda>c. c = 40 \<or> c = 41)
      in to_ascii_lowercase (dropWhile (\<lambda>c. c = 45) (trim_end_matches paren (dropWhile paren w))))"

fun safe_git_args :: "ustr list \<Rightarrow> bool" where
  "safe_git_args [] = False"
| "safe_git_args (arg # args) =
     (let arg_lc = to_ascii_lowercase arg
      in if starts_with arg (lit ''-'') then
           (if git_global_option_requires_prompt arg_lc \<or> eq_ignore_ascii_case arg (lit ''--config'')
               \<or> starts_with arg_lc (lit ''--config='')
            then False else safe_git_args args)
         else arg_lc \<in> set [lit ''status'', lit ''log'', lit ''show'', lit ''diff'', lit ''cat-file''])"

definition is_safe_git_command :: "ustr list \<Rightarrow> bool" where
  "is_safe_git_command ws = safe_git_args (drop 1 ws)"

definition is_safe_ripgrep :: "ustr list \<Rightarrow> bool" where
  "is_safe_ripgrep ws \<longleftrightarrow> \<not> list_ex (\<lambda>arg. unsafe_ripgrep_option (to_ascii_lowercase arg)) (drop 1 ws)"

definition is_safe_powershell_command :: "ustr list \<Rightarrow> bool" where
  "is_safe_powershell_command ws =
     (if ws = [] then False
      else if list_ex (\<lambda>w. inner_word w \<in> set PS_SIDE_EFFECTS) ws then False
      else let command = inner_word (hd ws)
           in if command \<in> set PS_SAFE_COMMANDS then True
              else if command = lit ''git'' then is_safe_git_command ws
              else if command = lit ''rg'' then is_safe_ripgrep ws
              else False)"

definition is_safe_command_windows :: "ps_parser \<Rightarrow> ustr list \<Rightarrow> bool" where
  "is_safe_command_windows ps_ast command =
     (case try_parse_powershell_command_sequence ps_ast command of
        Some commands \<Rightarrow> list_all is_safe_powershell_command commands
      | None \<Rightarrow> False)"

section \<open>Known safe commands\<close>

definition zsh_as_bash :: "ustr \<Rightarrow> ustr" where
  "zsh_as_bash s = (if s = lit ''zsh'' then lit ''bash'' else s)"

definition is_known_safe_command :: "bool \<Rightarrow> ps_parser \<Rightarrow> (ustr \<Rightarrow> ts_tree option) \<Rightarrow> ustr list \<Rightarrow> bool" where
  "is_known_safe_command linux ps_ast bash_tree command0 =
     (let command = map zsh_as_bash command0
      in if is_safe_command_windows ps_ast command then True
         else if is_safe_to_call_with_exec linux command then True
         else case parse_shell_lc_plain_commands bash_tree command of
                Some all_commands \<Rightarrow>
                  all_commands \<noteq> [] \<and> list_all (is_safe_to_call_with_exec linux) all_commands
              | None \<Rightarrow> False)"

section \<open>Invocations of git\<close>

text \<open>The subcommand that the scan finds comes after options only, when none of the arguments redirects git.\<close>

lemma value_option_requires_prompt:
  "is_git_global_option_with_value arg \<Longrightarrow> git_global_option_requires_prompt arg"
  "is_git_global_option_with_inline_value arg \<Longrightarrow> git_global_option_requires_prompt arg"
  by (auto simp: is_git_global_option_with_value_def is_git_global_option_with_inline_value_def
      git_global_option_requires_prompt_def simp del: lit_def)

lemma git_subcommand_loop_found:
  assumes "git_subcommand_loop subs idx False args = Some (i, sub)"
    and "list_all (\<lambda>a. \<not> git_global_option_requires_prompt a) args"
  shows "\<exists>opts rest. args = opts @ sub # rest \<and> i = idx + length opts \<and> sub \<in> set subs
     \<and> list_all (\<lambda>a. starts_with a (lit ''-'')) opts"
  using assms
proof (induction args arbitrary: idx)
  case (Cons a args)
  have plain: "\<not> is_git_global_option_with_value a" "\<not> is_git_global_option_with_inline_value a"
    using Cons.prems(2) value_option_requires_prompt by auto
  show ?case
  proof (cases "a = lit ''--'' \<or> starts_with a (lit ''-'')")
    case True
    then have dash: "starts_with a (lit ''-'')" by auto
    from True plain Cons.prems(1) have "git_subcommand_loop subs (Suc idx) False args = Some (i, sub)" by simp
    with Cons.IH [of "Suc idx"] Cons.prems(2) obtain opts rest where
      "args = opts @ sub # rest" "i = Suc idx + length opts" "sub \<in> set subs"
      "list_all (\<lambda>a. starts_with a (lit ''-'')) opts" by auto
    with dash show ?thesis by (intro exI [of _ "a # opts"] exI [of _ rest]) simp
  next
    case False
    with plain Cons.prems(1) have "a \<in> set subs" "i = idx" "sub = a"
      by (auto simp del: lit_def starts_with_def split: if_splits)
    then show ?thesis by (intro exI [of _ "[]"] exI [of _ args]) simp
  qed
qed simp

text \<open>
  The PowerShell list stops at the subcommand: what git is approved for under a shell is wider there.
\<close>

lemma powershell_git_may_write:
  "is_safe_powershell_command [lit ''git'', lit ''diff'', lit ''--output=out.txt'']
   \<and> \<not> is_safe_to_call_with_exec linux [lit ''git'', lit ''diff'', lit ''--output=out.txt'']"
proof
  show "is_safe_powershell_command [lit ''git'', lit ''diff'', lit ''--output=out.txt'']" by code_simp
  have "is_safe_git_exec [lit ''git'', lit ''diff'', lit ''--output=out.txt''] = False" by code_simp
  moreover have "executable_name_lookup_key (lit ''git'') = Some (lit ''git'')" by code_simp
  ultimately show "\<not> is_safe_to_call_with_exec linux [lit ''git'', lit ''diff'', lit ''--output=out.txt'']"
    by (auto simp: is_safe_to_call_with_exec_def SAFE_EXECUTABLES_def)
qed

section \<open>The arguments of sed\<close>

text \<open>
  The script accepted for \<^verbatim>\<open>sed -n\<close> is exactly one line number, or two separated by a comma,
  followed by the letter p.
\<close>
theorem is_valid_sed_n_arg_iff:
  "is_valid_sed_n_arg (Some s) \<longleftrightarrow>
     (\<exists>nums. s = join [44] nums @ lit ''p'' \<and> length nums \<in> {1, 2} \<and> (list_all all_digits nums))"
proof -
  have comma: "44 \<notin> set n" if "all_digits n" for n
    using that by (auto simp: all_digits_def list_all_iff is_ascii_digit_def)
  have split: "split_char 44 (join [44] nums) = nums" if "length nums \<in> {1, 2}" "list_all all_digits nums" for nums
    using that comma by (intro split_char_join) (auto simp: list_all_iff)
  show ?thesis
  proof
    assume "is_valid_sed_n_arg (Some s)"
    then obtain core where s: "s = core @ lit ''p''"
      and c: "case split_char 44 core of [num] \<Rightarrow> all_digits num | [a, b] \<Rightarrow> all_digits a \<and> all_digits b | _ \<Rightarrow> False"
      by (auto simp: is_valid_sed_n_arg_def strip_suffix_Some all_digits_def simp del: lit_def
          split: option.splits list.splits)
    then show "\<exists>nums. s = join [44] nums @ lit ''p'' \<and> length nums \<in> {1, 2} \<and> list_all all_digits nums"
      by (intro exI [of _ "split_char 44 core"]) (auto simp: join_split_char split: list.splits)
  next
    assume "\<exists>nums. s = join [44] nums @ lit ''p'' \<and> length nums \<in> {1, 2} \<and> list_all all_digits nums"
    then obtain nums where n: "s = join [44] nums @ lit ''p''" "length nums \<in> {1, 2}" "list_all all_digits nums"
      by blast
    have "strip_suffix s (lit ''p'') = Some (join [44] nums)" using n by (simp add: strip_suffix_Some del: lit_def)
    moreover from n(2) obtain a b where "nums = [a] \<or> nums = [a, b]"
      by (auto simp: length_Suc_conv numeral_2_eq_2)
    ultimately show "is_valid_sed_n_arg (Some s)"
      using split [OF n(2,3)] n(3) by (auto simp: is_valid_sed_n_arg_def all_digits_def)
  qed
qed

section \<open>Dangerous commands are not known to be safe\<close>

lemma dangerous_head:
  "is_dangerous_to_call_with_exec command \<Longrightarrow> \<exists>args. command = lit ''rm'' # args \<or> command = lit ''sudo'' # args"
  by (cases command) (auto split: if_splits)

lemma dangerous_file_names:
  "path_file_name (components (lit ''rm'')) = Some (lit ''rm'')"
  "path_file_name (components (lit ''sudo'')) = Some (lit ''sudo'')"
  by code_simp+

lemma rm_sudo_not_safe_exec:
  "\<not> is_safe_to_call_with_exec linux (lit ''rm'' # args)"
  "\<not> is_safe_to_call_with_exec linux (lit ''sudo'' # args)"
  by (auto simp: is_safe_to_call_with_exec_def executable_name_lookup_key_def dangerous_file_names [simplified]
      SAFE_EXECUTABLES_def)

lemma dangerous_not_safe_exec:
  "is_dangerous_to_call_with_exec command \<Longrightarrow> \<not> is_safe_to_call_with_exec linux command"
  using dangerous_head rm_sudo_not_safe_exec by blast

lemma safe_exec_key_no_dot:
  assumes "is_safe_to_call_with_exec linux (cmd0 # args)" and "executable_name_lookup_key cmd0 = Some n"
  shows "n \<in> set ([lit ''numfmt'', lit ''tac'', lit ''base64'', lit ''find'', lit ''rg'', lit ''git'', lit ''sed''] @ SAFE_EXECUTABLES)"
  using assms by (auto simp: is_safe_to_call_with_exec_def simp del: lit_def split: if_splits)

definition posix_shell :: "ustr \<Rightarrow> bool" where
  "posix_shell shell \<longleftrightarrow> detect_shell_type shell \<in> {Some ShZsh, Some ShBash, Some ShSh}"

lemma posix_shell_name:
  assumes "posix_shell shell"
  shows "\<exists>n. path_file_name (components shell) = Some n \<and> before_dot n \<in> {lit ''zsh'', lit ''bash'', lit ''sh''}"
  using assms detect_shell_type_names [of shell] by (fastforce simp: posix_shell_def)

lemma posix_shell_not_safe_exec: "posix_shell shell \<Longrightarrow> \<not> is_safe_to_call_with_exec linux (shell # args)"
proof
  assume "posix_shell shell" and safe: "is_safe_to_call_with_exec linux (shell # args)"
  then obtain n where n: "executable_name_lookup_key shell = Some n" "before_dot n \<in> {lit ''zsh'', lit ''bash'', lit ''sh''}"
    using posix_shell_name by (auto simp: executable_name_lookup_key_def simp del: lit_def)
  from safe_exec_key_no_dot [OF safe n(1)] n(2) show False
    by (auto simp: SAFE_EXECUTABLES_def)
qed

lemma lowercase_before_dot: "to_ascii_lowercase (before_dot n) = before_dot (to_ascii_lowercase n)"
  by (induction n) (auto simp: to_ascii_lowercase_def to_ascii_lowercase_char_def)

lemma posix_shell_not_powershell: "posix_shell shell \<Longrightarrow> \<not> is_powershell_executable shell"
proof
  assume "posix_shell shell" and ps: "is_powershell_executable shell"
  then obtain n where n: "path_file_name (components shell) = Some n" "before_dot n \<in> {lit ''zsh'', lit ''bash'', lit ''sh''}"
    using posix_shell_name by blast
  with ps have "before_dot (to_ascii_lowercase n) \<in> {lit ''powershell'', lit ''pwsh''}"
    by (auto simp: is_powershell_executable_def Let_def)
  moreover have "to_ascii_lowercase (before_dot n) \<in> {lit ''zsh'', lit ''bash'', lit ''sh''}"
    using n(2) by (auto simp: to_ascii_lowercase_def to_ascii_lowercase_char_def)
  ultimately show False unfolding lowercase_before_dot by auto
qed

lemma extract_bash_command_Some:
  "extract_bash_command command = Some (shell, script) \<longleftrightarrow>
     (\<exists>flag. command = [shell, flag, script] \<and> flag \<in> {lit ''-lc'', lit ''-c''} \<and> posix_shell shell)"
  by (auto simp: extract_bash_command_def posix_shell_def simp del: lit_def split: list.splits if_splits)

lemma posix_shell_zsh_as_bash: "posix_shell shell \<Longrightarrow> posix_shell (zsh_as_bash shell)"
proof -
  have "posix_shell (lit ''bash'')" by code_simp
  then show "posix_shell shell \<Longrightarrow> posix_shell (zsh_as_bash shell)" by (simp add: zsh_as_bash_def del: lit_def)
qed

lemma extract_bash_command_zsh_as_bash:
  assumes "extract_bash_command command = Some (shell, script)" and "script \<noteq> lit ''zsh''"
  shows "extract_bash_command (map zsh_as_bash command) = Some (zsh_as_bash shell, script)"
  using assms unfolding extract_bash_command_Some
  by (auto simp: posix_shell_zsh_as_bash) (auto simp: zsh_as_bash_def)

lemma safe_windows_needs_powershell:
  "is_safe_command_windows ps_ast (exe # args) \<Longrightarrow> is_powershell_executable exe"
  by (auto simp: is_safe_command_windows_def try_parse_powershell_command_sequence_def split: if_splits)

text \<open>A script is known to be safe exactly when it has commands and each of them is safe.\<close>

lemma known_safe_script:
  assumes "extract_bash_command command = Some (shell, script)" and "script \<noteq> lit ''zsh''"
  shows "is_known_safe_command linux ps_ast bash_tree command \<longleftrightarrow>
    (\<exists>cmds. parse_shell_lc_plain_commands bash_tree command = Some cmds \<and> cmds \<noteq> []
       \<and> list_all (is_safe_to_call_with_exec linux) cmds)"
proof -
  obtain flag where command: "command = [shell, flag, script]" and "posix_shell shell"
    using assms(1) by (auto simp: extract_bash_command_Some)
  then have sh: "posix_shell (zsh_as_bash shell)" by (simp add: posix_shell_zsh_as_bash)
  have "parse_shell_lc_plain_commands bash_tree (map zsh_as_bash command) = parse_shell_lc_plain_commands bash_tree command"
    by (simp only: parse_shell_lc_plain_commands_def assms(1) extract_bash_command_zsh_as_bash [OF assms] option.case prod.case)
  moreover have "\<not> is_safe_command_windows ps_ast (map zsh_as_bash command)"
    "\<not> is_safe_to_call_with_exec linux (map zsh_as_bash command)"
    using safe_windows_needs_powershell posix_shell_not_powershell [OF sh] posix_shell_not_safe_exec [OF sh]
    by (auto simp: command)
  ultimately show ?thesis by (auto simp: is_known_safe_command_def split: option.splits)
qed

lemma rm_sudo_not_known_safe:
  assumes "is_dangerous_to_call_with_exec command"
  shows "\<not> is_known_safe_command linux ps_ast bash_tree command"
proof -
  obtain exe args where command: "command = exe # args" and exe: "exe = lit ''rm'' \<or> exe = lit ''sudo''"
    using dangerous_head [OF assms] by blast
  have m: "map zsh_as_bash command = exe # map zsh_as_bash args" using exe by (auto simp: command zsh_as_bash_def)
  have name: "path_file_name (components exe) = Some exe" using exe dangerous_file_names by metis
  have "\<not> is_powershell_executable exe"
    using exe by (auto simp: is_powershell_executable_def name [simplified] to_ascii_lowercase_def to_ascii_lowercase_char_def Let_def)
  moreover have "\<not> is_safe_to_call_with_exec linux (exe # xs)" for xs
    using exe rm_sudo_not_safe_exec by metis
  moreover have "\<not> posix_shell exe"
    using posix_shell_name [of exe] name exe by auto
  ultimately show ?thesis
    using safe_windows_needs_powershell [of ps_ast exe] extract_bash_command_Some [of "exe # map zsh_as_bash args"]
    by (auto simp: is_known_safe_command_def Let_def m parse_shell_lc_plain_commands_def simp del: lit_def split: option.splits)
qed

text \<open>
  What the shell grammar promises of its trees: the text of a node is a part of the script.  The words of plain
  commands then have no characters but those of the script.
\<close>

definition texts_within :: "ustr \<Rightarrow> ts_node \<Rightarrow> bool" where
  "texts_within script root = list_all (\<lambda>n. case ts_text n of None \<Rightarrow> True | Some t \<Rightarrow> sublist t script) (ts_nodes root)"

definition documented_grammar :: "(ustr \<Rightarrow> ts_tree option) \<Rightarrow> bool" where
  "documented_grammar bash_tree \<longleftrightarrow> (\<forall>script tree. bash_tree script = Some tree \<longrightarrow> texts_within script (root_node tree))"

lemma texts_within_node: "texts_within script n \<Longrightarrow> ts_text n = Some t \<Longrightarrow> set t \<subseteq> set script"
  by (cases n) (auto simp: texts_within_def dest: set_mono_sublist)

lemma texts_within_child: "texts_within script n \<Longrightarrow> c \<in> set (ts_children n) \<Longrightarrow> texts_within script c"
  by (cases n) (auto simp: texts_within_def list_all_iff)

lemma texts_within_named_child: "texts_within script n \<Longrightarrow> c \<in> set (named_children n) \<Longrightarrow> texts_within script c"
  using texts_within_child by (auto simp: named_children_def)

lemma texts_within_descendant: "texts_within script n \<Longrightarrow> m \<in> set (ts_nodes n) \<Longrightarrow> texts_within script m"
proof (induction n)
  case (TsNode k nm st t cs)
  with texts_within_child [OF TsNode.prems(1)] show ?case by auto
qed

lemma those_map_Some: "those (map f xs) = Some ys \<Longrightarrow> y \<in> set ys \<Longrightarrow> \<exists>x\<in>set xs. f x = Some y"
  by (induction xs arbitrary: ys) (auto split: option.splits)

lemma quoted_within:
  assumes "texts_within script n" and "parse_double_quoted_string n = Some w \<or> parse_raw_string n = Some w"
  shows "set w \<subseteq> set script"
  using assms(2) texts_within_node [OF assms(1)]
  by (fastforce simp: parse_double_quoted_string_def parse_raw_string_def strip_prefix_Some strip_suffix_Some
      split: if_splits option.splits)

lemma concatenation_part_within:
  "texts_within script n \<Longrightarrow> concatenation_part n = Some w \<Longrightarrow> set w \<subseteq> set script"
  unfolding concatenation_part_def using quoted_within texts_within_node by (metis option.distinct(1))

lemma plain_word_within:
  assumes "texts_within script child" and "plain_word child = Some w"
  shows "set w \<subseteq> set script"
proof -
  note named = texts_within_named_child [OF assms(1)]
  have name: "\<exists>n\<in>set ns. ts_text n = Some w"
    if "(case ns of [] \<Rightarrow> None | n # _ \<Rightarrow> if ts_kind n \<noteq> k then None else ts_text n) = Some w" for ns k
    using that by (auto split: list.splits if_splits)
  have cat: "\<exists>parts. x = Some parts \<and> w = concat parts"
    if "(case x of None \<Rightarrow> None | Some parts \<Rightarrow> if concat parts = [] then None else Some (concat parts)) = Some w" for x
    using that by (auto split: option.splits if_splits)
  have parts: "set (concat parts) \<subseteq> set script" if "those (map concatenation_part (named_children child)) = Some parts" for parts
    using those_map_Some [OF that] named concatenation_part_within by fastforce
  let ?k = "ts_kind child"
  show ?thesis
  proof (cases "?k = lit ''command_name''")
    case True
    with assms(2) have "\<exists>n\<in>set (named_children child). ts_text n = Some w"
      by (intro name [where k = "lit ''word''"]) (simp only: plain_word_def if_True simp_thms)
    with named texts_within_node show ?thesis by blast
  next
    case no_name: False
    show ?thesis
    proof (cases "?k \<in> {lit ''word'', lit ''number''}")
      case True
      then show ?thesis using assms no_name texts_within_node unfolding plain_word_def by (simp only: if_True if_False)
    next
      case no_word: False
      show ?thesis
      proof (cases "?k = lit ''string'' \<or> ?k = lit ''raw_string''")
        case True
        then show ?thesis using assms no_name no_word quoted_within unfolding plain_word_def by (metis (no_types, lifting))
      next
        case False
        with assms(2) no_name no_word have w: "(if ?k = lit ''concatenation'' then
            (case those (map concatenation_part (named_children child)) of
               None \<Rightarrow> None | Some parts \<Rightarrow> if concat parts = [] then None else Some (concat parts)) else None) = Some w"
          by (simp only: plain_word_def if_False de_Morgan_disj)
        then have "?k = lit ''concatenation''" by (rule contrapos_pp) simp
        with w obtain ps where "those (map concatenation_part (named_children child)) = Some ps" "w = concat ps"
          using cat by (simp only: if_True simp_thms) blast
        then show ?thesis using parts by blast
      qed
    qed
  qed
qed

lemma plain_commands_within:
  assumes "documented_grammar bash_tree" and "extract_bash_command command = Some (shell, script)"
    and "parse_shell_lc_plain_commands bash_tree command = Some cmds" and "cmd \<in> set cmds" and "w \<in> set cmd"
  shows "set w \<subseteq> set script"
proof -
  obtain tree where tree: "bash_tree script = Some tree" "try_parse_word_only_commands_sequence tree = Some cmds"
    using assms(2,3) by (auto simp: parse_shell_lc_plain_commands_def split: option.splits)
  then obtain ns where ns: "command_nodes_loop [root_node tree] [] = Some ns"
      "those (map parse_plain_command_from_node (sort_key ts_start ns)) = Some cmds"
    by (auto simp: try_parse_word_only_commands_sequence_def split: if_splits option.splits)
  obtain n where n: "n \<in> set ns" "parse_plain_command_from_node n = Some cmd"
    using those_map_Some [OF ns(2) assms(4)] by auto
  then have "n \<in> set (ts_nodes (root_node tree))"
    using ns(1) by (auto simp: command_nodes_loop_visits Let_def set_stack_nodes split: if_splits)
  then have "texts_within script n"
    using assms(1) tree(1) texts_within_descendant unfolding documented_grammar_def by blast
  moreover obtain c where "c \<in> set (named_children n)" "plain_word c = Some w"
    using n(2) those_map_Some [OF _ assms(5)] by (auto simp: parse_plain_command_from_node_def simp del: lit_def split: if_splits)
  ultimately show ?thesis using texts_within_named_child plain_word_within by blast
qed

lemma dangerous_not_known_safe:
  assumes "documented_grammar bash_tree" and "command_might_be_dangerous bash_tree command"
  shows "\<not> is_known_safe_command linux ps_ast bash_tree command"
proof (cases "is_dangerous_to_call_with_exec command")
  case True
  then show ?thesis by (rule rm_sudo_not_known_safe)
next
  case False
  with assms(2) obtain cmds where cmds: "parse_shell_lc_plain_commands bash_tree command = Some cmds"
    "list_ex is_dangerous_to_call_with_exec cmds"
    by (auto simp: command_might_be_dangerous_def split: option.splits)
  then obtain shell script where e: "extract_bash_command command = Some (shell, script)"
    by (auto simp: parse_shell_lc_plain_commands_def split: option.splits)
  obtain cmd exe where "cmd \<in> set cmds" "exe \<in> set cmd" "exe = lit ''rm'' \<or> exe = lit ''sudo''"
    using cmds(2) dangerous_head by (fastforce simp: list_ex_iff simp del: lit_def)
  then have "script \<noteq> lit ''zsh''" using plain_commands_within [OF assms(1) e cmds(1)] by fastforce
  from known_safe_script [OF e this] cmds dangerous_not_safe_exec show ?thesis
    by (fastforce simp: list_ex_iff list_all_iff)
qed

text \<open>
  C21: A command that might be dangerous, by itself or by a command of its script, is never one
  that is known to be safe.  The shell grammar is one whose nodes have parts of the script as their texts.
\<close>
theorem dangerous_is_not_known_safe:
  assumes "documented_grammar bash_tree" and "command_might_be_dangerous bash_tree command"
  shows "\<not> is_known_safe_command linux ps_ast bash_tree command"
  using assms by (rule dangerous_not_known_safe)

text \<open>The tree of the script \<^verbatim>\<open>sudo rm -rf x\<close>.\<close>

definition sudo_rm_tree :: ts_tree where
  "sudo_rm_tree =
     (let w = (\<lambda>k st t. TsNode (lit k) True st (Some (lit t)) [])
      in \<lparr> root_node = TsNode (lit ''program'') True 0 (Some (lit ''sudo rm -rf x''))
             [TsNode (lit ''command'') True 0 (Some (lit ''sudo rm -rf x''))
               [TsNode (lit ''command_name'') True 0 (Some (lit ''sudo'')) [w ''word'' 0 ''sudo''],
                w ''word'' 5 ''rm'', w ''word'' 8 ''-rf'', w ''word'' 12 ''x'']], has_error = False \<rparr>)"

definition sudo_rm_grammar :: "ustr \<Rightarrow> ts_tree option" where
  "sudo_rm_grammar script = (if script = lit ''sudo rm -rf x'' then Some sudo_rm_tree else None)"

lemma sudo_rm_documented: "documented_grammar sudo_rm_grammar"
proof -
  have "texts_within (lit ''sudo rm -rf x'') (root_node sudo_rm_tree)" by code_simp
  then show ?thesis by (simp add: documented_grammar_def sudo_rm_grammar_def del: lit_def)
qed

theorem dangerous_is_not_known_safe_witness:
  "\<not> is_known_safe_command True (\<lambda>_ _. Failed) sudo_rm_grammar [lit ''bash'', lit ''-lc'', lit ''sudo rm -rf x'']"
proof (rule dangerous_is_not_known_safe [OF sudo_rm_documented])
  show "command_might_be_dangerous sudo_rm_grammar [lit ''bash'', lit ''-lc'', lit ''sudo rm -rf x'']" by code_simp
qed

end
