(* ===== verification/Exec_Approval.thy ===== *)
theory Exec_Approval
  imports Command_Safety Policy_Builder
begin

text \<open>
  What a command needs before it runs: the decision part of \<^verbatim>\<open>src/core/src/exec_policy.rs\<close> with the types
  of \<^verbatim>\<open>src/protocol/src\<close> and \<^verbatim>\<open>src/core/src/tools/execution.rs\<close> it works on.  The shell grammar, the PowerShell parser,
  the word splitter and joiner of the \<^verbatim>\<open>shlex\<close> crate, the target system and the host environment are
  the fields of \<open>approval_env\<close>.  The target is not Windows.
\<close>

section \<open>Approval policies and permissions\<close>

record granular_approval_config =
  access_approval :: bool
  rules_approval :: bool
  skill_approval :: bool
  request_permissions :: bool
  mcp_elicitations :: bool

datatype ask_for_approval = UnlessTrusted | OnFailure | OnRequest | Granular granular_approval_config | Never

datatype execution_permission_level = UseDefault | RequireEscalated | WithAdditionalPermissions

definition requires_escalated_permissions :: "execution_permission_level \<Rightarrow> bool" where
  "requires_escalated_permissions l \<longleftrightarrow> l = RequireEscalated"

definition uses_additional_permissions :: "execution_permission_level \<Rightarrow> bool" where
  "uses_additional_permissions l \<longleftrightarrow> l = WithAdditionalPermissions"

definition requests_escalated_permissions :: "execution_permission_level \<Rightarrow> bool" where
  "requests_escalated_permissions l \<longleftrightarrow> l = WithAdditionalPermissions"

datatype file_system_access_level = FsRestricted | FsUnrestricted | FsExternal

text \<open>The entries of an access policy and the contents of a managed profile are only passed on.\<close>

record 'e file_system_access_policy =
  fs_kind :: file_system_access_level
  glob_scan_max_depth :: "nat option"
  fs_entries :: "'e list"

datatype ('f, 'n) permission_profile = Managed 'f 'n | Disabled | External 'n

text \<open>An amendment is the tokens of the prefix it allows.\<close>

type_synonym exec_policy_amendment = "ustr list"

datatype exec_approval_requirement =
    ReqSkip "exec_policy_amendment option"
  | ReqNeedsApproval "ustr option" "exec_policy_amendment option"
  | ReqForbidden ustr

fun proposed_execpolicy_amendment :: "exec_approval_requirement \<Rightarrow> exec_policy_amendment option" where
  "proposed_execpolicy_amendment (ReqNeedsApproval _ a) = a"
| "proposed_execpolicy_amendment (ReqSkip a) = a"
| "proposed_execpolicy_amendment (ReqForbidden _) = None"

definition default_exec_approval_requirement ::
  "ask_for_approval \<Rightarrow> 'e file_system_access_policy \<Rightarrow> exec_approval_requirement" where
  "default_exec_approval_requirement approval_policy fs_policy =
     (let needs_approval =
            (case approval_policy of
               Never \<Rightarrow> False
             | OnFailure \<Rightarrow> False
             | OnRequest \<Rightarrow> fs_kind fs_policy = FsRestricted
             | Granular _ \<Rightarrow> fs_kind fs_policy = FsRestricted
             | UnlessTrusted \<Rightarrow> True)
      in if needs_approval \<and> (case approval_policy of Granular g \<Rightarrow> \<not> access_approval g | _ \<Rightarrow> False)
         then ReqForbidden (lit ''approval policy disallowed access-escalation approval prompt'')
         else if needs_approval then ReqNeedsApproval None None
         else ReqSkip None)"

definition managed_network_for_permission_level :: "'n option \<Rightarrow> execution_permission_level \<Rightarrow> 'n option" where
  "managed_network_for_permission_level network level =
     (if requires_escalated_permissions level then None else network)"

section \<open>Prompts\<close>

definition PROMPT_CONFLICT_REASON :: ustr where
  "PROMPT_CONFLICT_REASON = lit ''approval required by policy, but AskForApproval is set to Never''"

definition REJECT_ESCALATION_APPROVAL_REASON :: ustr where
  "REJECT_ESCALATION_APPROVAL_REASON =
     lit ''approval required by policy, but AskForApproval::Granular.access_approval is false''"

definition REJECT_RULES_APPROVAL_REASON :: ustr where
  "REJECT_RULES_APPROVAL_REASON =
     lit ''approval required by policy rule, but AskForApproval::Granular.rules is false''"

definition prompt_is_rejected_by_policy :: "ask_for_approval \<Rightarrow> bool \<Rightarrow> ustr option" where
  "prompt_is_rejected_by_policy approval_policy prompt_is_rule =
     (case approval_policy of
        Never \<Rightarrow> Some PROMPT_CONFLICT_REASON
      | OnFailure \<Rightarrow> None
      | OnRequest \<Rightarrow> None
      | UnlessTrusted \<Rightarrow> None
      | Granular granular_config \<Rightarrow>
          if prompt_is_rule then (if \<not> rules_approval granular_config then Some REJECT_RULES_APPROVAL_REASON else None)
          else if \<not> access_approval granular_config then Some REJECT_ESCALATION_APPROVAL_REASON
          else None)"

fun is_policy_match :: "rule_match \<Rightarrow> bool" where
  "is_policy_match (PrefixRuleMatch _ _ _ _) = True"
| "is_policy_match (HeuristicsRuleMatch _ _) = False"

definition is_prompt_rule :: "rule_match \<Rightarrow> bool" where
  "is_prompt_rule m \<longleftrightarrow> is_policy_match m \<and> match_decision m = Prompt"

section \<open>Commands without a rule\<close>

record approval_env =
  ae_linux :: bool
  ae_ps_ast :: ps_parser
  ae_bash_tree :: "ustr \<Rightarrow> ts_tree option"
  ae_shlex_split :: "ustr \<Rightarrow> ustr list option"
  ae_shlex_try_join :: "ustr list \<Rightarrow> ustr option"
  ae_host :: host_env

definition known_safe :: "approval_env \<Rightarrow> ustr list \<Rightarrow> bool" where
  "known_safe ae command = is_known_safe_command (ae_linux ae) (ae_ps_ast ae) (ae_bash_tree ae) command"

definition restriction_disabled :: "('f, 'n) permission_profile \<Rightarrow> bool" where
  "restriction_disabled profile = (case profile of Managed _ _ \<Rightarrow> False | Disabled \<Rightarrow> True | External _ \<Rightarrow> True)"

text \<open>The decision by access level, for \<^verbatim>\<open>OnRequest\<close> and \<^verbatim>\<open>Granular\<close>.\<close>

definition decision_by_access ::
  "'e file_system_access_policy \<Rightarrow> execution_permission_level \<Rightarrow> decision" where
  "decision_by_access fs_policy level =
     (case fs_kind fs_policy of
        FsUnrestricted \<Rightarrow> Allow
      | FsExternal \<Rightarrow> Allow
      | FsRestricted \<Rightarrow> if requests_escalated_permissions level then Prompt else Allow)"

definition render_decision_for_unmatched_command ::
  "approval_env \<Rightarrow> ask_for_approval \<Rightarrow> ('f, 'n) permission_profile \<Rightarrow> 'e file_system_access_policy
     \<Rightarrow> ustr list \<Rightarrow> execution_permission_level \<Rightarrow> bool \<Rightarrow> decision" where
  "render_decision_for_unmatched_command ae approval_policy profile fs_policy command level used_complex_parsing =
     (if known_safe ae command \<and> \<not> used_complex_parsing then Allow
      else if command_might_be_dangerous (ae_bash_tree ae) command then
        (case approval_policy of
           Never \<Rightarrow> if restriction_disabled profile then Allow else Forbidden
         | OnFailure \<Rightarrow> Prompt
         | OnRequest \<Rightarrow> Prompt
         | UnlessTrusted \<Rightarrow> Prompt
         | Granular _ \<Rightarrow> Prompt)
      else
        (case approval_policy of
           Never \<Rightarrow> Allow
         | OnFailure \<Rightarrow> Allow
         | UnlessTrusted \<Rightarrow> Prompt
         | OnRequest \<Rightarrow> decision_by_access fs_policy level
         | Granular _ \<Rightarrow> decision_by_access fs_policy level))"

definition commands_for_exec_policy :: "approval_env \<Rightarrow> ustr list \<Rightarrow> ustr list list \<times> bool" where
  "commands_for_exec_policy ae command =
     (case parse_shell_lc_plain_commands (ae_bash_tree ae) command of
        Some (c # cs) \<Rightarrow> (c # cs, False)
      | _ \<Rightarrow>
          (case parse_shell_lc_single_command_prefix (ae_bash_tree ae) command of
             Some single_command \<Rightarrow> ([single_command], True)
           | None \<Rightarrow>
               (case extract_powershell_command command of
                  Some (_, script) \<Rightarrow>
                    (case ae_shlex_split ae script of
                       Some tokens \<Rightarrow> ([tokens], False)
                     | None \<Rightarrow> ([command], False))
                | None \<Rightarrow> ([command], False))))"

section \<open>Amendments\<close>

text \<open>\<^verbatim>\<open>Iterator::find_map\<close>.\<close>

fun find_map :: "('a \<Rightarrow> 'b option) \<Rightarrow> 'a list \<Rightarrow> 'b option" where
  "find_map f [] = None"
| "find_map f (x # xs) = (case f x of Some y \<Rightarrow> Some y | None \<Rightarrow> find_map f xs)"

text \<open>The first token of a command that the heuristics gave the decision \<open>d\<close>.\<close>

fun heuristic_program :: "decision \<Rightarrow> rule_match \<Rightarrow> exec_policy_amendment option" where
  "heuristic_program d (HeuristicsRuleMatch command d') =
     (if d' = d then (case command of [] \<Rightarrow> None | name # _ \<Rightarrow> Some [name]) else None)"
| "heuristic_program d (PrefixRuleMatch _ _ _ _) = None"

definition try_derive_execpolicy_amendment_for_prompt_rules :: "rule_match list \<Rightarrow> exec_policy_amendment option" where
  "try_derive_execpolicy_amendment_for_prompt_rules ms =
     (if list_ex is_prompt_rule ms then None else find_map (heuristic_program Prompt) ms)"

definition try_derive_execpolicy_amendment_for_allow_rules :: "rule_match list \<Rightarrow> exec_policy_amendment option" where
  "try_derive_execpolicy_amendment_for_allow_rules ms =
     (if list_ex is_policy_match ms then None else find_map (heuristic_program Allow) ms)"

definition BANNED_PREFIX_SUGGESTIONS :: "ustr list list" where
  "BANNED_PREFIX_SUGGESTIONS = map (map lit)
     [[''python3''], [''python3'', ''-''], [''python3'', ''-c''], [''python''], [''python'', ''-''], [''python'', ''-c''],
      [''py''], [''py'', ''-3''], [''pythonw''], [''pyw''], [''pypy''], [''pypy3''], [''git''], [''bash''],
      [''bash'', ''-lc''], [''sh''], [''sh'', ''-c''], [''sh'', ''-lc''], [''zsh''], [''zsh'', ''-lc''], [''/bin/zsh''],
      [''/bin/zsh'', ''-lc''], [''/bin/bash''], [''/bin/bash'', ''-lc''], [''pwsh''], [''pwsh'', ''-Command''],
      [''pwsh'', ''-c''], [''powershell''], [''powershell'', ''-Command''], [''powershell'', ''-c''], [''powershell.exe''],
      [''powershell.exe'', ''-Command''], [''powershell.exe'', ''-c''], [''env''], [''sudo''], [''node''], [''node'', ''-e''],
      [''perl''], [''perl'', ''-e''], [''ruby''], [''ruby'', ''-e''], [''php''], [''php'', ''-r''], [''lua''], [''lua'', ''-e''],
      [''osascript'']]"

definition prefix_rule_would_approve_all_commands ::
  "host_env \<Rightarrow> policy \<Rightarrow> ustr list \<Rightarrow> ustr list list \<Rightarrow> (ustr list \<Rightarrow> decision) \<Rightarrow> bool \<Rightarrow> bool" where
  "prefix_rule_would_approve_all_commands env exec_policy pre commands fallback options =
     (case add_prefix_rule pre Allow exec_policy of
        Err _ \<Rightarrow> False
      | Ok policy_with_prefix_rule \<Rightarrow>
          list_all (\<lambda>command.
            (case check_with_options env policy_with_prefix_rule command fallback options of
               Ok ev \<Rightarrow> eval_decision ev = Allow
             | Err _ \<Rightarrow> False)) commands)"

definition derive_requested_execpolicy_amendment_from_prefix_rule ::
  "host_env \<Rightarrow> ustr list option \<Rightarrow> rule_match list \<Rightarrow> policy \<Rightarrow> ustr list list \<Rightarrow> (ustr list \<Rightarrow> decision) \<Rightarrow> bool
     \<Rightarrow> exec_policy_amendment option" where
  "derive_requested_execpolicy_amendment_from_prefix_rule env prefix_rule ms exec_policy commands fallback options =
     (case prefix_rule of
        None \<Rightarrow> None
      | Some pre \<Rightarrow>
          if pre = [] then None
          else if list_ex (\<lambda>banned. pre = banned) BANNED_PREFIX_SUGGESTIONS then None
          else if list_ex is_policy_match ms then None
          else if prefix_rule_would_approve_all_commands env exec_policy pre commands fallback options then Some pre
          else None)"

section \<open>Reasons\<close>

text \<open>\<^verbatim>\<open>Iterator::max_by_key\<close>: the last of the largest elements.\<close>

fun max_by_key :: "('a \<Rightarrow> nat) \<Rightarrow> 'a list \<Rightarrow> 'a option" where
  "max_by_key f [] = None"
| "max_by_key f (x # xs) =
     (case max_by_key f xs of None \<Rightarrow> Some x | Some y \<Rightarrow> if f y \<ge> f x then Some y else Some x)"

definition render_shlex_command :: "approval_env \<Rightarrow> ustr list \<Rightarrow> ustr" where
  "render_shlex_command ae args =
     (case ae_shlex_try_join ae args of Some s \<Rightarrow> s | None \<Rightarrow> join [32] args)"

fun rule_with_decision :: "decision \<Rightarrow> rule_match \<Rightarrow> (ustr list \<times> ustr option) option" where
  "rule_with_decision d (PrefixRuleMatch matched_prefix d' _ justification) =
     (if d' = d then Some (matched_prefix, justification) else None)"
| "rule_with_decision d (HeuristicsRuleMatch _ _) = None"

definition most_specific :: "decision \<Rightarrow> evaluation \<Rightarrow> (ustr list \<times> ustr option) option" where
  "most_specific d ev =
     max_by_key (\<lambda>(matched_prefix, _). length matched_prefix) (List.map_filter (rule_with_decision d) (matched_rules ev))"

abbreviation quoted :: "ustr \<Rightarrow> ustr" where
  "quoted s \<equiv> [96] @ s @ [96]"

definition derive_prompt_reason :: "approval_env \<Rightarrow> ustr list \<Rightarrow> evaluation \<Rightarrow> ustr option" where
  "derive_prompt_reason ae command_args ev =
     (let command = render_shlex_command ae command_args
      in case most_specific Prompt ev of
           Some (_, Some justification) \<Rightarrow> Some (quoted command @ lit '' requires approval: '' @ justification)
         | Some (_, None) \<Rightarrow> Some (quoted command @ lit '' requires approval by policy'')
         | None \<Rightarrow> None)"

definition derive_forbidden_reason :: "approval_env \<Rightarrow> ustr list \<Rightarrow> evaluation \<Rightarrow> ustr" where
  "derive_forbidden_reason ae command_args ev =
     (let command = render_shlex_command ae command_args
      in case most_specific Forbidden ev of
           Some (_, Some justification) \<Rightarrow> quoted command @ lit '' rejected: '' @ justification
         | Some (matched_prefix, None) \<Rightarrow>
             quoted command @ lit '' rejected: policy forbids commands starting with ''
             @ quoted (render_shlex_command ae matched_prefix)
         | None \<Rightarrow> quoted command @ lit '' rejected: blocked by policy'')"

section \<open>The requirement of a command\<close>

record ('f, 'n, 'e) exec_approval_request =
  req_command :: "ustr list"
  req_approval_policy :: ask_for_approval
  req_permission_profile :: "('f, 'n) permission_profile"
  req_file_system_access_policy :: "'e file_system_access_policy"
  req_permission_level :: execution_permission_level
  req_prefix_rule :: "ustr list option"

definition exec_policy_fallback :: "approval_env \<Rightarrow> ('f, 'n, 'e) exec_approval_request \<Rightarrow> ustr list \<Rightarrow> decision" where
  "exec_policy_fallback ae req cmd =
     render_decision_for_unmatched_command ae (req_approval_policy req) (req_permission_profile req)
       (req_file_system_access_policy req) cmd (req_permission_level req)
       (snd (commands_for_exec_policy ae (req_command req)))"

definition create_exec_approval_requirement_for_command ::
  "approval_env \<Rightarrow> policy \<Rightarrow> ('f, 'n, 'e) exec_approval_request \<Rightarrow> (unit fault, exec_approval_requirement) result" where
  "create_exec_approval_requirement_for_command ae exec_policy req =
     (let (commands, used_complex_parsing) = commands_for_exec_policy ae (req_command req);
          auto_amendment_allowed = \<not> used_complex_parsing;
          fallback = exec_policy_fallback ae req
      in case check_multiple_with_options (ae_host ae) exec_policy commands fallback True of
           Err e \<Rightarrow> Err e
         | Ok ev \<Rightarrow>
             (let requested_amendment =
                    derive_requested_execpolicy_amendment_from_prefix_rule (ae_host ae) (req_prefix_rule req)
                      (matched_rules ev) exec_policy commands fallback True
              in Ok (case eval_decision ev of
                       Forbidden \<Rightarrow> ReqForbidden (derive_forbidden_reason ae (req_command req) ev)
                     | Prompt \<Rightarrow>
                         (let prompt_is_rule = list_ex is_prompt_rule (matched_rules ev)
                          in case prompt_is_rejected_by_policy (req_approval_policy req) prompt_is_rule of
                               Some reason \<Rightarrow> ReqForbidden reason
                             | None \<Rightarrow>
                                 ReqNeedsApproval (derive_prompt_reason ae (req_command req) ev)
                                   (case requested_amendment of
                                      Some a \<Rightarrow> Some a
                                    | None \<Rightarrow>
                                        if auto_amendment_allowed
                                        then try_derive_execpolicy_amendment_for_prompt_rules (matched_rules ev)
                                        else None))
                     | Allow \<Rightarrow>
                         ReqSkip (if auto_amendment_allowed
                                  then try_derive_execpolicy_amendment_for_allow_rules (matched_rules ev)
                                  else None))))"

section \<open>Verdicts\<close>

text \<open>The commands a request is judged by, and the matches of all of them.\<close>

definition request_commands :: "approval_env \<Rightarrow> ('f, 'n, 'e) exec_approval_request \<Rightarrow> ustr list list" where
  "request_commands ae req = fst (commands_for_exec_policy ae (req_command req))"

definition command_matches ::
  "approval_env \<Rightarrow> policy \<Rightarrow> ('f, 'n, 'e) exec_approval_request \<Rightarrow> ustr list \<Rightarrow> rule_match list" where
  "command_matches ae p req cmd =
     matches_for_command_with_options (ae_host ae) p cmd (Some (exec_policy_fallback ae req)) True"

definition request_matches :: "approval_env \<Rightarrow> policy \<Rightarrow> ('f, 'n, 'e) exec_approval_request \<Rightarrow> rule_match list" where
  "request_matches ae p req = concat (map (command_matches ae p req) (request_commands ae req))"

lemma commands_for_exec_policy_nonempty: "fst (commands_for_exec_policy ae command) \<noteq> []"
  by (simp add: commands_for_exec_policy_def split: option.splits list.splits prod.splits)

lemma request_matches_nonempty: "request_matches ae p req \<noteq> []"
  using commands_for_exec_policy_nonempty [of ae "req_command req"]
  by (cases "request_commands ae req") (auto simp: request_matches_def request_commands_def command_matches_def)

lemma request_evaluation:
  "check_multiple_with_options (ae_host ae) p (request_commands ae req) (exec_policy_fallback ae req) True =
     Ok \<lparr>eval_decision = Max (match_decision ` set (request_matches ae p req)), matched_rules = request_matches ae p req\<rparr>"
proof -
  have "concat (map (\<lambda>cmd. matches_for_command_with_options (ae_host ae) p cmd
      (Some (exec_policy_fallback ae req)) True) (request_commands ae req)) = request_matches ae p req"
    by (simp add: request_matches_def command_matches_def [abs_def])
  then show ?thesis
    by (simp only: check_multiple_with_options_def from_matches_Ok [OF request_matches_nonempty])
qed

definition request_verdict :: "approval_env \<Rightarrow> policy \<Rightarrow> ('f, 'n, 'e) exec_approval_request \<Rightarrow> decision" where
  "request_verdict ae p req = Max (match_decision ` set (request_matches ae p req))"

lemma request_verdict_cases:
  "request_verdict ae p req = Allow \<longleftrightarrow> list_all (\<lambda>m. match_decision m = Allow) (request_matches ae p req)"
  "request_verdict ae p req = Forbidden \<longleftrightarrow> list_ex (\<lambda>m. match_decision m = Forbidden) (request_matches ae p req)"
proof -
  let ?D = "match_decision ` set (request_matches ae p req)"
  have fin: "finite ?D" "?D \<noteq> {}" using request_matches_nonempty by auto
  have bot: "d \<le> Allow \<longleftrightarrow> d = Allow" and top: "Forbidden \<le> d \<longleftrightarrow> d = Forbidden" for d
    by (cases d; simp add: less_eq_decision_def)+
  have "Max ?D = Allow \<longleftrightarrow> (\<forall>d\<in>?D. d \<le> Allow)" using Max_le_iff [OF fin, of Allow] bot by metis
  then show "request_verdict ae p req = Allow \<longleftrightarrow> list_all (\<lambda>m. match_decision m = Allow) (request_matches ae p req)"
    by (simp add: request_verdict_def list_all_iff bot)
  have "Max ?D = Forbidden \<longleftrightarrow> (\<exists>d\<in>?D. Forbidden \<le> d)" using Max_ge_iff [OF fin, of Forbidden] top by metis
  then show "request_verdict ae p req = Forbidden \<longleftrightarrow> list_ex (\<lambda>m. match_decision m = Forbidden) (request_matches ae p req)"
    by (force simp: request_verdict_def list_ex_iff top)
qed

text \<open>The requirement, from the verdict.\<close>

lemma create_requirement:
  "create_exec_approval_requirement_for_command ae p req =
     (let ms = request_matches ae p req; ev = \<lparr>eval_decision = request_verdict ae p req, matched_rules = ms\<rparr>;
          auto = \<not> snd (commands_for_exec_policy ae (req_command req));
          requested = derive_requested_execpolicy_amendment_from_prefix_rule (ae_host ae) (req_prefix_rule req) ms p
            (request_commands ae req) (exec_policy_fallback ae req) True
      in Ok (case request_verdict ae p req of
               Forbidden \<Rightarrow> ReqForbidden (derive_forbidden_reason ae (req_command req) ev)
             | Prompt \<Rightarrow>
                 (case prompt_is_rejected_by_policy (req_approval_policy req) (list_ex is_prompt_rule ms) of
                    Some reason \<Rightarrow> ReqForbidden reason
                  | None \<Rightarrow> ReqNeedsApproval (derive_prompt_reason ae (req_command req) ev)
                      (case requested of
                         Some a \<Rightarrow> Some a
                       | None \<Rightarrow> if auto then try_derive_execpolicy_amendment_for_prompt_rules ms else None))
             | Allow \<Rightarrow> ReqSkip (if auto then try_derive_execpolicy_amendment_for_allow_rules ms else None)))"
  using request_evaluation [of ae p req]
  by (cases "request_verdict ae p req")
     (simp_all add: create_exec_approval_requirement_for_command_def request_commands_def request_verdict_def
        Let_def case_prod_unfold split: option.split)

text \<open>
  C3: Deciding on a request never panics.  It runs without approval exactly when every rule and
  heuristic that matches any of its commands allows it; approval is asked for exactly when one of
  them prompts, none forbids and the approval policy lets that prompt through; otherwise the request is
  forbidden.
\<close>
theorem requirement_follows_verdict:
  "\<exists>r. create_exec_approval_requirement_for_command ae p req = Ok r
     \<and> ((\<exists>a. r = ReqSkip a) \<longleftrightarrow> list_all (\<lambda>m. match_decision m = Allow) (request_matches ae p req))
     \<and> ((\<exists>why a. r = ReqNeedsApproval why a) \<longleftrightarrow>
          list_ex (\<lambda>m. match_decision m = Prompt) (request_matches ae p req)
          \<and> list_all (\<lambda>m. match_decision m \<noteq> Forbidden) (request_matches ae p req)
          \<and> prompt_is_rejected_by_policy (req_approval_policy req)
              (list_ex is_prompt_rule (request_matches ae p req)) = None)"
proof -
  let ?ms = "request_matches ae p req"
  have "list_ex (\<lambda>m. match_decision m = Prompt) ?ms \<and> list_all (\<lambda>m. match_decision m \<noteq> Forbidden) ?ms
      \<longleftrightarrow> request_verdict ae p req = Prompt"
  proof -
    have "d = Allow \<or> d = Prompt \<or> d = Forbidden" for d by (cases d) auto
    then show ?thesis
      using request_verdict_cases [of ae p req] by (auto simp: list_all_iff list_ex_iff)
  qed
  then show ?thesis
    using request_verdict_cases(1) [of ae p req]
    by (cases "request_verdict ae p req")
       (auto simp: create_requirement Let_def split: option.splits)
qed

section \<open>Dangerous commands\<close>

lemma unmatched_command:
  assumes "matches_for_command_with_options (ae_host ae) p cmd None True = []"
  shows "command_matches ae p req cmd = [HeuristicsRuleMatch cmd (exec_policy_fallback ae req cmd)]"
  using assms by (auto simp: command_matches_def matches_for_command_with_options_def Let_def split: if_splits)

text \<open>
  C9: A dangerous command of a request that no rule speaks about never runs without asking, unless
  access restriction is explicitly disabled and prompts are too.  The shell grammar is one whose nodes have
  parts of the script as their texts.
\<close>
theorem dangerous_command_is_never_skipped:
  assumes "documented_grammar (ae_bash_tree ae)" and "cmd \<in> set (request_commands ae req)"
    and "command_might_be_dangerous (ae_bash_tree ae) cmd"
    and "matches_for_command_with_options (ae_host ae) p cmd None True = []"
    and "req_approval_policy req \<noteq> Never \<or> \<not> restriction_disabled (req_permission_profile req)"
  shows "create_exec_approval_requirement_for_command ae p req \<noteq> Ok (ReqSkip a)"
proof -
  have "exec_policy_fallback ae req cmd \<noteq> Allow"
    using assms(3,5) dangerous_not_known_safe [OF assms(1,3)]
    by (auto simp: exec_policy_fallback_def render_decision_for_unmatched_command_def known_safe_def
        split: ask_for_approval.splits)
  then have "\<not> list_all (\<lambda>m. match_decision m = Allow) (request_matches ae p req)"
    using assms(2) unmatched_command [OF assms(4), of req] by (force simp: request_matches_def list_all_iff)
  then have "request_verdict ae p req \<noteq> Allow" by (simp add: request_verdict_cases)
  then show ?thesis
    by (cases "request_verdict ae p req") (auto simp: create_requirement Let_def split: option.splits)
qed

text \<open>An environment in which the shell grammar knows one script, \<^verbatim>\<open>sudo rm -rf x\<close>.\<close>

definition sample_env :: approval_env where
  "sample_env = \<lparr>ae_linux = True, ae_ps_ast = (\<lambda>_ _. Failed),
     ae_bash_tree = sudo_rm_grammar,
     ae_shlex_split = (\<lambda>_. None), ae_shlex_try_join = (\<lambda>_. None), ae_host = no_env\<rparr>"

definition sample_request ::
  "ustr list \<Rightarrow> ask_for_approval \<Rightarrow> execution_permission_level \<Rightarrow> ustr list option
     \<Rightarrow> (unit, unit, unit) exec_approval_request" where
  "sample_request command approval_policy level pre =
     \<lparr>req_command = command, req_approval_policy = approval_policy, req_permission_profile = Managed () (),
      req_file_system_access_policy = \<lparr>fs_kind = FsRestricted, glob_scan_max_depth = None, fs_entries = []\<rparr>,
      req_permission_level = level, req_prefix_rule = pre\<rparr>"

theorem dangerous_command_is_never_skipped_witness:
  "create_exec_approval_requirement_for_command sample_env policy_empty
     (sample_request [lit ''bash'', lit ''-lc'', lit ''sudo rm -rf x''] OnFailure UseDefault None) \<noteq> Ok (ReqSkip None)"
proof (rule dangerous_command_is_never_skipped [of _ "[lit ''sudo'', lit ''rm'', lit ''-rf'', lit ''x'']"])
  show "documented_grammar (ae_bash_tree sample_env)" using sudo_rm_documented by (simp add: sample_env_def)
qed code_simp+

text \<open>
  When prompts are disabled no request ends in one, whatever the rules say.
\<close>
theorem never_policy_never_prompts:
  "create_exec_approval_requirement_for_command ae p (req\<lparr>req_approval_policy := Never\<rparr>)
     \<noteq> Ok (ReqNeedsApproval why a)"
  by (auto simp: create_requirement Let_def prompt_is_rejected_by_policy_def split: decision.splits)

section \<open>Amendments\<close>

text \<open>
  C31: A prefix that the agent asked for and that is proposed is not one of the banned prefixes, and
  once it is in the policy the same request runs without approval.
\<close>
theorem requested_amendment_approves_request:
  assumes "derive_requested_execpolicy_amendment_from_prefix_rule (ae_host ae) (req_prefix_rule req)
      (request_matches ae p req) p (request_commands ae req) (exec_policy_fallback ae req) True = Some a"
  shows "\<exists>p' next_amendment. add_prefix_rule a Allow p = Ok p' \<and> a \<notin> set BANNED_PREFIX_SUGGESTIONS
     \<and> create_exec_approval_requirement_for_command ae p' req = Ok (ReqSkip next_amendment)"
proof -
  have a: "a \<notin> set BANNED_PREFIX_SUGGESTIONS" and w: "prefix_rule_would_approve_all_commands (ae_host ae) p a
      (request_commands ae req) (exec_policy_fallback ae req) True"
    using assms by (auto simp: derive_requested_execpolicy_amendment_from_prefix_rule_def list_ex_iff
        split: option.splits if_splits)
  from w obtain p' where p': "add_prefix_rule a Allow p = Ok p'"
    and ok: "list_all (\<lambda>cmd. case check_with_options (ae_host ae) p' cmd (exec_policy_fallback ae req) True of
        Ok ev \<Rightarrow> eval_decision ev = Allow | Err _ \<Rightarrow> False) (request_commands ae req)"
    by (auto simp: prefix_rule_would_approve_all_commands_def split: result.splits)
  have "match_decision m = Allow"
    if "cmd \<in> set (request_commands ae req)" "m \<in> set (command_matches ae p' req cmd)" for cmd m
  proof -
    have "Max (match_decision ` set (command_matches ae p' req cmd)) = Allow"
      using ok that(1)
      by (auto simp: list_all_iff check_with_options_def from_matches_Ok command_matches_def)
    then have "match_decision m \<le> Allow" using that(2) by (metis Max_ge finite_imageI imageI List.finite_set)
    then show ?thesis by (cases "match_decision m") (auto simp: less_eq_decision_def)
  qed
  then have "request_verdict ae p' req = Allow"
    by (auto simp: request_verdict_cases request_matches_def list_all_iff)
  with p' a show ?thesis by (simp add: create_requirement Let_def)
qed

theorem requested_amendment_approves_request_witness:
  "\<exists>p' next_amendment. add_prefix_rule [lit ''make''] Allow policy_empty = Ok p'
     \<and> [lit ''make''] \<notin> set BANNED_PREFIX_SUGGESTIONS
     \<and> create_exec_approval_requirement_for_command sample_env p'
         (sample_request [lit ''make'', lit ''all''] UnlessTrusted UseDefault (Some [lit ''make''])) = Ok (ReqSkip next_amendment)"
  by (rule requested_amendment_approves_request) code_simp

text \<open>
  With no rule for a single unmatched command that must be approved, the amendment offered to
  the user is its program alone, whatever the program is.
\<close>
theorem automatic_amendment_is_the_program:
  assumes "commands_for_exec_policy ae (req_command req) = ([name # args], False)"
    and "matches_for_command_with_options (ae_host ae) p (name # args) None True = []"
    and "exec_policy_fallback ae req (name # args) = Prompt"
    and "prompt_is_rejected_by_policy (req_approval_policy req) False = None"
    and "req_prefix_rule req = None"
  shows "create_exec_approval_requirement_for_command ae p req = Ok (ReqNeedsApproval None (Some [name]))"
proof -
  have ms: "request_matches ae p req = [HeuristicsRuleMatch (name # args) Prompt]"
    using assms(1,3) unmatched_command [OF assms(2), of req] by (simp add: request_matches_def request_commands_def)
  then have "request_verdict ae p req = Prompt" by (simp add: request_verdict_def)
  then show ?thesis using assms ms
    by (simp add: create_requirement Let_def is_prompt_rule_def derive_prompt_reason_def most_specific_def
        List.map_filter_def derive_requested_execpolicy_amendment_from_prefix_rule_def
        try_derive_execpolicy_amendment_for_prompt_rules_def)
qed

theorem automatic_amendment_is_the_program_witness:
  "create_exec_approval_requirement_for_command sample_env policy_empty
     (sample_request [lit ''python3'', lit ''build.py''] UnlessTrusted UseDefault None)
       = Ok (ReqNeedsApproval None (Some [lit ''python3'']))
   \<and> [lit ''python3''] \<in> set BANNED_PREFIX_SUGGESTIONS"
proof
  show "create_exec_approval_requirement_for_command sample_env policy_empty
     (sample_request [lit ''python3'', lit ''build.py''] UnlessTrusted UseDefault None)
       = Ok (ReqNeedsApproval None (Some [lit ''python3'']))"
    by (rule automatic_amendment_is_the_program [of _ _ _ "[lit ''build.py'']"]; code_simp)
  show "[lit ''python3''] \<in> set BANNED_PREFIX_SUGGESTIONS" by code_simp
qed

section \<open>Escalation\<close>

text \<open>
  A request that requires escalated permissions is decided like one that requires none: only
  the request for additional permissions makes an unmatched, harmless command ask.
\<close>
theorem require_escalated_is_decided_as_default:
  "create_exec_approval_requirement_for_command ae p (req\<lparr>req_permission_level := RequireEscalated\<rparr>)
     = create_exec_approval_requirement_for_command ae p (req\<lparr>req_permission_level := UseDefault\<rparr>)"
proof -
  have fallback: "exec_policy_fallback ae (req\<lparr>req_permission_level := RequireEscalated\<rparr>)
      = exec_policy_fallback ae (req\<lparr>req_permission_level := UseDefault\<rparr>)"
    by (simp add: fun_eq_iff exec_policy_fallback_def render_decision_for_unmatched_command_def
        decision_by_access_def requests_escalated_permissions_def
        split: ask_for_approval.splits file_system_access_level.splits)
  have sel: "req_command (req\<lparr>req_permission_level := l\<rparr>) = req_command req"
    "req_approval_policy (req\<lparr>req_permission_level := l\<rparr>) = req_approval_policy req"
    "req_prefix_rule (req\<lparr>req_permission_level := l\<rparr>) = req_prefix_rule req" for l by simp_all
  show ?thesis unfolding create_exec_approval_requirement_for_command_def fallback sel ..
qed

end
