(* ===== verification/Policy_Updates.thy ===== *)
theory Policy_Updates
  imports Policy_Loading Policy_Amend Exec_Approval
begin

text \<open>
  The policy manager and its updates (\<^verbatim>\<open>ExecPolicyManager\<close> of \<^verbatim>\<open>src/core/src/exec_policy.rs\<close>): the policy that
  requests are judged by, the semaphore with one permit that guards updates, and the two updates, which
  write the rules file and then replace the policy.  Any number of updates run at the same time as
  tasks; \<open>update_step\<close> is one move of one task, with the file access, the load of the policy and the
  store of its successor as separate moves.  The semaphore is never closed and the blocking file task
  does not panic, so that the errors for these do not occur.
\<close>

section \<open>Definitions\<close>

datatype exec_policy_update_error =
    AppendRule path amend_error
  | JoinBlockingTask
  | AddRule exec_error

record exec_policy_manager =
  manager_policy :: policy
  update_permits :: nat

definition manager_new :: "policy \<Rightarrow> exec_policy_manager" where
  "manager_new p = \<lparr>manager_policy = p, update_permits = 1\<rparr>"

definition manager_load ::
  "(ustr \<Rightarrow> ustr \<Rightarrow> star_program) \<Rightarrow> (ustr \<Rightarrow> ustr list option) \<Rightarrow> host_env \<Rightarrow> disk \<Rightarrow> 't exec_config_stack
     \<Rightarrow> (exec_policy_error, exec_policy_manager) result" where
  "manager_load starlark shlex env d config_stack =
     (case load_exec_policy_with_warning starlark shlex env d config_stack of
        Err e \<Rightarrow> Err e
      | Ok (p, _) \<Rightarrow> Ok (manager_new p))"

text \<open>The file part of the updates.\<close>

definition append_amendment_file ::
  "json \<Rightarrow> path \<Rightarrow> exec_policy_amendment \<Rightarrow> disk \<Rightarrow> (exec_policy_update_error, unit) result \<times> disk" where
  "append_amendment_file json agere_home amendment d =
     (let policy_path = default_policy_path agere_home
      in case blocking_append_allow_prefix_rule json policy_path amendment d of
           (Err e, d') \<Rightarrow> (Err (AppendRule policy_path e), d')
         | (Ok _, d') \<Rightarrow> (Ok (), d'))"

definition append_network_file ::
  "json \<Rightarrow> path \<Rightarrow> ustr \<Rightarrow> network_rule_protocol \<Rightarrow> decision \<Rightarrow> ustr option \<Rightarrow> disk
     \<Rightarrow> (exec_policy_update_error, unit) result \<times> disk" where
  "append_network_file json agere_home host protocol dec justification d =
     (let policy_path = default_policy_path agere_home
      in case blocking_append_network_rule json policy_path host protocol dec justification d of
           (Err e, d') \<Rightarrow> (Err (AppendRule policy_path e), d')
         | (Ok _, d') \<Rightarrow> (Ok (), d'))"

text \<open>The policy part: the policy to store, if any.\<close>

definition already_allowed :: "evaluation \<Rightarrow> bool" where
  "already_allowed existing_evaluation \<longleftrightarrow>
     eval_decision existing_evaluation = Allow
     \<and> list_ex (\<lambda>m. is_policy_match m \<and> match_decision m = Allow) (matched_rules existing_evaluation)"

definition amended_policy ::
  "host_env \<Rightarrow> exec_policy_amendment \<Rightarrow> policy \<Rightarrow> (exec_policy_update_error fault, policy option) result" where
  "amended_policy env amendment current_policy =
     (case check_multiple_with_options env current_policy [amendment] (\<lambda>_. Forbidden) True of
        Err _ \<Rightarrow> Err Panic
      | Ok existing_evaluation \<Rightarrow>
          if already_allowed existing_evaluation then Ok None
          else case add_prefix_rule amendment Allow current_policy of
                 Err e \<Rightarrow> Err (Fail (AddRule e))
               | Ok updated_policy \<Rightarrow> Ok (Some updated_policy))"

definition network_amended_policy ::
  "ustr \<Rightarrow> network_rule_protocol \<Rightarrow> decision \<Rightarrow> ustr option \<Rightarrow> policy
     \<Rightarrow> (exec_policy_update_error fault, policy option) result" where
  "network_amended_policy host protocol dec justification current_policy =
     (case add_network_rule host protocol dec justification current_policy of
        Err e \<Rightarrow> Err (Fail (AddRule e))
      | Ok updated_policy \<Rightarrow> Ok (Some updated_policy))"

type_synonym update_outcome = "(exec_policy_update_error fault, unit) result"

text \<open>What is done with the permit in hand, on the disk and the policy.\<close>

definition finish_update ::
  "(exec_policy_update_error, unit) result \<times> disk \<Rightarrow> (policy \<Rightarrow> (exec_policy_update_error fault, policy option) result)
     \<Rightarrow> policy \<Rightarrow> update_outcome \<times> disk \<times> policy" where
  "finish_update file amend p =
     (case file of
        (Err e, d) \<Rightarrow> (Err (Fail e), d, p)
      | (Ok _, d) \<Rightarrow>
          (case amend p of
             Err e \<Rightarrow> (Err e, d, p)
           | Ok None \<Rightarrow> (Ok (), d, p)
           | Ok (Some updated_policy) \<Rightarrow> (Ok (), d, updated_policy)))"

definition append_amendment_and_update ::
  "json \<Rightarrow> host_env \<Rightarrow> path \<Rightarrow> exec_policy_amendment \<Rightarrow> disk \<times> policy \<Rightarrow> update_outcome \<times> disk \<times> policy" where
  "append_amendment_and_update json env agere_home amendment = (\<lambda>(d, p).
     finish_update (append_amendment_file json agere_home amendment d) (amended_policy env amendment) p)"

definition append_network_rule_and_update ::
  "json \<Rightarrow> path \<Rightarrow> ustr \<Rightarrow> network_rule_protocol \<Rightarrow> decision \<Rightarrow> ustr option
     \<Rightarrow> disk \<times> policy \<Rightarrow> update_outcome \<times> disk \<times> policy" where
  "append_network_rule_and_update json agere_home host protocol dec justification = (\<lambda>(d, p).
     finish_update (append_network_file json agere_home host protocol dec justification d)
       (network_amended_policy host protocol dec justification) p)"

section \<open>Concurrent updates\<close>

datatype policy_update =
    AllowPrefix exec_policy_amendment
  | NetworkRule ustr network_rule_protocol decision "ustr option"

text \<open>What the tasks share besides the disk and the manager.\<close>

record update_env =
  ue_json :: json
  ue_host :: host_env
  ue_agere_home :: path

fun update_file :: "update_env \<Rightarrow> policy_update \<Rightarrow> disk \<Rightarrow> (exec_policy_update_error, unit) result \<times> disk" where
  "update_file ue (AllowPrefix a) d = append_amendment_file (ue_json ue) (ue_agere_home ue) a d"
| "update_file ue (NetworkRule host protocol dec j) d =
     append_network_file (ue_json ue) (ue_agere_home ue) host protocol dec j d"

fun update_policy :: "update_env \<Rightarrow> policy_update \<Rightarrow> policy \<Rightarrow> (exec_policy_update_error fault, policy option) result" where
  "update_policy ue (AllowPrefix a) p = amended_policy (ue_host ue) a p"
| "update_policy ue (NetworkRule host protocol dec j) p = network_amended_policy host protocol dec j p"

fun apply_update :: "update_env \<Rightarrow> policy_update \<Rightarrow> disk \<times> policy \<Rightarrow> update_outcome \<times> disk \<times> policy" where
  "apply_update ue (AllowPrefix a) st = append_amendment_and_update (ue_json ue) (ue_host ue) (ue_agere_home ue) a st"
| "apply_update ue (NetworkRule host protocol dec j) st =
     append_network_rule_and_update (ue_json ue) (ue_agere_home ue) host protocol dec j st"

text \<open>Where a task is: before the permit, holding it, past the file, past the load, done.\<close>

datatype update_task =
    Waiting policy_update
  | Holding policy_update
  | Appended policy_update
  | Loaded policy_update policy
  | Finished update_outcome

record update_state =
  us_disk :: disk
  us_manager :: exec_policy_manager
  us_tasks :: "update_task list"

definition release_permit :: "exec_policy_manager \<Rightarrow> exec_policy_manager" where
  "release_permit m = m\<lparr>update_permits := Suc (update_permits m)\<rparr>"

fun store_policy :: "(exec_policy_update_error fault, policy option) result \<Rightarrow> exec_policy_manager \<Rightarrow> exec_policy_manager" where
  "store_policy (Ok (Some updated_policy)) m = m\<lparr>manager_policy := updated_policy\<rparr>"
| "store_policy _ m = m"

fun update_outcome_of :: "(exec_policy_update_error fault, policy option) result \<Rightarrow> update_outcome" where
  "update_outcome_of (Ok _) = Ok ()"
| "update_outcome_of (Err e) = Err e"

inductive update_step :: "update_env \<Rightarrow> update_state \<Rightarrow> update_state \<Rightarrow> bool" for ue where
  acquire:
    "i < length (us_tasks s) \<Longrightarrow> us_tasks s ! i = Waiting u \<Longrightarrow> 0 < update_permits (us_manager s) \<Longrightarrow>
     update_step ue s (s\<lparr>us_manager := (us_manager s)\<lparr>update_permits := update_permits (us_manager s) - 1\<rparr>,
       us_tasks := (us_tasks s)[i := Holding u]\<rparr>)"
| append_fails:
    "i < length (us_tasks s) \<Longrightarrow> us_tasks s ! i = Holding u \<Longrightarrow> update_file ue u (us_disk s) = (Err e, d) \<Longrightarrow>
     update_step ue s (s\<lparr>us_disk := d, us_manager := release_permit (us_manager s),
       us_tasks := (us_tasks s)[i := Finished (Err (Fail e))]\<rparr>)"
| append_succeeds:
    "i < length (us_tasks s) \<Longrightarrow> us_tasks s ! i = Holding u \<Longrightarrow> update_file ue u (us_disk s) = (Ok (), d) \<Longrightarrow>
     update_step ue s (s\<lparr>us_disk := d, us_tasks := (us_tasks s)[i := Appended u]\<rparr>)"
| load_current:
    "i < length (us_tasks s) \<Longrightarrow> us_tasks s ! i = Appended u \<Longrightarrow>
     update_step ue s (s\<lparr>us_tasks := (us_tasks s)[i := Loaded u (manager_policy (us_manager s))]\<rparr>)"
| store_updated:
    "i < length (us_tasks s) \<Longrightarrow> us_tasks s ! i = Loaded u p \<Longrightarrow> update_policy ue u p = r \<Longrightarrow>
     update_step ue s (s\<lparr>us_manager := release_permit (store_policy r (us_manager s)),
       us_tasks := (us_tasks s)[i := Finished (update_outcome_of r)]\<rparr>)"

definition start_updates :: "disk \<Rightarrow> exec_policy_manager \<Rightarrow> policy_update list \<Rightarrow> update_state" where
  "start_updates d m us = \<lparr>us_disk = d, us_manager = m, us_tasks = map Waiting us\<rparr>"

abbreviation update_run :: "update_env \<Rightarrow> update_state \<Rightarrow> update_state \<Rightarrow> bool" where
  "update_run ue \<equiv> (update_step ue)\<^sup>*\<^sup>*"

section \<open>The sequential view\<close>

fun run_updates :: "update_env \<Rightarrow> policy_update list \<Rightarrow> disk \<times> policy \<Rightarrow> update_outcome list \<times> disk \<times> policy" where
  "run_updates ue [] st = ([], st)"
| "run_updates ue (u # us) st =
     (let (r, st') = apply_update ue u st; (rs, st'') = run_updates ue us st' in (r # rs, st''))"

lemma apply_update_parts:
  "apply_update ue u (d, p) = finish_update (update_file ue u d) (update_policy ue u) p"
  by (cases u)
     (simp_all add: append_amendment_and_update_def append_network_rule_and_update_def finish_update_def
        split: prod.split result.split)

lemma run_updates_snoc:
  "run_updates ue (us @ [u]) st =
     (fst (run_updates ue us st) @ [fst (apply_update ue u (snd (run_updates ue us st)))],
      snd (apply_update ue u (snd (run_updates ue us st))))"
  by (induction us arbitrary: st) (auto simp: Let_def split_beta)

lemma length_run_updates [simp]: "length (fst (run_updates ue us st)) = length us"
  by (induction us arbitrary: st) (auto simp: Let_def split_beta)

text \<open>The outcome and the policy of the last two moves of a task are those of the whole update.\<close>

lemma apply_update_file_fails:
  "update_file ue u d = (Err e, d') \<Longrightarrow> apply_update ue u (d, p) = (Err (Fail e), d', p)"
  by (simp add: apply_update_parts finish_update_def)

lemma apply_update_stored:
  "update_file ue u d = (Ok (), d') \<Longrightarrow> manager_policy m = p \<Longrightarrow>
   apply_update ue u (d, p) = (update_outcome_of (update_policy ue u p), d', manager_policy (store_policy (update_policy ue u p) m))"
  by (simp add: apply_update_parts finish_update_def split: result.splits option.splits)

section \<open>Every interleaving is a sequence\<close>

text \<open>
  The finished tasks in the order they finished in, and the task that holds the permit: the policy is
  the one after the finished updates, and so is the disk unless the holder has written to it already.
\<close>

definition holder_ok :: "update_env \<Rightarrow> policy_update list \<Rightarrow> update_state \<Rightarrow> disk \<times> policy \<Rightarrow> nat option \<Rightarrow> bool" where
  "holder_ok ue us s st holder \<longleftrightarrow>
     (case holder of
        None \<Rightarrow> update_permits (us_manager s) = 1 \<and> us_disk s = fst st
      | Some i \<Rightarrow> i < length us \<and> update_permits (us_manager s) = 0
          \<and> (us_tasks s ! i = Holding (us ! i) \<and> us_disk s = fst st
             \<or> (us_tasks s ! i = Appended (us ! i) \<or> us_tasks s ! i = Loaded (us ! i) (snd st))
                \<and> update_file ue (us ! i) (fst st) = (Ok (), us_disk s)))"

definition serial ::
  "update_env \<Rightarrow> disk \<times> policy \<Rightarrow> policy_update list \<Rightarrow> nat list \<Rightarrow> nat option \<Rightarrow> update_state \<Rightarrow> bool" where
  "serial ue st us order holder s \<longleftrightarrow>
     length (us_tasks s) = length us \<and> distinct order \<and> set order \<subseteq> {..<length us} \<and> holder \<notin> Some ` set order
     \<and> (\<forall>i<length us. i \<notin> set order \<longrightarrow> Some i \<noteq> holder \<longrightarrow> us_tasks s ! i = Waiting (us ! i))
     \<and> (\<forall>k<length order. us_tasks s ! (order ! k) = Finished (fst (run_updates ue (map (nth us) order) st) ! k))
     \<and> manager_policy (us_manager s) = snd (snd (run_updates ue (map (nth us) order) st))
     \<and> holder_ok ue us s (snd (run_updates ue (map (nth us) order) st)) holder"

lemma serial_start: "serial ue (d, p) us [] None (start_updates d (manager_new p) us)"
  by (simp add: serial_def holder_ok_def start_updates_def manager_new_def)

lemma serial_waiting:
  assumes "serial ue st us order holder s" and "i < length (us_tasks s)" and "us_tasks s ! i = Waiting u"
  shows "i \<notin> set order \<and> Some i \<noteq> holder \<and> u = us ! i"
proof -
  have "i \<notin> set order" using assms by (auto simp: serial_def in_set_conv_nth)
  moreover have "Some i \<noteq> holder" using assms by (auto simp: serial_def holder_ok_def)
  ultimately show ?thesis using assms by (auto simp: serial_def)
qed

lemma serial_holder:
  assumes "serial ue st us order holder s" and "i < length (us_tasks s)"
    and "\<forall>u. us_tasks s ! i \<noteq> Waiting u" and "\<forall>r. us_tasks s ! i \<noteq> Finished r"
  shows "holder = Some i \<and> i \<notin> set order"
proof -
  have "i \<notin> set order" using assms by (auto simp: serial_def in_set_conv_nth)
  then show ?thesis using assms by (auto simp: serial_def)
qed

text \<open>A task that finishes with the outcome of its update, applied after the others, goes last.\<close>

lemma serial_finish:
  assumes s: "serial ue st us order (Some i) s"
    and a: "apply_update ue (us ! i) (snd (run_updates ue (map (nth us) order) st)) = (r, d, p)"
    and s': "us_tasks s' = (us_tasks s)[i := Finished r]" "us_disk s' = d" "manager_policy (us_manager s') = p"
      "update_permits (us_manager s') = 1"
  shows "serial ue st us (order @ [i]) None s'"
proof -
  have i: "i < length us" "i \<notin> set order" using s by (auto simp: serial_def holder_ok_def)
  have run: "run_updates ue (map (nth us) order @ [us ! i]) st
      = (fst (run_updates ue (map (nth us) order) st) @ [r], d, p)"
    using a by (simp add: run_updates_snoc)
  have "us_tasks s' ! ((order @ [i]) ! k) = Finished (fst (run_updates ue (map (nth us) (order @ [i])) st) ! k)"
    if "k < length (order @ [i])" for k
  proof (cases "k < length order")
    case True
    then have "order ! k \<noteq> i" using i(2) nth_mem by metis
    with True s show ?thesis by (simp add: run nth_append serial_def s'(1))
  next
    case False
    with that have "k = length order" by simp
    with i s show ?thesis by (simp add: run nth_append serial_def s'(1))
  qed
  with s i s' run show ?thesis by (simp add: serial_def holder_ok_def)
qed

lemma serial_step:
  assumes "update_step ue s s'" and s: "serial ue st us order holder s"
  shows "\<exists>order holder. serial ue st us order holder s'"
  using assms(1)
proof cases
  case (acquire i u)
  note w = serial_waiting [OF s acquire(2,3)]
  have "holder = None" using s acquire(4) by (auto simp: serial_def holder_ok_def split: option.splits)
  with s w acquire have "serial ue st us order (Some i) s'"
    by (auto simp: serial_def holder_ok_def nth_list_update)
  then show ?thesis by blast
next
  case (append_fails i u e d)
  then have h: "holder = Some i" using serial_holder [OF s] by simp
  let ?st = "snd (run_updates ue (map (nth us) order) st)"
  have st: "?st = (us_disk s, manager_policy (us_manager s))" and u: "u = us ! i" "update_permits (us_manager s) = 0"
    using s h append_fails by (auto simp: serial_def holder_ok_def prod_eq_iff)
  have "apply_update ue (us ! i) ?st = (Err (Fail e), d, manager_policy (us_manager s))"
    using append_fails(4) unfolding st u by (rule apply_update_file_fails)
  from serial_finish [OF s [unfolded h] this, of s'] show ?thesis
    using append_fails(1) u by (auto simp: release_permit_def)
next
  case (append_succeeds i u d)
  then have h: "holder = Some i" using serial_holder [OF s] by simp
  with s append_succeeds have "serial ue st us order (Some i) s'"
    by (auto simp: serial_def holder_ok_def nth_list_update)
  then show ?thesis by blast
next
  case (load_current i u)
  then have h: "holder = Some i" using serial_holder [OF s] by simp
  with s load_current have "serial ue st us order (Some i) s'"
    by (auto simp: serial_def holder_ok_def nth_list_update)
  then show ?thesis by blast
next
  case (store_updated i u p r)
  then have h: "holder = Some i" using serial_holder [OF s] by simp
  let ?st = "snd (run_updates ue (map (nth us) order) st)"
  have st: "?st = (fst ?st, p)" "manager_policy (us_manager s) = p" and u: "u = us ! i" "update_permits (us_manager s) = 0"
    and f: "update_file ue (us ! i) (fst ?st) = (Ok (), us_disk s)"
    using s h store_updated by (auto simp: serial_def holder_ok_def prod_eq_iff)
  have "apply_update ue (us ! i) ?st = (update_outcome_of (update_policy ue u p), us_disk s,
      manager_policy (store_policy (update_policy ue u p) (us_manager s)))"
    using apply_update_stored [OF f st(2)] u st(1) by metis
  moreover have "update_permits (store_policy r m) = update_permits m" for r m
    by (cases "(r, m)" rule: store_policy.cases) simp_all
  ultimately show ?thesis
    using serial_finish [OF s [unfolded h], of _ _ _ s'] store_updated(1,4) u by (auto simp: release_permit_def)
qed

lemma serial_reachable:
  assumes "update_run ue (start_updates d (manager_new p) us) s"
  shows "\<exists>order holder. serial ue (d, p) us order holder s"
  using assms by (induction rule: rtranclp_induct) (blast intro: serial_start serial_step)+

lemma serial_finished:
  assumes "serial ue st us order holder s"
  shows "set order = {i. i < length us \<and> (\<exists>r. us_tasks s ! i = Finished r)}"
proof (intro equalityI subsetI)
  fix i assume "i \<in> set order"
  then obtain k where "k < length order" "order ! k = i" by (auto simp: in_set_conv_nth)
  moreover have "i < length us" using assms \<open>i \<in> set order\<close> by (auto simp: serial_def)
  ultimately show "i \<in> {i. i < length us \<and> (\<exists>r. us_tasks s ! i = Finished r)}"
    using assms by (auto simp: serial_def)
next
  fix i assume "i \<in> {i. i < length us \<and> (\<exists>r. us_tasks s ! i = Finished r)}"
  then obtain r where i: "i < length us" "us_tasks s ! i = Finished r" by blast
  show "i \<in> set order"
  proof (rule ccontr)
    assume n: "i \<notin> set order"
    have "Some i \<noteq> holder" using assms i by (auto simp: serial_def holder_ok_def)
    with n i assms show False by (auto simp: serial_def)
  qed
qed

section \<open>Progress\<close>

fun task_work :: "update_task \<Rightarrow> nat" where
  "task_work (Waiting _) = 4"
| "task_work (Holding _) = 3"
| "task_work (Appended _) = 2"
| "task_work (Loaded _ _) = 1"
| "task_work (Finished _) = 0"

abbreviation work_left :: "update_state \<Rightarrow> nat" where
  "work_left s \<equiv> sum_list (map task_work (us_tasks s))"

lemma work_move:
  assumes "i < length ts" and "task_work t < task_work (ts ! i)"
  shows "sum_list (map task_work (ts[i := t])) < sum_list (map task_work ts)"
  using assms
proof (induction ts arbitrary: i)
  case (Cons x ts)
  then show ?case by (cases i) auto
qed simp

lemma step_work: "update_step ue s s' \<Longrightarrow> work_left s' < work_left s"
  by (erule update_step.cases) (auto intro!: work_move)

lemma steps_work: "(update_step ue ^^ n) s s' \<Longrightarrow> n + work_left s' \<le> work_left s"
proof (induction n arbitrary: s')
  case (Suc n)
  then obtain s1 where "(update_step ue ^^ n) s s1" "update_step ue s1 s'" by auto
  with Suc.IH [of s1] step_work [of ue s1 s'] show ?case by simp
qed simp

lemma holder_moves:
  assumes "serial ue st us order (Some i) s"
  shows "\<exists>s'. update_step ue s s'"
proof -
  have i: "i < length (us_tasks s)" using assms by (auto simp: serial_def holder_ok_def)
  consider "us_tasks s ! i = Holding (us ! i)" | "us_tasks s ! i = Appended (us ! i)" | q where "us_tasks s ! i = Loaded (us ! i) q"
    using assms by (auto simp: serial_def holder_ok_def)
  then show ?thesis
  proof cases
    case 1
    obtain r d where f: "update_file ue (us ! i) (us_disk s) = (r, d)" by fastforce
    show ?thesis
    proof (cases r)
      case (Err e)
      from update_step.append_fails [OF i 1 f [unfolded Err]] show ?thesis by blast
    next
      case (Ok x)
      from update_step.append_succeeds [OF i 1, of ue d] show ?thesis using f Ok by auto
    qed
  next
    case 2
    from update_step.load_current [OF i this] show ?thesis by blast
  next
    case 3
    from update_step.store_updated [OF i this refl] show ?thesis by blast
  qed
qed

lemma serial_progress:
  assumes s: "serial ue st us order holder s" and stuck: "\<forall>s'. \<not> update_step ue s s'"
  shows "set order = {..<length us}"
proof (rule ccontr)
  assume "set order \<noteq> {..<length us}"
  then obtain i where i: "i < length us" "i \<notin> set order" using s by (auto simp: serial_def)
  have h: "holder = None" using holder_moves [of ue st us order _ s] s stuck by (cases holder) auto
  with s i have "i < length (us_tasks s)" "us_tasks s ! i = Waiting (us ! i)" "0 < update_permits (us_manager s)"
    by (auto simp: serial_def holder_ok_def)
  from update_step.acquire [OF this] stuck show False by blast
qed

section \<open>What updates keep\<close>

definition rule_allows :: "host_env \<Rightarrow> policy \<Rightarrow> ustr list \<Rightarrow> bool" where
  "rule_allows env p cmd \<longleftrightarrow>
     list_ex (\<lambda>m. is_policy_match m \<and> match_decision m = Allow) (matches_for_command_with_options env p cmd None True)"

lemma add_prefix_rules:
  assumes "add_prefix_rule pre dec p = Ok q"
  shows "\<exists>rule. rule_decision rule = dec \<and> rule_matches rule pre \<noteq> None
    \<and> (\<forall>k. mm_get (rules_by_program q) k = mm_get (rules_by_program p) k @ (if k = hd pre then [rule] else []))
    \<and> host_executables_by_name q = host_executables_by_name p \<and> pre \<noteq> []"
proof -
  obtain first rest where pre: "pre = first # rest" using assms by (cases pre) (auto simp: add_prefix_rule_def)
  let ?rule = "\<lparr>rule_pattern = \<lparr>pat_first = first, pat_rest = map TokSingle rest\<rparr>,
      rule_decision = dec, rule_justification = None\<rparr>"
  have q: "q = p\<lparr>rules_by_program := mm_insert first ?rule (rules_by_program p)\<rparr>"
    using assms pre by (simp add: add_prefix_rule_def)
  have "list_all2 token_matches (map TokSingle rest) rest"
    by (induction rest) simp_all
  then have "matches_prefix \<lparr>pat_first = first, pat_rest = map TokSingle rest\<rparr> pre = Some pre"
    unfolding pre matches_prefix_Some by auto
  then have "rule_matches ?rule pre \<noteq> None" by (simp add: rule_matches_def)
  moreover have "mm_get (rules_by_program q) k = mm_get (rules_by_program p) k @ (if k = hd pre then [?rule] else [])" for k
    unfolding q pre by (auto simp: mm_get_insert)
  ultimately show ?thesis using q pre by (intro exI [of _ ?rule]) simp
qed

lemma rule_match_decision: "rule_matches rule cmd = Some m \<Longrightarrow> match_decision m = rule_decision rule \<and> is_policy_match m"
  by (auto simp: rule_matches_def)

definition exact_matches :: "policy \<Rightarrow> ustr list \<Rightarrow> rule_match list" where
  "exact_matches p cmd = (case match_exact_rules p cmd of Some ms \<Rightarrow> ms | None \<Rightarrow> [])"

lemma matches_without_fallback:
  "matches_for_command_with_options env p cmd None True =
     (if exact_matches p cmd \<noteq> [] then exact_matches p cmd else match_host_executable_rules env p cmd)"
  by (simp add: matches_for_command_with_options_def exact_matches_def Let_def)

lemma exact_matches_eq:
  "exact_matches p [] = []"
  "exact_matches p (first # rest)
     = List.map_filter (\<lambda>rule. rule_matches rule (first # rest)) (mm_get (rules_by_program p) first)"
  by (simp_all add: exact_matches_def match_exact_rules_def)

lemma match_host_mm_get:
  "match_host_executable_rules env p cmd =
     (case cmd of
        [] \<Rightarrow> []
      | first # rest \<Rightarrow>
          (case from_absolute_path (env_home env) (env_current_dir env) first of
             Err _ \<Rightarrow> []
           | Ok program \<Rightarrow>
               (case executable_path_lookup_key program of
                  None \<Rightarrow> []
                | Some basename \<Rightarrow>
                    if (case map_of (host_executables_by_name p) basename of
                          Some paths \<Rightarrow> \<not> list_ex (\<lambda>path. path = program) paths
                        | None \<Rightarrow> False)
                    then []
                    else map (with_resolved_program program)
                           (List.map_filter (\<lambda>rule. rule_matches rule (basename # rest))
                             (mm_get (rules_by_program p) basename)))))"
  unfolding match_host_executable_rules_def mm_get_def
  by (simp add: List.map_filter_def split: list.split result.split option.split)

lemma set_map_filter_mono: "set xs \<subseteq> set ys \<Longrightarrow> set (List.map_filter f xs) \<subseteq> set (List.map_filter f ys)"
  by (simp add: subset_iff set_map_filter_Some) blast

lemma host_matches_grow:
  assumes "\<And>k. set (mm_get (rules_by_program p) k) \<subseteq> set (mm_get (rules_by_program q) k)"
    and "host_executables_by_name q = host_executables_by_name p"
  shows "set (match_host_executable_rules env p cmd) \<subseteq> set (match_host_executable_rules env q cmd)"
proof (cases cmd)
  case (Cons first rest)
  show ?thesis
  proof (cases "from_absolute_path (env_home env) (env_current_dir env) first")
    case (Ok program)
    show ?thesis
    proof (cases "executable_path_lookup_key program")
      case (Some basename)
      have "with_resolved_program program ` set (List.map_filter f (mm_get (rules_by_program p) basename))
          \<subseteq> with_resolved_program program ` set (List.map_filter f (mm_get (rules_by_program q) basename))" for f
        by (intro image_mono set_map_filter_mono assms(1))
      with Cons Ok Some show ?thesis by (simp add: match_host_mm_get assms(2))
    qed (simp add: match_host_mm_get Cons Ok)
  qed (simp add: match_host_mm_get Cons)
qed (simp add: match_host_mm_get)

lemma allows_added:
  assumes "add_prefix_rule pre Allow p = Ok q"
  shows "rule_allows env q pre"
proof -
  from add_prefix_rules [OF assms] obtain rule where r: "rule_decision rule = Allow"
      "rule_matches rule pre \<noteq> None" "rule \<in> set (mm_get (rules_by_program q) (hd pre))" "pre \<noteq> []"
    by auto
  then obtain m where m: "rule_matches rule pre = Some m" by auto
  obtain first rest where pre: "pre = first # rest" using r(4) by (cases pre) auto
  have "m \<in> set (exact_matches q pre)"
    using r(3) m unfolding pre exact_matches_eq set_map_filter_Some by auto
  with rule_match_decision [OF m] r(1) show ?thesis
    by (auto simp: rule_allows_def matches_without_fallback list_ex_iff)
qed

lemma allows_add_prefix:
  assumes "add_prefix_rule pre Allow p = Ok q" and "rule_allows env p cmd"
  shows "rule_allows env q cmd"
proof -
  obtain rule where r: "rule_decision rule = Allow" "host_executables_by_name q = host_executables_by_name p"
      "\<And>k. mm_get (rules_by_program q) k = mm_get (rules_by_program p) k @ (if k = hd pre then [rule] else [])"
    using add_prefix_rules [OF assms(1)] by blast
  obtain m where m: "m \<in> set (matches_for_command_with_options env p cmd None True)" "is_policy_match m" "match_decision m = Allow"
    using assms(2) by (auto simp: rule_allows_def list_ex_iff)
  have exact: "\<exists>n. set (exact_matches q cmd) = set (exact_matches p cmd) \<union> n \<and> (\<forall>m\<in>n. match_decision m = Allow \<and> is_policy_match m)"
  proof (cases cmd)
    case (Cons first rest)
    let ?new = "{m. first = hd pre \<and> rule_matches rule cmd = Some m}"
    have "set (exact_matches q cmd) = set (exact_matches p cmd) \<union> ?new"
      unfolding Cons exact_matches_eq by (auto simp: set_map_filter_Some r(3))
    with rule_match_decision [of rule cmd] r(1) show ?thesis by (intro exI [of _ ?new]) auto
  qed (simp add: exact_matches_eq)
  have host: "set (match_host_executable_rules env p cmd) \<subseteq> set (match_host_executable_rules env q cmd)"
    using r by (intro host_matches_grow) auto
  show ?thesis
  proof (cases "exact_matches p cmd = [] \<and> exact_matches q cmd \<noteq> []")
    case True
    then obtain m' where "m' \<in> set (exact_matches q cmd)" by (meson last_in_set)
    with True exact show ?thesis
      by (auto simp: rule_allows_def matches_without_fallback list_ex_iff)
  next
    case False
    then have "m \<in> set (matches_for_command_with_options env q cmd None True)"
      using m(1) exact host by (auto simp: matches_without_fallback split: if_splits)
    with m show ?thesis by (auto simp: rule_allows_def list_ex_iff)
  qed
qed

lemma allows_add_network:
  assumes "add_network_rule host protocol dec j p = Ok q" and "rule_allows env p cmd"
  shows "rule_allows env q cmd"
proof -
  obtain ns where q: "q = p\<lparr>network_rules := ns\<rparr>"
    using assms(1) by (auto simp: add_network_rule_def split: result.splits if_splits)
  have "exact_matches q cmd = exact_matches p cmd"
    unfolding q by (cases cmd) (simp_all add: exact_matches_eq)
  moreover have "set (match_host_executable_rules env p cmd) \<subseteq> set (match_host_executable_rules env q cmd)"
    unfolding q by (rule host_matches_grow) simp_all
  ultimately show ?thesis using assms(2) by (auto simp: rule_allows_def matches_without_fallback list_ex_iff)
qed

lemma already_allowed_allows:
  assumes "check_multiple_with_options env p [cmd] (\<lambda>_. Forbidden) True = Ok ev" and "already_allowed ev"
  shows "rule_allows env p cmd"
proof -
  have "matched_rules ev = matches_for_command_with_options env p cmd (Some (\<lambda>_. Forbidden)) True"
    using assms(1) by (simp add: check_multiple_with_options_def from_matches_Ok) (metis evaluation.select_convs(2))
  with assms(2) show ?thesis
    by (auto simp: already_allowed_def rule_allows_def matches_for_command_with_options_def Let_def split: if_splits)
qed

section \<open>The rules file\<close>

text \<open>A rule that is a line of the file stays one, whatever is appended.\<close>

lemma str_lines_kept:
  assumes "plain_line line" and "plain_line l" and "l \<in> set (str_lines contents)"
  shows "l \<in> set (str_lines (contents @ appended_text contents line))"
proof (cases "line \<in> set (str_lines contents)")
  case False
  let ?xs = "contents @ (if contents \<noteq> [] \<and> \<not> ends_with contents [newline] then [newline] else [])"
  have fin: "?xs = [] \<or> last ?xs = newline" by (auto simp: suffix_def)
  have l: "l \<in> set (str_lines ?xs)"
  proof (cases "contents \<noteq> [] \<and> \<not> ends_with contents [newline]")
    case True
    have "strip_cr l = l" using assms(2) by (intro strip_cr_id) (simp add: plain_line_def)
    moreover have "l \<in> strip_cr ` set (butlast (split_char newline contents)) \<or> l = last (split_char newline contents)"
      using assms(3) by (auto simp: str_lines_def Let_def split: if_splits)
    moreover have "set (butlast (split_char newline contents)) \<subseteq> set (split_char newline contents)"
        "last (split_char newline contents) \<in> set (split_char newline contents)"
      by (auto dest: in_set_butlastD)
    ultimately have "l \<in> strip_cr ` set (split_char newline contents)"
      by (metis image_eqI image_mono subsetD)
    then show ?thesis using True by (simp add: str_lines_terminated)
  qed (use assms(3) in auto)
  from str_lines_add [OF assms(1) fin] l False show ?thesis by (simp add: appended_text_def split: if_splits)
qed (use assms in \<open>simp add: appended_text_def\<close>)

definition has_line :: "path \<Rightarrow> ustr \<Rightarrow> disk \<Rightarrow> bool" where
  "has_line p l d \<longleftrightarrow> (\<exists>t. file_text d p = Some t \<and> l \<in> set (str_lines t))"

lemma append_locked_line_keeps:
  assumes "wf_disk d" and "absolute_path p" and line: "rule_line_ok line" and l: "plain_line l"
    and run: "append_locked_line p line d = (r, d')"
  shows "wf_disk d' \<and> (has_line p l d \<longrightarrow> has_line p l d')"
proof (cases r)
  case (Ok u)
  from append_locked_line_effect [OF assms(1,2), of line d'] run Ok line
  obtain t where t: "wf_disk d'" "p \<noteq> [RootDir]" "file_text d p = Some t" "valid_str t"
      "lookup d' = (lookup d)(p \<mapsto> File (into_bytes (t @ appended_text t line)))"
    by (auto simp: rule_line_ok_def)
  have "valid_str (t @ appended_text t line)"
    using t(4) line by (auto simp: appended_text_def is_scalar_def rule_line_ok_def)
  from from_utf8_into_bytes [OF this] have "file_text d' p = Some (t @ appended_text t line)"
    unfolding file_text_def t(5) by simp
  with t str_lines_kept [OF _ l] line show ?thesis by (auto simp: has_line_def rule_line_ok_def)
next
  case (Err e)
  have "d' = d"
    using run Err by (auto simp: append_locked_line_def std_open_append_def from_utf8_def
        split: prod.splits result.splits option.splits node.splits)
  with assms(1) show ?thesis by simp
qed

lemma append_rule_line_keeps:
  assumes "wf_disk d" and "absolute_path p" and "rule_line_ok line" and "plain_line l"
    and run: "append_rule_line p line d = (r, d')"
  shows "wf_disk d' \<and> (has_line p l d \<longrightarrow> has_line p l d')"
proof (cases "path_parent p")
  case (Some dir)
  obtain r1 d1 where m: "std_mkdir dir d = (r1, d1)" by fastforce
  note parent = absolute_path_parent [OF assms(2) Some]
  note mk = std_mkdir_adds [OF assms(1) conjunct1 [OF parent] m]
  have "lookup d1 p = lookup d p"
    using mk parent by (auto simp: adds_dirs_def dest!: spec [of _ p] prefix_length_le)
  then have same: "has_line p l d1 = has_line p l d" by (simp add: has_line_def file_text_def)
  have "d' = d1 \<or> append_locked_line p line d1 = (r, d')"
    using run Some m by (auto simp: append_rule_line_def split: result.splits if_splits)
  with append_locked_line_keeps [OF conjunct1 [OF mk] assms(2,3,4)] mk same show ?thesis by auto
qed (use run assms(1) in \<open>simp add: append_rule_line_def\<close>)

lemma default_policy_path_absolute:
  "absolute_path home \<Longrightarrow> absolute_path (default_policy_path home)"
  by (simp add: default_policy_path_def path_join_def is_absolute_def RULES_DIR_NAME_def DEFAULT_POLICY_FILE_def
      absolute_path_def name_ok_def dot_def dotdot_def)

definition rule_on_disk :: "update_env \<Rightarrow> ustr \<Rightarrow> disk \<Rightarrow> bool" where
  "rule_on_disk ue l d \<longleftrightarrow> json_safe (ue_json ue) \<and> absolute_path (ue_agere_home ue) \<and> plain_line l
     \<and> wf_disk d \<and> has_line (default_policy_path (ue_agere_home ue)) l d"

lemma update_file_line:
  "update_file ue u d = (r, d') \<Longrightarrow>
   (\<exists>line r'. (case u of AllowPrefix a \<Rightarrow> allow_prefix_rule_line (ue_json ue) a
        | NetworkRule host protocol dec j \<Rightarrow> network_rule_line (ue_json ue) host protocol dec j) = Ok line
      \<and> append_rule_line (default_policy_path (ue_agere_home ue)) line d = (r', d') \<and> is_ok r = is_ok r')
   \<or> d' = d \<and> \<not> is_ok r"
  by (cases u)
     (auto simp: append_amendment_file_def append_network_file_def blocking_append_allow_prefix_rule_def
        blocking_append_network_rule_def Let_def split: prod.splits result.splits)

lemma rule_line_ok_update:
  "json_safe (ue_json ue) \<Longrightarrow>
   (case u of AllowPrefix a \<Rightarrow> allow_prefix_rule_line (ue_json ue) a
      | NetworkRule host protocol dec j \<Rightarrow> network_rule_line (ue_json ue) host protocol dec j) = Ok line \<Longrightarrow>
   rule_line_ok line"
  by (cases u) (auto dest: allow_prefix_rule_line_ok network_rule_line_ok)

lemma update_file_keeps:
  assumes "update_file ue u d = (r, d')" and "json_safe (ue_json ue)" and "absolute_path (ue_agere_home ue)"
    and "wf_disk d" and "plain_line l"
  shows "wf_disk d' \<and> (has_line (default_policy_path (ue_agere_home ue)) l d
    \<longrightarrow> has_line (default_policy_path (ue_agere_home ue)) l d')"
  using update_file_line [OF assms(1)] assms(4)
    append_rule_line_keeps [OF assms(4) default_policy_path_absolute [OF assms(3)] rule_line_ok_update [OF assms(2)] assms(5)]
  by blast

section \<open>Invariants of concurrent updates\<close>

text \<open>A property of policies and one of disks that no update can break hold at every moment.\<close>

locale update_invariant =
  fixes ue :: update_env
    and I :: "policy \<Rightarrow> bool"
    and J :: "disk \<Rightarrow> bool"
  assumes policy_keeps: "I p \<Longrightarrow> update_policy ue u p = Ok (Some q) \<Longrightarrow> I q"
    and disk_keeps: "J d \<Longrightarrow> J (snd (update_file ue u d))"
begin

lemma apply_keeps:
  assumes "J (fst st)" and "I (snd st)"
  shows "J (fst (snd (apply_update ue u st))) \<and> I (snd (snd (apply_update ue u st)))"
proof -
  obtain d p where st: "st = (d, p)" by fastforce
  have "J (snd (update_file ue u d))" using assms disk_keeps st by simp
  then show ?thesis
    using assms policy_keeps [of p u] unfolding st apply_update_parts finish_update_def
    by (auto split: prod.splits result.splits option.splits)
qed

lemma run_keeps:
  "J (fst st) \<Longrightarrow> I (snd st) \<Longrightarrow> J (fst (snd (run_updates ue us st))) \<and> I (snd (snd (run_updates ue us st)))"
proof (induction us arbitrary: st)
  case (Cons u us)
  then show ?case using apply_keeps [of st u] by (simp add: Let_def split_beta)
qed simp

lemma run_establishes:
  assumes "k < length us" and "fst (run_updates ue us st) ! k = r"
    and "\<And>st. W st \<Longrightarrow> fst (apply_update ue (us ! k) st) = r \<Longrightarrow>
      J (fst (snd (apply_update ue (us ! k) st))) \<and> I (snd (snd (apply_update ue (us ! k) st)))"
    and "W st" and "\<And>u st. W st \<Longrightarrow> W (snd (apply_update ue u st))"
  shows "J (fst (snd (run_updates ue us st))) \<and> I (snd (snd (run_updates ue us st)))"
  using assms
proof (induction us arbitrary: st k)
  case (Cons u us)
  let ?a = "apply_update ue u st"
  have W: "W (snd ?a)" using Cons.prems(4,5) by blast
  show ?case
  proof (cases k)
    case 0
    with Cons.prems have "J (fst (snd ?a)) \<and> I (snd (snd ?a))" by (simp add: Let_def split_beta)
    then show ?thesis using run_keeps [of "snd ?a" us] by (simp add: Let_def split_beta)
  next
    case (Suc j)
    have "J (fst (snd (run_updates ue us (snd ?a)))) \<and> I (snd (snd (run_updates ue us (snd ?a))))"
      using Cons.prems Suc W by (intro Cons.IH [of j]) (auto simp: Let_def split_beta)
    then show ?thesis by (simp add: Let_def split_beta)
  qed
qed simp

lemma serial_keeps:
  assumes "serial ue st us order holder s"
    and "J (fst (snd (run_updates ue (map (nth us) order) st)))"
    and "I (snd (snd (run_updates ue (map (nth us) order) st)))"
  shows "J (us_disk s) \<and> I (manager_policy (us_manager s))"
proof -
  let ?st = "snd (run_updates ue (map (nth us) order) st)"
  have "us_disk s = fst ?st \<or> (\<exists>u. us_disk s = snd (update_file ue u (fst ?st)))"
    using assms(1) by (auto simp: serial_def holder_ok_def split: option.splits) (metis snd_conv)+
  with assms disk_keeps show ?thesis by (auto simp: serial_def)
qed

lemma reachable_keeps:
  assumes "update_run ue (start_updates d (manager_new p) us) s" and "J d" and "I p"
  shows "J (us_disk s) \<and> I (manager_policy (us_manager s))"
proof -
  obtain order holder where "serial ue (d, p) us order holder s" using serial_reachable [OF assms(1)] by blast
  with run_keeps [of "(d, p)"] assms(2,3) show ?thesis by (auto intro: serial_keeps [THEN conjunct1] serial_keeps [THEN conjunct2])
qed

end

interpretation rules_kept: update_invariant ue "rules_within p" "\<lambda>_. True" for ue p
proof
  fix q u q'
  assume "rules_within p q" and u: "update_policy ue u q = Ok (Some q')"
  moreover have "rules_within q q'"
    using u by (cases u)
      (auto simp: amended_policy_def network_amended_policy_def split: result.splits if_splits
        dest: rules_within_add_prefix rules_within_add_network)
  ultimately show "rules_within p q'" by (blast intro: rules_within_trans)
qed simp

interpretation allow_kept: update_invariant ue "\<lambda>p. rule_allows (ue_host ue) p cmd" "rule_on_disk ue line" for ue cmd line
proof
  fix p u q
  assume "rule_allows (ue_host ue) p cmd" and "update_policy ue u p = Ok (Some q)"
  then show "rule_allows (ue_host ue) q cmd"
    by (cases u)
       (auto simp: amended_policy_def network_amended_policy_def split: result.splits if_splits
          intro: allows_add_prefix allows_add_network)
next
  fix d u
  assume "rule_on_disk ue line d"
  then show "rule_on_disk ue line (snd (update_file ue u d))"
    using update_file_keeps [of ue u d "fst (update_file ue u d)" "snd (update_file ue u d)" line]
    by (simp add: rule_on_disk_def)
qed

lemma amendment_established:
  assumes "wf_disk (fst st)" and "json_safe (ue_json ue)" and "absolute_path (ue_agere_home ue)"
    and line: "allow_prefix_rule_line (ue_json ue) a = Ok line"
    and ok: "fst (apply_update ue (AllowPrefix a) st) = Ok ()"
  shows "rule_on_disk ue line (fst (snd (apply_update ue (AllowPrefix a) st)))
    \<and> rule_allows (ue_host ue) (snd (snd (apply_update ue (AllowPrefix a) st))) a"
proof -
  obtain d p where st: "st = (d, p)" by fastforce
  obtain d' where f: "update_file ue (AllowPrefix a) d = (Ok (), d')"
      "fst (snd (apply_update ue (AllowPrefix a) st)) = d'"
    using ok unfolding st apply_update_parts finish_update_def
    by (auto split: prod.splits result.splits option.splits)
  have l: "valid_str line" "plain_line line"
    using allow_prefix_rule_line_ok [OF assms(2) line] by (simp_all add: rule_line_ok_def)
  have run: "append_rule_line (default_policy_path (ue_agere_home ue)) line d = (Ok (), d')"
    using update_file_line [OF f(1)] line by (auto simp: is_ok_iff)
  note abs = default_policy_path_absolute [OF assms(3)]
  obtain t where t: "lookup d' (default_policy_path (ue_agere_home ue)) = Some (File (into_bytes (t @ appended_text t line)))"
      "file_text d (default_policy_path (ue_agere_home ue)) = Some t"
    using append_rule_line_effect [OF _ abs l run] assms(1) st by auto
  have "valid_str t"
    using t(2) by (auto simp: file_text_def split: option.splits node.splits result.splits dest: from_utf8_Ok)
  then have "valid_str (t @ appended_text t line)" using l(1) by (auto simp: appended_text_def is_scalar_def)
  from from_utf8_into_bytes [OF this]
  have "file_text d' (default_policy_path (ue_agere_home ue)) = Some (t @ appended_text t line)"
    unfolding file_text_def t(1) by simp
  then have "rule_on_disk ue line d'"
    using assms(1-3) st l appended_line_present [OF l(2)] update_file_keeps [OF f(1) assms(2,3) _ l(2)]
    by (auto simp: rule_on_disk_def has_line_def)
  moreover have "rule_allows (ue_host ue) (snd (snd (apply_update ue (AllowPrefix a) st))) a"
    using ok f(1) unfolding st apply_update_parts finish_update_def
    by (auto simp: amended_policy_def split: result.splits option.splits if_splits
        intro: already_allowed_allows allows_added)
  ultimately show ?thesis using f(2) by simp
qed

lemma apply_update_wf:
  assumes "wf_disk (fst st)" and "json_safe (ue_json ue)" and "absolute_path (ue_agere_home ue)"
  shows "wf_disk (fst (snd (apply_update ue u st)))"
proof -
  obtain d p where st: "st = (d, p)" by fastforce
  have "fst (snd (apply_update ue u st)) = snd (update_file ue u d)"
    unfolding st apply_update_parts finish_update_def by (auto split: prod.splits result.splits option.splits)
  moreover have "plain_line []" by (simp add: plain_line_def)
  ultimately show ?thesis
    using update_file_keeps [of ue u d "fst (update_file ue u d)" "snd (update_file ue u d)" "[]"] assms st by simp
qed

lemma run_updates_nth:
  "k < length us \<Longrightarrow> \<exists>st'. fst (run_updates ue us st) ! k = fst (apply_update ue (us ! k) st')"
proof (induction us arbitrary: st k)
  case (Cons u us)
  show ?case
  proof (cases k)
    case 0
    then show ?thesis by (intro exI [of _ st]) (simp add: Let_def split_beta)
  next
    case (Suc j)
    with Cons.IH [of j "snd (apply_update ue u st)"] Cons.prems show ?thesis by (simp add: Let_def split_beta)
  qed
qed simp

lemma amendment_has_line:
  assumes "fst (apply_update ue (AllowPrefix a) st) = Ok ()"
  shows "\<exists>line. allow_prefix_rule_line (ue_json ue) a = Ok line"
proof (cases "allow_prefix_rule_line (ue_json ue) a")
  case (Err e)
  with assms show ?thesis
    by (cases st) (simp add: append_amendment_and_update_def append_amendment_file_def
        blocking_append_allow_prefix_rule_def finish_update_def)
qed simp

section \<open>Properties\<close>

text \<open>
  C2: Updates that run at the same time behave as if they ran one after another. At every moment
  there is an order of the finished updates such that each has the outcome it has when they are
  applied in that order, the policy that requests are judged by is the one that results, and, when no
  update is under way, so is the disk.
\<close>

theorem updates_are_serialised:
  assumes "update_run ue (start_updates d (manager_new p) us) s"
  shows "\<exists>order. distinct order \<and> set order = {i. i < length us \<and> (\<exists>r. us_tasks s ! i = Finished r)}
    \<and> map (nth (us_tasks s)) order = map Finished (fst (run_updates ue (map (nth us) order) (d, p)))
    \<and> manager_policy (us_manager s) = snd (snd (run_updates ue (map (nth us) order) (d, p)))
    \<and> (update_permits (us_manager s) = 1 \<longrightarrow> us_disk s = fst (snd (run_updates ue (map (nth us) order) (d, p))))"
proof -
  obtain order holder where s: "serial ue (d, p) us order holder s" using serial_reachable [OF assms] by blast
  then have "map (nth (us_tasks s)) order = map Finished (fst (run_updates ue (map (nth us) order) (d, p)))"
    by (auto simp: serial_def intro!: nth_equalityI)
  moreover have "update_permits (us_manager s) = 1 \<longrightarrow> us_disk s = fst (snd (run_updates ue (map (nth us) order) (d, p)))"
    using s by (auto simp: serial_def holder_ok_def split: option.splits)
  ultimately show ?thesis using s serial_finished [OF s] by (intro exI [of _ order]) (simp add: serial_def)
qed

text \<open>
  C22: Updates neither block each other forever nor run forever: no run has more than four moves per
  update, and as long as an update is not finished some move is possible.
\<close>

theorem updates_finish:
  assumes "(update_step ue ^^ n) (start_updates d (manager_new p) us) s"
  shows "n \<le> 4 * length us \<and> ((\<exists>s'. update_step ue s s') \<or> (\<forall>i<length us. \<exists>r. us_tasks s ! i = Finished r))"
proof
  have "work_left (start_updates d (manager_new p) us) = 4 * length us"
    by (simp add: start_updates_def comp_def sum_list_triv)
  with steps_work [OF assms] show "n \<le> 4 * length us" by simp
  have "update_run ue (start_updates d (manager_new p) us) s" using assms by (rule relpowp_imp_rtranclp)
  then obtain order holder where s: "serial ue (d, p) us order holder s" using serial_reachable by blast
  show "(\<exists>s'. update_step ue s s') \<or> (\<forall>i<length us. \<exists>r. us_tasks s ! i = Finished r)"
    using serial_progress [OF s] serial_finished [OF s] by blast
qed

text \<open>
  C8: No approval is lost. Once an update that allows a prefix has finished without an error, the
  policy has a matching rule that allows the prefix and the rules file has the line for it, whatever
  other updates ran before, after or at the same time.
\<close>

theorem no_amendment_is_lost:
  assumes "wf_disk d" and "absolute_path (ue_agere_home ue)" and "json_safe (ue_json ue)"
    and run: "update_run ue (start_updates d (manager_new p) us) s"
    and i: "i < length us" "us ! i = AllowPrefix a" "us_tasks s ! i = Finished (Ok ())"
  shows "rule_allows (ue_host ue) (manager_policy (us_manager s)) a
    \<and> (\<exists>line t. allow_prefix_rule_line (ue_json ue) a = Ok line
         \<and> file_text (us_disk s) (default_policy_path (ue_agere_home ue)) = Some t \<and> line \<in> set (str_lines t))"
proof -
  obtain order holder where s: "serial ue (d, p) us order holder s" using serial_reachable [OF run] by blast
  let ?us = "map (nth us) order"
  have "i \<in> set order" using serial_finished [OF s] i by simp
  then obtain k where k: "k < length order" "order ! k = i" by (auto simp: in_set_conv_nth)
  then have r: "k < length ?us" "fst (run_updates ue ?us (d, p)) ! k = Ok ()" "?us ! k = AllowPrefix a"
    using s i by (auto simp: serial_def)
  obtain line where line: "allow_prefix_rule_line (ue_json ue) a = Ok line"
    using run_updates_nth [OF r(1), of ue "(d, p)"] r(2,3) amendment_has_line [of ue a] by metis
  note W = apply_update_wf [OF _ assms(3,2)]
  from allow_kept.run_establishes [OF r(1,2), of "\<lambda>st. wf_disk (fst st)" line a] amendment_established [OF _ assms(3,2) line] W assms(1)
  have "rule_on_disk ue line (fst (snd (run_updates ue ?us (d, p)))) \<and> rule_allows (ue_host ue) (snd (snd (run_updates ue ?us (d, p)))) a"
    unfolding r(3) by simp
  with allow_kept.serial_keeps [OF s] line show ?thesis by (auto simp: rule_on_disk_def has_line_def)
qed

text \<open>
  C5: Managed rules stay in force.  Let all rules files load without an error and the requirements hold managed prefix
  rules.  From the policy that loading gives on, through any updates, the decision on a command is at least as
  strict as every managed rule whose words the command starts with as they are written.  (A program named by
  an absolute path is matched by a managed rule for its file name only if no rule speaks about the path itself, and a
  rules file that does not load takes the managed rules with it: \<^verbatim>\<open>absolute_path_rule_hides_requirement\<close> and
  \<^verbatim>\<open>broken_rules_file_drops_requirements\<close> say so.)
\<close>

theorem requirements_are_enforced:
  assumes "load_exec_policy starlark shlex env d stack = Ok p"
    and "req_exec_policy (requirements stack) = Some r" and "to_policy prefix_rules = Ok r"
    and "update_run ue (start_updates d' (manager_new p) us) s"
    and "match_exact_rules r cmd = Some ms" and "m \<in> set ms"
  shows "\<exists>ev. check_with_options host (manager_policy (us_manager s)) cmd fallback options = Ok ev
    \<and> match_decision m \<le> eval_decision ev"
proof -
  have "rules_within r p"
    using assms(1,2) rules_within_merge(1) [OF to_policy_ok [OF assms(3)]]
    by (auto simp: load_exec_policy_def split: result.splits)
  then have "rules_within r (manager_policy (us_manager s))"
    using rules_kept.reachable_keeps [OF assms(4)] by blast
  from rules_within_decision [OF this assms(5,6)] show ?thesis .
qed

text \<open>An update on its own goes through its four moves.\<close>

lemma single_update_run:
  assumes "update_file ue u d = (Ok (), d')" and "update_policy ue u p = r"
  shows "update_run ue (start_updates d (manager_new p) [u])
    \<lparr>us_disk = d', us_manager = store_policy r (manager_new p), us_tasks = [Finished (update_outcome_of r)]\<rparr>"
proof -
  let ?m = "\<lparr>manager_policy = p, update_permits = 0\<rparr>"
  let ?s = "\<lambda>d t. \<lparr>us_disk = d, us_manager = ?m, us_tasks = [t]\<rparr>"
  have "update_step ue (start_updates d (manager_new p) [u]) (?s d (Holding u))"
    using update_step.acquire [of 0 "start_updates d (manager_new p) [u]" u ue]
    by (simp add: start_updates_def manager_new_def)
  moreover have "update_step ue (?s d (Holding u)) (?s d' (Appended u))"
    using update_step.append_succeeds [of 0 "?s d (Holding u)" u ue d'] assms(1) by simp
  moreover have "update_step ue (?s d' (Appended u)) (?s d' (Loaded u p))"
    using update_step.load_current [of 0 "?s d' (Appended u)" u ue] by simp
  moreover have "update_step ue (?s d' (Loaded u p))
      \<lparr>us_disk = d', us_manager = store_policy r (manager_new p), us_tasks = [Finished (update_outcome_of r)]\<rparr>"
    using update_step.store_updated [of 0 "?s d' (Loaded u p)" u p ue r] assms(2)
    by (cases "(r, ?m)" rule: store_policy.cases) (simp_all add: release_permit_def manager_new_def)
  ultimately show ?thesis by (meson converse_rtranclp_into_rtranclp rtranclp.rtrancl_refl)
qed

definition sample_update_env :: update_env where
  "sample_update_env = \<lparr>ue_json = quote_json, ue_host = no_env, ue_agere_home = sample_home\<rparr>"

definition allow_push :: policy_update where
  "allow_push = AllowPrefix [lit ''git'', lit ''push'']"

lemma allow_push_run:
  assumes "is_ok (update_policy sample_update_env allow_push p)"
  shows "\<exists>s. update_run sample_update_env (start_updates (rules_disk []) (manager_new p) [allow_push]) s
     \<and> us_tasks s = [Finished (Ok ())] \<and> update_permits (us_manager s) = 1"
proof -
  let ?f = "update_file sample_update_env allow_push (rules_disk [])"
  have "is_ok (fst ?f)" by code_simp
  then obtain d' where f: "?f = (Ok (), d')" by (cases ?f) (auto simp: is_ok_iff)
  obtain q where q: "update_policy sample_update_env allow_push p = Ok q" using assms by (auto simp: is_ok_iff)
  define s where "s = \<lparr>us_disk = d', us_manager = store_policy (Ok q) (manager_new p), us_tasks = [Finished (Ok ())]\<rparr>"
  have "update_permits (us_manager s) = 1" by (cases q) (simp_all add: manager_new_def s_def)
  moreover have "us_tasks s = [Finished (Ok ())]" by (simp add: s_def)
  moreover have "update_run sample_update_env (start_updates (rules_disk []) (manager_new p) [allow_push]) s"
    using single_update_run [OF f q] by (simp add: s_def)
  ultimately show ?thesis by blast
qed

lemma allow_push_managed: "is_ok (update_policy sample_update_env allow_push managed_policy)"
  by code_simp

lemma sample_home_absolute: "absolute_path sample_home"
  by (simp add: absolute_path_def name_ok_def dot_def dotdot_def)

theorem updates_are_serialised_witness:
  "\<exists>s. update_run sample_update_env (start_updates (rules_disk []) (manager_new managed_policy) [allow_push]) s
     \<and> snd (run_updates sample_update_env [allow_push] (rules_disk [], managed_policy))
         = (us_disk s, manager_policy (us_manager s))"
proof -
  obtain s where s: "update_run sample_update_env (start_updates (rules_disk []) (manager_new managed_policy) [allow_push]) s"
      "us_tasks s = [Finished (Ok ())]" "update_permits (us_manager s) = 1"
    using allow_push_run [OF allow_push_managed] by blast
  have z: "{i. i < length [allow_push] \<and> (\<exists>r. us_tasks s ! i = Finished r)} = {0}" using s(2) by auto
  from updates_are_serialised [OF s(1)] s(3) obtain order where o: "distinct order" "set order = {0}"
      "manager_policy (us_manager s) = snd (snd (run_updates sample_update_env (map (nth [allow_push]) order) (rules_disk [], managed_policy)))"
      "us_disk s = fst (snd (run_updates sample_update_env (map (nth [allow_push]) order) (rules_disk [], managed_policy)))"
    unfolding z by blast
  have "length order = 1" using distinct_card [OF o(1)] o(2) by simp
  then have "order = [0]" using o(2) by (cases order) auto
  with o s(1) show ?thesis by (auto simp: prod_eq_iff)
qed

theorem updates_finish_witness:
  "\<exists>n s. (update_step sample_update_env ^^ n) (start_updates (rules_disk []) (manager_new managed_policy) [allow_push]) s
     \<and> n \<le> 4 \<and> us_tasks s = [Finished (Ok ())]"
proof -
  obtain s where s: "update_run sample_update_env (start_updates (rules_disk []) (manager_new managed_policy) [allow_push]) s"
      "us_tasks s = [Finished (Ok ())]"
    using allow_push_run [OF allow_push_managed] by blast
  then obtain n where n: "(update_step sample_update_env ^^ n) (start_updates (rules_disk []) (manager_new managed_policy) [allow_push]) s"
    by (meson rtranclp_imp_relpowp)
  from updates_finish [OF n] n s(2) show ?thesis by auto
qed

theorem no_amendment_is_lost_witness:
  "\<exists>s. update_run sample_update_env (start_updates (rules_disk []) (manager_new managed_policy) [allow_push]) s
     \<and> rule_allows no_env (manager_policy (us_manager s)) [lit ''git'', lit ''push'']
     \<and> (\<exists>line t. allow_prefix_rule_line quote_json [lit ''git'', lit ''push''] = Ok line
         \<and> file_text (us_disk s) (default_policy_path sample_home) = Some t \<and> line \<in> set (str_lines t))"
proof -
  obtain s where s: "update_run sample_update_env (start_updates (rules_disk []) (manager_new managed_policy) [allow_push]) s"
      "us_tasks s = [Finished (Ok ())]"
    using allow_push_run [OF allow_push_managed] by blast
  have e: "ue_json sample_update_env = quote_json" "ue_agere_home sample_update_env = sample_home"
      "ue_host sample_update_env = no_env"
    by (simp_all add: sample_update_env_def)
  from no_amendment_is_lost [OF rules_disk_wf _ _ s(1), of 0 "[lit ''git'', lit ''push'']"] s
  show ?thesis unfolding e using quote_json_safe sample_home_absolute by (auto simp: allow_push_def)
qed

theorem requirements_are_enforced_witness:
  "\<exists>p s ev. load_exec_policy files_starlark (\<lambda>_. None) no_env (rules_disk []) user_stack = Ok p
     \<and> update_run sample_update_env (start_updates (rules_disk []) (manager_new p) [allow_push]) s
     \<and> us_tasks s = [Finished (Ok ())]
     \<and> check_with_options no_env (manager_policy (us_manager s)) [lit ''git'', lit ''push''] (\<lambda>_. Allow) False = Ok ev
     \<and> Forbidden \<le> eval_decision ev"
proof -
  let ?m = "PrefixRuleMatch [lit ''git'', lit ''push''] Forbidden None None"
  have "(case load_exec_policy files_starlark (\<lambda>_. None) no_env (rules_disk []) user_stack of
      Ok p \<Rightarrow> is_ok (update_policy sample_update_env allow_push p) | Err _ \<Rightarrow> False)" by code_simp
  then obtain p where p: "load_exec_policy files_starlark (\<lambda>_. None) no_env (rules_disk []) user_stack = Ok p"
      "is_ok (update_policy sample_update_env allow_push p)"
    by (auto split: result.splits)
  obtain s where s: "update_run sample_update_env (start_updates (rules_disk []) (manager_new p) [allow_push]) s"
      "us_tasks s = [Finished (Ok ())]"
    using allow_push_run [OF p(2)] by blast
  have r: "req_exec_policy (requirements user_stack) = Some managed_policy" by (simp add: user_stack_def)
  have "is_ok (to_policy sample_requirements)" by code_simp
  then have t: "to_policy sample_requirements = Ok managed_policy" by (auto simp: managed_policy_def is_ok_iff)
  have m: "match_exact_rules managed_policy [lit ''git'', lit ''push''] = Some [?m]" by code_simp
  from requirements_are_enforced [OF p(1) r t s(1) m, of ?m no_env "\<lambda>_. Allow" False] p(1) s show ?thesis by auto
qed

text \<open>
  The managed rules are found under the program name a command has. A command that names its program
  by an absolute path is judged by them only if no other rule is stored under that path: with one,
  the managed rule for the program no longer counts.
\<close>

lemma absolute_path_rule_hides_requirement:
  "map_option eval_decision (case check_with_options no_env managed_policy [lit ''/bin/git'', lit ''push''] (\<lambda>_. Allow) True of
       Ok ev \<Rightarrow> Some ev | Err _ \<Rightarrow> None) = Some Forbidden"
  "map_option eval_decision (case add_prefix_rule [lit ''/bin/git''] Allow policy_empty of
       Ok p \<Rightarrow> (case check_with_options no_env (merge_overlay p managed_policy) [lit ''/bin/git'', lit ''push''] (\<lambda>_. Allow) True of
                  Ok ev \<Rightarrow> Some ev | Err _ \<Rightarrow> None)
     | Err _ \<Rightarrow> None) = Some Allow"
  by code_simp+

end
