(* ===== verification/Text_Truncation.thy ===== *)
theory Text_Truncation
  imports Utf8
begin

text \<open>
  Truncation of text and of tool output (\<^verbatim>\<open>src/utils/common/src/string.rs\<close>,
  \<^verbatim>\<open>src/utils/output-truncation/src/lib.rs\<close> and \<^verbatim>\<open>TruncationPolicy\<close> of \<^verbatim>\<open>src/protocol/src/protocol.rs\<close>).  Lengths are
  \<^verbatim>\<open>usize\<close> values of 64 bits; whether overflow is checked, as in a debug build, or wraps around, is the
  parameter \<open>checks\<close>.  The regular expression of \<^verbatim>\<open>find_uuids\<close> is not modelled.
\<close>

section \<open>Machine arithmetic\<close>

definition usize_sub :: "bool \<Rightarrow> nat \<Rightarrow> nat \<Rightarrow> (unit fault, nat) result" where
  "usize_sub checks a b =
     (if b \<le> a then Ok (a - b) else if checks then Err Panic else Ok ((2 ^ 64 + a - b) mod 2 ^ 64))"

definition usize_mul :: "bool \<Rightarrow> nat \<Rightarrow> nat \<Rightarrow> (unit fault, nat) result" where
  "usize_mul checks a b =
     (if a * b < 2 ^ 64 then Ok (a * b) else if checks then Err Panic else Ok (a * b mod 2 ^ 64))"

text \<open>\<^verbatim>\<open>&s[n..]\<close> at a byte offset: a panic unless the offset is a character boundary.\<close>

definition slice_bytes_from :: "ustr \<Rightarrow> nat \<Rightarrow> (unit fault, ustr) result" where
  "slice_bytes_from s n =
     (case find (\<lambda>k. str_len (take k s) = n) [0..<Suc (length s)] of
        Some k \<Rightarrow> Ok (drop k s)
      | None \<Rightarrow> Err Panic)"

section \<open>Strings\<close>

definition truncate_middle_chars :: "bool \<Rightarrow> ustr \<Rightarrow> nat \<Rightarrow> (unit fault, ustr) result" where
  "truncate_middle_chars checks s budget =
     (if str_len s \<le> budget then Ok s
      else if budget < 4 then Ok (take budget s)
      else
        let half = budget div 2; head = take half s @ [0x2026]
        in case usize_sub checks budget (str_len head) of
             Err e \<Rightarrow> Err e
           | Ok remaining \<Rightarrow>
               (case usize_sub checks (str_len s) remaining of
                  Err e \<Rightarrow> Err e
                | Ok tail_start \<Rightarrow>
                    (case find (\<lambda>k. str_len (take k s) \<le> tail_start) (rev [0..<length s]) of
                       Some k \<Rightarrow> Ok (head @ drop k s)
                     | None \<Rightarrow>
                         (case slice_bytes_from s tail_start of
                            Err e \<Rightarrow> Err e
                          | Ok rest \<Rightarrow> Ok (head @ rest)))))"

definition approx_tokens_from_byte_count :: "nat \<Rightarrow> nat" where
  "approx_tokens_from_byte_count bytes = bytes div 4 + bytes div 16"

definition approx_token_count :: "ustr \<Rightarrow> nat" where
  "approx_token_count s = approx_tokens_from_byte_count (str_len s)"

definition approx_bytes_for_tokens :: "bool \<Rightarrow> nat \<Rightarrow> (unit fault, nat) result" where
  "approx_bytes_for_tokens checks tokens =
     (case usize_mul checks tokens 4 of
        Err e \<Rightarrow> Err e
      | Ok product \<Rightarrow> usize_sub checks product (tokens div 5))"

definition truncate_middle_with_token_budget :: "bool \<Rightarrow> ustr \<Rightarrow> nat \<Rightarrow> (unit fault, ustr \<times> nat) result" where
  "truncate_middle_with_token_budget checks s token_budget =
     (case approx_bytes_for_tokens checks token_budget of
        Err e \<Rightarrow> Err e
      | Ok byte_budget \<Rightarrow>
          (case truncate_middle_chars checks s byte_budget of
             Err e \<Rightarrow> Err e
           | Ok truncated \<Rightarrow> Ok (truncated, approx_token_count truncated)))"

text \<open>The loop over the characters, from byte offset \<open>i\<close>.\<close>

fun take_bytes_loop :: "nat \<Rightarrow> nat \<Rightarrow> ustr \<Rightarrow> ustr" where
  "take_bytes_loop maxb i [] = []"
| "take_bytes_loop maxb i (ch # rest) =
     (let nb = i + len_utf8 ch in if nb > maxb then [] else ch # take_bytes_loop maxb nb rest)"

definition take_bytes_at_char_boundary :: "ustr \<Rightarrow> nat \<Rightarrow> ustr" where
  "take_bytes_at_char_boundary s maxb = (if str_len s \<le> maxb then s else take_bytes_loop maxb 0 s)"

definition trim_matches :: "uchar \<Rightarrow> ustr \<Rightarrow> ustr" where
  "trim_matches c s = trim_end_matches (\<lambda>x. x = c) (dropWhile (\<lambda>x. x = c) s)"

text \<open>\<^verbatim>\<open>.\<close>, \<^verbatim>\<open>_\<close>, \<^verbatim>\<open>-\<close> and \<^verbatim>\<open>/\<close> are kept besides letters and digits.\<close>

definition sanitize_metric_tag_value :: "ustr \<Rightarrow> ustr" where
  "sanitize_metric_tag_value value =
     (let sanitized = map (\<lambda>ch. if is_ascii_alphanumeric ch \<or> ch \<in> {46, 95, 45, 47} then ch else 95) value;
          trimmed = trim_matches 95 sanitized
      in if trimmed = [] \<or> list_all (\<lambda>ch. \<not> is_ascii_alphanumeric ch) trimmed then lit ''unspecified''
         else if str_len trimmed \<le> 256 then trimmed
         else take 256 trimmed)"

definition parse_markdown_hash_location_point :: "ustr \<Rightarrow> (ustr \<times> ustr option) option" where
  "parse_markdown_hash_location_point point =
     (case strip_prefix point (lit ''L'') of
        None \<Rightarrow> None
      | Some point \<Rightarrow>
          (case split_once 67 point of
             Some (line, column) \<Rightarrow> Some (line, Some column)
           | None \<Rightarrow> Some (point, None)))"

definition location_text :: "ustr \<times> ustr option \<Rightarrow> ustr" where
  "location_text p = fst p @ (case snd p of Some column \<Rightarrow> lit '':'' @ column | None \<Rightarrow> [])"

definition normalize_markdown_hash_location_suffix :: "ustr \<Rightarrow> ustr option" where
  "normalize_markdown_hash_location_suffix suffix_text =
     (case strip_prefix suffix_text (lit ''#'') of
        None \<Rightarrow> None
      | Some fragment \<Rightarrow>
          (let (start, final) = (case split_once 45 fragment of
                 Some (start, final) \<Rightarrow> (start, Some final)
               | None \<Rightarrow> (fragment, None))
           in case parse_markdown_hash_location_point start of
                None \<Rightarrow> None
              | Some p \<Rightarrow>
                  (case final of
                     None \<Rightarrow> Some (lit '':'' @ location_text p)
                   | Some final \<Rightarrow>
                       (case parse_markdown_hash_location_point final of
                          None \<Rightarrow> None
                        | Some q \<Rightarrow> Some (lit '':'' @ location_text p @ lit ''-'' @ location_text q)))))"

section \<open>Policies and output items\<close>

datatype truncation_policy = Bytes nat | Tokens nat

definition token_budget :: "truncation_policy \<Rightarrow> nat" where
  "token_budget policy = (case policy of Bytes bytes \<Rightarrow> approx_tokens_from_byte_count bytes | Tokens tokens \<Rightarrow> tokens)"

definition byte_budget :: "bool \<Rightarrow> truncation_policy \<Rightarrow> (unit fault, nat) result" where
  "byte_budget checks policy = (case policy of Bytes bytes \<Rightarrow> Ok bytes | Tokens tokens \<Rightarrow> approx_bytes_for_tokens checks tokens)"

datatype image_detail = Auto | Low | High | Original

datatype function_call_output_content_item =
    OutputItemText ustr
  | OutputItemImage ustr "image_detail option"

definition truncate_text :: "bool \<Rightarrow> ustr \<Rightarrow> truncation_policy \<Rightarrow> (unit fault, ustr) result" where
  "truncate_text checks content policy =
     (case policy of
        Bytes bytes \<Rightarrow> truncate_middle_chars checks content bytes
      | Tokens tokens \<Rightarrow>
          (case truncate_middle_with_token_budget checks content tokens of
             Err e \<Rightarrow> Err e
           | Ok (truncated, _) \<Rightarrow> Ok truncated))"

definition formatted_truncate_text :: "bool \<Rightarrow> ustr \<Rightarrow> truncation_policy \<Rightarrow> (unit fault, ustr) result" where
  "formatted_truncate_text checks content policy =
     (case byte_budget checks policy of
        Err e \<Rightarrow> Err e
      | Ok budget \<Rightarrow>
          if str_len content \<le> budget then Ok content
          else case truncate_text checks content policy of
                 Err e \<Rightarrow> Err e
               | Ok result \<Rightarrow>
                   Ok (lit ''Total output lines: '' @ to_decimal (length (str_lines content)) @ [newline, newline] @ result))"

fun item_text :: "function_call_output_content_item \<Rightarrow> ustr option" where
  "item_text (OutputItemText text) = Some text"
| "item_text (OutputItemImage _ _) = None"

fun is_image_item :: "function_call_output_content_item \<Rightarrow> bool" where
  "is_image_item (OutputItemImage _ _) = True"
| "is_image_item (OutputItemText _) = False"

definition combine_text :: "ustr list \<Rightarrow> ustr" where
  "combine_text texts = foldl (\<lambda>combined t. (if combined = [] then [] else combined @ [newline]) @ t) [] texts"

definition formatted_truncate_text_content_items_with_policy ::
  "bool \<Rightarrow> function_call_output_content_item list \<Rightarrow> truncation_policy
     \<Rightarrow> (unit fault, function_call_output_content_item list \<times> nat option) result" where
  "formatted_truncate_text_content_items_with_policy checks items policy =
     (let text_segments = List.map_filter item_text items
      in if text_segments = [] then Ok (items, None)
         else
           let combined = combine_text text_segments
           in case byte_budget checks policy of
                Err e \<Rightarrow> Err e
              | Ok budget \<Rightarrow>
                  if str_len combined \<le> budget then Ok (items, None)
                  else case formatted_truncate_text checks combined policy of
                         Err e \<Rightarrow> Err e
                       | Ok t \<Rightarrow> Ok (OutputItemText t # filter is_image_item items, Some (approx_token_count combined)))"

definition item_cost :: "truncation_policy \<Rightarrow> ustr \<Rightarrow> nat" where
  "item_cost policy t = (case policy of Bytes _ \<Rightarrow> str_len t | Tokens _ \<Rightarrow> approx_token_count t)"

definition with_budget :: "truncation_policy \<Rightarrow> nat \<Rightarrow> truncation_policy" where
  "with_budget policy remaining = (case policy of Bytes _ \<Rightarrow> Bytes remaining | Tokens _ \<Rightarrow> Tokens remaining)"

fun truncate_items_loop ::
  "bool \<Rightarrow> truncation_policy \<Rightarrow> function_call_output_content_item list \<Rightarrow> nat \<Rightarrow> nat
     \<Rightarrow> function_call_output_content_item list \<Rightarrow> (unit fault, function_call_output_content_item list \<times> nat) result" where
  "truncate_items_loop checks policy [] remaining_budget omitted out = Ok (out, omitted)"
| "truncate_items_loop checks policy (OutputItemImage url detail # items) remaining_budget omitted out =
     truncate_items_loop checks policy items remaining_budget omitted (out @ [OutputItemImage url detail])"
| "truncate_items_loop checks policy (OutputItemText t # items) remaining_budget omitted out =
     (if remaining_budget = 0 then truncate_items_loop checks policy items remaining_budget (Suc omitted) out
      else
        let cost = item_cost policy t
        in if cost \<le> remaining_budget
           then truncate_items_loop checks policy items (remaining_budget - cost) omitted (out @ [OutputItemText t])
           else case truncate_text checks t (with_budget policy remaining_budget) of
                  Err e \<Rightarrow> Err e
                | Ok snippet \<Rightarrow>
                    if snippet = [] then truncate_items_loop checks policy items 0 (Suc omitted) out
                    else truncate_items_loop checks policy items 0 omitted (out @ [OutputItemText snippet]))"

definition omitted_marker :: "nat \<Rightarrow> ustr" where
  "omitted_marker n = lit ''[omitted '' @ to_decimal n @ lit '' text items ...]''"

definition truncate_function_output_items_with_policy ::
  "bool \<Rightarrow> function_call_output_content_item list \<Rightarrow> truncation_policy
     \<Rightarrow> (unit fault, function_call_output_content_item list) result" where
  "truncate_function_output_items_with_policy checks items policy =
     (let remaining_budget = (case policy of Bytes bytes \<Rightarrow> bytes | Tokens tokens \<Rightarrow> tokens)
      in case truncate_items_loop checks policy items remaining_budget 0 [] of
           Err e \<Rightarrow> Err e
         | Ok (out, omitted) \<Rightarrow>
             Ok (if omitted > 0 then out @ [OutputItemText (omitted_marker omitted)] else out))"

definition approx_tokens_from_byte_count_i64 :: "int \<Rightarrow> int" where
  "approx_tokens_from_byte_count_i64 bytes = (if bytes \<le> 0 then 0 else int (approx_tokens_from_byte_count (nat bytes)))"

section \<open>Lengths\<close>

lemma len_utf8_bounds: "1 \<le> len_utf8 c" "len_utf8 c \<le> 4"
  by (simp_all add: len_utf8_def)

lemma str_len_bounds: "length s \<le> str_len s \<and> str_len s \<le> 4 * length s"
proof (induction s)
  case (Cons c s)
  with len_utf8_bounds [of c] show ?case by simp
qed simp

lemma str_len_take_drop: "str_len (take k s) + str_len (drop k s) = str_len s"
  by (metis append_take_drop_id str_len_simps(3))

lemma str_len_take_mono: "j \<le> k \<Longrightarrow> str_len (take j s) \<le> str_len (take k s)"
  using str_len_take_drop [of j "take k s"] by (simp add: min.absorb1)

lemma find_last_Some:
  "find P (rev [0..<n]) = Some k \<longleftrightarrow> k < n \<and> P k \<and> (\<forall>j. k < j \<and> j < n \<longrightarrow> \<not> P j)"
proof (induction n)
  case (Suc n)
  then show ?case by (auto simp: less_Suc_eq)
qed simp

lemma find_last_None: "find P (rev [0..<n]) = None \<longleftrightarrow> (\<forall>j<n. \<not> P j)"
  by (auto simp: find_None_iff)

section \<open>Truncation in the middle\<close>

text \<open>The character that the tail starts with: the last one that starts at or before an offset.\<close>

lemma tail_found:
  assumes "s \<noteq> []"
  shows "\<exists>k<length s. find (\<lambda>k. str_len (take k s) \<le> t) (rev [0..<length s]) = Some k \<and> str_len (take k s) \<le> t"
proof -
  have "find (\<lambda>k. str_len (take k s) \<le> t) (rev [0..<length s]) \<noteq> None"
    using assms by (auto simp: find_last_None intro!: exI [of _ 0])
  then show ?thesis by (auto simp: find_last_Some)
qed

lemma tail_length:
  assumes "find (\<lambda>k. str_len (take k s) \<le> t) (rev [0..<length s]) = Some k" and "t \<le> str_len s"
  shows "str_len s - t \<le> str_len (drop k s) \<and> str_len (drop k s) \<le> str_len s - t + 4"
proof -
  from assms(1) have k: "k < length s" "str_len (take k s) \<le> t" "\<And>j. k < j \<Longrightarrow> j < length s \<Longrightarrow> t < str_len (take j s)"
    by (auto simp: find_last_Some not_le)
  have d: "str_len (take k s) + str_len (drop k s) = str_len s" by (rule str_len_take_drop)
  have "take (Suc k) s = take k s @ [s ! k]" using k(1) by (rule take_Suc_conv_app_nth)
  then have n: "str_len (take (Suc k) s) \<le> str_len (take k s) + 4" using len_utf8_bounds [of "s ! k"] by simp
  have "t \<le> str_len (take (Suc k) s)"
  proof (cases "Suc k < length s")
    case True
    then show ?thesis using k(3) [of "Suc k"] by simp
  next
    case False
    then have "take (Suc k) s = s" using k(1) by simp
    then show ?thesis using assms(2) by simp
  qed
  with n d k(2) assms(2) show ?thesis by linarith
qed

lemma truncate_middle_checked:
  assumes "budget < str_len s" and "4 \<le> budget" and "str_len (take (budget div 2) s) + 3 \<le> budget"
  shows "\<exists>k<length s. truncate_middle_chars checks s budget = Ok (take (budget div 2) s @ [0x2026] @ drop k s)
    \<and> budget \<le> str_len (take (budget div 2) s @ [0x2026] @ drop k s)
    \<and> str_len (take (budget div 2) s @ [0x2026] @ drop k s) \<le> budget + 4"
proof -
  let ?head = "take (budget div 2) s @ [0x2026]"
  define remaining where "remaining = budget - str_len ?head"
  have l: "str_len ?head = str_len (take (budget div 2) s) + 3" by (simp add: len_utf8_def)
  have r: "usize_sub checks budget (str_len ?head) = Ok remaining"
    using assms(3) l by (simp add: usize_sub_def remaining_def)
  have "remaining \<le> str_len s" using assms(1) by (simp add: remaining_def)
  then have t: "usize_sub checks (str_len s) remaining = Ok (str_len s - remaining)" by (simp add: usize_sub_def)
  have "s \<noteq> []" using assms(1) by auto
  then obtain k where k: "k < length s"
      "find (\<lambda>k. str_len (take k s) \<le> str_len s - remaining) (rev [0..<length s]) = Some k"
    using tail_found by blast
  have "remaining \<le> str_len (drop k s) \<and> str_len (drop k s) \<le> remaining + 4"
    using tail_length [OF k(2)] \<open>remaining \<le> str_len s\<close> by simp
  moreover have "str_len ?head + remaining = budget" using assms(3) l by (simp add: remaining_def)
  moreover have "truncate_middle_chars checks s budget = Ok (?head @ drop k s)"
    using assms r t k(2) by (simp add: truncate_middle_chars_def Let_def)
  ultimately show ?thesis using k(1) by (intro exI [of _ k]) auto
qed

text \<open>Without overflow checks the subtraction wraps around and the tail is the last character.\<close>

lemma truncate_middle_wrapped:
  assumes len: "str_len s < 2 ^ 63" and "budget < str_len s" and "4 \<le> budget"
    and over: "budget < str_len (take (budget div 2) s) + 3"
  shows "truncate_middle_chars False s budget = Ok (take (budget div 2) s @ [0x2026] @ [last s])"
proof -
  let ?head = "take (budget div 2) s @ [0x2026]"
  define excess where "excess = str_len ?head - budget"
  have l: "str_len ?head = str_len (take (budget div 2) s) + 3" by (simp add: len_utf8_def)
  have "str_len (take (budget div 2) s) \<le> str_len s" using str_len_take_drop [of "budget div 2" s] by linarith
  then have e: "0 < excess" "str_len s + excess < 2 ^ 64" using over len l assms(3) by (auto simp: excess_def)
  have r: "usize_sub False budget (str_len ?head) = Ok (2 ^ 64 - excess)"
  proof -
    have "2 ^ 64 + budget - str_len ?head = 2 ^ 64 - excess" using over l by (simp add: excess_def)
    then show ?thesis using over l e by (simp add: usize_sub_def)
  qed
  have t: "usize_sub False (str_len s) (2 ^ 64 - excess) = Ok (str_len s + excess)"
    using e by (simp add: usize_sub_def)
  have ne: "s \<noteq> []" using assms(2) by auto
  have "str_len (take (length s - 1) s) \<le> str_len s + excess"
    using str_len_take_drop [of "length s - 1" s] by linarith
  then have "find (\<lambda>k. str_len (take k s) \<le> str_len s + excess) (rev [0..<length s]) = Some (length s - 1)"
    using ne by (auto simp: find_last_Some)
  moreover have "drop (length s - 1) s = [last s]" using ne by (cases s rule: rev_cases) auto
  ultimately show ?thesis using assms r t by (simp add: truncate_middle_chars_def Let_def)
qed

lemma truncate_middle_total:
  assumes "str_len s < 2 ^ 63"
  shows "\<exists>r. truncate_middle_chars False s budget = Ok r \<and> str_len r \<le> 2 * budget + 7"
proof (cases "budget < str_len s \<and> 4 \<le> budget")
  case True
  have "str_len (take (budget div 2) s) \<le> 4 * (budget div 2)"
    using str_len_bounds [of "take (budget div 2) s"] by (simp add: min_def split: if_splits)
  then have h: "str_len (take (budget div 2) s) \<le> 2 * budget" by linarith
  show ?thesis
  proof (cases "str_len (take (budget div 2) s) + 3 \<le> budget")
    case fits: True
    with truncate_middle_checked [of budget s False] True show ?thesis by force
  next
    case False
    with truncate_middle_wrapped [of s budget] assms True h len_utf8_bounds(2) [of "last s"] show ?thesis
      by (simp add: len_utf8_def not_le)
  qed
next
  case False
  have "str_len (take budget s) \<le> 4 * budget" using str_len_bounds [of "take budget s"] by (simp add: min_def split: if_splits)
  with False show ?thesis by (auto simp: truncate_middle_chars_def)
qed

section \<open>Items\<close>

definition text_bytes :: "function_call_output_content_item list \<Rightarrow> nat" where
  "text_bytes items = sum_list (map str_len (List.map_filter item_text items))"

lemma text_bytes_simps [simp]:
  "text_bytes [] = 0"
  "text_bytes (OutputItemText t # items) = str_len t + text_bytes items"
  "text_bytes (OutputItemImage url detail # items) = text_bytes items"
  "text_bytes (items @ items') = text_bytes items + text_bytes items'"
  by (simp_all add: text_bytes_def List.map_filter_def)

lemma truncate_items_loop_total:
  assumes "list_all (\<lambda>t. str_len t < 2 ^ 63) (List.map_filter item_text items)"
  shows "\<exists>kept omitted'. truncate_items_loop False (Bytes b) items r omitted out = Ok (out @ kept, omitted')
     \<and> filter is_image_item kept = filter is_image_item items \<and> text_bytes kept \<le> 2 * r + 7
     \<and> (text_bytes items < r \<longrightarrow> kept = items \<and> omitted' = omitted)
     \<and> (r = 0 \<longrightarrow> text_bytes kept = 0)"
  using assms
proof (induction items arbitrary: r omitted out)
  case (Cons item items)
  have rest: "list_all (\<lambda>t. str_len t < 2 ^ 63) (List.map_filter item_text items)"
    using Cons.prems by (cases item) (simp_all add: List.map_filter_def)
  note IH = Cons.IH [OF rest]
  show ?case
  proof (cases item)
    case (OutputItemImage url detail)
    then show ?thesis using IH [of r omitted "out @ [OutputItemImage url detail]"] by force
  next
    case (OutputItemText t)
    consider "r = 0" | "r \<noteq> 0" "str_len t \<le> r" | "r \<noteq> 0" "r < str_len t" by linarith
    then show ?thesis
    proof cases
      case 1
      then show ?thesis using OutputItemText IH [of 0 "Suc omitted" out] by force
    next
      case 2
      then obtain kept omitted' where "truncate_items_loop False (Bytes b) items (r - str_len t) omitted (out @ [OutputItemText t])
            = Ok ((out @ [OutputItemText t]) @ kept, omitted')"
          "filter is_image_item kept = filter is_image_item items" "text_bytes kept \<le> 2 * (r - str_len t) + 7"
          "text_bytes items < r - str_len t \<longrightarrow> kept = items \<and> omitted' = omitted"
        using IH [of "r - str_len t" omitted "out @ [OutputItemText t]"] by blast
      with 2 OutputItemText show ?thesis
        by (intro exI [of _ "OutputItemText t # kept"] exI [of _ omitted']) (auto simp: item_cost_def)
    next
      case 3
      have "str_len t < 2 ^ 63" using Cons.prems OutputItemText by (simp add: List.map_filter_def)
      then obtain snippet where s: "truncate_middle_chars False t r = Ok snippet" "str_len snippet \<le> 2 * r + 7"
        using truncate_middle_total by blast
      obtain kept omitted' where k: "truncate_items_loop False (Bytes b) items 0 (if snippet = [] then Suc omitted else omitted)
            (out @ (if snippet = [] then [] else [OutputItemText snippet]))
            = Ok ((out @ (if snippet = [] then [] else [OutputItemText snippet])) @ kept, omitted')"
          "filter is_image_item kept = filter is_image_item items" "text_bytes kept = 0"
        using IH [of 0 "if snippet = [] then Suc omitted else omitted" "out @ (if snippet = [] then [] else [OutputItemText snippet])"] by blast
      with 3 s OutputItemText show ?thesis
        by (intro exI [of _ "(if snippet = [] then [] else [OutputItemText snippet]) @ kept"] exI [of _ omitted'])
           (auto simp: item_cost_def truncate_text_def with_budget_def)
    qed
  qed
qed simp

text \<open>
  Which texts come out: the first ones whole, then at most one shortened, and every other one is counted.
\<close>

abbreviation item_texts :: "function_call_output_content_item list \<Rightarrow> ustr list" where
  "item_texts items \<equiv> List.map_filter item_text items"

lemma item_texts_simps [simp]:
  "item_texts [] = []"
  "item_texts (OutputItemText t # items) = t # item_texts items"
  "item_texts (OutputItemImage url detail # items) = item_texts items"
  "item_texts (items @ items') = item_texts items @ item_texts items'"
  by (simp_all add: List.map_filter_def)

lemma truncate_items_loop_spent:
  "truncate_items_loop checks policy items 0 omitted out = Ok (out @ filter is_image_item items, omitted + length (item_texts items))"
proof (induction items arbitrary: omitted out)
  case (Cons item items)
  then show ?case by (cases item) simp_all
qed simp

lemma texts_of_images [simp]: "item_texts (filter is_image_item items) = []"
proof (induction items)
  case (Cons item items)
  then show ?case by (cases item) simp_all
qed simp

lemma truncate_items_loop_texts:
  assumes "truncate_items_loop checks policy items r omitted out = Ok (out', omitted')"
  shows "\<exists>kept whole snippet. out' = out @ kept \<and> item_texts kept = whole @ snippet \<and> prefix whole (item_texts items) \<and> length snippet \<le> 1
     \<and> length (item_texts kept) + omitted' = length (item_texts items) + omitted"
  using assms
proof (induction items arbitrary: r omitted out)
  case Nil
  then show ?case by (intro exI [of _ "[]"]) simp
next
  case (Cons item items)
  show ?case
  proof (cases item)
    case (OutputItemImage url detail)
    with Cons.prems Cons.IH [of r omitted "out @ [item]"] obtain kept whole snippet where "out' = out @ item # kept"
        "item_texts kept = whole @ snippet" "prefix whole (item_texts items)" "length snippet \<le> 1"
        "length (item_texts kept) + omitted' = length (item_texts items) + omitted" by auto
    then show ?thesis using OutputItemImage by (intro exI [of _ "item # kept"] exI [of _ whole] exI [of _ snippet]) simp
  next
    case (OutputItemText t)
    consider "r = 0" | "r \<noteq> 0" "item_cost policy t \<le> r" | snippet where "r \<noteq> 0" "\<not> item_cost policy t \<le> r"
        "truncate_text checks t (with_budget policy r) = Ok snippet"
      using Cons.prems OutputItemText by (cases "truncate_text checks t (with_budget policy r)") (auto simp: Let_def split: if_splits)
    then show ?thesis
    proof cases
      case 1
      then show ?thesis using Cons.prems truncate_items_loop_spent [of checks policy "item # items" omitted out] OutputItemText
        by (intro exI [of _ "filter is_image_item items"] exI [of _ "[]"]) simp
    next
      case 2
      with Cons.prems Cons.IH [of "r - item_cost policy t" omitted "out @ [item]"] OutputItemText obtain kept whole snippet where
          "out' = out @ item # kept" "item_texts kept = whole @ snippet" "prefix whole (item_texts items)" "length snippet \<le> 1"
          "length (item_texts kept) + omitted' = length (item_texts items) + omitted" by (auto simp: Let_def)
      then show ?thesis using OutputItemText by (intro exI [of _ "item # kept"] exI [of _ "t # whole"] exI [of _ snippet]) simp
    next
      case 3
      let ?new = "if snippet = [] then [] else [OutputItemText snippet]"
      have "out' = out @ ?new @ filter is_image_item items" "omitted' = (if snippet = [] then Suc omitted else omitted) + length (item_texts items)"
        using 3 Cons.prems OutputItemText by (auto simp: truncate_items_loop_spent Let_def split: if_splits)
      then show ?thesis using OutputItemText
        by (intro exI [of _ "?new @ filter is_image_item items"] exI [of _ "[]"] exI [of _ "item_texts ?new"]) simp
    qed
  qed
qed

lemma truncate_items_loop_fits:
  assumes "text_bytes items \<le> r" and "[] \<notin> set (item_texts items)"
  shows "truncate_items_loop checks (Bytes b) items r omitted out = Ok (out @ items, omitted)"
  using assms
proof (induction items arbitrary: r out)
  case (Cons item items)
  show ?case
  proof (cases item)
    case (OutputItemText t)
    have "0 < str_len t" using Cons.prems(2) OutputItemText str_len_bounds [of t] by (cases t) auto
    then show ?thesis using OutputItemText Cons.prems Cons.IH [of "r - str_len t" "out @ [item]"] by (simp add: item_cost_def)
  next
    case (OutputItemImage url detail)
    then show ?thesis using Cons.prems Cons.IH [of r "out @ [item]"] by simp
  qed
qed simp

section \<open>Properties\<close>

text \<open>
  With overflow checks, truncating a text in the middle panics exactly when the first half of the
  budget, counted in characters, takes more bytes than the budget leaves after the ellipsis; a budget
  of four bytes is such a case for every longer text.
\<close>

theorem truncate_middle_panics_iff:
  "truncate_middle_chars True s budget = Err Panic \<longleftrightarrow>
     budget < str_len s \<and> 4 \<le> budget \<and> budget < str_len (take (budget div 2) s) + 3"
proof (cases "budget < str_len s \<and> 4 \<le> budget")
  case True
  show ?thesis
  proof (cases "str_len (take (budget div 2) s) + 3 \<le> budget")
    case fits: True
    with truncate_middle_checked [of budget s True] True show ?thesis by auto
  next
    case False
    with True show ?thesis
      by (simp add: truncate_middle_chars_def usize_sub_def len_utf8_def Let_def)
  qed
qed (auto simp: truncate_middle_chars_def)



end
