(* ===== verification/Context_Items.thy ===== *)
theory Context_Items
  imports Text_Truncation
begin

text \<open>
  The items of a conversation (\<^verbatim>\<open>src/protocol/src/models.rs\<close>), the fragments of injected context and their
  recognition (\<^verbatim>\<open>src/core/src/context/fragment.rs\<close>, \<^verbatim>\<open>src/core/src/context/contextual_user_message.rs\<close>,
  \<^verbatim>\<open>src/core/src/event_mapping.rs\<close>).  JSON values of a third-party library are the type parameter \<open>'j\<close>; the
  XML reader of hook prompts and the JSON reader of messages between agents are fields of \<open>context_env\<close>.
\<close>

section \<open>Items\<close>

datatype content_item =
    InputText ustr
  | InputImage ustr "image_detail option"
  | OutputText ustr

datatype message_phase = Commentary | FinalAnswer

datatype function_call_output_body =
    BodyText ustr
  | BodyContentItems "function_call_output_content_item list"

record function_call_output_payload =
  body :: function_call_output_body
  success :: "bool option"

definition payload_from_text :: "ustr \<Rightarrow> function_call_output_payload" where
  "payload_from_text content = \<lparr>body = BodyText content, success = None\<rparr>"

datatype local_shell_status = Completed | InProgress | Incomplete

record local_shell_exec_action =
  action_command :: "ustr list"
  action_timeout_ms :: "nat option"
  action_working_directory :: "ustr option"
  action_env :: "(ustr \<rightharpoonup> ustr) option"
  action_user :: "ustr option"

datatype local_shell_action = Exec local_shell_exec_action

datatype web_search_action =
    Search "ustr option" "ustr list option"
  | OpenPage "ustr option"
  | FindInPage "ustr option" "ustr option"
  | OtherAction

datatype reasoning_item_reasoning_summary = SummaryText ustr

datatype reasoning_item_content = ReasoningText ustr | ReasoningPlain ustr

text \<open>The fields are in the order of the source.\<close>

datatype 'j response_item =
    Message "ustr option" ustr "content_item list" "message_phase option"
  | Reasoning ustr "reasoning_item_reasoning_summary list" "reasoning_item_content list option" "ustr option" "ustr option"
  | LocalShellCall "ustr option" "ustr option" local_shell_status local_shell_action
  | FunctionCall "ustr option" ustr "ustr option" ustr ustr
  | ToolSearchCall "ustr option" "ustr option" "ustr option" ustr 'j
  | FunctionCallOutput ustr function_call_output_payload
  | CustomToolCall "ustr option" "ustr option" ustr ustr ustr
  | CustomToolCallOutput ustr "ustr option" function_call_output_payload
  | ToolSearchOutput "ustr option" ustr ustr "'j list"
  | WebSearchCall "ustr option" "ustr option" "web_search_action option"
  | ImageGenerationCall ustr ustr "ustr option" ustr
  | Compaction ustr
  | OtherItem

datatype input_modality = ModalityText | ModalityImage

section \<open>Fragments\<close>

text \<open>\<^verbatim>\<open>s.get(..n)\<close> and \<^verbatim>\<open>s.get(n..)\<close> at a byte offset, which has to be a character boundary.\<close>

definition char_boundary :: "ustr \<Rightarrow> nat \<Rightarrow> nat option" where
  "char_boundary s n = find (\<lambda>k. str_len (take k s) = n) [0..<Suc (length s)]"

definition get_to :: "ustr \<Rightarrow> nat \<Rightarrow> ustr option" where
  "get_to s n = map_option (\<lambda>k. take k s) (char_boundary s n)"

definition get_from :: "ustr \<Rightarrow> nat \<Rightarrow> ustr option" where
  "get_from s n = map_option (\<lambda>k. drop k s) (char_boundary s n)"

text \<open>A kind of fragment: the constants of the trait.\<close>

record contextual_user_fragment =
  ROLE :: ustr
  START_MARKER :: ustr
  END_MARKER :: ustr

definition is_some_and :: "'a option \<Rightarrow> ('a \<Rightarrow> bool) \<Rightarrow> bool" where
  "is_some_and x p = (case x of Some v \<Rightarrow> p v | None \<Rightarrow> False)"

definition matches_text :: "contextual_user_fragment \<Rightarrow> ustr \<Rightarrow> bool" where
  "matches_text f content =
     (if START_MARKER f = [] \<or> END_MARKER f = [] then False
      else
        let trimmed = trim_start content;
            starts_with_marker = is_some_and (get_to trimmed (str_len (START_MARKER f)))
              (\<lambda>candidate. eq_ignore_ascii_case candidate (START_MARKER f));
            trimmed = trim_end trimmed;
            ends_with_marker = is_some_and (get_from trimmed (str_len trimmed - str_len (END_MARKER f)))
              (\<lambda>candidate. eq_ignore_ascii_case candidate (END_MARKER f))
        in starts_with_marker \<and> ends_with_marker)"

text \<open>The text of a fragment whose \<^verbatim>\<open>body()\<close> is \<open>content\<close>, and the message that carries it.\<close>

definition render :: "contextual_user_fragment \<Rightarrow> ustr \<Rightarrow> ustr" where
  "render f content =
     (if START_MARKER f = [] \<and> END_MARKER f = [] then content
      else START_MARKER f @ content @ END_MARKER f)"

definition fragment_into :: "contextual_user_fragment \<Rightarrow> ustr \<Rightarrow> 'j response_item" where
  "fragment_into f content = Message None (ROLE f) [InputText (render f content)] None"

definition user_instructions :: contextual_user_fragment where
  "user_instructions = \<lparr>ROLE = lit ''user'', START_MARKER = lit ''# AGENTS.md instructions for '', END_MARKER = lit ''</INSTRUCTIONS>''\<rparr>"

definition environment_context :: contextual_user_fragment where
  "environment_context = \<lparr>ROLE = lit ''user'', START_MARKER = lit ''<environment_context>'', END_MARKER = lit ''</environment_context>''\<rparr>"

definition skill_instructions :: contextual_user_fragment where
  "skill_instructions = \<lparr>ROLE = lit ''user'', START_MARKER = lit ''<skill>'', END_MARKER = lit ''</skill>''\<rparr>"

definition user_shell_command :: contextual_user_fragment where
  "user_shell_command = \<lparr>ROLE = lit ''user'', START_MARKER = lit ''<user_shell_command>'', END_MARKER = lit ''</user_shell_command>''\<rparr>"

definition turn_aborted :: contextual_user_fragment where
  "turn_aborted = \<lparr>ROLE = lit ''user'', START_MARKER = lit ''<turn_aborted>'', END_MARKER = lit ''</turn_aborted>''\<rparr>"

definition subagent_notification :: contextual_user_fragment where
  "subagent_notification = \<lparr>ROLE = lit ''user'', START_MARKER = lit ''<subagent_notification>'', END_MARKER = lit ''</subagent_notification>''\<rparr>"

definition CONTEXTUAL_USER_FRAGMENTS :: "contextual_user_fragment list" where
  "CONTEXTUAL_USER_FRAGMENTS =
     [user_instructions, environment_context, skill_instructions, user_shell_command, turn_aborted, subagent_notification]"

definition is_standard_contextual_user_text :: "ustr \<Rightarrow> bool" where
  "is_standard_contextual_user_text content = list_ex (\<lambda>f. matches_text f content) CONTEXTUAL_USER_FRAGMENTS"

section \<open>Recognising context\<close>

text \<open>
  What the third-party libraries compute: the text and run id of a hook prompt in XML, whether a text is the
  JSON of a message between agents, the JSON of an item, and the width and height of an image in base64.
\<close>

record 'j context_env =
  from_xml_str :: "ustr \<Rightarrow> (ustr \<times> ustr) option"
  inter_agent_from_str :: "ustr \<Rightarrow> bool"
  item_to_json :: "'j response_item \<Rightarrow> ustr option"
  decode_image_size :: "ustr \<Rightarrow> (nat \<times> nat) option"

definition parse_hook_prompt_fragment :: "'j context_env \<Rightarrow> ustr \<Rightarrow> (ustr \<times> ustr) option" where
  "parse_hook_prompt_fragment E content =
     (case from_xml_str E (trim content) of
        None \<Rightarrow> None
      | Some (content, hook_run_id) \<Rightarrow> if trim hook_run_id = [] then None else Some (content, hook_run_id))"

definition is_contextual_user_fragment :: "'j context_env \<Rightarrow> content_item \<Rightarrow> bool" where
  "is_contextual_user_fragment E item =
     (case item of
        InputText content \<Rightarrow> parse_hook_prompt_fragment E content \<noteq> None \<or> is_standard_contextual_user_text content
      | _ \<Rightarrow> False)"

definition is_contextual_user_message_content :: "'j context_env \<Rightarrow> content_item list \<Rightarrow> bool" where
  "is_contextual_user_message_content E message = list_ex (is_contextual_user_fragment E) message"

definition CONTEXTUAL_DEVELOPER_PREFIXES :: "ustr list" where
  "CONTEXTUAL_DEVELOPER_PREFIXES =
     [lit ''<permissions instructions>'', lit ''<model_switch>'', lit ''<collaboration_mode>'',
      lit ''<realtime_conversation>'', lit ''<personality_spec>'']"

definition is_contextual_dev_fragment :: "content_item \<Rightarrow> bool" where
  "is_contextual_dev_fragment item =
     (case item of
        InputText content \<Rightarrow>
          (let trimmed = trim_start content
           in list_ex (\<lambda>p. is_some_and (get_to trimmed (str_len p)) (\<lambda>candidate. eq_ignore_ascii_case candidate p))
                CONTEXTUAL_DEVELOPER_PREFIXES)
      | _ \<Rightarrow> False)"

definition is_contextual_dev_message_content :: "content_item list \<Rightarrow> bool" where
  "is_contextual_dev_message_content message = list_ex is_contextual_dev_fragment message"

definition has_non_contextual_dev_message_content :: "content_item list \<Rightarrow> bool" where
  "has_non_contextual_dev_message_content message = list_ex (\<lambda>item. \<not> is_contextual_dev_fragment item) message"

definition is_message_content :: "'j context_env \<Rightarrow> content_item list \<Rightarrow> bool" where
  "is_message_content E content =
     (case content of
        [InputText t] \<Rightarrow> inter_agent_from_str E t
      | [OutputText t] \<Rightarrow> inter_agent_from_str E t
      | _ \<Rightarrow> False)"

definition is_user_turn_boundary :: "'j context_env \<Rightarrow> 'j response_item \<Rightarrow> bool" where
  "is_user_turn_boundary E item =
     (case item of
        Message _ role content _ \<Rightarrow>
          (role = lit ''user'' \<and> \<not> is_contextual_user_message_content E content)
          \<or> (role = lit ''assistant'' \<and> is_message_content E content)
      | _ \<Rightarrow> False)"

section \<open>Lemmas\<close>

lemma str_len_take_less:
  assumes "j < k" "k \<le> length s"
  shows "str_len (take j s) < str_len (take k s)"
proof -
  have "take k s = take j s @ drop j (take k s)"
    using assms(1) append_take_drop_id [of j "take k s"] by (simp add: min_def)
  then have "str_len (take k s) = str_len (take j s) + str_len (drop j (take k s))"
    by (metis str_len_simps(3))
  moreover have "length (drop j (take k s)) \<le> str_len (drop j (take k s))" using str_len_bounds by blast
  moreover have "0 < length (drop j (take k s))" using assms by simp
  ultimately show ?thesis by linarith
qed

lemma char_boundary_take [simp]:
  assumes "j \<le> length s"
  shows "char_boundary s (str_len (take j s)) = Some j"
proof -
  have "find (\<lambda>k. str_len (take k s) = str_len (take j s)) [0..<Suc (length s)] = Some j"
    unfolding find_Some_iff
  proof (intro exI [of _ j] conjI allI impI)
    fix i assume "i < j"
    with str_len_take_less [OF this assms]
    show "str_len (take ([0..<Suc (length s)] ! i) s) \<noteq> str_len (take j s)" using assms by (simp add: nth_append)
  qed (use assms in \<open>auto simp: nth_append\<close>)
  then show ?thesis by (simp add: char_boundary_def)
qed

lemma get_to_append [simp]: "get_to (p @ s) (str_len p) = Some p"
  using char_boundary_take [of "length p" "p @ s"] by (simp add: get_to_def del: char_boundary_take)

lemma get_from_append [simp]: "get_from (p @ s) (str_len p) = Some s"
  using char_boundary_take [of "length p" "p @ s"] by (simp add: get_from_def del: char_boundary_take)

text \<open>A kind of fragment whose markers are not empty and neither start nor end in white space at the outside.\<close>

definition marked :: "contextual_user_fragment \<Rightarrow> bool" where
  "marked f \<longleftrightarrow> START_MARKER f \<noteq> [] \<and> END_MARKER f \<noteq> []
     \<and> \<not> is_whitespace (hd (START_MARKER f)) \<and> \<not> is_whitespace (last (END_MARKER f))"

lemma matches_text_render: "marked f \<Longrightarrow> matches_text f (render f content)"
proof -
  assume m: "marked f"
  let ?t = "START_MARKER f @ content @ END_MARKER f"
  have s: "trim_start ?t = ?t" using m by (cases "START_MARKER f") (simp_all add: marked_def trim_start_def)
  have "trim_end ?t = ?t" using m by (simp add: marked_def trim_end_def trim_end_matches_def hd_rev dropWhile_eq_self_iff)
  moreover have "get_from ?t (str_len ?t - str_len (END_MARKER f)) = Some (END_MARKER f)"
    using get_from_append [of "START_MARKER f @ content" "END_MARKER f"] by (simp del: get_from_append)
  ultimately show ?thesis using m s
    by (simp add: matches_text_def render_def marked_def is_some_and_def eq_ignore_ascii_case_def)
qed

lemmas fragment_defs = user_instructions_def environment_context_def skill_instructions_def
  user_shell_command_def turn_aborted_def subagent_notification_def

lemma contextual_fragments_marked: "f \<in> set CONTEXTUAL_USER_FRAGMENTS \<Longrightarrow> marked f \<and> ROLE f = lit ''user''"
  by (auto simp: CONTEXTUAL_USER_FRAGMENTS_def fragment_defs marked_def is_whitespace_def)

section \<open>Properties\<close>

text \<open>
  A fragment of context that the program itself puts into the conversation is recognised as such
  whatever its body, so that its message never counts as a turn of the user.
\<close>

theorem injected_context_is_no_turn:
  assumes "f \<in> set CONTEXTUAL_USER_FRAGMENTS"
  shows "is_standard_contextual_user_text (render f content)
    \<and> \<not> is_user_turn_boundary E (fragment_into f content)"
proof -
  have "matches_text f (render f content)" using matches_text_render contextual_fragments_marked [OF assms] by blast
  then have "is_standard_contextual_user_text (render f content)"
    using assms by (auto simp: is_standard_contextual_user_text_def list_ex_iff)
  moreover have "ROLE f = lit ''user''" using contextual_fragments_marked [OF assms] by blast
  ultimately show ?thesis
    by (simp add: is_user_turn_boundary_def fragment_into_def is_contextual_user_message_content_def
        is_contextual_user_fragment_def)
qed

definition plain_env :: "nat context_env" where
  "plain_env = \<lparr>from_xml_str = (\<lambda>_. None), inter_agent_from_str = (\<lambda>_. False),
     item_to_json = (\<lambda>_. None), decode_image_size = (\<lambda>_. None)\<rparr>"

theorem injected_context_is_no_turn_witness:
  "is_standard_contextual_user_text (lit ''<skill>read the docs</skill>'')
     \<and> \<not> is_user_turn_boundary plain_env (fragment_into skill_instructions (lit ''read the docs''))"
  using injected_context_is_no_turn [of skill_instructions "lit ''read the docs''" plain_env]
  by (simp add: CONTEXTUAL_USER_FRAGMENTS_def render_def skill_instructions_def)

end
