(* ===== verification/Context_Normalize.thy ===== *)
theory Context_Normalize
  imports Context_Items
begin

text \<open>
  Normalisation of the conversation before it is sent to the model (\<^verbatim>\<open>src/core/src/context_manager/normalize.rs\<close>):
  every call gets an output, outputs without a call are dropped, images are replaced for models without image
  input.  \<^verbatim>\<open>error_or_panic\<close> panics in builds with debug assertions, which is the parameter \<open>debug\<close>.
\<close>

section \<open>Operations\<close>

definition error_or_panic :: "bool \<Rightarrow> (unit fault, unit) result" where
  "error_or_panic debug = (if debug then Err Panic else Ok ())"

definition IMAGE_CONTENT_OMITTED_PLACEHOLDER :: ustr where
  "IMAGE_CONTENT_OMITTED_PLACEHOLDER = lit ''image content omitted because you do not support image input''"

fun has_function_output :: "ustr \<Rightarrow> 'j response_item \<Rightarrow> bool" where
  "has_function_output call_id (FunctionCallOutput existing _) = (existing = call_id)"
| "has_function_output call_id _ = False"

fun has_search_output :: "ustr \<Rightarrow> 'j response_item \<Rightarrow> bool" where
  "has_search_output call_id (ToolSearchOutput (Some existing) _ _ _) = (existing = call_id)"
| "has_search_output call_id _ = False"

fun has_custom_output :: "ustr \<Rightarrow> 'j response_item \<Rightarrow> bool" where
  "has_custom_output call_id (CustomToolCallOutput existing _ _) = (existing = call_id)"
| "has_custom_output call_id _ = False"

text \<open>The output that has to be added after an item, if any.\<close>

definition missing_output :: "bool \<Rightarrow> 'j response_item list \<Rightarrow> 'j response_item \<Rightarrow> (unit fault, 'j response_item option) result" where
  "missing_output debug items item =
     (case item of
        FunctionCall _ _ _ _ call_id \<Rightarrow>
          if list_ex (has_function_output call_id) items then Ok None
          else Ok (Some (FunctionCallOutput call_id (payload_from_text (lit ''aborted''))))
      | ToolSearchCall _ (Some call_id) _ _ _ \<Rightarrow>
          if list_ex (has_search_output call_id) items then Ok None
          else Ok (Some (ToolSearchOutput (Some call_id) (lit ''completed'') (lit ''client'') []))
      | CustomToolCall _ _ call_id _ _ \<Rightarrow>
          if list_ex (has_custom_output call_id) items then Ok None
          else (case error_or_panic debug of
                  Err e \<Rightarrow> Err e
                | Ok _ \<Rightarrow> Ok (Some (CustomToolCallOutput call_id None (payload_from_text (lit ''aborted'')))))
      | LocalShellCall _ (Some call_id) _ _ \<Rightarrow>
          if list_ex (has_function_output call_id) items then Ok None
          else (case error_or_panic debug of
                  Err e \<Rightarrow> Err e
                | Ok _ \<Rightarrow> Ok (Some (FunctionCallOutput call_id (payload_from_text (lit ''aborted'')))))
      | _ \<Rightarrow> Ok None)"

fun missing_outputs_loop ::
  "bool \<Rightarrow> 'j response_item list \<Rightarrow> (nat \<times> 'j response_item) list \<Rightarrow> (nat \<times> 'j response_item) list
     \<Rightarrow> (unit fault, (nat \<times> 'j response_item) list) result" where
  "missing_outputs_loop debug items [] missing = Ok missing"
| "missing_outputs_loop debug items ((idx, item) # rest) missing =
     (case missing_output debug items item of
        Err e \<Rightarrow> Err e
      | Ok None \<Rightarrow> missing_outputs_loop debug items rest missing
      | Ok (Some output) \<Rightarrow> missing_outputs_loop debug items rest (missing @ [(idx, output)]))"

fun insert_outputs :: "(nat \<times> 'a) list \<Rightarrow> 'a list \<Rightarrow> (unit fault, 'a list) result" where
  "insert_outputs [] items = Ok items"
| "insert_outputs ((idx, output) # rest) items =
     (case vec_insert (idx + 1) output items of
        Err e \<Rightarrow> Err e
      | Ok items \<Rightarrow> insert_outputs rest items)"

definition ensure_call_outputs_present :: "bool \<Rightarrow> 'j response_item list \<Rightarrow> (unit fault, 'j response_item list) result" where
  "ensure_call_outputs_present debug items =
     (case missing_outputs_loop debug items (List.enumerate 0 items) [] of
        Err e \<Rightarrow> Err e
      | Ok missing_outputs_to_insert \<Rightarrow> insert_outputs (rev missing_outputs_to_insert) items)"

fun function_call_id :: "'j response_item \<Rightarrow> ustr option" where
  "function_call_id (FunctionCall _ _ _ _ call_id) = Some call_id"
| "function_call_id _ = None"

fun tool_search_call_id :: "'j response_item \<Rightarrow> ustr option" where
  "tool_search_call_id (ToolSearchCall _ call_id _ _ _) = call_id"
| "tool_search_call_id _ = None"

fun local_shell_call_id :: "'j response_item \<Rightarrow> ustr option" where
  "local_shell_call_id (LocalShellCall _ call_id _ _) = call_id"
| "local_shell_call_id _ = None"

fun custom_tool_call_id :: "'j response_item \<Rightarrow> ustr option" where
  "custom_tool_call_id (CustomToolCall _ _ call_id _ _) = Some call_id"
| "custom_tool_call_id _ = None"

text \<open>Whether an item stays, given the ids of the calls of \<open>items\<close>.\<close>

fun output_has_match :: "'j response_item list \<Rightarrow> 'j response_item \<Rightarrow> bool" where
  "output_has_match items (FunctionCallOutput call_id _) =
     (call_id \<in> set (List.map_filter function_call_id items) \<or> call_id \<in> set (List.map_filter local_shell_call_id items))"
| "output_has_match items (CustomToolCallOutput call_id _ _) = (call_id \<in> set (List.map_filter custom_tool_call_id items))"
| "output_has_match items (ToolSearchOutput call_id _ execution _) =
     (if execution = lit ''server'' then True
      else case call_id of
             Some call_id \<Rightarrow> call_id \<in> set (List.map_filter tool_search_call_id items)
           | None \<Rightarrow> True)"
| "output_has_match items _ = True"

fun retain_loop :: "bool \<Rightarrow> 'j response_item list \<Rightarrow> 'j response_item list \<Rightarrow> 'j response_item list \<Rightarrow> (unit fault, 'j response_item list) result" where
  "retain_loop debug items [] kept = Ok kept"
| "retain_loop debug items (item # rest) kept =
     (if output_has_match items item then retain_loop debug items rest (kept @ [item])
      else case error_or_panic debug of
             Err e \<Rightarrow> Err e
           | Ok _ \<Rightarrow> retain_loop debug items rest kept)"

definition remove_orphan_outputs :: "bool \<Rightarrow> 'j response_item list \<Rightarrow> (unit fault, 'j response_item list) result" where
  "remove_orphan_outputs debug items = retain_loop debug items items []"

fun remove_first_matching :: "('a \<Rightarrow> bool) \<Rightarrow> 'a list \<Rightarrow> 'a list" where
  "remove_first_matching p [] = []"
| "remove_first_matching p (x # xs) = (if p x then xs else x # remove_first_matching p xs)"

definition remove_corresponding_for :: "'j response_item list \<Rightarrow> 'j response_item \<Rightarrow> 'j response_item list" where
  "remove_corresponding_for items item =
     (case item of
        FunctionCall _ _ _ _ call_id \<Rightarrow> remove_first_matching (has_function_output call_id) items
      | FunctionCallOutput call_id _ \<Rightarrow>
          if list_ex (\<lambda>i. function_call_id i = Some call_id) items
          then remove_first_matching (\<lambda>i. function_call_id i = Some call_id) items
          else remove_first_matching (\<lambda>i. local_shell_call_id i = Some call_id) items
      | ToolSearchCall _ (Some call_id) _ _ _ \<Rightarrow> remove_first_matching (has_search_output call_id) items
      | ToolSearchOutput (Some call_id) _ _ _ \<Rightarrow> remove_first_matching (\<lambda>i. tool_search_call_id i = Some call_id) items
      | CustomToolCall _ _ call_id _ _ \<Rightarrow> remove_first_matching (has_custom_output call_id) items
      | CustomToolCallOutput call_id _ _ \<Rightarrow> remove_first_matching (\<lambda>i. custom_tool_call_id i = Some call_id) items
      | LocalShellCall _ (Some call_id) _ _ \<Rightarrow> remove_first_matching (has_function_output call_id) items
      | _ \<Rightarrow> items)"

definition strip_content :: "content_item \<Rightarrow> content_item" where
  "strip_content item = (case item of InputImage _ _ \<Rightarrow> InputText IMAGE_CONTENT_OMITTED_PLACEHOLDER | _ \<Rightarrow> item)"

definition strip_output_content :: "ustr \<Rightarrow> function_call_output_content_item \<Rightarrow> function_call_output_content_item" where
  "strip_output_content placeholder item = (case item of OutputItemImage _ _ \<Rightarrow> OutputItemText placeholder | _ \<Rightarrow> item)"

definition strip_payload :: "function_call_output_payload \<Rightarrow> function_call_output_payload" where
  "strip_payload output =
     (case body output of
        BodyContentItems items \<Rightarrow> output\<lparr>body := BodyContentItems (map (strip_output_content IMAGE_CONTENT_OMITTED_PLACEHOLDER) items)\<rparr>
      | BodyText _ \<Rightarrow> output)"

fun strip_item_images :: "'j response_item \<Rightarrow> 'j response_item" where
  "strip_item_images (Message i role content phase) = Message i role (map strip_content content) phase"
| "strip_item_images (FunctionCallOutput call_id output) = FunctionCallOutput call_id (strip_payload output)"
| "strip_item_images (CustomToolCallOutput call_id name output) = CustomToolCallOutput call_id name (strip_payload output)"
| "strip_item_images (ImageGenerationCall i status revised_prompt _) = ImageGenerationCall i status revised_prompt []"
| "strip_item_images item = item"

definition strip_images_when_unsupported :: "input_modality list \<Rightarrow> 'j response_item list \<Rightarrow> 'j response_item list" where
  "strip_images_when_unsupported input_modalities items =
     (if ModalityImage \<in> set input_modalities then items else map strip_item_images items)"

definition normalize_items :: "bool \<Rightarrow> input_modality list \<Rightarrow> 'j response_item list \<Rightarrow> (unit fault, 'j response_item list) result" where
  "normalize_items debug input_modalities items =
     (case ensure_call_outputs_present debug items of
        Err e \<Rightarrow> Err e
      | Ok items \<Rightarrow>
          (case remove_orphan_outputs debug items of
             Err e \<Rightarrow> Err e
           | Ok items \<Rightarrow> Ok (strip_images_when_unsupported input_modalities items)))"

section \<open>Calls and outputs\<close>

text \<open>
  The answers to function and local shell calls share one kind of output, so a call and its output are
  identified by one of three kinds and the call id.
\<close>

datatype call_kind = FunctionKind | SearchKind | CustomKind

fun call_key :: "'j response_item \<Rightarrow> (call_kind \<times> ustr) option" where
  "call_key (FunctionCall _ _ _ _ call_id) = Some (FunctionKind, call_id)"
| "call_key (LocalShellCall _ call_id _ _) = map_option (Pair FunctionKind) call_id"
| "call_key (ToolSearchCall _ call_id _ _ _) = map_option (Pair SearchKind) call_id"
| "call_key (CustomToolCall _ _ call_id _ _) = Some (CustomKind, call_id)"
| "call_key _ = None"

fun output_key :: "'j response_item \<Rightarrow> (call_kind \<times> ustr) option" where
  "output_key (FunctionCallOutput call_id _) = Some (FunctionKind, call_id)"
| "output_key (ToolSearchOutput call_id _ _ _) = map_option (Pair SearchKind) call_id"
| "output_key (CustomToolCallOutput call_id _ _) = Some (CustomKind, call_id)"
| "output_key _ = None"

text \<open>An output that needs a call: server-side tool searches have none.\<close>

fun answers :: "'j response_item \<Rightarrow> (call_kind \<times> ustr) option" where
  "answers (ToolSearchOutput call_id _ execution _) = (if execution = lit ''server'' then None else map_option (Pair SearchKind) call_id)"
| "answers item = output_key item"

definition calls_answered :: "'j response_item list \<Rightarrow> bool" where
  "calls_answered items \<longleftrightarrow> set (List.map_filter call_key items) \<subseteq> set (List.map_filter output_key items)"

definition outputs_called :: "'j response_item list \<Rightarrow> bool" where
  "outputs_called items \<longleftrightarrow> set (List.map_filter answers items) \<subseteq> set (List.map_filter call_key items)"

text \<open>No id is used by two calls or by two outputs.\<close>

definition unique_ids :: "'j response_item list \<Rightarrow> bool" where
  "unique_ids items \<longleftrightarrow> distinct (List.map_filter call_key items) \<and> distinct (List.map_filter output_key items)"

definition paired :: "'j response_item list \<Rightarrow> bool" where
  "paired items \<longleftrightarrow> calls_answered items \<and> outputs_called items \<and> unique_ids items"

lemma in_keys: "k \<in> set (List.map_filter f xs) \<longleftrightarrow> (\<exists>x\<in>set xs. f x = Some k)"
  by (force simp: List.map_filter_def)

lemma keys_simps [simp]:
  "List.map_filter f [] = []"
  "List.map_filter f (x # xs) = (case f x of None \<Rightarrow> List.map_filter f xs | Some k \<Rightarrow> k # List.map_filter f xs)"
  "List.map_filter f (xs @ ys) = List.map_filter f xs @ List.map_filter f ys"
  by (simp_all add: List.map_filter_def split: option.splits)

lemma distinct_keys_filter: "distinct (List.map_filter f xs) \<Longrightarrow> distinct (List.map_filter f (filter p xs))"
  by (induction xs) (auto simp: in_keys split: option.splits)

lemma remove_first_key:
  "distinct (List.map_filter f xs) \<Longrightarrow> remove_first_matching (\<lambda>x. f x = Some k) xs = filter (\<lambda>x. f x \<noteq> Some k) xs"
proof (induction xs)
  case (Cons x xs)
  show ?case
  proof (cases "f x = Some k")
    case True
    then have "\<forall>y\<in>set xs. f y \<noteq> Some k" using Cons.prems by (auto simp: in_keys)
    then have "filter (\<lambda>x. f x \<noteq> Some k) xs = xs" by (simp add: filter_id_conv)
    with True show ?thesis by simp
  next
    case False
    with Cons show ?thesis by (simp split: option.splits)
  qed
qed simp

lemma key_unique: "distinct (List.map_filter f xs) \<Longrightarrow> x \<in> set xs \<Longrightarrow> y \<in> set xs \<Longrightarrow> f x = Some k \<Longrightarrow> f y = Some k \<Longrightarrow> x = y"
  by (induction xs) (auto simp: in_keys split: option.splits)

lemma remove_first_matching_cong: "(\<And>x. x \<in> set xs \<Longrightarrow> p x = q x) \<Longrightarrow> remove_first_matching p xs = remove_first_matching q xs"
  by (induction xs) auto

lemma remove_first_unique:
  assumes d: "distinct (List.map_filter f xs)" and p: "\<And>x. p x \<Longrightarrow> f x = Some k"
    and e: "\<And>y. y \<in> set xs \<Longrightarrow> f y = Some k \<Longrightarrow> \<exists>x\<in>set xs. p x"
  shows "remove_first_matching p xs = filter (\<lambda>x. f x \<noteq> Some k) xs"
proof -
  have "p y \<longleftrightarrow> f y = Some k" if y: "y \<in> set xs" for y
  proof
    assume "f y = Some k"
    with e y obtain x where "x \<in> set xs" "p x" by blast
    with key_unique [OF d] p y \<open>f y = Some k\<close> show "p y" by metis
  qed (rule p)
  then show ?thesis using remove_first_matching_cong [of xs p] remove_first_key [OF d] by simp
qed

subsection \<open>Keys of the operations\<close>

lemma has_function_output_iff: "has_function_output call_id item \<longleftrightarrow> output_key item = Some (FunctionKind, call_id)"
  by (induction call_id item rule: has_function_output.induct) auto

lemma has_search_output_iff: "has_search_output call_id item \<longleftrightarrow> output_key item = Some (SearchKind, call_id)"
  by (induction call_id item rule: has_search_output.induct) auto

lemma has_custom_output_iff: "has_custom_output call_id item \<longleftrightarrow> output_key item = Some (CustomKind, call_id)"
  by (induction call_id item rule: has_custom_output.induct) auto

lemma has_output_funs:
  "has_function_output call_id = (\<lambda>i. output_key i = Some (FunctionKind, call_id))"
  "has_search_output call_id = (\<lambda>i. output_key i = Some (SearchKind, call_id))"
  "has_custom_output call_id = (\<lambda>i. output_key i = Some (CustomKind, call_id))"
  by (simp_all add: fun_eq_iff has_function_output_iff has_search_output_iff has_custom_output_iff)

lemmas has_output_iffs = has_function_output_iff has_search_output_iff has_custom_output_iff

lemma call_key_cases:
  "call_key item = Some (FunctionKind, k) \<longleftrightarrow> function_call_id item = Some k \<or> local_shell_call_id item = Some k"
  "call_key item = Some (SearchKind, k) \<longleftrightarrow> tool_search_call_id item = Some k"
  "call_key item = Some (CustomKind, k) \<longleftrightarrow> custom_tool_call_id item = Some k"
  by (cases item; auto)+

lemma call_is_no_output [simp]: "call_key item = Some k \<Longrightarrow> output_key item = None"
  by (cases item) auto

lemma output_is_no_call [simp]: "output_key item = Some k \<Longrightarrow> call_key item = None"
  by (cases item) auto

lemma answers_is_output: "answers item = Some k \<Longrightarrow> output_key item = Some k"
  by (cases item) (auto split: if_splits)

text \<open>The output added for an unanswered call.\<close>

fun aborted_output :: "call_kind \<times> ustr \<Rightarrow> 'j response_item" where
  "aborted_output (FunctionKind, call_id) = FunctionCallOutput call_id (payload_from_text (lit ''aborted''))"
| "aborted_output (SearchKind, call_id) = ToolSearchOutput (Some call_id) (lit ''completed'') (lit ''client'') []"
| "aborted_output (CustomKind, call_id) = CustomToolCallOutput call_id None (payload_from_text (lit ''aborted''))"

lemma aborted_output_keys [simp]:
  "output_key (aborted_output k) = Some k" "answers (aborted_output k) = Some k" "call_key (aborted_output k) = None"
  by (cases k rule: aborted_output.cases; simp add: lit_def; fail)+

definition unanswered :: "'j response_item list \<Rightarrow> 'j response_item \<Rightarrow> 'j response_item option" where
  "unanswered items item =
     (case call_key item of
        Some k \<Rightarrow> if k \<in> set (List.map_filter output_key items) then None else Some (aborted_output k)
      | None \<Rightarrow> None)"

text \<open>The calls whose missing output is an error.\<close>

fun must_have_output :: "'j response_item \<Rightarrow> bool" where
  "must_have_output (CustomToolCall _ _ _ _ _) = True"
| "must_have_output (LocalShellCall _ _ _ _) = True"
| "must_have_output _ = False"

lemma missing_output_eq:
  "missing_output debug items item =
     (if debug \<and> must_have_output item \<and> unanswered items item \<noteq> None then Err Panic else Ok (unanswered items item))"
  by (cases item)
     (auto simp: missing_output_def unanswered_def has_output_iffs in_keys list_ex_iff error_or_panic_def split: option.splits)

lemma output_has_match_iff:
  "output_has_match items item \<longleftrightarrow> (case answers item of None \<Rightarrow> True | Some k \<Rightarrow> k \<in> set (List.map_filter call_key items))"
  by (cases item) (auto simp: in_keys call_key_cases split: option.splits)

subsection \<open>Adding and removing outputs\<close>

fun missing_from :: "('a \<Rightarrow> 'a option) \<Rightarrow> nat \<Rightarrow> 'a list \<Rightarrow> (nat \<times> 'a) list" where
  "missing_from g n [] = []"
| "missing_from g n (x # xs) = (case g x of None \<Rightarrow> [] | Some y \<Rightarrow> [(n, y)]) @ missing_from g (Suc n) xs"

definition followed_by :: "('a \<Rightarrow> 'a option) \<Rightarrow> 'a list \<Rightarrow> 'a list" where
  "followed_by g xs = concat (map (\<lambda>x. x # (case g x of None \<Rightarrow> [] | Some y \<Rightarrow> [y])) xs)"

lemma insert_outputs_followed_by:
  "length pre = n \<Longrightarrow> insert_outputs (rev (missing_from g n xs) @ rest) (pre @ xs) = insert_outputs rest (pre @ followed_by g xs)"
proof (induction xs arbitrary: pre n rest)
  case (Cons x xs)
  show ?case
    using Cons.IH [of "pre @ [x]" "Suc n"] Cons.prems
    by (cases "g x") (simp_all add: followed_by_def vec_insert_def)
qed (simp add: followed_by_def)

lemma missing_outputs_loop_eq:
  "missing_outputs_loop debug items (List.enumerate n xs) missing =
     (if debug \<and> list_ex (\<lambda>x. must_have_output x \<and> unanswered items x \<noteq> None) xs then Err Panic
      else Ok (missing @ missing_from (unanswered items) n xs))"
  by (induction xs arbitrary: n missing) (auto simp: missing_output_eq split: option.splits)

lemma ensure_call_outputs_present_eq:
  "ensure_call_outputs_present debug items =
     (if debug \<and> list_ex (\<lambda>x. must_have_output x \<and> unanswered items x \<noteq> None) items then Err Panic
      else Ok (followed_by (unanswered items) items))"
  using insert_outputs_followed_by [of "[]" 0 "unanswered items" items "[]"]
  by (simp add: ensure_call_outputs_present_def missing_outputs_loop_eq)

lemma retain_loop_eq:
  "retain_loop debug items xs kept =
     (if debug \<and> \<not> list_all (output_has_match items) xs then Err Panic else Ok (kept @ filter (output_has_match items) xs))"
  by (induction xs arbitrary: kept) (auto simp: error_or_panic_def)

lemma remove_orphan_outputs_eq:
  "remove_orphan_outputs debug items =
     (if debug \<and> \<not> list_all (output_has_match items) items then Err Panic else Ok (filter (output_has_match items) items))"
  by (simp add: remove_orphan_outputs_def retain_loop_eq)

subsection \<open>Keys after adding and removing\<close>

lemma followed_by_none: "(\<And>x. x \<in> set xs \<Longrightarrow> g x = None) \<Longrightarrow> followed_by g xs = xs"
  by (induction xs) (simp_all add: followed_by_def)

lemma set_followed_by: "set (followed_by g xs) = set xs \<union> {y. \<exists>x\<in>set xs. g x = Some y}"
  by (auto simp: followed_by_def split: option.splits)

lemma unanswered_SomeD: "unanswered items x = Some y \<Longrightarrow> \<exists>k. call_key x = Some k \<and> k \<notin> set (List.map_filter output_key items) \<and> y = aborted_output k"
  by (auto simp: unanswered_def split: option.splits if_splits)

lemma call_keys_followed_by:
  "set (List.map_filter call_key (followed_by (unanswered items) items)) = set (List.map_filter call_key items)"
  by (auto simp: in_keys set_followed_by dest!: unanswered_SomeD)

lemma calls_answered_followed_by: "calls_answered (followed_by (unanswered items) items)"
proof -
  have "k \<in> set (List.map_filter output_key (followed_by (unanswered items) items))" if "x \<in> set items" "call_key x = Some k" for x k
  proof (cases "k \<in> set (List.map_filter output_key items)")
    case True
    then show ?thesis by (auto simp: in_keys set_followed_by)
  next
    case False
    then have "unanswered items x = Some (aborted_output k)" using that by (simp add: unanswered_def)
    with that(1) have "aborted_output k \<in> set (followed_by (unanswered items) items)" by (auto simp: set_followed_by)
    then show ?thesis unfolding in_keys by (rule bexI [rotated]) simp
  qed
  then show ?thesis unfolding calls_answered_def call_keys_followed_by by (auto simp: in_keys [of _ call_key])
qed

lemma call_keys_retained: "set (List.map_filter call_key (filter (output_has_match items) xs)) = set (List.map_filter call_key xs)"
proof -
  have "output_has_match items x" if "call_key x = Some k" for x k
    using that answers_is_output [of x] by (auto simp: output_has_match_iff split: option.splits)
  then show ?thesis unfolding set_eq_iff in_keys set_filter by blast
qed

lemma calls_answered_retained:
  assumes "calls_answered items"
  shows "calls_answered (filter (output_has_match items) items)"
proof -
  have "k \<in> set (List.map_filter output_key (filter (output_has_match items) items))"
    if "k \<in> set (List.map_filter call_key items)" for k
  proof -
    have "k \<in> set (List.map_filter output_key items)" using assms that by (auto simp: calls_answered_def)
    then obtain y where y: "y \<in> set items" "output_key y = Some k" unfolding in_keys by blast
    then have "output_has_match items y" using that answers_is_output [of y]
      by (auto simp: output_has_match_iff split: option.splits)
    with y show ?thesis by (auto simp: in_keys)
  qed
  then show ?thesis unfolding calls_answered_def call_keys_retained by auto
qed

lemma outputs_called_retained: "outputs_called (filter (output_has_match items) items)"
  unfolding outputs_called_def call_keys_retained by (auto simp: in_keys [of _ answers] output_has_match_iff)

subsection \<open>Images\<close>

fun has_image :: "'j response_item \<Rightarrow> bool" where
  "has_image (Message _ _ content _) = list_ex (\<lambda>c. case c of InputImage _ _ \<Rightarrow> True | _ \<Rightarrow> False) content"
| "has_image (FunctionCallOutput _ output) = (case body output of BodyContentItems items \<Rightarrow> list_ex is_image_item items | BodyText _ \<Rightarrow> False)"
| "has_image (CustomToolCallOutput _ _ output) = (case body output of BodyContentItems items \<Rightarrow> list_ex is_image_item items | BodyText _ \<Rightarrow> False)"
| "has_image (ImageGenerationCall _ _ _ result) = (result \<noteq> [])"
| "has_image _ = False"

lemma strip_output_content_simps [simp]:
  "strip_output_content p (strip_output_content p c) = strip_output_content p c" "\<not> is_image_item (strip_output_content p c)"
  by (cases c; simp add: strip_output_content_def; fail)+

lemma strip_payload_idem [simp]: "strip_payload (strip_payload output) = strip_payload output"
  by (simp add: strip_payload_def split: function_call_output_body.splits)

lemma strip_item_images_simps [simp]:
  "call_key (strip_item_images item) = call_key item" "output_key (strip_item_images item) = output_key item"
  "answers (strip_item_images item) = answers item" "must_have_output (strip_item_images item) = must_have_output item"
  by (cases item; simp; fail)+

lemma strip_item_images_idem [simp]: "strip_item_images (strip_item_images item) = strip_item_images item"
  by (cases item) (auto simp: strip_content_def split: content_item.splits)

lemma strip_item_images_no_image: "\<not> has_image (strip_item_images item)"
  by (cases item)
     (auto simp: strip_content_def strip_payload_def list_ex_iff split: content_item.splits function_call_output_body.splits)

lemma strip_keys [simp]:
  "List.map_filter call_key (strip_images_when_unsupported ms items) = List.map_filter call_key items"
  "List.map_filter output_key (strip_images_when_unsupported ms items) = List.map_filter output_key items"
  "List.map_filter answers (strip_images_when_unsupported ms items) = List.map_filter answers items"
  by (simp_all add: strip_images_when_unsupported_def List.map_filter_def filter_map o_def)

lemma strip_idem [simp]:
  "strip_images_when_unsupported ms (strip_images_when_unsupported ms items) = strip_images_when_unsupported ms items"
  by (simp add: strip_images_when_unsupported_def)

lemma strip_filter:
  "filter (\<lambda>i. output_key i = None) (strip_images_when_unsupported ms items)
     = strip_images_when_unsupported ms (filter (\<lambda>i. output_key i = None) items)"
  by (simp add: strip_images_when_unsupported_def filter_map o_def)

subsection \<open>Normalisation\<close>

text \<open>A normalised list stays as it is, also with debug assertions.\<close>

lemma normalize_items_fixed:
  assumes "calls_answered items" "outputs_called items"
  shows "normalize_items debug ms items = Ok (strip_images_when_unsupported ms items)"
proof -
  have u: "unanswered items x = None" if "x \<in> set items" for x
  proof (cases "call_key x")
    case (Some k)
    then have "k \<in> set (List.map_filter output_key items)"
      using assms(1) that unfolding calls_answered_def by (meson in_keys subsetD)
    with Some show ?thesis by (simp add: unanswered_def)
  qed (simp add: unanswered_def)
  then have "followed_by (unanswered items) items = items" by (simp add: followed_by_none)
  moreover have "output_has_match items x" if "x \<in> set items" for x
  proof (cases "answers x")
    case (Some k)
    then have "k \<in> set (List.map_filter call_key items)"
      using assms(2) that unfolding outputs_called_def by (meson in_keys subsetD)
    with Some show ?thesis by (simp add: output_has_match_iff)
  qed (simp add: output_has_match_iff)
  ultimately show ?thesis using u
    by (auto simp: normalize_items_def ensure_call_outputs_present_eq remove_orphan_outputs_eq list_ex_iff list_all_iff filter_id_conv)
qed

lemma normalize_items_release:
  "\<exists>out. normalize_items False ms items = Ok out \<and> calls_answered out \<and> outputs_called out
     \<and> filter (\<lambda>i. output_key i = None) out = strip_images_when_unsupported ms (filter (\<lambda>i. output_key i = None) items)
     \<and> (ModalityImage \<in> set ms \<or> list_all (\<lambda>i. \<not> has_image i) out)
     \<and> normalize_items debug ms out = Ok out"
proof -
  define xs where "xs = followed_by (unanswered items) items"
  define ys where "ys = filter (output_has_match xs) xs"
  have n: "normalize_items False ms items = Ok (strip_images_when_unsupported ms ys)"
    by (simp add: normalize_items_def ensure_call_outputs_present_eq remove_orphan_outputs_eq xs_def ys_def)
  have p: "calls_answered ys" "outputs_called ys"
    unfolding ys_def by (simp_all add: calls_answered_retained outputs_called_retained calls_answered_followed_by xs_def)
  then have q: "calls_answered (strip_images_when_unsupported ms ys)" "outputs_called (strip_images_when_unsupported ms ys)"
    by (simp_all add: calls_answered_def outputs_called_def)
  have "filter (\<lambda>i. output_key i = None) xs = filter (\<lambda>i. output_key i = None) items"
  proof -
    have "filter (\<lambda>i. output_key i = None) (followed_by (unanswered its) zs) = filter (\<lambda>i. output_key i = None) zs"
      for its zs :: "'a response_item list"
      by (induction zs) (auto simp: followed_by_def dest!: unanswered_SomeD split: option.splits)
    then show ?thesis by (simp add: xs_def)
  qed
  moreover have "output_has_match xs i" if "output_key i = None" for i
    using that answers_is_output [of i] by (auto simp: output_has_match_iff split: option.splits)
  then have "filter (\<lambda>i. output_key i = None) ys = filter (\<lambda>i. output_key i = None) xs"
    unfolding ys_def filter_filter by (intro filter_cong) auto
  moreover have "ModalityImage \<in> set ms \<or> list_all (\<lambda>i. \<not> has_image i) (strip_images_when_unsupported ms ys)"
    by (simp add: strip_images_when_unsupported_def list_all_iff strip_item_images_no_image)
  ultimately show ?thesis using n q normalize_items_fixed [OF q, of debug ms] by (simp add: strip_filter)
qed

text \<open>With debug assertions the normalisation reports broken pairs by a panic.\<close>

lemma normalize_items_debug:
  "normalize_items True ms items = Err Panic \<longleftrightarrow>
     (\<exists>x\<in>set items. must_have_output x \<and> unanswered items x \<noteq> None
        \<or> (\<exists>k. answers x = Some k \<and> k \<notin> set (List.map_filter call_key items)))"
proof -
  have "list_all (output_has_match (followed_by (unanswered items) items)) (followed_by (unanswered items) items)
     \<longleftrightarrow> (\<forall>x\<in>set items. \<forall>k. answers x = Some k \<longrightarrow> k \<in> set (List.map_filter call_key items))" (is "?l \<longleftrightarrow> ?r")
    unfolding list_all_iff set_followed_by output_has_match_iff call_keys_followed_by
    by (auto dest!: unanswered_SomeD simp: in_keys [of _ call_key] split: option.splits)
  then show ?thesis
    by (auto simp: normalize_items_def ensure_call_outputs_present_eq remove_orphan_outputs_eq list_ex_iff)
qed

subsection \<open>Removing an item with its counterpart\<close>

lemma remove_function_call:
  assumes "distinct (List.map_filter call_key items)"
  shows "(if list_ex (\<lambda>i. function_call_id i = Some k) items
      then remove_first_matching (\<lambda>i. function_call_id i = Some k) items
      else remove_first_matching (\<lambda>i. local_shell_call_id i = Some k) items)
    = filter (\<lambda>i. call_key i \<noteq> Some (FunctionKind, k)) items"
proof (cases "list_ex (\<lambda>i. function_call_id i = Some k) items")
  case True
  with remove_first_unique [OF assms, of "\<lambda>i. function_call_id i = Some k" "(FunctionKind, k)"] show ?thesis
    by (simp add: call_key_cases list_ex_iff)
next
  case False
  with remove_first_unique [OF assms, of "\<lambda>i. local_shell_call_id i = Some k" "(FunctionKind, k)"] show ?thesis
    by (auto simp: call_key_cases list_ex_iff)
qed

lemma remove_corresponding_for_unique:
  assumes "unique_ids items"
  shows "call_key item = Some k \<Longrightarrow> remove_corresponding_for items item = filter (\<lambda>i. output_key i \<noteq> Some k) items"
    and "output_key item = Some k \<Longrightarrow> remove_corresponding_for items item = filter (\<lambda>i. call_key i \<noteq> Some k) items"
    and "call_key item = None \<Longrightarrow> output_key item = None \<Longrightarrow> remove_corresponding_for items item = items"
proof -
  have d: "distinct (List.map_filter output_key items)" "distinct (List.map_filter call_key items)"
    using assms by (simp_all add: unique_ids_def)
  show "remove_corresponding_for items item = filter (\<lambda>i. output_key i \<noteq> Some k) items" if "call_key item = Some k"
    using that remove_first_key [OF d(1), of k]
    by (cases item) (auto simp: remove_corresponding_for_def has_output_funs split: option.splits)
  show "remove_corresponding_for items item = filter (\<lambda>i. call_key i \<noteq> Some k) items" if "output_key item = Some k"
    using that remove_function_call [OF d(2), of "snd k"] remove_first_key [OF d(2), of k]
    by (cases item) (auto simp: remove_corresponding_for_def call_key_cases split: option.splits)
  show "remove_corresponding_for items item = items" if "call_key item = None" "output_key item = None"
    using that by (cases item) (auto simp: remove_corresponding_for_def split: option.splits)
qed

lemma key_set_filter:
  "set (List.map_filter f (filter (\<lambda>i. g i \<noteq> Some k) xs)) = set (List.map_filter f xs)"
  if "\<And>i k. g i = Some k \<Longrightarrow> f i = None"
  using that unfolding set_eq_iff in_keys set_filter by fastforce

lemma key_set_filter_same:
  "set (List.map_filter f (filter (\<lambda>i. f i \<noteq> Some k) xs)) = set (List.map_filter f xs) - {k}"
  unfolding set_eq_iff in_keys set_filter Diff_iff by fastforce

lemma paired_remove:
  assumes p: "paired (x # xs)"
  shows "paired (remove_corresponding_for xs x)"
proof -
  have u: "unique_ids xs" using p by (auto simp: paired_def unique_ids_def split: option.splits)
  have sub: "set (List.map_filter answers ys) \<subseteq> set (List.map_filter output_key ys)" for ys :: "'a response_item list"
    unfolding subset_iff in_keys using answers_is_output by blast
  consider k where "call_key x = Some k" | k where "output_key x = Some k" | "call_key x = None" "output_key x = None" by fastforce
  then show ?thesis
  proof cases
    case 1
    let ?ys = "filter (\<lambda>i. output_key i \<noteq> Some k) xs"
    have a: "answers x = None" "output_key x = None" using 1 answers_is_output [of x] by (cases "answers x"; simp)+
    have "set (List.map_filter call_key ?ys) = set (List.map_filter call_key xs)" by (rule key_set_filter) simp
    moreover have "set (List.map_filter output_key ?ys) = set (List.map_filter output_key xs) - {k}" by (rule key_set_filter_same)
    moreover have "set (List.map_filter answers ?ys) \<subseteq> set (List.map_filter answers xs)" unfolding subset_iff in_keys by auto
    moreover note sub [of ?ys]
    moreover have "insert k (set (List.map_filter call_key xs)) \<subseteq> set (List.map_filter output_key xs)"
        "set (List.map_filter answers xs) \<subseteq> insert k (set (List.map_filter call_key xs))"
        "k \<notin> set (List.map_filter call_key xs)"
      using p 1 a by (simp_all add: paired_def calls_answered_def outputs_called_def unique_ids_def)
    ultimately have "calls_answered ?ys \<and> outputs_called ?ys"
      unfolding calls_answered_def outputs_called_def by blast
    moreover have "unique_ids ?ys" using u by (simp add: unique_ids_def distinct_keys_filter)
    ultimately show ?thesis using remove_corresponding_for_unique(1) [OF u 1] by (simp add: paired_def)
  next
    case 2
    let ?ys = "filter (\<lambda>i. call_key i \<noteq> Some k) xs"
    have a: "call_key x = None" using 2 by simp
    have "set (List.map_filter call_key ?ys) = set (List.map_filter call_key xs) - {k}" by (rule key_set_filter_same)
    moreover have "set (List.map_filter output_key ?ys) = set (List.map_filter output_key xs)" by (rule key_set_filter) simp
    moreover have "set (List.map_filter answers ?ys) \<subseteq> set (List.map_filter answers xs)" unfolding subset_iff in_keys by auto
    moreover note sub [of ?ys]
    moreover have "set (List.map_filter call_key xs) \<subseteq> insert k (set (List.map_filter output_key xs))"
        "set (List.map_filter answers xs) \<subseteq> set (List.map_filter call_key xs)"
        "k \<notin> set (List.map_filter output_key xs)"
      using p 2 a by (auto simp: paired_def calls_answered_def outputs_called_def unique_ids_def split: option.splits)
    ultimately have "calls_answered ?ys \<and> outputs_called ?ys"
      unfolding calls_answered_def outputs_called_def by blast
    moreover have "unique_ids ?ys" using u by (simp add: unique_ids_def distinct_keys_filter)
    ultimately show ?thesis using remove_corresponding_for_unique(2) [OF u 2] by (simp add: paired_def)
  next
    case 3
    have "answers x = None" using 3 answers_is_output [of x] by (cases "answers x") auto
    with 3 p show ?thesis
      using remove_corresponding_for_unique(3) [OF u 3]
      by (auto simp: paired_def calls_answered_def outputs_called_def unique_ids_def)
  qed
qed

lemma keys_rotate:
  "set (List.map_filter f (xs @ [x])) = set (List.map_filter f (x # xs))"
  "distinct (List.map_filter f (xs @ [x])) = distinct (List.map_filter f (x # xs))"
  by (cases "f x"; auto)+

lemma paired_rotate: "paired (xs @ [x]) \<longleftrightarrow> paired (x # xs)"
  unfolding paired_def calls_answered_def outputs_called_def unique_ids_def keys_rotate ..

end
