(* ===== verification/Context_History.thy ===== *)
theory Context_History
  imports Context_Normalize "HOL-Library.Log_Nat"
begin

text \<open>
  The conversation history of a session (\<^verbatim>\<open>ContextManager\<close> of \<^verbatim>\<open>src/core/src/context_manager/history.rs\<close>) with its
  token accounting (\<^verbatim>\<open>TokenUsage\<close> and \<^verbatim>\<open>TokenUsageInfo\<close> of \<^verbatim>\<open>src/protocol/src/protocol.rs\<close>).  The settings snapshot
  that the history only stores is the type parameter \<open>'c\<close>.  The cache of image estimates is left out: it returns
  what the estimate returns, as long as no two image addresses have the same digest.
\<close>

section \<open>Machine integers\<close>

definition i64_saturate :: "int \<Rightarrow> int" where
  "i64_saturate n = max (- (2 ^ 63)) (min (2 ^ 63 - 1) n)"

definition i64_saturating_add :: "int \<Rightarrow> int \<Rightarrow> int" where
  "i64_saturating_add a b = i64_saturate (a + b)"

definition i64_wrap :: "int \<Rightarrow> int" where
  "i64_wrap n = (n + 2 ^ 63) mod 2 ^ 64 - 2 ^ 63"

definition i64_checked :: "bool \<Rightarrow> int \<Rightarrow> (unit fault, int) result" where
  "i64_checked checks n =
     (if - (2 ^ 63) \<le> n \<and> n < 2 ^ 63 then Ok n else if checks then Err Panic else Ok (i64_wrap n))"

definition i64_try_from :: "nat \<Rightarrow> int" where
  "i64_try_from n = min (int n) (2 ^ 63 - 1)"

definition u64_saturating_add :: "nat \<Rightarrow> nat \<Rightarrow> nat" where
  "u64_saturating_add a b = min (2 ^ 64 - 1) (a + b)"

section \<open>Token usage\<close>

record token_usage =
  input_tokens :: int
  cached_input_tokens :: int
  output_tokens :: int
  reasoning_output_tokens :: int
  total_tokens :: int

definition token_usage_default :: token_usage where
  "token_usage_default = \<lparr>input_tokens = 0, cached_input_tokens = 0, output_tokens = 0, reasoning_output_tokens = 0, total_tokens = 0\<rparr>"

definition usage_is_zero :: "token_usage \<Rightarrow> bool" where
  "usage_is_zero u = (total_tokens u = 0)"

definition cached_input :: "token_usage \<Rightarrow> int" where
  "cached_input u = max (cached_input_tokens u) 0"

definition non_cached_input :: "bool \<Rightarrow> token_usage \<Rightarrow> (unit fault, int) result" where
  "non_cached_input checks u =
     (case i64_checked checks (input_tokens u - cached_input u) of
        Err e \<Rightarrow> Err e
      | Ok n \<Rightarrow> Ok (max n 0))"

definition blended_total :: "bool \<Rightarrow> token_usage \<Rightarrow> (unit fault, int) result" where
  "blended_total checks u =
     (case non_cached_input checks u of
        Err e \<Rightarrow> Err e
      | Ok n \<Rightarrow>
          (case i64_checked checks (n + max (output_tokens u) 0) of
             Err e \<Rightarrow> Err e
           | Ok n \<Rightarrow> Ok (max n 0)))"

definition add_assign :: "bool \<Rightarrow> token_usage \<Rightarrow> token_usage \<Rightarrow> (unit fault, token_usage) result" where
  "add_assign checks u v =
     (case i64_checked checks (input_tokens u + input_tokens v) of Err e \<Rightarrow> Err e | Ok i \<Rightarrow>
     (case i64_checked checks (cached_input_tokens u + cached_input_tokens v) of Err e \<Rightarrow> Err e | Ok c \<Rightarrow>
     (case i64_checked checks (output_tokens u + output_tokens v) of Err e \<Rightarrow> Err e | Ok out \<Rightarrow>
     (case i64_checked checks (reasoning_output_tokens u + reasoning_output_tokens v) of Err e \<Rightarrow> Err e | Ok r \<Rightarrow>
     (case i64_checked checks (total_tokens u + total_tokens v) of Err e \<Rightarrow> Err e | Ok t \<Rightarrow>
        Ok \<lparr>input_tokens = i, cached_input_tokens = c, output_tokens = out, reasoning_output_tokens = r, total_tokens = t\<rparr>)))))"

record token_usage_info =
  total_token_usage :: token_usage
  last_token_usage :: token_usage
  model_context_window :: "int option"

definition append_last_usage :: "bool \<Rightarrow> token_usage_info \<Rightarrow> token_usage \<Rightarrow> (unit fault, token_usage_info) result" where
  "append_last_usage checks info latest =
     (case add_assign checks (total_token_usage info) latest of
        Err e \<Rightarrow> Err e
      | Ok new_total \<Rightarrow> Ok (info\<lparr>total_token_usage := new_total, last_token_usage := latest\<rparr>))"

definition new_or_append ::
  "bool \<Rightarrow> token_usage_info option \<Rightarrow> token_usage option \<Rightarrow> int option \<Rightarrow> (unit fault, token_usage_info option) result" where
  "new_or_append checks info latest window =
     (if info = None \<and> latest = None then Ok None
      else
        let info = (case info of
              Some info \<Rightarrow> info
            | None \<Rightarrow> \<lparr>total_token_usage = token_usage_default, last_token_usage = token_usage_default, model_context_window = window\<rparr>)
        in case (case latest of Some latest \<Rightarrow> append_last_usage checks info latest | None \<Rightarrow> Ok info) of
             Err e \<Rightarrow> Err e
           | Ok info \<Rightarrow>
               Ok (Some (case window of Some w \<Rightarrow> info\<lparr>model_context_window := Some w\<rparr> | None \<Rightarrow> info)))"

definition fill_to_context_window :: "bool \<Rightarrow> token_usage_info \<Rightarrow> int \<Rightarrow> (unit fault, token_usage_info) result" where
  "fill_to_context_window checks info context_window =
     (case i64_checked checks (context_window - total_tokens (total_token_usage info)) of
        Err e \<Rightarrow> Err e
      | Ok difference \<Rightarrow>
          Ok (info\<lparr>model_context_window := Some context_window,
                   total_token_usage := token_usage_default\<lparr>total_tokens := context_window\<rparr>,
                   last_token_usage := token_usage_default\<lparr>total_tokens := max difference 0\<rparr>\<rparr>))"

definition full_context_window :: "bool \<Rightarrow> int \<Rightarrow> (unit fault, token_usage_info) result" where
  "full_context_window checks context_window =
     fill_to_context_window checks
       \<lparr>total_token_usage = token_usage_default, last_token_usage = token_usage_default, model_context_window = Some context_window\<rparr>
       context_window"

section \<open>Size estimates\<close>

definition estimate_reasoning_length :: "nat \<Rightarrow> nat" where
  "estimate_reasoning_length encoded_len = min (2 ^ 64 - 1) (encoded_len * 3) div 4 - 650"

definition RESIZED_IMAGE_BYTES_ESTIMATE :: int where
  "RESIZED_IMAGE_BYTES_ESTIMATE = 7373"

definition ORIGINAL_IMAGE_PATCH_SIZE :: int where
  "ORIGINAL_IMAGE_PATCH_SIZE = 32"

definition ORIGINAL_IMAGE_MAX_PATCHES :: nat where
  "ORIGINAL_IMAGE_MAX_PATCHES = 10000"

definition parse_base64_image_data_url :: "ustr \<Rightarrow> ustr option" where
  "parse_base64_image_data_url url =
     (if \<not> is_some_and (get_to url 5) (\<lambda>p. eq_ignore_ascii_case p (lit ''data:'')) then None
      else case split_once 44 url of
             None \<Rightarrow> None
           | Some (metadata, payload) \<Rightarrow>
               (let parts = split_char 59 (drop 5 metadata); mime_type = hd parts
                in if \<not> is_some_and (get_to mime_type 6) (\<lambda>p. eq_ignore_ascii_case p (lit ''image/'')) then None
                   else if \<not> list_ex (\<lambda>part. eq_ignore_ascii_case part (lit ''base64'')) (tl parts) then None
                   else Some payload))"

text \<open>The conversion of the patch count, at most ten thousand, cannot overflow.\<close>

definition estimate_original_image_bytes :: "'j context_env \<Rightarrow> ustr \<Rightarrow> int option" where
  "estimate_original_image_bytes E image_url =
     (case parse_base64_image_data_url image_url of
        None \<Rightarrow> None
      | Some payload \<Rightarrow>
          (case decode_image_size E payload of
             None \<Rightarrow> None
           | Some (width, height) \<Rightarrow>
               (let patches_wide = i64_saturating_add (int width) (ORIGINAL_IMAGE_PATCH_SIZE - 1) div ORIGINAL_IMAGE_PATCH_SIZE;
                    patches_high = i64_saturating_add (int height) (ORIGINAL_IMAGE_PATCH_SIZE - 1) div ORIGINAL_IMAGE_PATCH_SIZE;
                    patch_count = min (nat (i64_saturate (patches_wide * patches_high))) ORIGINAL_IMAGE_MAX_PATCHES
                in case approx_bytes_for_tokens True patch_count of
                     Ok bytes \<Rightarrow> Some (i64_try_from bytes)
                   | Err _ \<Rightarrow> None)))"

fun item_images :: "'j response_item \<Rightarrow> (ustr \<times> image_detail option) list" where
  "item_images (Message _ _ content _) =
     List.map_filter (\<lambda>c. case c of InputImage url detail \<Rightarrow> Some (url, detail) | _ \<Rightarrow> None) content"
| "item_images (FunctionCallOutput _ output) =
     (case body output of
        BodyContentItems items \<Rightarrow> List.map_filter (\<lambda>c. case c of OutputItemImage url detail \<Rightarrow> Some (url, detail) | _ \<Rightarrow> None) items
      | BodyText _ \<Rightarrow> [])"
| "item_images (CustomToolCallOutput _ _ output) =
     (case body output of
        BodyContentItems items \<Rightarrow> List.map_filter (\<lambda>c. case c of OutputItemImage url detail \<Rightarrow> Some (url, detail) | _ \<Rightarrow> None) items
      | BodyText _ \<Rightarrow> [])"
| "item_images _ = []"

definition accumulate_image :: "'j context_env \<Rightarrow> int \<times> int \<Rightarrow> ustr \<times> image_detail option \<Rightarrow> int \<times> int" where
  "accumulate_image E acc img =
     (case (acc, img) of
        ((payload_bytes, replacement_bytes), (image_url, detail)) \<Rightarrow>
          (case parse_base64_image_data_url image_url of
             None \<Rightarrow> (payload_bytes, replacement_bytes)
           | Some payload \<Rightarrow>
               (i64_saturating_add payload_bytes (i64_try_from (str_len payload)),
                i64_saturating_add replacement_bytes
                  (if detail = Some Original
                   then case estimate_original_image_bytes E image_url of Some b \<Rightarrow> b | None \<Rightarrow> RESIZED_IMAGE_BYTES_ESTIMATE
                   else RESIZED_IMAGE_BYTES_ESTIMATE))))"

definition image_data_url_estimate_adjustment :: "'j context_env \<Rightarrow> 'j response_item \<Rightarrow> int \<times> int" where
  "image_data_url_estimate_adjustment E item = foldl (accumulate_image E) (0, 0) (item_images item)"

definition estimate_visible_bytes_json :: "'j context_env \<Rightarrow> 'j response_item \<Rightarrow> int" where
  "estimate_visible_bytes_json E item =
     (let raw = (case item_to_json E item of Some serialized \<Rightarrow> i64_try_from (str_len serialized) | None \<Rightarrow> 0);
          (payload_bytes, replacement_bytes) = image_data_url_estimate_adjustment E item
      in if payload_bytes = 0 \<or> replacement_bytes = 0 then raw
         else i64_saturating_add (i64_saturate (raw - payload_bytes)) replacement_bytes)"

definition estimate_response_item_model_visible_bytes :: "'j context_env \<Rightarrow> 'j response_item \<Rightarrow> int" where
  "estimate_response_item_model_visible_bytes E item =
     (case item of
        Reasoning _ _ _ (Some content) _ \<Rightarrow> i64_try_from (estimate_reasoning_length (str_len content))
      | Compaction content \<Rightarrow> i64_try_from (estimate_reasoning_length (str_len content))
      | _ \<Rightarrow> estimate_visible_bytes_json E item)"

definition estimate_item_token_count :: "'j context_env \<Rightarrow> 'j response_item \<Rightarrow> int" where
  "estimate_item_token_count E item =
     approx_tokens_from_byte_count_i64 (estimate_response_item_model_visible_bytes E item)"

lemma estimate_original_image_bytes_total:
  "parse_base64_image_data_url url = Some payload \<Longrightarrow> decode_image_size E payload = Some size_pair \<Longrightarrow>
     \<exists>b. estimate_original_image_bytes E url = Some b \<and> b \<le> 38000"
  by (cases size_pair)
     (auto simp: estimate_original_image_bytes_def approx_bytes_for_tokens_def usize_mul_def usize_sub_def
        ORIGINAL_IMAGE_MAX_PATCHES_def i64_try_from_def Let_def min_def)

lemma resized_image_tokens: "approx_tokens_from_byte_count_i64 RESIZED_IMAGE_BYTES_ESTIMATE = 2303"
  by (simp add: approx_tokens_from_byte_count_i64_def approx_tokens_from_byte_count_def RESIZED_IMAGE_BYTES_ESTIMATE_def)

definition saturating_sum :: "('a \<Rightarrow> int) \<Rightarrow> 'a list \<Rightarrow> int" where
  "saturating_sum f xs = foldl (\<lambda>acc x. i64_saturating_add acc (f x)) 0 xs"

section \<open>The history\<close>

record ('j, 'c) context_manager =
  history_items :: "'j response_item list"
  history_version :: nat
  token_info :: "token_usage_info option"
  reference_context_item :: "'c option"

definition context_manager_new :: "('j, 'c) context_manager" where
  "context_manager_new =
     \<lparr>history_items = [], history_version = 0,
      token_info = (case new_or_append True None None None of Ok info \<Rightarrow> info | Err _ \<Rightarrow> None),
      reference_context_item = None\<rparr>"

definition set_token_info :: "token_usage_info option \<Rightarrow> ('j, 'c) context_manager \<Rightarrow> ('j, 'c) context_manager" where
  "set_token_info info h = h\<lparr>token_info := info\<rparr>"

definition set_reference_context_item :: "'c option \<Rightarrow> ('j, 'c) context_manager \<Rightarrow> ('j, 'c) context_manager" where
  "set_reference_context_item item h = h\<lparr>reference_context_item := item\<rparr>"

definition set_token_usage_full :: "bool \<Rightarrow> int \<Rightarrow> ('j, 'c) context_manager \<Rightarrow> (unit fault, ('j, 'c) context_manager) result" where
  "set_token_usage_full checks context_window h =
     (case (case token_info h of
              Some info \<Rightarrow> fill_to_context_window checks info context_window
            | None \<Rightarrow> full_context_window checks context_window) of
        Err e \<Rightarrow> Err e
      | Ok info \<Rightarrow> Ok (h\<lparr>token_info := Some info\<rparr>))"

definition update_token_info ::
  "bool \<Rightarrow> token_usage \<Rightarrow> int option \<Rightarrow> ('j, 'c) context_manager \<Rightarrow> (unit fault, ('j, 'c) context_manager) result" where
  "update_token_info checks usage window h =
     (case new_or_append checks (token_info h) (Some usage) window of
        Err e \<Rightarrow> Err e
      | Ok info \<Rightarrow> Ok (h\<lparr>token_info := info\<rparr>))"

subsection \<open>Recording\<close>

fun is_api_message :: "'j response_item \<Rightarrow> bool" where
  "is_api_message (Message _ role _ _) = (role \<noteq> lit ''system'')"
| "is_api_message OtherItem = False"
| "is_api_message _ = True"

text \<open>
  \<^verbatim>\<open>policy * 1.2\<close>: the product of two \<^verbatim>\<open>f64\<close> values, rounded up.  \<open>round_f64\<close> rounds a natural number to the
  53 significant bits of the format, ties to even; 1.2 is stored as the fraction 5404319552844595 / \<open>2 ^ 52\<close>.
\<close>

definition round_f64 :: "nat \<Rightarrow> nat" where
  "round_f64 n =
     (let e = floorlog 2 n - 53; q = n div 2 ^ e; r = n mod 2 ^ e
      in if 2 * r > 2 ^ e \<or> (2 * r = 2 ^ e \<and> odd q) then Suc q * 2 ^ e else q * 2 ^ e)"

definition scale_budget :: "nat \<Rightarrow> nat" where
  "scale_budget n = min (2 ^ 64 - 1) ((round_f64 (round_f64 n * 5404319552844595) + (2 ^ 52 - 1)) div 2 ^ 52)"

definition policy_with_serialization_budget :: "truncation_policy \<Rightarrow> truncation_policy" where
  "policy_with_serialization_budget policy =
     (case policy of Bytes bytes \<Rightarrow> Bytes (scale_budget bytes) | Tokens tokens \<Rightarrow> Tokens (scale_budget tokens))"

definition truncate_function_output_payload ::
  "bool \<Rightarrow> function_call_output_payload \<Rightarrow> truncation_policy \<Rightarrow> (unit fault, function_call_output_payload) result" where
  "truncate_function_output_payload checks output policy =
     (case body output of
        BodyText content \<Rightarrow>
          (case truncate_text checks content policy of
             Err e \<Rightarrow> Err e
           | Ok content \<Rightarrow> Ok \<lparr>body = BodyText content, success = success output\<rparr>)
      | BodyContentItems items \<Rightarrow>
          (case truncate_function_output_items_with_policy checks items policy of
             Err e \<Rightarrow> Err e
           | Ok items \<Rightarrow> Ok \<lparr>body = BodyContentItems items, success = success output\<rparr>))"

definition process_item :: "bool \<Rightarrow> 'j response_item \<Rightarrow> truncation_policy \<Rightarrow> (unit fault, 'j response_item) result" where
  "process_item checks item policy =
     (case item of
        FunctionCallOutput call_id output \<Rightarrow>
          (case truncate_function_output_payload checks output (policy_with_serialization_budget policy) of
             Err e \<Rightarrow> Err e
           | Ok output \<Rightarrow> Ok (FunctionCallOutput call_id output))
      | CustomToolCallOutput call_id name output \<Rightarrow>
          (case truncate_function_output_payload checks output (policy_with_serialization_budget policy) of
             Err e \<Rightarrow> Err e
           | Ok output \<Rightarrow> Ok (CustomToolCallOutput call_id name output))
      | _ \<Rightarrow> Ok item)"

fun record_items ::
  "bool \<Rightarrow> truncation_policy \<Rightarrow> 'j response_item list \<Rightarrow> ('j, 'c) context_manager \<Rightarrow> (unit fault, ('j, 'c) context_manager) result" where
  "record_items checks policy [] h = Ok h"
| "record_items checks policy (item # items) h =
     (if \<not> is_api_message item then record_items checks policy items h
      else case process_item checks item policy of
             Err e \<Rightarrow> Err e
           | Ok processed \<Rightarrow> record_items checks policy items (h\<lparr>history_items := history_items h @ [processed]\<rparr>))"

subsection \<open>Rewriting\<close>

definition normalize_history ::
  "bool \<Rightarrow> input_modality list \<Rightarrow> ('j, 'c) context_manager \<Rightarrow> (unit fault, ('j, 'c) context_manager) result" where
  "normalize_history debug input_modalities h =
     (case normalize_items debug input_modalities (history_items h) of
        Err e \<Rightarrow> Err e
      | Ok items \<Rightarrow> Ok (h\<lparr>history_items := items\<rparr>))"

definition for_prompt :: "bool \<Rightarrow> input_modality list \<Rightarrow> ('j, 'c) context_manager \<Rightarrow> (unit fault, 'j response_item list) result" where
  "for_prompt debug input_modalities h =
     (case normalize_history debug input_modalities h of
        Err e \<Rightarrow> Err e
      | Ok h \<Rightarrow> Ok (history_items h))"

definition remove_first_item :: "('j, 'c) context_manager \<Rightarrow> ('j, 'c) context_manager" where
  "remove_first_item h =
     (case history_items h of
        [] \<Rightarrow> h
      | removed # rest \<Rightarrow> h\<lparr>history_items := remove_corresponding_for rest removed\<rparr>)"

definition remove_last_item :: "('j, 'c) context_manager \<Rightarrow> bool \<times> ('j, 'c) context_manager" where
  "remove_last_item h =
     (if history_items h = [] then (False, h)
      else
        (True, h\<lparr>history_items := remove_corresponding_for (butlast (history_items h)) (last (history_items h)),
                 history_version := u64_saturating_add (history_version h) 1\<rparr>))"

definition replace_items :: "'j response_item list \<Rightarrow> ('j, 'c) context_manager \<Rightarrow> ('j, 'c) context_manager" where
  "replace_items items h = h\<lparr>history_items := items, history_version := u64_saturating_add (history_version h) 1\<rparr>"

definition rposition :: "('a \<Rightarrow> bool) \<Rightarrow> 'a list \<Rightarrow> nat option" where
  "rposition p xs = find (\<lambda>i. p (xs ! i)) (rev [0..<length xs])"

definition is_function_call_output :: "'j response_item \<Rightarrow> bool" where
  "is_function_call_output item = (case item of FunctionCallOutput _ _ \<Rightarrow> True | _ \<Rightarrow> False)"

definition replace_last_turn_images :: "'j context_env \<Rightarrow> ustr \<Rightarrow> ('j, 'c) context_manager \<Rightarrow> bool \<times> ('j, 'c) context_manager" where
  "replace_last_turn_images E placeholder h =
     (case rposition (\<lambda>item. is_function_call_output item \<or> is_user_turn_boundary E item) (history_items h) of
        None \<Rightarrow> (False, h)
      | Some index \<Rightarrow>
          (case history_items h ! index of
             FunctionCallOutput call_id output \<Rightarrow>
               (case body output of
                  BodyText _ \<Rightarrow> (False, h)
                | BodyContentItems content \<Rightarrow>
                    if list_ex is_image_item content
                    then (True, h\<lparr>history_items := (history_items h)[index :=
                            FunctionCallOutput call_id (output\<lparr>body := BodyContentItems (map (strip_output_content placeholder) content)\<rparr>)],
                          history_version := u64_saturating_add (history_version h) 1\<rparr>)
                    else (False, h))
           | _ \<Rightarrow> (False, h)))"

definition user_message_positions :: "'j context_env \<Rightarrow> 'j response_item list \<Rightarrow> nat list" where
  "user_message_positions E items = map fst (filter (\<lambda>(_, item). is_user_turn_boundary E item) (List.enumerate 0 items))"

text \<open>The walk backwards from the cut; \<open>base\<close> is the stored settings snapshot.\<close>

fun trim_pre_turn_context_updates :: "'j context_env \<Rightarrow> 'j response_item list \<Rightarrow> nat \<Rightarrow> nat \<Rightarrow> 'c option \<Rightarrow> nat \<times> 'c option" where
  "trim_pre_turn_context_updates E snapshot first_instruction_turn_idx 0 base = (0, base)"
| "trim_pre_turn_context_updates E snapshot first_instruction_turn_idx (Suc cut_idx) base =
     (if first_instruction_turn_idx < Suc cut_idx
      then case snapshot ! cut_idx of
             Message _ role content _ \<Rightarrow>
               if role = lit ''developer'' \<and> is_contextual_dev_message_content content
               then trim_pre_turn_context_updates E snapshot first_instruction_turn_idx cut_idx
                      (if has_non_contextual_dev_message_content content then None else base)
               else if role = lit ''user'' \<and> is_contextual_user_message_content E content
               then trim_pre_turn_context_updates E snapshot first_instruction_turn_idx cut_idx base
               else (Suc cut_idx, base)
           | _ \<Rightarrow> (Suc cut_idx, base)
      else (Suc cut_idx, base))"

definition drop_last_n_user_turns :: "'j context_env \<Rightarrow> nat \<Rightarrow> ('j, 'c) context_manager \<Rightarrow> ('j, 'c) context_manager" where
  "drop_last_n_user_turns E num_turns h =
     (if num_turns = 0 then h
      else
        let snapshot = history_items h; user_positions = user_message_positions E snapshot
        in case user_positions of
             [] \<Rightarrow> replace_items snapshot h
           | first_instruction_turn_idx # _ \<Rightarrow>
               (let cut_idx = (if num_turns \<ge> length user_positions then first_instruction_turn_idx
                      else user_positions ! (length user_positions - num_turns));
                    (cut_idx, base) = trim_pre_turn_context_updates E snapshot first_instruction_turn_idx cut_idx (reference_context_item h)
                in replace_items (take cut_idx snapshot) (h\<lparr>reference_context_item := base\<rparr>)))"

subsection \<open>Token totals\<close>

definition estimate_token_count_with_base_instructions :: "'j context_env \<Rightarrow> ustr \<Rightarrow> ('j, 'c) context_manager \<Rightarrow> int option" where
  "estimate_token_count_with_base_instructions E base_instructions h =
     Some (i64_saturating_add (i64_try_from (approx_token_count base_instructions))
       (saturating_sum (estimate_item_token_count E) (history_items h)))"

fun is_model_generated_item :: "'j response_item \<Rightarrow> bool" where
  "is_model_generated_item (Message _ role _ _) = (role = lit ''assistant'')"
| "is_model_generated_item (FunctionCallOutput _ _) = False"
| "is_model_generated_item (ToolSearchOutput _ _ _ _) = False"
| "is_model_generated_item (CustomToolCallOutput _ _ _) = False"
| "is_model_generated_item OtherItem = False"
| "is_model_generated_item _ = True"

fun is_agere_generated_item :: "'j response_item \<Rightarrow> bool" where
  "is_agere_generated_item (FunctionCallOutput _ _) = True"
| "is_agere_generated_item (ToolSearchOutput _ _ _ _) = True"
| "is_agere_generated_item (CustomToolCallOutput _ _ _) = True"
| "is_agere_generated_item (Message _ role _ _) = (role = lit ''developer'')"
| "is_agere_generated_item _ = False"

definition is_encrypted_reasoning :: "'j response_item \<Rightarrow> bool" where
  "is_encrypted_reasoning item = (case item of Reasoning _ _ _ (Some _) _ \<Rightarrow> True | _ \<Rightarrow> False)"

definition get_non_last_reasoning_items_tokens :: "'j context_env \<Rightarrow> ('j, 'c) context_manager \<Rightarrow> int" where
  "get_non_last_reasoning_items_tokens E h =
     (case rposition (is_user_turn_boundary E) (history_items h) of
        None \<Rightarrow> 0
      | Some last_user_index \<Rightarrow>
          saturating_sum (estimate_item_token_count E) (filter is_encrypted_reasoning (take last_user_index (history_items h))))"

definition items_after_last_model_generated_item :: "('j, 'c) context_manager \<Rightarrow> 'j response_item list" where
  "items_after_last_model_generated_item h =
     drop (case rposition is_model_generated_item (history_items h) of None \<Rightarrow> length (history_items h) | Some index \<Rightarrow> Suc index)
       (history_items h)"

definition get_total_token_usage :: "'j context_env \<Rightarrow> bool \<Rightarrow> ('j, 'c) context_manager \<Rightarrow> int" where
  "get_total_token_usage E server_reasoning_included h =
     (let last_tokens = (case token_info h of Some info \<Rightarrow> total_tokens (last_token_usage info) | None \<Rightarrow> 0);
          after_tokens = saturating_sum (estimate_item_token_count E) (items_after_last_model_generated_item h)
      in if server_reasoning_included then i64_saturating_add last_tokens after_tokens
         else i64_saturating_add (i64_saturating_add last_tokens (get_non_last_reasoning_items_tokens E h)) after_tokens)"

record total_token_usage_breakdown =
  last_api_response_total_tokens :: int
  all_history_items_model_visible_bytes :: int
  estimated_tokens_of_items_added_since_last_successful_api_response :: int
  estimated_bytes_of_items_added_since_last_successful_api_response :: int

definition get_total_token_usage_breakdown :: "'j context_env \<Rightarrow> ('j, 'c) context_manager \<Rightarrow> total_token_usage_breakdown" where
  "get_total_token_usage_breakdown E h =
     \<lparr>last_api_response_total_tokens =
        total_tokens (case token_info h of Some info \<Rightarrow> last_token_usage info | None \<Rightarrow> token_usage_default),
      all_history_items_model_visible_bytes = saturating_sum (estimate_response_item_model_visible_bytes E) (history_items h),
      estimated_tokens_of_items_added_since_last_successful_api_response =
        saturating_sum (estimate_item_token_count E) (items_after_last_model_generated_item h),
      estimated_bytes_of_items_added_since_last_successful_api_response =
        saturating_sum (estimate_response_item_model_visible_bytes E) (items_after_last_model_generated_item h)\<rparr>"

section \<open>Rolling back\<close>

text \<open>The items that the walk backwards removes, and those that invalidate the stored snapshot.\<close>

definition is_context_update :: "'j context_env \<Rightarrow> 'j response_item \<Rightarrow> bool" where
  "is_context_update E item =
     (case item of
        Message _ role content _ \<Rightarrow>
          (role = lit ''developer'' \<and> is_contextual_dev_message_content content)
          \<or> (role = lit ''user'' \<and> is_contextual_user_message_content E content)
      | _ \<Rightarrow> False)"

definition is_mixed_bundle :: "'j response_item \<Rightarrow> bool" where
  "is_mixed_bundle item =
     (case item of
        Message _ role content _ \<Rightarrow>
          role = lit ''developer'' \<and> is_contextual_dev_message_content content \<and> has_non_contextual_dev_message_content content
      | _ \<Rightarrow> False)"

lemma context_update_is_no_boundary: "is_context_update E item \<Longrightarrow> \<not> is_user_turn_boundary E item"
  by (cases item) (auto simp: is_context_update_def is_user_turn_boundary_def)

lemma trim_walk:
  assumes "pos \<le> length items" "first \<le> pos" "trim_pre_turn_context_updates E items first pos base = (pos', base')"
  shows "\<exists>ctx. take pos items = take pos' items @ ctx \<and> first \<le> pos' \<and> pos' \<le> pos \<and> list_all (is_context_update E) ctx
     \<and> base' = (if list_ex is_mixed_bundle ctx then None else base)
     \<and> (pos' = first \<or> \<not> is_context_update E (last (take pos' items)))"
  using assms
proof (induction pos arbitrary: base)
  case (Suc pos)
  have t: "take (Suc pos) items = take pos items @ [items ! pos]" using Suc.prems(1) by (simp add: take_Suc_conv_app_nth)
  show ?case
  proof (cases "first < Suc pos \<and> is_context_update E (items ! pos)")
    case True
    then have "trim_pre_turn_context_updates E items first pos (if is_mixed_bundle (items ! pos) then None else base) = (pos', base')"
      using Suc.prems(3)
      by (auto simp: is_context_update_def is_mixed_bundle_def split: response_item.splits if_splits)
    from Suc.IH [OF _ _ this] True Suc.prems(1) obtain ctx where
      "take pos items = take pos' items @ ctx" "first \<le> pos'" "pos' \<le> pos" "list_all (is_context_update E) ctx"
      "base' = (if list_ex is_mixed_bundle ctx then None else if is_mixed_bundle (items ! pos) then None else base)"
      "pos' = first \<or> \<not> is_context_update E (last (take pos' items))" by auto
    then show ?thesis using t True by (intro exI [of _ "ctx @ [items ! pos]"]) auto
  next
    case False
    then have "pos' = Suc pos \<and> base' = base"
      using Suc.prems(3) by (auto simp: is_context_update_def split: response_item.splits if_splits)
    then show ?thesis using Suc.prems(2) t False by (intro exI [of _ "[]"]) auto
  qed
qed simp

text \<open>The positions of the turns: the \<open>j\<close>-th position has exactly \<open>j\<close> turns before it.\<close>

definition positions :: "('a \<Rightarrow> bool) \<Rightarrow> 'a list \<Rightarrow> nat list" where
  "positions P xs = map fst (filter (\<lambda>(_, x). P x) (List.enumerate 0 xs))"

lemma positions_shift:
  "map fst (filter (\<lambda>(_, x). P x) (List.enumerate (Suc n) xs)) = map Suc (map fst (filter (\<lambda>(_, x). P x) (List.enumerate n xs)))"
  by (induction xs arbitrary: n) auto

lemma positions_simps [simp]:
  "positions P [] = []"
  "positions P (x # xs) = (if P x then [0] else []) @ map Suc (positions P xs)"
  by (simp_all add: positions_def positions_shift)

lemma length_positions: "length (positions P xs) = length (filter P xs)"
  by (induction xs) auto

lemma positions_Nil: "positions P xs = [] \<longleftrightarrow> \<not> list_ex P xs"
  by (induction xs) auto

lemma positions_nth:
  "j < length (positions P xs) \<Longrightarrow>
     positions P xs ! j < length xs \<and> P (xs ! (positions P xs ! j)) \<and> length (filter P (take (positions P xs ! j) xs)) = j"
proof (induction xs arbitrary: j)
  case (Cons x xs)
  show ?case
  proof (cases "P x")
    case True
    then show ?thesis using Cons.IH [of "j - 1"] Cons.prems by (cases j) auto
  next
    case False
    then show ?thesis using Cons.IH [of j] Cons.prems by auto
  qed
qed simp

lemma sorted_positions: "sorted (positions P xs)"
  by (induction xs) (auto simp: sorted_map intro: sorted_wrt_mono_rel)

lemma user_message_positions_eq: "user_message_positions E items = positions (is_user_turn_boundary E) items"
  by (simp add: user_message_positions_def positions_def)

lemma positions_hd: "positions P xs = i # is \<Longrightarrow> take i xs = takeWhile (\<lambda>x. \<not> P x) xs"
  by (induction xs arbitrary: i "is") (auto split: if_splits)


text \<open>Two turns of the user, with context that was injected before the second one.\<close>

definition two_turns :: "(nat, nat) context_manager" where
  "two_turns = context_manager_new\<lparr>history_items :=
     [Message None (lit ''user'') [InputText (lit ''one'')] None,
      Message None (lit ''assistant'') [OutputText (lit ''done'')] None,
      fragment_into skill_instructions (lit ''read the docs''),
      Message None (lit ''user'') [InputText (lit ''two'')] None]\<rparr>"


section \<open>What is sent to the model\<close>

text \<open>
  C14: What is sent to the model has an output for every call that carries an id and a call for every
  output, except for outputs of tool searches that the server made or that carry no id, which have none.  It
  keeps all other items in order, and has no image when the model takes none; sending it through the
  normalisation again changes nothing and does not panic, even with debug assertions.
\<close>

theorem prompt_is_paired:
  "\<exists>out. for_prompt False ms h = Ok out \<and> calls_answered out \<and> outputs_called out
     \<and> filter (\<lambda>i. output_key i = None) out
         = strip_images_when_unsupported ms (filter (\<lambda>i. output_key i = None) (history_items h))
     \<and> (ModalityImage \<in> set ms \<or> list_all (\<lambda>i. \<not> has_image i) out)
     \<and> for_prompt debug ms (h\<lparr>history_items := out\<rparr>) = Ok out"
  using normalize_items_release [of ms "history_items h" debug]
  by (auto simp: for_prompt_def normalize_history_def)

text \<open>
  C28: Removing the oldest or the newest item keeps calls and outputs paired when no call id is used
  twice, because the counterpart of the removed item goes with it.
\<close>

theorem removal_keeps_pairs:
  assumes "paired (history_items h)"
  shows "paired (history_items (remove_first_item h)) \<and> paired (history_items (snd (remove_last_item h)))"
proof
  show "paired (history_items (remove_first_item h))"
    using assms by (auto simp: remove_first_item_def paired_remove split: list.splits)
  show "paired (history_items (snd (remove_last_item h)))"
    using assms paired_rotate paired_remove
    by (cases "history_items h" rule: rev_cases) (auto simp: remove_last_item_def)
qed

definition sample_call :: "nat response_item" where
  "sample_call = FunctionCall None (lit ''shell'') None (lit ''{}'') (lit ''c1'')"

definition sample_output :: "nat response_item" where
  "sample_output = FunctionCallOutput (lit ''c1'') (payload_from_text (lit ''ok''))"

definition sample_history :: "(nat, nat) context_manager" where
  "sample_history = context_manager_new\<lparr>history_items := [sample_call, Message None (lit ''user'') [InputText (lit ''hi'')] None, sample_output]\<rparr>"

theorem removal_keeps_pairs_witness:
  "paired (history_items (remove_first_item sample_history)) \<and> paired (history_items (snd (remove_last_item sample_history)))
     \<and> length (history_items (remove_first_item sample_history)) = 1"
proof -
  have p: "paired (history_items sample_history)"
    by (simp add: sample_history_def paired_def calls_answered_def outputs_called_def unique_ids_def sample_call_def sample_output_def)
  have "history_items (remove_first_item sample_history) = [Message None (lit ''user'') [InputText (lit ''hi'')] None]"
    by (simp add: remove_first_item_def sample_history_def sample_call_def sample_output_def remove_corresponding_for_def lit_def)
  then show ?thesis using removal_keeps_pairs [OF p] by simp
qed

section \<open>Versions\<close>

text \<open>The changes of a session's history; trimming from the front is only applied to copies.\<close>

inductive history_step :: "'j context_env \<Rightarrow> ('j, 'c) context_manager \<Rightarrow> ('j, 'c) context_manager \<Rightarrow> bool" for E where
  recorded: "record_items checks policy items h = Ok h' \<Longrightarrow> history_step E h h'"
| popped: "history_step E h (snd (remove_last_item h))"
| replaced: "history_step E h (replace_items items h)"
| images_replaced: "history_step E h (snd (replace_last_turn_images E placeholder h))"
| rolled_back: "history_step E h (drop_last_n_user_turns E n h)"
| usage_updated: "update_token_info checks usage window h = Ok h' \<Longrightarrow> history_step E h h'"
| usage_filled: "set_token_usage_full checks context_window h = Ok h' \<Longrightarrow> history_step E h h'"
| usage_set: "history_step E h (set_token_info info h)"
| snapshot_set: "history_step E h (set_reference_context_item item h)"

definition extends_or_bumps :: "('j, 'c) context_manager \<Rightarrow> ('j, 'c) context_manager \<Rightarrow> bool" where
  "extends_or_bumps h h' \<longleftrightarrow>
     (history_version h' = history_version h \<and> prefix (history_items h) (history_items h'))
     \<or> history_version h' = u64_saturating_add (history_version h) 1"

lemma record_items_extends:
  "record_items checks policy items h = Ok h' \<Longrightarrow>
     history_version h' = history_version h \<and> prefix (history_items h) (history_items h')"
proof (induction items arbitrary: h)
  case (Cons item items)
  then show ?case by (fastforce split: if_splits result.splits dest: append_prefixD)
qed simp

lemma history_step_extends_or_bumps: "history_step E h h' \<Longrightarrow> extends_or_bumps h h'"
proof (induction rule: history_step.induct)
  case (recorded checks policy items h h')
  then show ?case using record_items_extends by (fastforce simp: extends_or_bumps_def)
next
  case (images_replaced h placeholder)
  then show ?case
    by (auto simp: extends_or_bumps_def replace_last_turn_images_def
        split: option.splits response_item.splits function_call_output_body.splits)
next
  case (rolled_back h n)
  then show ?case
    by (auto simp: extends_or_bumps_def drop_last_n_user_turns_def replace_items_def Let_def split: list.splits prod.splits)
qed (auto simp: extends_or_bumps_def remove_last_item_def replace_items_def update_token_info_def set_token_usage_full_def
      set_token_info_def set_reference_context_item_def split: result.splits option.splits)

text \<open>
  C27: Between two moments with the same version the history has only grown, so that a reader who
  remembers the version and how much was read can continue there.
\<close>

theorem version_marks_rewrites:
  assumes "(history_step E)\<^sup>*\<^sup>* h h'" "history_version h' < 2 ^ 64 - 1"
  shows "history_version h \<le> history_version h'
    \<and> (history_version h = history_version h' \<longrightarrow> prefix (history_items h) (history_items h'))"
  using assms
proof (induction rule: rtranclp_induct)
  case (step h1 h2)
  from history_step_extends_or_bumps [OF step(2)] step(4)
  have "history_version h2 = history_version h1 \<and> prefix (history_items h1) (history_items h2) \<or> history_version h2 = Suc (history_version h1)"
    by (auto simp: extends_or_bumps_def u64_saturating_add_def min_def split: if_splits)
  with step.IH step(4) show ?case by (auto intro: prefix_order.trans)
qed simp

theorem version_marks_rewrites_witness:
  "prefix (history_items sample_history) (history_items (set_token_info None sample_history))
     \<and> history_version sample_history = history_version (set_token_info None sample_history)"
proof -
  have r: "(history_step plain_env)\<^sup>*\<^sup>* sample_history (set_token_info None sample_history)"
    by (rule r_into_rtranclp) (rule usage_set)
  have v: "history_version sample_history = 0" "history_version (set_token_info None sample_history) = 0"
    by (simp_all add: sample_history_def set_token_info_def context_manager_new_def)
  show ?thesis using version_marks_rewrites [OF r] v by simp
qed

end
