(* ===== verification/Net_Address.thy ===== *)
theory Net_Address
  imports Prelude "HOL-Library.Word"
begin

text \<open>
  IP addresses: their text form and classification as the standard library has them (\<^verbatim>\<open>std::net\<close>), and the
  addresses that the network proxy treats as not public (\<^verbatim>\<open>is_non_public_ip\<close> of
  \<^verbatim>\<open>src/network-proxy/src/policy.rs\<close>).  An IPv4 address is a 32-bit word, an IPv6 address a 128-bit word.
\<close>

unbundle bit_operations_syntax

datatype ip_addr = V4 "32 word" | V6 "128 word"

section \<open>Reading addresses\<close>

text \<open>
  The parser of \<^verbatim>\<open>std::net\<close>.  Each reader returns the value and the rest of the text, or nothing, in which case
  its caller continues with the text it had before.
\<close>

definition to_digit :: "int \<Rightarrow> uchar \<Rightarrow> int option" where
  "to_digit radix c =
     (let d = (if 48 \<le> c \<and> c \<le> 57 then Some (c - 48)
               else if 97 \<le> c \<and> c \<le> 122 then Some (c - 87)
               else if 65 \<le> c \<and> c \<le> 90 then Some (c - 55)
               else None)
      in case d of Some n \<Rightarrow> if n < radix then Some n else None | None \<Rightarrow> None)"

fun read_digits :: "int \<Rightarrow> ustr \<Rightarrow> int list \<times> ustr" where
  "read_digits radix [] = ([], [])"
| "read_digits radix (c # s) =
     (case to_digit radix c of
        None \<Rightarrow> ([], c # s)
      | Some d \<Rightarrow> (let (ds, rest) = read_digits radix s in (d # ds, rest)))"

definition digits_value :: "int \<Rightarrow> int list \<Rightarrow> int" where
  "digits_value radix ds = foldl (\<lambda>n d. n * radix + d) 0 ds"

definition read_number :: "int \<Rightarrow> nat \<Rightarrow> int \<Rightarrow> bool \<Rightarrow> ustr \<Rightarrow> (int \<times> ustr) option" where
  "read_number radix max_digits max_value allow_zero_prefix s =
     (let (ds, rest) = read_digits radix s
      in if ds = [] \<or> length ds > max_digits \<or> digits_value radix ds > max_value then None
         else if \<not> allow_zero_prefix \<and> hd s = 48 \<and> length ds > 1 then None
         else Some (digits_value radix ds, rest))"

definition read_given_char :: "uchar \<Rightarrow> ustr \<Rightarrow> ustr option" where
  "read_given_char c s = (case s of x # rest \<Rightarrow> if x = c then Some rest else None | [] \<Rightarrow> None)"

definition read_separator :: "uchar \<Rightarrow> nat \<Rightarrow> (ustr \<Rightarrow> ('a \<times> ustr) option) \<Rightarrow> ustr \<Rightarrow> ('a \<times> ustr) option" where
  "read_separator sep i inner s =
     (if i > 0 then case read_given_char sep s of None \<Rightarrow> None | Some rest \<Rightarrow> inner rest else inner s)"

fun read_octets :: "nat \<Rightarrow> nat \<Rightarrow> ustr \<Rightarrow> (int list \<times> ustr) option" where
  "read_octets i 0 s = Some ([], s)"
| "read_octets i (Suc n) s =
     (case read_separator 46 i (read_number 10 3 255 False) s of
        None \<Rightarrow> None
      | Some (octet, rest) \<Rightarrow>
          (case read_octets (Suc i) n rest of None \<Rightarrow> None | Some (octets, rest) \<Rightarrow> Some (octet # octets, rest)))"

definition read_ipv4_addr :: "ustr \<Rightarrow> (32 word \<times> ustr) option" where
  "read_ipv4_addr s =
     (case read_octets 0 4 s of None \<Rightarrow> None | Some (octets, rest) \<Rightarrow> Some (of_int (digits_value 256 octets), rest))"

text \<open>At most \<open>n\<close> groups from index \<open>i\<close> on: the groups, whether the last two are an IPv4 address, and the rest.\<close>

fun read_groups :: "nat \<Rightarrow> nat \<Rightarrow> ustr \<Rightarrow> int list \<times> bool \<times> ustr" where
  "read_groups i 0 s = ([], False, s)"
| "read_groups i (Suc n) s =
     (case (if n > 0 then read_separator 58 i read_ipv4_addr s else None) of
        Some (v4, rest) \<Rightarrow> ([uint (drop_bit 16 v4), uint (take_bit 16 v4)], True, rest)
      | None \<Rightarrow>
          (case read_separator 58 i (read_number 16 4 65535 True) s of
             None \<Rightarrow> ([], False, s)
           | Some (g, rest) \<Rightarrow>
               (let (groups, v4, rest) = read_groups (Suc i) n rest in (g # groups, v4, rest))))"

definition ipv6_of_groups :: "int list \<Rightarrow> 128 word" where
  "ipv6_of_groups groups = of_int (digits_value 65536 groups)"

definition read_ipv6_addr :: "ustr \<Rightarrow> (128 word \<times> ustr) option" where
  "read_ipv6_addr s =
     (let (front, head_ipv4, rest) = read_groups 0 8 s
      in if length front = 8 then Some (ipv6_of_groups front, rest)
         else if head_ipv4 then None
         else case rest of
                a # b # rest \<Rightarrow>
                  if a = 58 \<and> b = 58
                  then let (back, _, rest) = read_groups 0 (8 - (length front + 1)) rest
                       in Some (ipv6_of_groups (front @ replicate (8 - length front - length back) 0 @ back), rest)
                  else None
              | _ \<Rightarrow> None)"

definition parse_ip :: "ustr \<Rightarrow> ip_addr option" where
  "parse_ip s =
     (case (case read_ipv4_addr s of
              Some (v4, rest) \<Rightarrow> Some (V4 v4, rest)
            | None \<Rightarrow> map_option (\<lambda>(v6, rest). (V6 v6, rest)) (read_ipv6_addr s)) of
        Some (ip, []) \<Rightarrow> Some ip
      | _ \<Rightarrow> None)"

section \<open>Classification\<close>

text \<open>The predicates of \<^verbatim>\<open>Ipv4Addr\<close> and \<^verbatim>\<open>Ipv6Addr\<close>.\<close>

definition ipv4_octet :: "nat \<Rightarrow> 32 word \<Rightarrow> int" where
  "ipv4_octet i ip = uint (take_bit 8 (drop_bit (24 - 8 * i) ip))"

definition ipv6_segment :: "nat \<Rightarrow> 128 word \<Rightarrow> int" where
  "ipv6_segment i ip = uint (take_bit 16 (drop_bit (112 - 16 * i) ip))"

definition ipv4_is_loopback :: "32 word \<Rightarrow> bool" where
  "ipv4_is_loopback ip = (ipv4_octet 0 ip = 127)"

definition ipv4_is_private :: "32 word \<Rightarrow> bool" where
  "ipv4_is_private ip =
     (ipv4_octet 0 ip = 10
      \<or> (ipv4_octet 0 ip = 172 \<and> 16 \<le> ipv4_octet 1 ip \<and> ipv4_octet 1 ip \<le> 31)
      \<or> (ipv4_octet 0 ip = 192 \<and> ipv4_octet 1 ip = 168))"

definition ipv4_is_link_local :: "32 word \<Rightarrow> bool" where
  "ipv4_is_link_local ip = (ipv4_octet 0 ip = 169 \<and> ipv4_octet 1 ip = 254)"

definition ipv4_is_multicast :: "32 word \<Rightarrow> bool" where
  "ipv4_is_multicast ip = (224 \<le> ipv4_octet 0 ip \<and> ipv4_octet 0 ip \<le> 239)"

definition ipv6_to_ipv4 :: "128 word \<Rightarrow> 32 word option" where
  "ipv6_to_ipv4 ip =
     (if drop_bit 48 ip = 0 \<and> (ipv6_segment 5 ip = 0 \<or> ipv6_segment 5 ip = 0xffff) then Some (ucast ip) else None)"

definition ip_is_loopback :: "ip_addr \<Rightarrow> bool" where
  "ip_is_loopback ip = (case ip of V4 ip \<Rightarrow> ipv4_is_loopback ip | V6 ip \<Rightarrow> ip = 1)"

section \<open>Addresses that are not public\<close>

definition ipv4_from :: "int list \<Rightarrow> 32 word" where
  "ipv4_from octets = of_int (digits_value 256 octets)"

definition ipv4_in_cidr :: "32 word \<Rightarrow> int list \<Rightarrow> nat \<Rightarrow> bool" where
  "ipv4_in_cidr ip base prefix_len =
     (let mask = (if prefix_len = 0 then 0 else push_bit (32 - prefix_len) (- 1))
      in ip AND mask = ipv4_from base AND mask)"

definition is_non_public_ipv4 :: "32 word \<Rightarrow> bool" where
  "is_non_public_ipv4 ip =
     (ipv4_is_loopback ip \<or> ipv4_is_private ip \<or> ipv4_is_link_local ip \<or> ip = 0 \<or> ipv4_is_multicast ip \<or> ip = - 1
      \<or> ipv4_in_cidr ip [0, 0, 0, 0] 8
      \<or> ipv4_in_cidr ip [100, 64, 0, 0] 10
      \<or> ipv4_in_cidr ip [192, 0, 0, 0] 24
      \<or> ipv4_in_cidr ip [192, 0, 2, 0] 24
      \<or> ipv4_in_cidr ip [198, 18, 0, 0] 15
      \<or> ipv4_in_cidr ip [198, 51, 100, 0] 24
      \<or> ipv4_in_cidr ip [203, 0, 113, 0] 24
      \<or> ipv4_in_cidr ip [240, 0, 0, 0] 4)"

definition is_non_public_ipv6 :: "128 word \<Rightarrow> bool" where
  "is_non_public_ipv6 ip =
     (case ipv6_to_ipv4 ip of
        Some v4 \<Rightarrow> is_non_public_ipv4 v4 \<or> ip = 1
      | None \<Rightarrow>
          ip = 1 \<or> ip = 0
          \<or> uint (drop_bit 120 ip) = 0xff
          \<or> ipv6_segment 0 ip div 2 ^ 9 = 0xfc00 div 2 ^ 9
          \<or> ipv6_segment 0 ip div 2 ^ 6 = 0xfe80 div 2 ^ 6)"

definition is_non_public_ip :: "ip_addr \<Rightarrow> bool" where
  "is_non_public_ip ip = (case ip of V4 ip \<Rightarrow> is_non_public_ipv4 ip | V6 ip \<Rightarrow> is_non_public_ipv6 ip)"

section \<open>Ranges\<close>

text \<open>A range of addresses by its first address and the address after its last.\<close>

definition in_range :: "int \<Rightarrow> int \<times> int \<Rightarrow> bool" where
  "in_range n r \<longleftrightarrow> fst r \<le> n \<and> n < snd r"

definition cidr_range :: "int list \<Rightarrow> nat \<Rightarrow> int \<times> int" where
  "cidr_range octets prefix_len =
     (let base = digits_value 256 octets in (base, base + 2 ^ (32 - prefix_len)))"

text \<open>The special-purpose blocks of the IPv4 address space; the last one joins multicast and reserved addresses.\<close>

definition special_purpose_blocks :: "(int \<times> int) list" where
  "special_purpose_blocks =
     [cidr_range [0, 0, 0, 0] 8, cidr_range [10, 0, 0, 0] 8, cidr_range [100, 64, 0, 0] 10, cidr_range [127, 0, 0, 0] 8,
      cidr_range [169, 254, 0, 0] 16, cidr_range [172, 16, 0, 0] 12, cidr_range [192, 0, 0, 0] 24, cidr_range [192, 0, 2, 0] 24,
      cidr_range [192, 168, 0, 0] 16, cidr_range [198, 18, 0, 0] 15, cidr_range [198, 51, 100, 0] 24,
      cidr_range [203, 0, 113, 0] 24, cidr_range [224, 0, 0, 0] 3]"

lemma uint_range_32: "0 \<le> uint (ip :: 32 word)" "uint (ip :: 32 word) < 4294967296"
  using uint_range_size [of ip] by (simp_all add: word_size)

lemma uint_drop_bit_32: "uint (drop_bit k ip) = uint ip div 2 ^ k" for ip :: "32 word"
proof -
  have "uint (drop_bit k ip) = drop_bit k (take_bit 32 (uint ip))" by (subst unsigned_drop_bit_eq) simp
  also have "take_bit 32 (uint ip) = uint ip" using uint_range_32 [of ip] by (simp add: take_bit_int_eq_self)
  finally show ?thesis by (simp only: drop_bit_eq_div)
qed

lemma uint_take_bit_8: "uint (take_bit 8 ip) = uint ip mod 256" for ip :: "32 word"
  by (subst unsigned_take_bit_eq) (simp add: take_bit_eq_mod)

lemma and_high_bits:
  fixes a b :: "32 word"
  assumes "k \<le> 32"
  shows "a AND push_bit k (- 1) = b AND push_bit k (- 1) \<longleftrightarrow> uint a div 2 ^ k = uint b div 2 ^ k"
proof -
  have m: "c AND push_bit k (- 1) = push_bit k (drop_bit k c)" for c :: "32 word"
    by (rule bit_eqI) (auto simp: bit_simps)
  have "push_bit k (drop_bit k a) = push_bit k (drop_bit k b) \<longleftrightarrow> drop_bit k a = drop_bit k b"
  proof
    assume "push_bit k (drop_bit k a) = push_bit k (drop_bit k b)"
    then have "drop_bit k (push_bit k (drop_bit k a)) = drop_bit k (push_bit k (drop_bit k b))" by simp
    moreover have "drop_bit k (push_bit k (drop_bit k c)) = drop_bit k c" for c :: "32 word"
      by (rule bit_eqI) (auto simp: bit_simps dest: bit_imp_le_length)
    ultimately show "drop_bit k a = drop_bit k b" by simp
  qed simp
  also have "\<dots> \<longleftrightarrow> uint (drop_bit k a) = uint (drop_bit k b)" by (rule word_uint_eq_iff)
  also have "\<dots> \<longleftrightarrow> uint a div 2 ^ k = uint b div 2 ^ k"
    by (simp add: uint_drop_bit_32)
  finally show ?thesis by (simp only: m)
qed

lemma div_eq_range:
  fixes n m q :: int
  assumes "0 < m"
  shows "n div m = q \<longleftrightarrow> q * m \<le> n \<and> n < q * m + m"
proof
  assume "n div m = q"
  moreover have "0 \<le> n mod m" "n mod m < m" using assms by simp_all
  moreover have "n = n div m * m + n mod m" by simp
  ultimately show "q * m \<le> n \<and> n < q * m + m" by simp
next
  assume "q * m \<le> n \<and> n < q * m + m"
  then show "n div m = q" by (intro int_div_pos_eq [of n m q "n - q * m"]) (simp_all add: algebra_simps)
qed

lemma le_div_iff: "0 < m \<Longrightarrow> q \<le> n div m \<longleftrightarrow> q * m \<le> n" for n m q :: int
proof
  assume m: "0 < m"
  have e: "n div m * m + n mod m = n" by simp
  have r: "0 \<le> n mod m" "n mod m < m" using m by simp_all
  show "q * m \<le> n" if "q \<le> n div m"
    using mult_right_mono [OF that, of m] m e r by linarith
  show "q \<le> n div m" if "q * m \<le> n"
    using zdiv_mono1 [OF that m] m by simp
qed

lemma div_less_iff: "0 < m \<Longrightarrow> n div m < q \<longleftrightarrow> n < q * m" for n m q :: int
  using le_div_iff [of m q n] by linarith

lemma ipv4_in_cidr_range:
  assumes "0 < prefix_len" "prefix_len \<le> 32" "0 \<le> digits_value 256 base" "digits_value 256 base < 4294967296"
    and aligned: "digits_value 256 base mod 2 ^ (32 - prefix_len) = 0"
  shows "ipv4_in_cidr ip base prefix_len \<longleftrightarrow> in_range (uint ip) (cidr_range base prefix_len)"
proof -
  let ?k = "32 - prefix_len" and ?b = "digits_value 256 base"
  have b: "uint (ipv4_from base) = ?b"
    using assms(3,4) by (simp add: ipv4_from_def uint_word_of_int mod_pos_pos_trivial)
  have "ipv4_in_cidr ip base prefix_len \<longleftrightarrow> uint ip div 2 ^ ?k = ?b div 2 ^ ?k"
    using assms(1) and_high_bits [of ?k ip "ipv4_from base"] by (simp add: ipv4_in_cidr_def b)
  also have "\<dots> \<longleftrightarrow> in_range (uint ip) (cidr_range base prefix_len)"
    using aligned by (simp add: div_eq_range in_range_def cidr_range_def Let_def mod_0_imp_dvd)
  finally show ?thesis .
qed

lemma ipv4_octet_0: "ipv4_octet 0 ip = uint ip div 16777216"
proof -
  have "uint ip div 16777216 < 256" using uint_range_32(2) [of ip] by (simp add: div_less_iff)
  moreover have "0 \<le> uint ip div 16777216" using uint_range_32(1) [of ip] by (simp add: pos_imp_zdiv_nonneg_iff)
  ultimately show ?thesis by (simp add: ipv4_octet_def uint_take_bit_8 uint_drop_bit_32)
qed

lemma ipv4_octet_1: "ipv4_octet 1 ip = uint ip div 65536 mod 256"
  by (simp add: ipv4_octet_def uint_take_bit_8 uint_drop_bit_32)

lemmas ipv4_classes = ipv4_is_loopback_def ipv4_is_private_def ipv4_is_link_local_def ipv4_is_multicast_def ipv4_octet_0 ipv4_octet_1

lemmas range_simps = in_range_def cidr_range_def digits_value_def Let_def

text \<open>The first octet by itself and the first two octets, as a range of addresses.\<close>

lemma two_octets:
  fixes n :: int
  assumes "0 \<le> lo" "hi < 256"
  shows "n div 16777216 = a \<and> lo \<le> n div 65536 mod 256 \<and> n div 65536 mod 256 \<le> hi
    \<longleftrightarrow> (256 * a + lo) * 65536 \<le> n \<and> n < (256 * a + hi + 1) * 65536"
proof -
  define m where "m = n div 65536"
  have "n div 16777216 = m div 256" by (simp add: m_def zdiv_zmult2_eq [symmetric])
  moreover have "m div 256 = a \<and> lo \<le> m mod 256 \<and> m mod 256 \<le> hi \<longleftrightarrow> 256 * a + lo \<le> m \<and> m < 256 * a + hi + 1"
  proof -
    have "256 * (m div 256) + m mod 256 = m" by simp
    then obtain q r where q: "m div 256 = q" "m mod 256 = r" "256 * q + r = m" by blast
    moreover have "q = a" if "256 * a + lo \<le> m" "m < 256 * a + hi + 1"
      using that assms q(1) by (simp add: div_eq_range)
    ultimately show ?thesis by linarith
  qed
  moreover have "256 * a + lo \<le> m \<longleftrightarrow> (256 * a + lo) * 65536 \<le> n" "m < 256 * a + hi + 1 \<longleftrightarrow> n < (256 * a + hi + 1) * 65536"
    using le_div_iff [of 65536 "256 * a + lo" n] div_less_iff [of 65536 n "256 * a + hi + 1"] by (simp_all only: m_def)
  ultimately show ?thesis by (simp add: m_def)
qed

lemma two_octets_exact:
  fixes n :: int
  assumes "0 \<le> b" "b < 256"
  shows "n div 16777216 = a \<and> n div 65536 mod 256 = b \<longleftrightarrow> (256 * a + b) * 65536 \<le> n \<and> n < (256 * a + b + 1) * 65536"
  using two_octets [OF assms, of n a] by linarith

lemma class_ranges:
  fixes n :: int
  shows "n div 16777216 = 127 \<longleftrightarrow> in_range n (cidr_range [127, 0, 0, 0] 8)"
    and "n div 16777216 = 10 \<longleftrightarrow> in_range n (cidr_range [10, 0, 0, 0] 8)"
    and "n div 16777216 = 172 \<and> 16 \<le> n div 65536 mod 256 \<and> n div 65536 mod 256 \<le> 31 \<longleftrightarrow> in_range n (cidr_range [172, 16, 0, 0] 12)"
    and "n div 16777216 = 192 \<and> n div 65536 mod 256 = 168 \<longleftrightarrow> in_range n (cidr_range [192, 168, 0, 0] 16)"
    and "n div 16777216 = 169 \<and> n div 65536 mod 256 = 254 \<longleftrightarrow> in_range n (cidr_range [169, 254, 0, 0] 16)"
    and "224 \<le> n div 16777216 \<and> n div 16777216 \<le> 239 \<longleftrightarrow> in_range n (cidr_range [224, 0, 0, 0] 4)"
proof -
  show "224 \<le> n div 16777216 \<and> n div 16777216 \<le> 239 \<longleftrightarrow> in_range n (cidr_range [224, 0, 0, 0] 4)"
    using div_less_iff [of 16777216 n 240] le_div_iff [of 16777216 224 n] by (simp add: range_simps) linarith
  show "n div 16777216 = 127 \<longleftrightarrow> in_range n (cidr_range [127, 0, 0, 0] 8)"
      "n div 16777216 = 10 \<longleftrightarrow> in_range n (cidr_range [10, 0, 0, 0] 8)"
    by (simp_all add: range_simps div_eq_range)
qed (simp_all add: range_simps two_octets two_octets_exact)

lemma multicast_and_reserved:
  "n = 4294967295 \<or> in_range n (cidr_range [224, 0, 0, 0] 4) \<or> in_range n (cidr_range [240, 0, 0, 0] 4)
     \<longleftrightarrow> in_range n (cidr_range [224, 0, 0, 0] 3)"
  by (auto simp: range_simps)

lemma is_non_public_ipv4_blocks:
  "is_non_public_ipv4 ip \<longleftrightarrow> list_ex (in_range (uint ip)) special_purpose_blocks"
proof -
  have z: "ip = 0 \<longleftrightarrow> uint ip = 0" "ip = - 1 \<longleftrightarrow> uint ip = 4294967295"
    by (simp_all add: word_uint_eq_iff unsigned_minus_1_eq_mask mask_eq_exp_minus_1)
  have zero: "uint ip = 0 \<or> in_range (uint ip) (cidr_range [0, 0, 0, 0] 8) \<longleftrightarrow> in_range (uint ip) (cidr_range [0, 0, 0, 0] 8)"
    by (auto simp: range_simps)
  have cidr: "ipv4_in_cidr ip base len \<longleftrightarrow> in_range (uint ip) (cidr_range base len)"
    if "(base, len) \<in> {([0, 0, 0, 0], 8), ([100, 64, 0, 0], 10), ([192, 0, 0, 0], 24), ([192, 0, 2, 0], 24),
      ([198, 18, 0, 0], 15), ([198, 51, 100, 0], 24), ([203, 0, 113, 0], 24), ([240, 0, 0, 0], 4)}" for base len
    by (rule ipv4_in_cidr_range) (use that in \<open>auto simp: digits_value_def\<close>)
  show ?thesis
    unfolding is_non_public_ipv4_def special_purpose_blocks_def ipv4_classes z
    using zero multicast_and_reserved [of "uint ip"] by (simp add: cidr class_ranges del: One_nat_def) argo
qed

text \<open>The IPv6 forms of an IPv4 address are public exactly when it is.\<close>

definition ipv4_mapped :: "32 word \<Rightarrow> 128 word" where
  "ipv4_mapped ip = push_bit 32 0xffff OR ucast ip"

lemma bit_ipv4_mapped: "bit (ipv4_mapped ip) n \<longleftrightarrow> (32 \<le> n \<and> n < 48) \<or> bit ip n"
proof -
  have m: "(0xffff :: 128 word) = mask 16" by (simp add: mask_numeral)
  have "n < 32" if "bit ip n" using that bit_imp_le_length by fastforce
  then show ?thesis unfolding ipv4_mapped_def m by (auto simp: bit_simps simp del: push_bit_numeral)
qed

lemma ipv4_mapped_to_ipv4: "ipv6_to_ipv4 (ipv4_mapped ip) = Some ip"
proof -
  have b: "n < 32" if "bit ip n" for n using that bit_imp_le_length by fastforce
  have "drop_bit 48 (ipv4_mapped ip) = 0"
    by (rule bit_eqI) (auto simp: bit_ipv4_mapped bit_simps dest: b)
  moreover have "drop_bit 32 (ipv4_mapped ip) = mask 16"
    by (rule bit_eqI) (auto simp: bit_ipv4_mapped bit_simps dest: b)
  moreover have "ucast (ipv4_mapped ip) = ip"
    by (rule bit_eqI) (auto simp: bit_ipv4_mapped bit_simps dest: b)
  ultimately show ?thesis by (simp add: ipv6_to_ipv4_def ipv6_segment_def mask_numeral)
qed

section \<open>Properties\<close>

text \<open>
  C32: An IPv4 address counts as not public exactly when it lies in one of the special-purpose blocks, and
  writing it as an IPv6 address changes nothing.
\<close>

theorem non_public_ipv4_exact:
  "is_non_public_ip (V4 ip) = list_ex (in_range (uint ip)) special_purpose_blocks
   \<and> is_non_public_ip (V6 (ipv4_mapped ip)) = is_non_public_ip (V4 ip)"
proof -
  have "ipv4_mapped ip \<noteq> 1" using bit_ipv4_mapped [of ip 32] by (auto simp: bit_1_iff)
  then show ?thesis
    by (simp add: is_non_public_ip_def is_non_public_ipv4_blocks is_non_public_ipv6_def ipv4_mapped_to_ipv4)
qed

text \<open>The translation prefix of RFC 6052 hides an address from the classification.\<close>

lemma nat64_address_counts_as_public:
  "parse_ip (lit ''64:ff9b::10.0.0.1'') = Some (V6 0x64ff9b00000000000000000a000001)
   \<and> \<not> is_non_public_ip (V6 0x64ff9b00000000000000000a000001) \<and> is_non_public_ip (V4 0x0a000001)"
  by code_simp

end
