(* ===== verification/Net_Domain.thy ===== *)
theory Net_Domain
  imports Net_Address
begin

text \<open>
  Hosts and domain patterns of the network proxy (\<^verbatim>\<open>src/network-proxy/src/policy.rs\<close>): the normal form of
  a host, the patterns of the allow and deny lists, the glob sets they are compiled to, and the
  comparison of patterns that managed settings are enforced with.  The crates \<^verbatim>\<open>globset\<close> and \<^verbatim>\<open>url\<close> are
  the record \<open>net_env\<close>; \<open>documented_globs\<close> and \<open>documented_hosts\<close> are what their documentation says of
  the patterns and names the lists are made of.
\<close>

section \<open>Definitions\<close>

text \<open>
  \<open>glob_builds\<close>: the pattern compiles as a case insensitive glob; \<open>globset_builds\<close>: a set of compiled globs
  builds; \<open>glob_is_match\<close>: the glob of a pattern matches a text; \<open>url_host_parse\<close>: the rendering of the
  host that \<^verbatim>\<open>url::Host::parse\<close> reads; \<open>url_parse\<close>: host and port of the URL that \<^verbatim>\<open>Url::parse\<close> reads;
  \<open>mitm_builds\<close>: the state for intercepted connections can be set up (its key files and the TLS library).
\<close>

record net_env =
  glob_builds :: "ustr \<Rightarrow> bool"
  globset_builds :: "ustr list \<Rightarrow> bool"
  glob_is_match :: "ustr \<Rightarrow> ustr \<Rightarrow> bool"
  url_host_parse :: "ustr \<Rightarrow> ustr option"
  url_parse :: "ustr \<Rightarrow> (ustr option \<times> 16 word option) option"
  mitm_builds :: "bool \<Rightarrow> bool \<Rightarrow> bool"

text \<open>A glob set is the list of the patterns it was built from.\<close>

type_synonym globset = "ustr list"

definition globset_is_match :: "net_env \<Rightarrow> globset \<Rightarrow> ustr \<Rightarrow> bool" where
  "globset_is_match E gs s \<longleftrightarrow> list_ex (\<lambda>p. glob_is_match E p s) gs"

datatype net_policy_error =
    HostIsEmpty
  | UnsupportedGlobalWildcard
  | InvalidGlobPattern ustr
  | GlobSetBuildError

text \<open>\<^verbatim>\<open>str::split_once\<close> with a string delimiter.\<close>

definition split_once_str :: "ustr \<Rightarrow> ustr \<Rightarrow> (ustr \<times> ustr) option" where
  "split_once_str delim s = map_option (\<lambda>i. (take i s, drop (i + length delim) s)) (find_sub s delim)"

subsection \<open>Hosts\<close>

definition unscoped_ip_literal :: "ustr \<Rightarrow> ustr option" where
  "unscoped_ip_literal host =
     (case split_once 37 host of
        None \<Rightarrow> None
      | Some (ip, _) \<Rightarrow> (case parse_ip ip of None \<Rightarrow> None | Some _ \<Rightarrow> Some ip))"

fun scoped_ip_literal :: "ustr list \<Rightarrow> ustr \<Rightarrow> ustr option" where
  "scoped_ip_literal [] host = None"
| "scoped_ip_literal (delimiter # delimiters) host =
     (case split_once_str delimiter host of
        Some (ip, scope) \<Rightarrow>
          if parse_ip ip \<noteq> None then Some (ip @ lit ''%'' @ scope) else scoped_ip_literal delimiters host
      | None \<Rightarrow> scoped_ip_literal delimiters host)"

definition normalize_ip_literal :: "ustr \<Rightarrow> ustr option" where
  "normalize_ip_literal host =
     (if parse_ip host \<noteq> None then Some host else scoped_ip_literal [lit ''%25'', lit ''%''] host)"

definition normalize_dns_host_or_ip_literal :: "ustr \<Rightarrow> ustr" where
  "normalize_dns_host_or_ip_literal host =
     (let host = trim_end_matches (\<lambda>c. c = 46) (to_ascii_lowercase host)
      in case normalize_ip_literal host of Some ip \<Rightarrow> ip | None \<Rightarrow> host)"

definition normalize_host :: "ustr \<Rightarrow> ustr" where
  "normalize_host host =
     (let host = trim host
      in if starts_with host (lit ''['') \<and> 93 \<in> set host
         then normalize_dns_host_or_ip_literal (drop 1 (takeWhile (\<lambda>c. c \<noteq> 93) host))
         else if length (filter (\<lambda>c. c = 58) host) = 1
         then normalize_dns_host_or_ip_literal (takeWhile (\<lambda>c. c \<noteq> 58) host)
         else normalize_dns_host_or_ip_literal host)"

text \<open>A \<^verbatim>\<open>Host\<close> is its normal form.\<close>

definition host_parse :: "ustr \<Rightarrow> (net_policy_error, ustr) result" where
  "host_parse s = (let normalized = normalize_host s in if normalized = [] then Err HostIsEmpty else Ok normalized)"

definition is_loopback_host :: "ustr \<Rightarrow> bool" where
  "is_loopback_host host =
     (let host = (case unscoped_ip_literal host of Some ip \<Rightarrow> ip | None \<Rightarrow> host)
      in if host = lit ''localhost'' then True
         else case parse_ip host of Some ip \<Rightarrow> ip_is_loopback ip | None \<Rightarrow> False)"

subsection \<open>Patterns\<close>

datatype domain_pattern =
    ApexAndSubdomains ustr
  | SubdomainsOnly ustr
  | Exact ustr

definition parse_domain :: "ustr \<Rightarrow> (ustr \<Rightarrow> domain_pattern) \<Rightarrow> domain_pattern" where
  "parse_domain domain build =
     (let domain = trim domain in if domain = [] then Exact [] else build domain)"

definition domain_pattern_parse :: "ustr \<Rightarrow> domain_pattern" where
  "domain_pattern_parse s =
     (let s = trim s
      in if s = [] then Exact []
         else case strip_prefix s (lit ''**.'') of
                Some domain \<Rightarrow> parse_domain domain ApexAndSubdomains
              | None \<Rightarrow>
                  (case strip_prefix s (lit ''*.'') of
                     Some domain \<Rightarrow> parse_domain domain SubdomainsOnly
                   | None \<Rightarrow> Exact s))"

text \<open>A trailing bracket is cut off with the leading one; the text \<^verbatim>\<open>"["\<close> alone has no trailing bracket.\<close>

definition parse_domain_for_constraints :: "net_env \<Rightarrow> ustr \<Rightarrow> ustr" where
  "parse_domain_for_constraints E domain =
     (let domain = trim_end_matches (\<lambda>c. c = 46) (trim domain)
      in if domain = [] then []
         else let host = (if starts_with domain (lit ''['') \<and> ends_with domain (lit '']'')
                          then butlast (tl domain) else domain)
              in if 42 \<in> set host \<or> 63 \<in> set host \<or> 37 \<in> set host then domain
                 else case url_host_parse E host of Some h \<Rightarrow> h | None \<Rightarrow> [])"

definition parse_for_constraints :: "net_env \<Rightarrow> ustr \<Rightarrow> domain_pattern" where
  "parse_for_constraints E s =
     (let s = trim s
      in if s = [] then Exact []
         else case strip_prefix s (lit ''**.'') of
                Some domain \<Rightarrow> ApexAndSubdomains (parse_domain_for_constraints E domain)
              | None \<Rightarrow>
                  (case strip_prefix s (lit ''*.'') of
                     Some domain \<Rightarrow> SubdomainsOnly (parse_domain_for_constraints E domain)
                   | None \<Rightarrow> Exact (parse_domain_for_constraints E s)))"

definition expand_domain_pattern :: "ustr \<Rightarrow> ustr list" where
  "expand_domain_pattern pattern =
     (case domain_pattern_parse pattern of
        Exact domain \<Rightarrow> [domain]
      | SubdomainsOnly domain \<Rightarrow> [lit ''?*.'' @ domain]
      | ApexAndSubdomains domain \<Rightarrow> [domain, lit ''?*.'' @ domain])"

definition normalize_pattern :: "ustr \<Rightarrow> ustr" where
  "normalize_pattern pattern =
     (let pattern = trim pattern
      in if pattern = lit ''*'' then lit ''*''
         else let (prefix, remainder) =
                (case strip_prefix pattern (lit ''**.'') of
                   Some domain \<Rightarrow> (lit ''**.'', domain)
                 | None \<Rightarrow>
                     (case strip_prefix pattern (lit ''*.'') of
                        Some domain \<Rightarrow> (lit ''*.'', domain)
                      | None \<Rightarrow> ([], pattern)));
                remainder = normalize_host remainder
              in if prefix = [] then remainder else prefix @ remainder)"

definition is_global_wildcard_domain_pattern :: "ustr \<Rightarrow> bool" where
  "is_global_wildcard_domain_pattern pattern =
     list_ex (\<lambda>candidate. candidate = lit ''*'') (expand_domain_pattern (normalize_pattern pattern))"

subsection \<open>Glob sets\<close>

datatype global_wildcard = AllowWildcard | RejectWildcard

text \<open>The inner loop: the candidates of one pattern that are new, appended to the builder.\<close>

fun add_candidates :: "net_env \<Rightarrow> ustr list \<Rightarrow> globset \<Rightarrow> (net_policy_error, globset) result" where
  "add_candidates E [] builder = Ok builder"
| "add_candidates E (candidate # candidates) builder =
     (if candidate \<in> set builder then add_candidates E candidates builder
      else if glob_builds E candidate then add_candidates E candidates (builder @ [candidate])
      else Err (InvalidGlobPattern candidate))"

fun add_patterns ::
  "net_env \<Rightarrow> global_wildcard \<Rightarrow> ustr list \<Rightarrow> globset \<Rightarrow> (net_policy_error, globset) result" where
  "add_patterns E global_wildcard [] builder = Ok builder"
| "add_patterns E global_wildcard (pattern # patterns) builder =
     (if global_wildcard = RejectWildcard \<and> is_global_wildcard_domain_pattern pattern
      then Err UnsupportedGlobalWildcard
      else case add_candidates E (expand_domain_pattern (normalize_pattern pattern)) builder of
             Err e \<Rightarrow> Err e
           | Ok builder \<Rightarrow> add_patterns E global_wildcard patterns builder)"

definition compile_globset_with_policy ::
  "net_env \<Rightarrow> ustr list \<Rightarrow> global_wildcard \<Rightarrow> (net_policy_error, globset) result" where
  "compile_globset_with_policy E patterns global_wildcard =
     (case add_patterns E global_wildcard patterns [] of
        Err e \<Rightarrow> Err e
      | Ok builder \<Rightarrow> if globset_builds E builder then Ok builder else Err GlobSetBuildError)"

definition compile_allowlist_globset :: "net_env \<Rightarrow> ustr list \<Rightarrow> (net_policy_error, globset) result" where
  "compile_allowlist_globset E patterns = compile_globset_with_policy E patterns AllowWildcard"

definition compile_denylist_globset :: "net_env \<Rightarrow> ustr list \<Rightarrow> (net_policy_error, globset) result" where
  "compile_denylist_globset E patterns = compile_globset_with_policy E patterns RejectWildcard"

subsection \<open>Comparison of patterns\<close>

definition normalize_domain :: "ustr \<Rightarrow> ustr" where
  "normalize_domain domain = to_ascii_lowercase (trim_end_matches (\<lambda>c. c = 46) domain)"

definition domain_eq :: "ustr \<Rightarrow> ustr \<Rightarrow> bool" where
  "domain_eq left right \<longleftrightarrow> normalize_domain left = normalize_domain right"

definition is_subdomain_or_equal :: "ustr \<Rightarrow> ustr \<Rightarrow> bool" where
  "is_subdomain_or_equal child parent =
     (let child = normalize_domain child; parent = normalize_domain parent
      in if child = parent then True else ends_with child (lit ''.'' @ parent))"

definition is_strict_subdomain :: "ustr \<Rightarrow> ustr \<Rightarrow> bool" where
  "is_strict_subdomain child parent =
     (let child = normalize_domain child; parent = normalize_domain parent
      in child \<noteq> parent \<and> ends_with child (lit ''.'' @ parent))"

fun allows :: "domain_pattern \<Rightarrow> domain_pattern \<Rightarrow> bool" where
  "allows (Exact domain) (Exact candidate) = domain_eq candidate domain"
| "allows (Exact domain) _ = False"
| "allows (SubdomainsOnly domain) (Exact candidate) = is_strict_subdomain candidate domain"
| "allows (SubdomainsOnly domain) (SubdomainsOnly candidate) = is_subdomain_or_equal candidate domain"
| "allows (SubdomainsOnly domain) (ApexAndSubdomains candidate) = is_strict_subdomain candidate domain"
| "allows (ApexAndSubdomains domain) (Exact candidate) = is_subdomain_or_equal candidate domain"
| "allows (ApexAndSubdomains domain) (SubdomainsOnly candidate) = is_subdomain_or_equal candidate domain"
| "allows (ApexAndSubdomains domain) (ApexAndSubdomains candidate) = is_subdomain_or_equal candidate domain"

section \<open>What the glob sets match\<close>

text \<open>The hosts a pattern stands for.\<close>

definition below :: "ustr \<Rightarrow> ustr \<Rightarrow> bool" where
  "below d h \<longleftrightarrow> (\<exists>x. x \<noteq> [] \<and> h = x @ 46 # d)"

lemma below_code [code]: "below d h \<longleftrightarrow> suffix (46 # d) h \<and> length d + 1 < length h"
  by (auto simp: below_def suffix_def)

fun covers :: "domain_pattern \<Rightarrow> ustr \<Rightarrow> bool" where
  "covers (Exact d) h \<longleftrightarrow> h = d"
| "covers (SubdomainsOnly d) h \<longleftrightarrow> below d h"
| "covers (ApexAndSubdomains d) h \<longleftrightarrow> h = d \<or> below d h"

text \<open>
  Simple names: ASCII letters, digits, hyphens, underscores and dots, the first character and the last no dot.
  In a plain name, the last label does not start with a digit, so that the name is not read as an IPv4 address, and no
  label is an encoded international one.
\<close>

definition name_char :: "uchar \<Rightarrow> bool" where
  "name_char c \<longleftrightarrow> is_ascii_alphanumeric c \<or> c = 45 \<or> c = 46 \<or> c = 95"

definition simple_name :: "ustr \<Rightarrow> bool" where
  "simple_name d \<longleftrightarrow> d \<noteq> [] \<and> list_all name_char d \<and> hd d \<noteq> 46 \<and> last d \<noteq> 46"

definition plain_name :: "ustr \<Rightarrow> bool" where
  "plain_name d \<longleftrightarrow>
     simple_name d \<and> \<not> is_ascii_digit (hd (last (split_char 46 d))) \<and> \<not> contains_sub (to_ascii_lowercase d) (lit ''xn--'')"

fun pattern_text :: "domain_pattern \<Rightarrow> ustr" where
  "pattern_text (Exact d) = d"
| "pattern_text (SubdomainsOnly d) = lit ''*.'' @ d"
| "pattern_text (ApexAndSubdomains d) = lit ''**.'' @ d"

fun pattern_domain :: "domain_pattern \<Rightarrow> ustr" where
  "pattern_domain (Exact d) = d"
| "pattern_domain (SubdomainsOnly d) = d"
| "pattern_domain (ApexAndSubdomains d) = d"

fun lower_pattern :: "domain_pattern \<Rightarrow> domain_pattern" where
  "lower_pattern (Exact d) = Exact (to_ascii_lowercase d)"
| "lower_pattern (SubdomainsOnly d) = SubdomainsOnly (to_ascii_lowercase d)"
| "lower_pattern (ApexAndSubdomains d) = ApexAndSubdomains (to_ascii_lowercase d)"

abbreviation plain_pattern :: "domain_pattern \<Rightarrow> bool" where
  "plain_pattern p \<equiv> plain_name (pattern_domain p)"

text \<open>
  The documentation of \<^verbatim>\<open>globset\<close>: a pattern without special characters matches itself, \<^verbatim>\<open>?\<close> one character
  and \<^verbatim>\<open>*\<close> any number of them, case aside.
\<close>

definition documented_globs :: "net_env \<Rightarrow> bool" where
  "documented_globs E \<longleftrightarrow>
     (\<forall>d h. list_all name_char d \<longrightarrow> (glob_is_match E d h \<longleftrightarrow> eq_ignore_ascii_case h d))
     \<and> (\<forall>d h. list_all name_char d \<longrightarrow>
          (glob_is_match E (lit ''?*.'' @ d) h \<longleftrightarrow> (\<exists>x y. x \<noteq> [] \<and> h = x @ 46 # y \<and> eq_ignore_ascii_case y d)))"

text \<open>The documentation of \<^verbatim>\<open>url\<close>: a plain name is read as a domain, which is rendered in lower case.\<close>

definition documented_hosts :: "net_env \<Rightarrow> bool" where
  "documented_hosts E \<longleftrightarrow> (\<forall>d. plain_name d \<longrightarrow> url_host_parse E d = Some (to_ascii_lowercase d))"

section \<open>Names\<close>

lemma plain_simple [simp]: "plain_name d \<Longrightarrow> simple_name d"
  by (simp add: plain_name_def)

lemma name_char_ordinary:
  "name_char c \<Longrightarrow> \<not> is_whitespace c \<and> c \<noteq> 37 \<and> c \<noteq> 42 \<and> c \<noteq> 58 \<and> c \<noteq> 63 \<and> c \<noteq> 91 \<and> c \<noteq> 93"
  by (auto simp: name_char_def is_ascii_alphanumeric_def is_whitespace_def)

lemma simple_name_chars:
  assumes "simple_name d" and "c \<in> set d"
  shows "name_char c"
  using assms by (simp add: simple_name_def list_all_iff)

lemma simple_name_ends: "simple_name d \<Longrightarrow> d \<noteq> [] \<and> hd d \<noteq> 46 \<and> last d \<noteq> 46"
  by (simp add: simple_name_def)

lemma simple_name_trimmed: "simple_name d \<Longrightarrow> trimmed d"
  using name_char_ordinary [OF simple_name_chars] simple_name_ends by (fastforce simp: trimmed_def)

lemma simple_name_absent:
  assumes "simple_name d"
  shows "37 \<notin> set d" "42 \<notin> set d" "58 \<notin> set d" "63 \<notin> set d" "91 \<notin> set d" "93 \<notin> set d"
  using name_char_ordinary [OF simple_name_chars [OF assms]] by blast+

lemma lowercase_char_neq: "c < 97 \<or> 122 < c \<Longrightarrow> to_ascii_lowercase_char x = c \<Longrightarrow> x = c"
  by (auto simp: to_ascii_lowercase_char_def split: if_splits)

lemma lowercase_set: "c < 97 \<or> 122 < c \<Longrightarrow> c \<in> set (to_ascii_lowercase s) \<Longrightarrow> c \<in> set s"
  by (auto simp: to_ascii_lowercase_def to_ascii_lowercase_char_def split: if_splits)

lemma to_ascii_lowercase_idem [simp]: "to_ascii_lowercase (to_ascii_lowercase s) = to_ascii_lowercase s"
  by (auto simp: to_ascii_lowercase_def to_ascii_lowercase_char_def)

lemma to_ascii_lowercase_append [simp]:
  "to_ascii_lowercase (s @ t) = to_ascii_lowercase s @ to_ascii_lowercase t"
  by (simp add: to_ascii_lowercase_def)

lemma to_ascii_lowercase_Nil [simp]: "to_ascii_lowercase s = [] \<longleftrightarrow> s = []"
  by (simp add: to_ascii_lowercase_def)

lemma find_sub_absent: "c \<in> set n \<Longrightarrow> c \<notin> set s \<Longrightarrow> find_sub s n = None"
  unfolding find_sub_None by (metis in_set_dropD set_mono_prefix subsetD)

lemma normalize_ip_literal_unscoped:
  assumes "37 \<notin> set h"
  shows "(case normalize_ip_literal h of Some ip \<Rightarrow> ip | None \<Rightarrow> h) = h"
proof -
  have "split_once_str (37 # p) h = None" for p
    using assms find_sub_absent [of 37 "37 # p" h] by (simp add: split_once_str_def)
  then show ?thesis by (simp add: normalize_ip_literal_def)
qed

lemma lower_last_neq: "s \<noteq> [] \<Longrightarrow> last s \<noteq> 46 \<Longrightarrow> last (to_ascii_lowercase s) \<noteq> 46"
  using lowercase_char_neq [of 46 "last s"] by (auto simp: to_ascii_lowercase_def last_map)

lemma normalize_dns_simple:
  assumes "simple_name d"
  shows "normalize_dns_host_or_ip_literal d = to_ascii_lowercase d"
proof -
  have "trim_end_matches (\<lambda>c. c = 46) (to_ascii_lowercase d) = to_ascii_lowercase d"
    using simple_name_ends [OF assms] lower_last_neq by (intro trim_end_matches_id) blast
  moreover have "37 \<notin> set (to_ascii_lowercase d)"
    using simple_name_absent(1) [OF assms] lowercase_set [of 37 d] by auto
  ultimately show ?thesis
    by (simp add: normalize_dns_host_or_ip_literal_def normalize_ip_literal_unscoped)
qed

lemma normalize_host_simple:
  assumes "simple_name d"
  shows "normalize_host d = to_ascii_lowercase d"
proof -
  have "filter (\<lambda>c. c = 58) d = []" using simple_name_absent(3) [OF assms] by (auto simp: filter_empty_conv)
  moreover have "\<not> prefix [91] d" using simple_name_absent(5) [OF assms] by (auto simp: prefix_def)
  ultimately show ?thesis
    using assms by (simp add: normalize_host_def simple_name_trimmed normalize_dns_simple)
qed

lemma simple_name_not_wild:
  assumes "simple_name d"
  shows "\<not> prefix (42 # p) d"
  using simple_name_absent(2) [OF assms] by (auto simp: prefix_def)

lemma name_chars_lower: "list_all name_char d \<Longrightarrow> list_all name_char (to_ascii_lowercase d)"
  by (auto simp: list_all_iff to_ascii_lowercase_def name_char_def is_ascii_alphanumeric_def to_ascii_lowercase_char_def)

lemma trimmed_wild: "trimmed s \<Longrightarrow> s \<noteq> [] \<Longrightarrow> trimmed (42 # 46 # s) \<and> trimmed (42 # 42 # 46 # s)"
  by (simp add: trimmed_def is_whitespace_def)

lemma normalize_pattern_text:
  assumes "plain_pattern p"
  shows "normalize_pattern (pattern_text p) = pattern_text (lower_pattern p)"
  using assms simple_name_ends [OF plain_simple [OF assms]] simple_name_absent(2) [OF plain_simple [OF assms]]
    trimmed_wild [OF simple_name_trimmed [OF plain_simple [OF assms]]]
  by (cases p)
     (auto simp: normalize_pattern_def simple_name_trimmed simple_name_not_wild normalize_host_simple strip_prefix_def Let_def)

lemma domain_pattern_parse_text:
  assumes "plain_pattern p"
  shows "domain_pattern_parse (pattern_text p) = p"
  using assms simple_name_ends [OF plain_simple [OF assms]] trimmed_wild [OF simple_name_trimmed [OF plain_simple [OF assms]]]
  by (cases p)
     (auto simp: domain_pattern_parse_def parse_domain_def simple_name_trimmed simple_name_not_wild strip_prefix_def Let_def)

lemma parse_domain_for_constraints_plain:
  assumes "documented_hosts E" and "plain_name d"
  shows "parse_domain_for_constraints E d = to_ascii_lowercase d"
proof -
  have "\<not> prefix [91] d" using simple_name_absent(5) [OF plain_simple [OF assms(2)]] by (auto simp: prefix_def)
  then show ?thesis
    using assms simple_name_ends [OF plain_simple [OF assms(2)]] simple_name_absent [OF plain_simple [OF assms(2)]]
    by (simp add: parse_domain_for_constraints_def simple_name_trimmed documented_hosts_def)
qed

lemma parse_for_constraints_text:
  assumes "documented_hosts E" and "plain_pattern p"
  shows "parse_for_constraints E (pattern_text p) = lower_pattern p"
  using assms simple_name_ends [OF plain_simple [OF assms(2)]] trimmed_wild [OF simple_name_trimmed [OF plain_simple [OF assms(2)]]]
  by (cases p)
     (auto simp: parse_for_constraints_def parse_domain_for_constraints_plain simple_name_trimmed simple_name_not_wild
        strip_prefix_def Let_def)

section \<open>Compiled lists\<close>

lemma add_candidates_set: "add_candidates E cs b = Ok b' \<Longrightarrow> set b' = set b \<union> set cs"
  by (induction cs arbitrary: b) (auto split: if_splits)

lemma add_patterns_set:
  "add_patterns E g ps b = Ok b' \<Longrightarrow>
   set b' = set b \<union> (\<Union>p\<in>set ps. set (expand_domain_pattern (normalize_pattern p)))"
  by (induction ps arbitrary: b) (auto dest!: add_candidates_set split: if_splits result.splits)

lemma compile_globset_set:
  "compile_globset_with_policy E ps g = Ok gs \<Longrightarrow>
   set gs = (\<Union>p\<in>set ps. set (expand_domain_pattern (normalize_pattern p)))"
  by (auto simp: compile_globset_with_policy_def dest!: add_patterns_set split: if_splits result.splits)

text \<open>The candidates of a plain pattern match exactly the hosts it covers.\<close>

lemma lower_plain_text:
  assumes "plain_pattern p"
  shows "domain_pattern_parse (pattern_text (lower_pattern p)) = lower_pattern p"
proof -
  let ?d = "to_ascii_lowercase (pattern_domain p)"
  have ne: "?d \<noteq> []" using simple_name_ends [OF plain_simple [OF assms]] by simp
  have "list_all name_char ?d" using assms by (simp add: plain_name_def simple_name_def name_chars_lower)
  then have c: "name_char c" if "c \<in> set ?d" for c using that by (simp add: list_all_iff)
  have t: "trimmed ?d" using ne name_char_ordinary [OF c] by (auto simp: trimmed_def)
  have "\<not> prefix (42 # q) ?d" for q using name_char_ordinary [OF c, of 42] by (auto simp: prefix_def)
  with ne t trimmed_wild [OF t ne] show ?thesis
    by (cases p) (auto simp: domain_pattern_parse_def parse_domain_def strip_prefix_def Let_def)
qed

lemma lower_split: "(\<exists>x y. x \<noteq> [] \<and> h = x @ 46 # y \<and> to_ascii_lowercase y = d)
    \<longleftrightarrow> (\<exists>x. x \<noteq> [] \<and> to_ascii_lowercase h = x @ 46 # d)"
proof
  assume "\<exists>x. x \<noteq> [] \<and> to_ascii_lowercase h = x @ 46 # d"
  then obtain x where x: "x \<noteq> []" "to_ascii_lowercase h = x @ 46 # d" by blast
  from x(2) obtain x' r where r: "h = x' @ r" "x = to_ascii_lowercase x'" "to_ascii_lowercase r = 46 # d"
    unfolding to_ascii_lowercase_def map_eq_append_conv by metis
  from r(3) obtain c y where "r = c # y" "to_ascii_lowercase_char c = 46" "to_ascii_lowercase y = d"
    unfolding to_ascii_lowercase_def map_eq_Cons_conv by metis
  with r have h: "h = x' @ c # y" "x = to_ascii_lowercase x'" "to_ascii_lowercase_char c = 46"
      "d = to_ascii_lowercase y" by simp_all
  have "c = 46" by (rule lowercase_char_neq) (use h(3) in simp_all)
  with x h show "\<exists>x y. x \<noteq> [] \<and> h = x @ 46 # y \<and> to_ascii_lowercase y = d" by auto
qed (auto simp: to_ascii_lowercase_def to_ascii_lowercase_char_def)

lemma candidates_match:
  assumes E: "documented_globs E" and p: "plain_pattern p"
  shows "globset_is_match E (expand_domain_pattern (normalize_pattern (pattern_text p))) h
    \<longleftrightarrow> covers (lower_pattern p) (to_ascii_lowercase h)"
proof -
  have "list_all name_char (pattern_domain p)" using p by (simp add: plain_name_def simple_name_def)
  then have l: "list_all name_char (to_ascii_lowercase (pattern_domain p))" by (rule name_chars_lower)
  let ?d = "to_ascii_lowercase (pattern_domain p)"
  have "glob_is_match E ?d h \<longleftrightarrow> to_ascii_lowercase h = ?d"
    using E l by (simp add: documented_globs_def eq_ignore_ascii_case_def)
  moreover have "glob_is_match E (63 # 42 # 46 # ?d) h \<longleftrightarrow> below ?d (to_ascii_lowercase h)"
    using E l lower_split [of h ?d] by (simp add: below_def documented_globs_def eq_ignore_ascii_case_def)
  moreover have "domain_pattern_parse (normalize_pattern (pattern_text p)) = lower_pattern p"
    using p by (simp add: normalize_pattern_text lower_plain_text)
  ultimately show ?thesis
    by (cases p) (simp_all add: expand_domain_pattern_def globset_is_match_def)
qed

lemma compiled_match:
  assumes "documented_globs E" and "compile_globset_with_policy E (map pattern_text ps) g = Ok gs"
    and "\<forall>p\<in>set ps. plain_pattern p"
  shows "globset_is_match E gs h \<longleftrightarrow> (\<exists>p\<in>set ps. covers (lower_pattern p) (to_ascii_lowercase h))"
proof -
  have "globset_is_match E gs h
      \<longleftrightarrow> (\<exists>p\<in>set ps. globset_is_match E (expand_domain_pattern (normalize_pattern (pattern_text p))) h)"
    using compile_globset_set [OF assms(2)] by (auto simp: globset_is_match_def list_ex_iff)
  with candidates_match [OF assms(1)] assms(3) show ?thesis by blast
qed

text \<open>Entries of a list that are plain patterns, and the hosts they stand for.\<close>

definition plain_entry :: "ustr \<Rightarrow> bool" where
  "plain_entry t \<longleftrightarrow> plain_pattern (domain_pattern_parse t) \<and> pattern_text (domain_pattern_parse t) = t"

definition entry_covers :: "ustr \<Rightarrow> ustr \<Rightarrow> bool" where
  "entry_covers t h \<longleftrightarrow> covers (lower_pattern (domain_pattern_parse t)) (to_ascii_lowercase h)"

lemma compiled_entries_match:
  assumes "documented_globs E" and "compile_globset_with_policy E ts g = Ok gs" and "list_all plain_entry ts"
  shows "globset_is_match E gs h \<longleftrightarrow> list_ex (\<lambda>t. entry_covers t h) ts"
proof -
  have "map pattern_text (map domain_pattern_parse ts) = ts"
    using assms(3) by (simp add: list_all_iff plain_entry_def map_idI)
  then have "globset_is_match E gs h \<longleftrightarrow> (\<exists>p\<in>set (map domain_pattern_parse ts). covers (lower_pattern p) (to_ascii_lowercase h))"
    using assms by (intro compiled_match) (auto simp: list_all_iff plain_entry_def)
  then show ?thesis by (simp add: entry_covers_def list_ex_iff)
qed

text \<open>Entries that are equal but for case stand for the same hosts.\<close>

lemma entry_covers_case:
  assumes "plain_entry a" and "plain_entry b" and "to_ascii_lowercase a = to_ascii_lowercase b"
  shows "entry_covers a h = entry_covers b h"
proof -
  have "to_ascii_lowercase (pattern_text p) = pattern_text (lower_pattern p)" for p
    by (cases p) (simp_all add: to_ascii_lowercase_def to_ascii_lowercase_char_def)
  then have "pattern_text (lower_pattern (domain_pattern_parse a)) = pattern_text (lower_pattern (domain_pattern_parse b))"
    using assms by (metis plain_entry_def)
  then have "domain_pattern_parse (pattern_text (lower_pattern (domain_pattern_parse a)))
      = domain_pattern_parse (pattern_text (lower_pattern (domain_pattern_parse b)))" by (rule arg_cong)
  then have "lower_pattern (domain_pattern_parse a) = lower_pattern (domain_pattern_parse b)"
    using assms by (simp add: lower_plain_text plain_entry_def)
  then show ?thesis by (simp add: entry_covers_def)
qed

text \<open>A text that equals a plain entry but for case is a plain entry.\<close>

lemma lowercase_same_char: "to_ascii_lowercase_char a = to_ascii_lowercase_char b \<Longrightarrow> name_char a = name_char b"
  "to_ascii_lowercase_char a = to_ascii_lowercase_char b \<Longrightarrow> is_ascii_digit a = is_ascii_digit b"
  "to_ascii_lowercase_char a = to_ascii_lowercase_char b \<Longrightarrow> c < 65 \<Longrightarrow> a = c \<longleftrightarrow> b = c"
  by (auto simp: to_ascii_lowercase_char_def name_char_def is_ascii_alphanumeric_def is_ascii_digit_def split: if_splits)

lemma lowercase_Cons:
  "to_ascii_lowercase a = c # cs \<longleftrightarrow> (\<exists>x xs. a = x # xs \<and> to_ascii_lowercase_char x = c \<and> to_ascii_lowercase xs = cs)"
  by (auto simp: to_ascii_lowercase_def map_eq_Cons_conv)

lemma lowercase_list_all2:
  "to_ascii_lowercase a = to_ascii_lowercase b \<longleftrightarrow> list_all2 (\<lambda>x y. to_ascii_lowercase_char x = to_ascii_lowercase_char y) a b"
  by (auto simp: to_ascii_lowercase_def list_all2_conv_all_nth list_eq_iff_nth_eq)

lemma split_char_case:
  assumes "list_all2 (\<lambda>x y. to_ascii_lowercase_char x = to_ascii_lowercase_char y) a b" and "c < 65"
  shows "list_all2 (list_all2 (\<lambda>x y. to_ascii_lowercase_char x = to_ascii_lowercase_char y)) (split_char c a) (split_char c b)"
  using assms(1)
proof (induction rule: list_all2_induct)
  case (Cons x xs y ys)
  then show ?case using lowercase_same_char(3) [OF Cons.hyps(1) assms(2)]
    by (cases "split_char c xs"; cases "split_char c ys") auto
qed simp

lemma last_split_nonempty: "d \<noteq> [] \<Longrightarrow> last d \<noteq> c \<Longrightarrow> last (split_char c d) \<noteq> []"
proof (induction d)
  case (Cons x xs)
  then show ?case by (cases "xs = []"; cases "split_char c xs") auto
qed simp

lemma list_all2_last: "list_all2 P a b \<Longrightarrow> a \<noteq> [] \<Longrightarrow> P (last a) (last b)"
  by (induction rule: list_all2_induct) auto

lemma list_all2_hd: "list_all2 P a b \<Longrightarrow> a \<noteq> [] \<Longrightarrow> P (hd a) (hd b)"
  by (cases a; cases b) auto

lemma plain_name_case:
  assumes "plain_name d" and "to_ascii_lowercase c = to_ascii_lowercase d"
  shows "plain_name c"
proof -
  let ?R = "\<lambda>x y. to_ascii_lowercase_char x = to_ascii_lowercase_char y"
  have r: "list_all2 ?R d c" using assms(2) by (simp add: lowercase_list_all2 [symmetric])
  have d: "d \<noteq> []" "list_all name_char d" "hd d \<noteq> 46" "last d \<noteq> 46" using assms(1) by (auto simp: plain_name_def simple_name_def)
  from r d(2) have "list_all name_char c"
    by (induction rule: list_all2_induct) (auto dest: lowercase_same_char(1))
  moreover have "c \<noteq> []" "hd c \<noteq> 46" "last c \<noteq> 46"
    using list_all2_lengthD [OF r] d(1,3,4) lowercase_same_char(3) [OF list_all2_hd [OF r d(1)], of 46]
      lowercase_same_char(3) [OF list_all2_last [OF r d(1)], of 46]
    by auto
  moreover have "is_ascii_digit (hd (last (split_char 46 c))) = is_ascii_digit (hd (last (split_char 46 d)))"
    using lowercase_same_char(2) [OF list_all2_hd [OF list_all2_last [OF split_char_case [OF r, of 46]]]] last_split_nonempty [OF d(1,4)]
    by simp
  ultimately show ?thesis using assms by (simp add: plain_name_def simple_name_def)
qed

lemma plain_entry_text: "plain_entry t \<longleftrightarrow> (\<exists>p. plain_pattern p \<and> t = pattern_text p)"
  by (auto simp: plain_entry_def domain_pattern_parse_text intro: sym)

lemma plain_entry_case:
  assumes "plain_entry m" and "to_ascii_lowercase c = to_ascii_lowercase m"
  shows "plain_entry c"
proof -
  obtain p where p: "plain_pattern p" "m = pattern_text p" using assms(1) by (auto simp: plain_entry_text)
  have star: "to_ascii_lowercase_char x = 42 \<Longrightarrow> x = 42" "to_ascii_lowercase_char x = 46 \<Longrightarrow> x = 46" for x
    by (auto simp: to_ascii_lowercase_char_def split: if_splits)
  have low: "to_ascii_lowercase (x # xs) = to_ascii_lowercase_char x # to_ascii_lowercase xs" for x xs
    by (simp add: to_ascii_lowercase_def)
  have fixed: "to_ascii_lowercase_char 42 = 42" "to_ascii_lowercase_char 46 = 46" by (simp_all add: to_ascii_lowercase_char_def)
  show ?thesis
  proof (cases p)
    case (Exact d)
    then have "plain_name c" using plain_name_case [of d c] p assms(2) by simp
    then show ?thesis unfolding plain_entry_text by (intro exI [of _ "Exact c"]) simp
  next
    case (SubdomainsOnly d)
    with p assms(2) have "to_ascii_lowercase c = 42 # 46 # to_ascii_lowercase d" by (simp add: low fixed)
    then obtain e where "c = 42 # 46 # e" "to_ascii_lowercase e = to_ascii_lowercase d" by (auto simp: lowercase_Cons dest!: star)
    then show ?thesis using plain_name_case [of d e] p(1) SubdomainsOnly unfolding plain_entry_text
      by (intro exI [of _ "SubdomainsOnly e"]) simp
  next
    case (ApexAndSubdomains d)
    with p assms(2) have "to_ascii_lowercase c = 42 # 42 # 46 # to_ascii_lowercase d" by (simp add: low fixed)
    then obtain e where "c = 42 # 42 # 46 # e" "to_ascii_lowercase e = to_ascii_lowercase d" by (auto simp: lowercase_Cons dest!: star)
    then show ?thesis using plain_name_case [of d e] p(1) ApexAndSubdomains unfolding plain_entry_text
      by (intro exI [of _ "ApexAndSubdomains e"]) simp
  qed
qed

section \<open>Patterns compare as the hosts they cover\<close>

lemma normalize_domain_plain: "plain_name d \<Longrightarrow> normalize_domain (to_ascii_lowercase d) = to_ascii_lowercase d"
  using simple_name_ends lower_last_neq by (simp add: normalize_domain_def)

lemma below_suffix: "hd a \<noteq> 46 \<Longrightarrow> suffix (46 # b) a \<longleftrightarrow> below b a"
  by (auto simp: suffix_def below_def)

lemma below_irrefl: "\<not> below a a"
  using append_same_eq [of _ a "[]"] by (auto simp: below_def)

lemma below_trans: "below b a \<Longrightarrow> below a h \<Longrightarrow> below b h"
  by (auto simp: below_def)

lemma below_letter: "below a (y # 46 # a)"
  unfolding below_def by (rule exI [of _ "[y]"]) simp

text \<open>The subdomains of a name are among those of another when the name is the other or one of them.\<close>

lemma below_included:
  assumes "hd a \<noteq> 46"
  shows "(\<forall>h. below a h \<longrightarrow> below b h) \<longleftrightarrow> a = b \<or> below b a"
proof
  assume "\<forall>h. below a h \<longrightarrow> below b h"
  then have "below b (97 # 46 # a)" using below_letter by blast
  then obtain x where x: "x \<noteq> []" "97 # 46 # a = x @ 46 # b" by (auto simp: below_def)
  then have "a = b \<or> suffix (46 # b) a" by (cases x; cases "tl x") (auto simp: suffix_def)
  with assms show "a = b \<or> below b a" by (simp add: below_suffix)
qed (use below_trans in blast)

lemma lower_hd_neq: "s \<noteq> [] \<Longrightarrow> hd s \<noteq> 46 \<Longrightarrow> hd (to_ascii_lowercase s) \<noteq> 46"
  using lowercase_char_neq [of 46 "hd s"] by (auto simp: to_ascii_lowercase_def hd_map)

text \<open>Inclusion of the hosts two patterns cover, case by case.\<close>

lemma covers_included:
  assumes "hd a \<noteq> 46"
  shows "(\<forall>h. covers (Exact a) h \<longrightarrow> covers (Exact b) h) \<longleftrightarrow> a = b"
    "(\<forall>h. covers (SubdomainsOnly a) h \<longrightarrow> covers (Exact b) h) \<longleftrightarrow> False"
    "(\<forall>h. covers (ApexAndSubdomains a) h \<longrightarrow> covers (Exact b) h) \<longleftrightarrow> False"
    "(\<forall>h. covers (Exact a) h \<longrightarrow> covers (SubdomainsOnly b) h) \<longleftrightarrow> below b a"
    "(\<forall>h. covers (SubdomainsOnly a) h \<longrightarrow> covers (SubdomainsOnly b) h) \<longleftrightarrow> a = b \<or> below b a"
    "(\<forall>h. covers (ApexAndSubdomains a) h \<longrightarrow> covers (SubdomainsOnly b) h) \<longleftrightarrow> below b a"
    "(\<forall>h. covers (Exact a) h \<longrightarrow> covers (ApexAndSubdomains b) h) \<longleftrightarrow> a = b \<or> below b a"
    "(\<forall>h. covers (SubdomainsOnly a) h \<longrightarrow> covers (ApexAndSubdomains b) h) \<longleftrightarrow> a = b \<or> below b a"
    "(\<forall>h. covers (ApexAndSubdomains a) h \<longrightarrow> covers (ApexAndSubdomains b) h) \<longleftrightarrow> a = b \<or> below b a"
proof -
  have y: "(hd b + 1) # 46 # a \<noteq> b" by (cases b) simp_all
  then have two: "\<exists>h. below a h \<and> h \<noteq> b" using below_letter by blast
  show "(\<forall>h. covers (SubdomainsOnly a) h \<longrightarrow> covers (Exact b) h) \<longleftrightarrow> False"
    "(\<forall>h. covers (ApexAndSubdomains a) h \<longrightarrow> covers (Exact b) h) \<longleftrightarrow> False" using two by auto
  show "(\<forall>h. covers (SubdomainsOnly a) h \<longrightarrow> covers (SubdomainsOnly b) h) \<longleftrightarrow> a = b \<or> below b a"
    using below_included [OF assms, of b] by simp
  show "(\<forall>h. covers (SubdomainsOnly a) h \<longrightarrow> covers (ApexAndSubdomains b) h) \<longleftrightarrow> a = b \<or> below b a"
  proof
    assume s: "\<forall>h. covers (SubdomainsOnly a) h \<longrightarrow> covers (ApexAndSubdomains b) h"
    have "below b ((hd b + 1) # 46 # a)" using s y below_letter [of a "hd b + 1"] by auto
    then have "suffix (46 # b) (46 # a)" by (auto simp: below_def suffix_def Cons_eq_append_conv)
    then show "a = b \<or> below b a" using below_suffix [OF assms] by (auto simp: suffix_Cons)
  qed (use below_trans in auto)
qed (use below_trans in auto)

subsection \<open>An environment with the documented behaviour\<close>

definition simple_glob :: "ustr \<Rightarrow> ustr \<Rightarrow> bool" where
  "simple_glob p h =
     (case strip_prefix p (lit ''?*.'') of
        Some d \<Rightarrow> suffix (46 # to_ascii_lowercase d) (to_ascii_lowercase h) \<and> length d + 1 < length h
      | None \<Rightarrow> eq_ignore_ascii_case h p)"

definition simple_net_env :: net_env where
  "simple_net_env =
     \<lparr>glob_builds = \<lambda>_. True, globset_builds = \<lambda>_. True, glob_is_match = simple_glob,
      url_host_parse = \<lambda>d. if plain_name d then Some (to_ascii_lowercase d) else None,
      url_parse = \<lambda>_. None, mitm_builds = \<lambda>_ _. True\<rparr>"

lemma below_exec:
  "below (to_ascii_lowercase d) (to_ascii_lowercase h)
   \<longleftrightarrow> suffix (46 # to_ascii_lowercase d) (to_ascii_lowercase h) \<and> length d + 1 < length h"
  by (simp add: below_code to_ascii_lowercase_def)

lemma simple_net_env_documented: "documented_globs simple_net_env" "documented_hosts simple_net_env"
proof -
  have "strip_prefix d (lit ''?*.'') = None" if "list_all name_char d" for d
    using that by (auto simp: strip_prefix_def prefix_def name_char_def is_ascii_alphanumeric_def)
  then have "simple_glob d h = eq_ignore_ascii_case h d" if "list_all name_char d" for d h
    using that by (simp add: simple_glob_def)
  moreover have "simple_glob (lit ''?*.'' @ d) h = (\<exists>x y. x \<noteq> [] \<and> h = x @ 46 # y \<and> eq_ignore_ascii_case y d)" for d h
  proof -
    have "simple_glob (lit ''?*.'' @ d) h = below (to_ascii_lowercase d) (to_ascii_lowercase h)"
      by (simp add: simple_glob_def below_exec del: lit_def)
    also have "\<dots> = (\<exists>x y. x \<noteq> [] \<and> h = x @ 46 # y \<and> eq_ignore_ascii_case y d)"
      unfolding below_def eq_ignore_ascii_case_def by (rule lower_split [symmetric])
    finally show ?thesis .
  qed
  ultimately show "documented_globs simple_net_env"
    by (simp add: documented_globs_def simple_net_env_def del: lit_def)
  show "documented_hosts simple_net_env" by (simp add: documented_hosts_def simple_net_env_def)
qed

lemma allows_inclusion:
  assumes E: "documented_hosts E" and m: "plain_pattern m" and c: "plain_pattern c"
  shows "allows (parse_for_constraints E (pattern_text m)) (parse_for_constraints E (pattern_text c))
    \<longleftrightarrow> (\<forall>h. covers (lower_pattern c) h \<longrightarrow> covers (lower_pattern m) h)"
proof -
  let ?a = "to_ascii_lowercase (pattern_domain c)" and ?b = "to_ascii_lowercase (pattern_domain m)"
  have n: "normalize_domain ?a = ?a" "normalize_domain ?b = ?b"
    using m c by (simp_all add: normalize_domain_plain)
  have hd: "hd ?a \<noteq> 46" using simple_name_ends [OF plain_simple [OF c]] lower_hd_neq by blast
  have "is_strict_subdomain ?a ?b \<longleftrightarrow> below ?b ?a" "is_subdomain_or_equal ?a ?b \<longleftrightarrow> ?a = ?b \<or> below ?b ?a"
    using below_suffix [OF hd] below_irrefl by (auto simp: is_strict_subdomain_def is_subdomain_or_equal_def n Let_def)
  then have "allows (lower_pattern m) (lower_pattern c)
      \<longleftrightarrow> (\<forall>h. covers (lower_pattern c) h \<longrightarrow> covers (lower_pattern m) h)"
    using covers_included [OF hd, of ?b] n by (cases m; cases c) (simp_all add: domain_eq_def del: covers.simps)
  then show ?thesis by (simp add: parse_for_constraints_text E m c)
qed

text \<open>
  C29: The comparison of patterns that managed settings are enforced with is inclusion.  For patterns over plain
  names, the managed pattern allows the candidate, both as they are read for the comparison, exactly when
  every host the candidate stands for is one that the managed pattern stands for.
\<close>

theorem allows_is_inclusion:
  assumes "documented_hosts E" and "plain_pattern m" and "plain_pattern c"
  shows "allows (parse_for_constraints E (pattern_text m)) (parse_for_constraints E (pattern_text c))
    \<longleftrightarrow> (\<forall>h. covers (lower_pattern c) h \<longrightarrow> covers (lower_pattern m) h)"
  using assms by (rule allows_inclusion)

theorem allows_is_inclusion_witness:
  "allows (parse_for_constraints simple_net_env (lit ''**.example.com'')) (parse_for_constraints simple_net_env (lit ''*.api.example.com''))
   = (\<forall>h. covers (SubdomainsOnly (lit ''api.example.com'')) h \<longrightarrow> covers (ApexAndSubdomains (lit ''example.com'')) h)"
proof -
  have "plain_pattern (ApexAndSubdomains (lit ''example.com''))" "plain_pattern (SubdomainsOnly (lit ''api.example.com''))"
    by code_simp+
  from allows_is_inclusion [OF simple_net_env_documented(2) this] show ?thesis
    by (simp add: to_ascii_lowercase_def to_ascii_lowercase_char_def)
qed

text \<open>
  Entries that the URL parser does not read all compare as the empty name: a managed list with one such entry,
  here a host with a port, allows every other one, and the list is then compiled with the port cut off.
\<close>

lemma unreadable_entries_are_interchangeable:
  assumes "url_host_parse E (lit ''intranet.corp:8443'') = None" and "url_host_parse E (lit ''evil.com:443'') = None"
  shows "allows (parse_for_constraints E (lit ''intranet.corp:8443'')) (parse_for_constraints E (lit ''evil.com:443''))
    \<and> expand_domain_pattern (normalize_pattern (lit ''evil.com:443'')) = [lit ''evil.com'']"
proof -
  have "parse_for_constraints E (lit ''intranet.corp:8443'') = Exact []" "parse_for_constraints E (lit ''evil.com:443'') = Exact []"
    using assms
    by (simp_all add: parse_for_constraints_def parse_domain_for_constraints_def trim_defs is_whitespace_def strip_prefix_def Let_def)
  moreover have "expand_domain_pattern (normalize_pattern (lit ''evil.com:443'')) = [lit ''evil.com'']" by code_simp
  ultimately show ?thesis by (simp add: domain_eq_def)
qed

end
