(* ===== verification/Net_Config.thy ===== *)
theory Net_Config
  imports Net_Domain Config_Toml Exec_Policy
begin

text \<open>
  The settings of the network proxy (\<^verbatim>\<open>src/network-proxy/src/config.rs\<close>): permissions of domains and Unix sockets,
  the updates of the settings, the addresses that the proxy listens on.  \<^verbatim>\<open>NetworkProxyConfig\<close> has the one field
  \<^verbatim>\<open>network\<close> and is modelled by its settings.  The map of the socket permissions is the list of its entries in
  key order.
\<close>

section \<open>Definitions\<close>

subsection \<open>Permissions\<close>

datatype network_domain_permission = DomainNone | DomainAllow | DomainDeny

fun permission_rank :: "network_domain_permission \<Rightarrow> nat" where
  "permission_rank DomainNone = 0"
| "permission_rank DomainAllow = 1"
| "permission_rank DomainDeny = 2"

instantiation network_domain_permission :: linorder
begin

definition less_eq_network_domain_permission :: "network_domain_permission \<Rightarrow> network_domain_permission \<Rightarrow> bool" where
  "less_eq_network_domain_permission a b \<longleftrightarrow> permission_rank a \<le> permission_rank b"

definition less_network_domain_permission :: "network_domain_permission \<Rightarrow> network_domain_permission \<Rightarrow> bool" where
  "less_network_domain_permission a b \<longleftrightarrow> permission_rank a < permission_rank b"

instance
proof
  fix a b :: network_domain_permission
  show "a \<le> b \<Longrightarrow> b \<le> a \<Longrightarrow> a = b"
    by (cases a; cases b) (simp_all add: less_eq_network_domain_permission_def)
qed (auto simp: less_eq_network_domain_permission_def less_network_domain_permission_def)

end

record permission_entry =
  entry_pattern :: ustr
  entry_permission :: network_domain_permission

type_synonym domain_permissions = "permission_entry list"

fun effective_loop ::
  "permission_entry list \<Rightarrow> ustr list \<Rightarrow> (ustr \<rightharpoonup> network_domain_permission) \<Rightarrow> ustr list \<times> (ustr \<rightharpoonup> network_domain_permission)" where
  "effective_loop [] order effective = (order, effective)"
| "effective_loop (e # entries) order effective =
     (case effective (entry_pattern e) of
        None \<Rightarrow> effective_loop entries (order @ [entry_pattern e]) (effective(entry_pattern e \<mapsto> entry_permission e))
      | Some permission \<Rightarrow>
          effective_loop entries order
            (if permission < entry_permission e then effective(entry_pattern e \<mapsto> entry_permission e) else effective))"

fun take_effective :: "ustr list \<Rightarrow> (ustr \<rightharpoonup> network_domain_permission) \<Rightarrow> permission_entry list" where
  "take_effective [] effective = []"
| "take_effective (pattern # order) effective =
     (case effective pattern of
        None \<Rightarrow> take_effective order effective
      | Some permission \<Rightarrow>
          \<lparr>entry_pattern = pattern, entry_permission = permission\<rparr> # take_effective order (effective(pattern := None)))"

definition effective_entries :: "domain_permissions \<Rightarrow> permission_entry list" where
  "effective_entries entries =
     (let (order, effective) = effective_loop entries [] Map.empty in take_effective order effective)"

datatype network_unix_socket_permission = SocketAllow | SocketNone

type_synonym unix_socket_permissions = "(ustr \<times> network_unix_socket_permission) list"

datatype network_mode = Limited | Full

definition allows_method :: "network_mode \<Rightarrow> ustr \<Rightarrow> bool" where
  "allows_method mode method =
     (case mode of Full \<Rightarrow> True | Limited \<Rightarrow> method \<in> {lit ''GET'', lit ''HEAD'', lit ''OPTIONS''})"

subsection \<open>Settings\<close>

record network_proxy_settings =
  enabled :: bool
  proxy_url :: ustr
  enable_socks5 :: bool
  socks_url :: ustr
  enable_socks5_udp :: bool
  allow_upstream_proxy :: bool
  dangerously_allow_non_loopback_proxy :: bool
  dangerously_allow_all_unix_sockets :: bool
  mode :: network_mode
  domains :: "domain_permissions option"
  unix_sockets :: "unix_socket_permissions option"
  allow_local_binding :: bool
  mitm :: bool

definition default_proxy_url :: ustr where "default_proxy_url = lit ''http://127.0.0.1:3128''"

definition default_socks_url :: ustr where "default_socks_url = lit ''http://127.0.0.1:8081''"

definition settings_default :: network_proxy_settings where
  "settings_default =
     \<lparr>enabled = False, proxy_url = default_proxy_url, enable_socks5 = True, socks_url = default_socks_url,
      enable_socks5_udp = True, allow_upstream_proxy = True, dangerously_allow_non_loopback_proxy = False,
      dangerously_allow_all_unix_sockets = False, mode = Full, domains = None, unix_sockets = None,
      allow_local_binding = False, mitm = False\<rparr>"

definition domain_entries :: "network_proxy_settings \<Rightarrow> network_domain_permission \<Rightarrow> ustr list option" where
  "domain_entries s permission =
     (case map_option (\<lambda>d. map entry_pattern (filter (\<lambda>e. entry_permission e = permission) (effective_entries d))) (domains s) of
        None \<Rightarrow> None
      | Some entries \<Rightarrow> if entries = [] then None else Some entries)"

definition allowed_domains :: "network_proxy_settings \<Rightarrow> ustr list option" where
  "allowed_domains s = domain_entries s DomainAllow"

definition denied_domains :: "network_proxy_settings \<Rightarrow> ustr list option" where
  "denied_domains s = domain_entries s DomainDeny"

text \<open>\<^verbatim>\<open>Option::unwrap_or_default\<close> of a list.\<close>

definition unwrap_or_default :: "'a list option \<Rightarrow> 'a list" where
  "unwrap_or_default xs = (case xs of Some xs \<Rightarrow> xs | None \<Rightarrow> [])"

definition allow_unix_sockets :: "network_proxy_settings \<Rightarrow> ustr list" where
  "allow_unix_sockets s =
     unwrap_or_default (map_option (\<lambda>u. map fst (filter (\<lambda>(_, permission). permission = SocketAllow) u)) (unix_sockets s))"

definition upsert_domain_permission ::
  "ustr \<Rightarrow> network_domain_permission \<Rightarrow> (ustr \<Rightarrow> ustr) \<Rightarrow> network_proxy_settings \<Rightarrow> network_proxy_settings" where
  "upsert_domain_permission host permission normalize_fn s =
     (let entries = unwrap_or_default (domains s);
          normalized_host = normalize_fn host;
          entries = filter (\<lambda>e. normalize_fn (entry_pattern e) \<noteq> normalized_host) entries;
          entries = entries @ [\<lparr>entry_pattern = host, entry_permission = permission\<rparr>]
      in s\<lparr>domains := (if entries = [] then None else Some entries)\<rparr>)"

fun add_missing_entries :: "network_domain_permission \<Rightarrow> ustr list \<Rightarrow> permission_entry list \<Rightarrow> permission_entry list" where
  "add_missing_entries permission [] entries = entries"
| "add_missing_entries permission (p # ps) entries =
     add_missing_entries permission ps
       (if list_ex (\<lambda>e. entry_pattern e = p \<and> entry_permission e = permission) entries then entries
        else entries @ [\<lparr>entry_pattern = p, entry_permission = permission\<rparr>])"

definition set_domain_entries :: "ustr list \<Rightarrow> network_domain_permission \<Rightarrow> network_proxy_settings \<Rightarrow> network_proxy_settings" where
  "set_domain_entries patterns permission s =
     (let entries = add_missing_entries permission patterns
            (filter (\<lambda>e. entry_permission e \<noteq> permission) (unwrap_or_default (domains s)))
      in s\<lparr>domains := (if entries = [] then None else Some entries)\<rparr>)"

definition set_allowed_domains :: "ustr list \<Rightarrow> network_proxy_settings \<Rightarrow> network_proxy_settings" where
  "set_allowed_domains patterns = set_domain_entries patterns DomainAllow"

definition set_denied_domains :: "ustr list \<Rightarrow> network_proxy_settings \<Rightarrow> network_proxy_settings" where
  "set_denied_domains patterns = set_domain_entries patterns DomainDeny"

definition set_unix_socket_entries ::
  "ustr list \<Rightarrow> network_unix_socket_permission \<Rightarrow> network_proxy_settings \<Rightarrow> network_proxy_settings" where
  "set_unix_socket_entries paths permission s =
     (let entries = filter (\<lambda>(_, existing). existing \<noteq> permission) (unwrap_or_default (unix_sockets s));
          entries = foldl (\<lambda>entries path. tbl_insert path permission entries) entries paths
      in s\<lparr>unix_sockets := (if entries = [] then None else Some entries)\<rparr>)"

definition set_allow_unix_sockets :: "ustr list \<Rightarrow> network_proxy_settings \<Rightarrow> network_proxy_settings" where
  "set_allow_unix_sockets paths = set_unix_socket_entries paths SocketAllow"

subsection \<open>Socket paths\<close>

datatype validated_unix_socket_path = Native path | UnixStyleAbsolute ustr

datatype socket_path_error = FailedToNormalize ustr | ExpectedAbsolutePath ustr

definition unix_style_absolute_path :: "ustr \<Rightarrow> ustr option" where
  "unix_style_absolute_path v = (if starts_with v [slash] then Some v else None)"

definition validated_unix_socket_path_parse ::
  "host_env \<Rightarrow> ustr \<Rightarrow> (socket_path_error, validated_unix_socket_path) result" where
  "validated_unix_socket_path_parse env socket_path =
     (if is_absolute (components socket_path)
      then case from_absolute_path (env_home env) (env_current_dir env) socket_path of
             Err _ \<Rightarrow> Err (FailedToNormalize socket_path)
           | Ok p \<Rightarrow> Ok (Native p)
      else case unix_style_absolute_path socket_path of
             Some p \<Rightarrow> Ok (UnixStyleAbsolute p)
           | None \<Rightarrow> Err (ExpectedAbsolutePath socket_path))"

text \<open>The error carries the index of the entry.\<close>

fun validate_socket_paths :: "host_env \<Rightarrow> nat \<Rightarrow> ustr list \<Rightarrow> (nat \<times> socket_path_error, unit) result" where
  "validate_socket_paths env index [] = Ok ()"
| "validate_socket_paths env index (p # ps) =
     (case validated_unix_socket_path_parse env p of
        Err e \<Rightarrow> Err (index, e)
      | Ok _ \<Rightarrow> validate_socket_paths env (Suc index) ps)"

definition validate_unix_socket_allowlist_paths ::
  "host_env \<Rightarrow> network_proxy_settings \<Rightarrow> (nat \<times> socket_path_error, unit) result" where
  "validate_unix_socket_allowlist_paths env cfg = validate_socket_paths env 0 (allow_unix_sockets cfg)"

subsection \<open>Addresses\<close>

record socket_addr =
  addr_ip :: ip_addr
  addr_port :: "16 word"

definition loopback_addr :: "16 word \<Rightarrow> socket_addr" where
  "loopback_addr port = \<lparr>addr_ip = V4 0x7F000001, addr_port = port\<rparr>"

definition clamp_non_loopback :: "socket_addr \<Rightarrow> bool \<Rightarrow> socket_addr" where
  "clamp_non_loopback addr allow_non_loopback =
     (if ip_is_loopback (addr_ip addr) then addr
      else if allow_non_loopback then addr
      else loopback_addr (addr_port addr))"

definition clamp_bind_addrs ::
  "socket_addr \<Rightarrow> socket_addr \<Rightarrow> network_proxy_settings \<Rightarrow> socket_addr \<times> socket_addr" where
  "clamp_bind_addrs http_addr socks_addr cfg =
     (let http_addr = clamp_non_loopback http_addr (dangerously_allow_non_loopback_proxy cfg);
          socks_addr = clamp_non_loopback socks_addr (dangerously_allow_non_loopback_proxy cfg)
      in if allow_unix_sockets cfg = [] \<and> \<not> dangerously_allow_all_unix_sockets cfg then (http_addr, socks_addr)
         else (loopback_addr (addr_port http_addr), loopback_addr (addr_port socks_addr)))"

record socket_address_parts =
  parts_host :: ustr
  parts_port :: "16 word"

datatype host_port_error = MissingHost ustr

text \<open>\<^verbatim>\<open>str::parse::<u16>\<close>.\<close>

definition parse_u16 :: "ustr \<Rightarrow> 16 word option" where
  "parse_u16 s =
     (let digits = (case s of c # r \<Rightarrow> if c = 43 then r else s | [] \<Rightarrow> s);
          v = foldl (\<lambda>v c. 10 * v + (c - 48)) 0 digits
      in if all_digits digits \<and> v \<le> 65535 then Some (word_of_int v) else None)"

definition parse_host_port_fallback :: "ustr \<Rightarrow> 16 word \<Rightarrow> (host_port_error, socket_address_parts) result" where
  "parse_host_port_fallback s default_port =
     (let without_scheme = (case split_once_str (lit ''://'') s of Some (_, rest) \<Rightarrow> rest | None \<Rightarrow> s);
          host_port = takeWhile (\<lambda>c. c \<noteq> 47) without_scheme;
          host_port = (case rsplit_once 64 host_port of Some (_, rest) \<Rightarrow> rest | None \<Rightarrow> host_port)
      in if starts_with host_port (lit ''['') \<and> 93 \<in> set host_port then
           (let host = drop 1 (takeWhile (\<lambda>c. c \<noteq> 93) host_port);
                after = drop 1 (dropWhile (\<lambda>c. c \<noteq> 93) host_port);
                port = (case strip_prefix after (lit '':'') of
                          Some p \<Rightarrow> (case parse_u16 p of Some p \<Rightarrow> p | None \<Rightarrow> default_port)
                        | None \<Rightarrow> default_port)
            in if host = [] then Err (MissingHost s) else Ok \<lparr>parts_host = host, parts_port = port\<rparr>)
         else case (if length (filter (\<lambda>c. c = 58) host_port) = 1 then rsplit_once 58 host_port else None) of
                Some (host, port) \<Rightarrow>
                  if host = [] then Err (MissingHost s)
                  else Ok \<lparr>parts_host = host, parts_port = (case parse_u16 port of Some p \<Rightarrow> p | None \<Rightarrow> default_port)\<rparr>
              | None \<Rightarrow>
                  if host_port = [] then Err (MissingHost s)
                  else Ok \<lparr>parts_host = host_port, parts_port = default_port\<rparr>)"

text \<open>The host and port of the candidate URL, where it is one with a host.\<close>

definition parsed_url_host :: "net_env \<Rightarrow> ustr \<Rightarrow> (ustr \<times> 16 word option) option" where
  "parsed_url_host E candidate =
     (case url_parse E candidate of Some (Some host, port) \<Rightarrow> Some (host, port) | _ \<Rightarrow> None)"

definition parse_host_port :: "net_env \<Rightarrow> ustr \<Rightarrow> 16 word \<Rightarrow> (host_port_error, socket_address_parts) result" where
  "parse_host_port E url default_port =
     (let trimmed = trim url
      in if trimmed = [] then Err (MissingHost url)
         else if (case parse_ip trimmed of Some (V6 _) \<Rightarrow> True | _ \<Rightarrow> False) \<and> \<not> starts_with trimmed (lit ''['')
         then Ok \<lparr>parts_host = trimmed, parts_port = default_port\<rparr>
         else let candidate = (if contains_sub trimmed (lit ''://'') then trimmed else lit ''http://'' @ trimmed)
              in case parsed_url_host E candidate of
                   Some (host, port) \<Rightarrow>
                     (let host = trim_end_matches (\<lambda>c. c = 91 \<or> c = 93) (dropWhile (\<lambda>c. c = 91 \<or> c = 93) host)
                      in if host = [] then Err (MissingHost url)
                         else Ok \<lparr>parts_host = host, parts_port = (case port of Some p \<Rightarrow> p | None \<Rightarrow> default_port)\<rparr>)
                 | None \<Rightarrow> parse_host_port_fallback trimmed default_port)"

definition resolve_addr :: "net_env \<Rightarrow> ustr \<Rightarrow> 16 word \<Rightarrow> (host_port_error, socket_addr) result" where
  "resolve_addr E url default_port =
     (case parse_host_port E url default_port of
        Err e \<Rightarrow> Err e
      | Ok addr_parts \<Rightarrow>
          (let host = (if eq_ignore_ascii_case (parts_host addr_parts) (lit ''localhost'') then lit ''127.0.0.1''
                       else parts_host addr_parts)
           in case parse_ip host of
                Some ip \<Rightarrow> Ok \<lparr>addr_ip = ip, addr_port = parts_port addr_parts\<rparr>
              | None \<Rightarrow> Ok (loopback_addr (parts_port addr_parts))))"

record runtime_config =
  runtime_http_addr :: socket_addr
  runtime_socks_addr :: socket_addr

datatype runtime_error =
    InvalidUnixSocket nat socket_path_error
  | InvalidProxyUrl ustr host_port_error
  | InvalidSocksUrl ustr host_port_error

definition resolve_runtime ::
  "net_env \<Rightarrow> host_env \<Rightarrow> network_proxy_settings \<Rightarrow> (runtime_error, runtime_config) result" where
  "resolve_runtime E env cfg =
     (case validate_unix_socket_allowlist_paths env cfg of
        Err (index, e) \<Rightarrow> Err (InvalidUnixSocket index e)
      | Ok _ \<Rightarrow>
          (case resolve_addr E (proxy_url cfg) 3128 of
             Err e \<Rightarrow> Err (InvalidProxyUrl (proxy_url cfg) e)
           | Ok http_addr \<Rightarrow>
               (case resolve_addr E (socks_url cfg) 8081 of
                  Err e \<Rightarrow> Err (InvalidSocksUrl (socks_url cfg) e)
                | Ok socks_addr \<Rightarrow>
                    (let (http_addr, socks_addr) = clamp_bind_addrs http_addr socks_addr cfg
                     in Ok \<lparr>runtime_http_addr = http_addr, runtime_socks_addr = socks_addr\<rparr>))))"

definition format_host_and_port :: "ustr \<Rightarrow> 16 word \<Rightarrow> ustr" where
  "format_host_and_port host port =
     (if 58 \<in> set host then lit ''['' @ host @ lit '']:'' @ to_decimal (unat port)
      else host @ lit '':'' @ to_decimal (unat port))"

definition host_and_port_from_network_addr :: "net_env \<Rightarrow> ustr \<Rightarrow> 16 word \<Rightarrow> ustr" where
  "host_and_port_from_network_addr E v default_port =
     (let trimmed = trim v
      in if trimmed = [] then lit ''<missing>''
         else case parse_host_port E trimmed default_port of
                Ok parts \<Rightarrow> format_host_and_port (parts_host parts) (parts_port parts)
              | Err _ \<Rightarrow> format_host_and_port trimmed default_port)"

section \<open>Effective permissions\<close>

text \<open>The strongest permission of the entries for a pattern.\<close>

definition entry_permissions :: "domain_permissions \<Rightarrow> ustr \<Rightarrow> network_domain_permission set" where
  "entry_permissions entries p = entry_permission ` {e \<in> set entries. entry_pattern e = p}"

lemma permission_order:
  "DomainNone < DomainAllow" "DomainAllow < DomainDeny" "p \<le> DomainDeny" "DomainNone \<le> p"
  by (cases p; simp add: less_network_domain_permission_def less_eq_network_domain_permission_def)+

text \<open>What the loop keeps: the patterns in the order of their first entry, each with its strongest permission.\<close>

definition effective_of :: "domain_permissions \<Rightarrow> ustr \<rightharpoonup> network_domain_permission" where
  "effective_of entries p = (if entry_permissions entries p = {} then None else Some (Max (entry_permissions entries p)))"

lemma entry_permissions_snoc:
  "entry_permissions (es @ [e]) p =
     (if entry_pattern e = p then insert (entry_permission e) (entry_permissions es p) else entry_permissions es p)"
  by (auto simp: entry_permissions_def)

lemma finite_entry_permissions [simp]: "finite (entry_permissions es p)"
  by (simp add: entry_permissions_def)

lemma effective_of_snoc:
  "effective_of (es @ [e]) =
     (case effective_of es (entry_pattern e) of
        None \<Rightarrow> (effective_of es)(entry_pattern e \<mapsto> entry_permission e)
      | Some q \<Rightarrow> if q < entry_permission e then (effective_of es)(entry_pattern e \<mapsto> entry_permission e) else effective_of es)"
proof -
  have "Max (insert x A) = x" if "finite A" "Max A < x" for A and x :: network_domain_permission
    using that by (cases "A = {}") (auto simp: Max_insert max_def simp del: Max_less_iff dest: leD)
  then show ?thesis
    by (auto simp: fun_eq_iff effective_of_def entry_permissions_snoc Max_insert max_def not_le
        simp del: Max_less_iff Max_le_iff split: option.splits)
qed

lemma effective_loop_spec:
  "distinct order \<Longrightarrow> set order = dom (effective_of es) \<Longrightarrow>
   effective_loop es' order (effective_of es) = (order', m) \<Longrightarrow>
   m = effective_of (es @ es') \<and> distinct order' \<and> set order' = dom m"
proof (induction es' arbitrary: es order)
  case (Cons e es')
  show ?case
  proof (cases "effective_of es (entry_pattern e)")
    case None
    then have u: "effective_of (es @ [e]) = (effective_of es)(entry_pattern e \<mapsto> entry_permission e)"
      by (simp add: effective_of_snoc)
    have "entry_pattern e \<notin> set order" using None Cons.prems(2) by auto
    then show ?thesis using Cons.IH [of "order @ [entry_pattern e]" "es @ [e]", unfolded u] Cons.prems None by (simp del: fun_upd_apply add: dom_fun_upd)
  next
    case (Some q)
    then have "set order = dom (effective_of (es @ [e]))"
      using Cons.prems(2) by (auto simp: effective_of_snoc)
    then show ?thesis using Cons.IH [of order "es @ [e]"] Cons.prems Some by (simp add: effective_of_snoc)
  qed
qed simp

lemma take_effective_map:
  "distinct order \<Longrightarrow> set order \<subseteq> dom m \<Longrightarrow>
   take_effective order m = map (\<lambda>p. \<lparr>entry_pattern = p, entry_permission = the (m p)\<rparr>) order"
proof (induction order arbitrary: m)
  case (Cons p order)
  then have "take_effective order (m(p := None)) = map (\<lambda>q. \<lparr>entry_pattern = q, entry_permission = the ((m(p := None)) q)\<rparr>) order"
    by (intro Cons.IH) auto
  also have "\<dots> = map (\<lambda>q. \<lparr>entry_pattern = q, entry_permission = the (m q)\<rparr>) order"
    using Cons.prems(1) by auto
  finally show ?case using Cons.prems by auto
qed simp

lemma effective_entries_exact:
  "distinct (map entry_pattern (effective_entries es))
   \<and> set (effective_entries es) = {\<lparr>entry_pattern = p, entry_permission = q\<rparr> | p q. effective_of es p = Some q}"
proof -
  obtain order m where o: "effective_loop es [] Map.empty = (order, m)" by (cases "effective_loop es [] Map.empty")
  have "effective_of [] = Map.empty" by (simp add: effective_of_def entry_permissions_def fun_eq_iff)
  with effective_loop_spec [of "[]" "[]" es order m] o
  have m: "m = effective_of es" "distinct order" "set order = dom m" by simp_all
  then have "effective_entries es = map (\<lambda>p. \<lparr>entry_pattern = p, entry_permission = the (m p)\<rparr>) order"
    using o by (simp add: effective_entries_def take_effective_map)
  with m show ?thesis by (force simp: comp_def dom_def)
qed

text \<open>The lists of a settings record: a pattern is denied when some entry denies it, allowed when some allows it and none denies it.\<close>

lemma domain_entries_set:
  "set (unwrap_or_default (domain_entries s q)) = {p. effective_of (unwrap_or_default (domains s)) p = Some q}"
proof (cases "domains s")
  case None
  then show ?thesis by (simp add: domain_entries_def unwrap_or_default_def effective_of_def entry_permissions_def)
next
  case (Some es)
  then have "set (unwrap_or_default (domain_entries s q)) = entry_pattern ` {e \<in> set (effective_entries es). entry_permission e = q}"
    by (auto simp: domain_entries_def unwrap_or_default_def filter_empty_conv)
  also have "\<dots> = {p. effective_of es p = Some q}"
    unfolding conjunct2 [OF effective_entries_exact]
    by (auto intro!: image_eqI [of _ _ "\<lparr>entry_pattern = p, entry_permission = q\<rparr>" for p])
  finally show ?thesis using Some by (simp add: unwrap_or_default_def)
qed

lemma effective_of_in: "effective_of es p = Some q \<Longrightarrow> q \<in> entry_permissions es p"
  by (metis Max_in effective_of_def finite_entry_permissions option.distinct(1) option.inject)

lemma effective_of_deny: "effective_of es p = Some DomainDeny \<longleftrightarrow> DomainDeny \<in> entry_permissions es p"
proof
  assume "DomainDeny \<in> entry_permissions es p"
  moreover from this have "Max (entry_permissions es p) = DomainDeny"
    by (intro Max_eqI) (simp_all add: permission_order)
  ultimately show "effective_of es p = Some DomainDeny" by (auto simp: effective_of_def)
qed (rule effective_of_in)

lemma effective_of_allow:
  "effective_of es p = Some DomainAllow \<longleftrightarrow> DomainAllow \<in> entry_permissions es p \<and> DomainDeny \<notin> entry_permissions es p"
proof -
  have le: "q \<le> DomainAllow" if "q \<noteq> DomainDeny" for q
    using that by (cases q) (simp_all add: less_eq_network_domain_permission_def)
  have "Max (entry_permissions es p) = DomainAllow"
    if a: "DomainAllow \<in> entry_permissions es p" "DomainDeny \<notin> entry_permissions es p"
  proof (rule Max_eqI)
    fix q assume "q \<in> entry_permissions es p"
    with a(2) have "q \<noteq> DomainDeny" by blast
    then show "q \<le> DomainAllow" by (rule le)
  qed (simp_all add: a(1))
  then have "effective_of es p = Some DomainAllow"
    if "DomainAllow \<in> entry_permissions es p" "DomainDeny \<notin> entry_permissions es p"
    using that by (auto simp: effective_of_def)
  moreover have "DomainDeny \<notin> entry_permissions es p" if "effective_of es p = Some DomainAllow"
    using that effective_of_deny [of es p] by auto
  ultimately show ?thesis
    using effective_of_in by blast
qed

lemmas listed_domains = allowed_domains_def denied_domains_def domain_entries_set effective_of_allow effective_of_deny

lemma listed_disjoint: "p \<in> set (unwrap_or_default (allowed_domains s)) \<Longrightarrow> p \<notin> set (unwrap_or_default (denied_domains s))"
  by (simp add: listed_domains)

section \<open>Updates of the permissions\<close>

lemma upsert_entries:
  "unwrap_or_default (domains (upsert_domain_permission host q f s)) =
     filter (\<lambda>e. f (entry_pattern e) \<noteq> f host) (unwrap_or_default (domains s))
       @ [\<lparr>entry_pattern = host, entry_permission = q\<rparr>]"
  by (simp add: upsert_domain_permission_def Let_def unwrap_or_default_def)

lemma entry_permissions_upsert:
  "entry_permissions (unwrap_or_default (domains (upsert_domain_permission host q f s))) p =
     (if p = host then {q} else if f p = f host then {} else entry_permissions (unwrap_or_default (domains s)) p)"
proof -
  have "entry_permissions (filter (\<lambda>e. f (entry_pattern e) \<noteq> c) es) p = (if f p = c then {} else entry_permissions es p)" for c es
    by (auto simp: entry_permissions_def)
  then show ?thesis by (auto simp: upsert_entries entry_permissions_snoc)
qed

text \<open>
  After an update of a host, the patterns with its normal form are gone from both lists but for the host itself,
  which is in the list of its permission; the rest of the lists and the other settings are as before.
\<close>

lemma upsert_domain_permission_lists:
  "p \<in> set (unwrap_or_default (allowed_domains (upsert_domain_permission host q f s)))
     \<longleftrightarrow> (if f p = f host then p = host \<and> q = DomainAllow else p \<in> set (unwrap_or_default (allowed_domains s)))"
  "p \<in> set (unwrap_or_default (denied_domains (upsert_domain_permission host q f s)))
     \<longleftrightarrow> (if f p = f host then p = host \<and> q = DomainDeny else p \<in> set (unwrap_or_default (denied_domains s)))"
  by (auto simp: listed_domains entry_permissions_upsert)

lemma upsert_domain_permission_rest:
  "upsert_domain_permission host q f s = s\<lparr>domains := domains (upsert_domain_permission host q f s)\<rparr>"
  by (simp add: upsert_domain_permission_def Let_def)

lemma entry_permissions_add_missing:
  "entry_permissions (add_missing_entries q ps es) p = (if p \<in> set ps then {q} else {}) \<union> entry_permissions es p"
proof (induction ps arbitrary: es)
  case (Cons p' ps)
  have "list_ex (\<lambda>e. entry_pattern e = p' \<and> entry_permission e = q) es \<longleftrightarrow> q \<in> entry_permissions es p'"
    by (auto simp: list_ex_iff entry_permissions_def)
  with Cons show ?case by (auto simp: entry_permissions_snoc)
qed simp

lemma set_domain_entries_permissions:
  "entry_permissions (unwrap_or_default (domains (set_domain_entries ps q s))) p =
     (if p \<in> set ps then {q} else {}) \<union> (entry_permissions (unwrap_or_default (domains s)) p - {q})"
proof -
  have "unwrap_or_default (domains (set_domain_entries ps q s)) =
      add_missing_entries q ps (filter (\<lambda>e. entry_permission e \<noteq> q) (unwrap_or_default (domains s)))"
    by (simp add: set_domain_entries_def Let_def unwrap_or_default_def)
  moreover have "entry_permissions (filter (\<lambda>e. entry_permission e \<noteq> q) es) p = entry_permissions es p - {q}" for es
    by (auto simp: entry_permissions_def)
  ultimately show ?thesis by (simp add: entry_permissions_add_missing)
qed

lemma set_denied_domains_lists:
  "set (unwrap_or_default (denied_domains (set_denied_domains ps s))) = set ps"
  "set (unwrap_or_default (allowed_domains (set_denied_domains ps s))) \<supseteq> set (unwrap_or_default (allowed_domains s)) - set ps"
  by (auto simp: set_denied_domains_def listed_domains set_domain_entries_permissions)

text \<open>A pattern that is denied stays denied when the allowed patterns are set, also when it is among them.\<close>

lemma set_allowed_domains_lists:
  "set (unwrap_or_default (allowed_domains (set_allowed_domains ps s))) = set ps - set (unwrap_or_default (denied_domains s))"
  "set (unwrap_or_default (denied_domains (set_allowed_domains ps s))) = set (unwrap_or_default (denied_domains s))"
  by (auto simp: set_allowed_domains_def listed_domains set_domain_entries_permissions)

section \<open>The addresses of the proxy\<close>

lemma loopback_addr_loopback [simp]: "ip_is_loopback (addr_ip (loopback_addr p))" "addr_port (loopback_addr p) = p"
  by (simp_all add: loopback_addr_def) code_simp

lemma clamp_non_loopback_facts:
  "addr_port (clamp_non_loopback a b) = addr_port a"
  "ip_is_loopback (addr_ip (clamp_non_loopback a b)) \<longleftrightarrow> ip_is_loopback (addr_ip a) \<or> \<not> b"
  by (simp_all add: clamp_non_loopback_def)


text \<open>The settings of a proxy on all interfaces with a socket allowed: both addresses are clamped.\<close>

definition exposed_settings :: network_proxy_settings where
  "exposed_settings =
     settings_default\<lparr>proxy_url := lit ''0.0.0.0:3128'', socks_url := lit ''[::]:8081'',
       dangerously_allow_non_loopback_proxy := True, unix_sockets := Some [(lit ''/run/docker.sock'', SocketAllow)]\<rparr>"


end
