(* ===== verification/Net_Constraints.thy ===== *)
theory Net_Constraints
  imports Net_Config
begin

text \<open>
  Managed constraints on the network proxy (\<^verbatim>\<open>src/network-proxy/src/state.rs\<close>): the check of a configuration against
  them and the state that is built from a configuration.  An error that quotes a list carries the list; where the
  source collects it from a hash set, the model has it in the order of the entries.
\<close>

section \<open>Definitions\<close>

record network_proxy_constraints =
  max_enabled :: "bool option"
  max_mode :: "network_mode option"
  max_allow_upstream_proxy :: "bool option"
  max_allow_non_loopback_proxy :: "bool option"
  max_allow_all_unix_sockets :: "bool option"
  managed_allowed_domains :: "ustr list option"
  allowlist_expansion_enabled :: "bool option"
  managed_denied_domains :: "ustr list option"
  denylist_expansion_enabled :: "bool option"
  managed_unix_sockets :: "ustr list option"
  max_allow_local_binding :: "bool option"

definition constraints_default :: network_proxy_constraints where
  "constraints_default =
     \<lparr>max_enabled = None, max_mode = None, max_allow_upstream_proxy = None, max_allow_non_loopback_proxy = None,
      max_allow_all_unix_sockets = None, managed_allowed_domains = None, allowlist_expansion_enabled = None,
      managed_denied_domains = None, denylist_expansion_enabled = None, managed_unix_sockets = None,
      max_allow_local_binding = None\<rparr>"

datatype shown = Text ustr | Listed "ustr list"

datatype network_proxy_constraint_error = InvalidValue ustr shown shown

fun network_mode_rank :: "network_mode \<Rightarrow> nat" where
  "network_mode_rank Limited = 0"
| "network_mode_rank Full = 1"

fun mode_name :: "network_mode \<Rightarrow> ustr" where
  "mode_name Limited = lit ''Limited''"
| "mode_name Full = lit ''Full''"

type_synonym constraint_check = "(network_proxy_constraint_error, unit) result"

text \<open>The checks in a row: the first error is the result.\<close>

fun first_error :: "constraint_check list \<Rightarrow> constraint_check" where
  "first_error [] = Ok ()"
| "first_error (c # cs) = (case c of Err e \<Rightarrow> Err e | Ok _ \<Rightarrow> first_error cs)"

definition validate_non_global_wildcard_domain_patterns :: "ustr \<Rightarrow> ustr list \<Rightarrow> constraint_check" where
  "validate_non_global_wildcard_domain_patterns field_name patterns =
     (case List.find is_global_wildcard_domain_pattern patterns of
        Some pattern \<Rightarrow>
          Err (InvalidValue field_name (Text (trim pattern))
            (Text (lit ''exact hosts or scoped wildcards like *.example.com or **.example.com'')))
      | None \<Rightarrow> Ok ())"

text \<open>A switch that may not be on.\<close>

definition validate_switch :: "ustr \<Rightarrow> bool \<Rightarrow> bool \<Rightarrow> constraint_check" where
  "validate_switch field_name candidate permitted =
     (if candidate \<and> \<not> permitted
      then Err (InvalidValue field_name (Text (lit ''true'')) (Text (lit ''false (disabled by managed config)'')))
      else Ok ())"

definition validate_mode :: "network_mode \<Rightarrow> network_mode option \<Rightarrow> constraint_check" where
  "validate_mode candidate managed =
     (case managed of
        Some m \<Rightarrow>
          if network_mode_rank m < network_mode_rank candidate
          then Err (InvalidValue (lit ''network.mode'') (Text (mode_name candidate))
                 (Text (mode_name m @ lit '' or more restrictive'')))
          else Ok ()
      | None \<Rightarrow> Ok ())"

abbreviation lowered :: "ustr list \<Rightarrow> ustr list" where
  "lowered \<equiv> map to_ascii_lowercase"

definition validate_allowed_domains ::
  "net_env \<Rightarrow> ustr list \<Rightarrow> ustr list \<Rightarrow> bool option \<Rightarrow> ustr list \<Rightarrow> constraint_check" where
  "validate_allowed_domains E candidate denied expansion allowed =
     (case expansion of
        Some True \<Rightarrow>
          (let missing = filter (\<lambda>entry. entry \<notin> set (lowered candidate) \<and> entry \<notin> set (lowered denied)) (remdups (lowered allowed))
           in if missing = [] then Ok ()
              else Err (InvalidValue (lit ''network.allowed_domains'') (Text (lit ''missing managed allowed_domains entries'')) (Listed missing)))
      | Some False \<Rightarrow>
          if set (lowered candidate) = set (lowered allowed) - set (lowered denied) then Ok ()
          else Err (InvalidValue (lit ''network.allowed_domains'') (Listed candidate) (Text (lit ''must match managed allowed_domains'')))
      | None \<Rightarrow>
          (let managed_patterns = map (parse_for_constraints E) allowed;
               invalid = filter (\<lambda>entry. \<not> list_ex (\<lambda>managed. allows managed (parse_for_constraints E entry)) managed_patterns) candidate
           in if invalid = [] then Ok ()
              else Err (InvalidValue (lit ''network.allowed_domains'') (Listed invalid) (Text (lit ''subset of managed allowed_domains'')))))"

definition validate_denied_domains :: "ustr list \<Rightarrow> bool option \<Rightarrow> ustr list \<Rightarrow> constraint_check" where
  "validate_denied_domains candidate expansion denied =
     (case expansion of
        Some False \<Rightarrow>
          if set (lowered candidate) = set (lowered denied) then Ok ()
          else Err (InvalidValue (lit ''network.denied_domains'') (Listed candidate) (Text (lit ''must match managed denied_domains'')))
      | _ \<Rightarrow>
          (let missing = filter (\<lambda>entry. entry \<notin> set (lowered candidate)) (remdups (lowered denied))
           in if missing = [] then Ok ()
              else Err (InvalidValue (lit ''network.denied_domains'') (Text (lit ''missing managed denied_domains entries'')) (Listed missing))))"

definition validate_unix_sockets :: "ustr list \<Rightarrow> ustr list \<Rightarrow> constraint_check" where
  "validate_unix_sockets candidate allowed =
     (let invalid = filter (\<lambda>entry. to_ascii_lowercase entry \<notin> set (lowered allowed)) candidate
      in if invalid = [] then Ok ()
         else Err (InvalidValue (lit ''network.allow_unix_sockets'') (Listed invalid) (Text (lit ''subset of managed allow_unix_sockets''))))"

definition validate_policy_against_constraints ::
  "net_env \<Rightarrow> network_proxy_settings \<Rightarrow> network_proxy_constraints \<Rightarrow> constraint_check" where
  "validate_policy_against_constraints E config constraints =
     (let config_allowed_domains = unwrap_or_default (allowed_domains config);
          config_denied_domains = unwrap_or_default (denied_domains config);
          config_allow_unix_sockets = allow_unix_sockets config
      in first_error
        [validate_non_global_wildcard_domain_patterns (lit ''network.denied_domains'') config_denied_domains,
         validate_switch (lit ''network.enabled'') (enabled config) (max_enabled constraints \<noteq> Some False),
         validate_mode (mode config) (max_mode constraints),
         validate_switch (lit ''network.allow_upstream_proxy'') (allow_upstream_proxy config)
           (max_allow_upstream_proxy constraints \<noteq> Some False),
         validate_switch (lit ''network.dangerously_allow_non_loopback_proxy'') (dangerously_allow_non_loopback_proxy config)
           (max_allow_non_loopback_proxy constraints \<noteq> Some False),
         validate_switch (lit ''network.dangerously_allow_all_unix_sockets'') (dangerously_allow_all_unix_sockets config)
           (case max_allow_all_unix_sockets constraints of Some b \<Rightarrow> b | None \<Rightarrow> managed_unix_sockets constraints = None),
         validate_switch (lit ''network.allow_local_binding'') (allow_local_binding config)
           (max_allow_local_binding constraints \<noteq> Some False),
         (case managed_allowed_domains constraints of
            Some allowed \<Rightarrow>
              first_error [validate_non_global_wildcard_domain_patterns (lit ''network.allowed_domains'') allowed,
                validate_allowed_domains E config_allowed_domains config_denied_domains (allowlist_expansion_enabled constraints) allowed]
          | None \<Rightarrow> Ok ()),
         (case managed_denied_domains constraints of
            Some denied \<Rightarrow>
              first_error [validate_non_global_wildcard_domain_patterns (lit ''network.denied_domains'') denied,
                validate_denied_domains config_denied_domains (denylist_expansion_enabled constraints) denied]
          | None \<Rightarrow> Ok ()),
         (case managed_unix_sockets constraints of
            Some sockets \<Rightarrow> validate_unix_sockets config_allow_unix_sockets sockets
          | None \<Rightarrow> Ok ())])"

subsection \<open>The state\<close>

record blocked_request =
  req_host :: ustr
  req_reason :: ustr
  req_client :: "ustr option"
  req_method :: "ustr option"
  req_mode :: "network_mode option"
  req_protocol :: ustr
  req_decision :: "ustr option"
  req_source :: "ustr option"
  req_port :: "16 word option"
  req_timestamp :: "64 word"

record mitm_upstream_config =
  mitm_allow_upstream_proxy :: bool
  mitm_allow_local_binding :: bool

record config_state =
  config :: network_proxy_settings
  allow_set :: globset
  deny_set :: globset
  mitm_state :: "mitm_upstream_config option"
  constraints :: network_proxy_constraints
  blocked :: "blocked_request list"
  blocked_total :: "64 word"

datatype config_error =
    UnixSocketPath nat socket_path_error
  | Constraint network_proxy_constraint_error
  | Pattern net_policy_error
  | MitmError
  | ReloadError ustr
  | Context ustr config_error

definition build_config_state ::
  "net_env \<Rightarrow> host_env \<Rightarrow> network_proxy_settings \<Rightarrow> network_proxy_constraints \<Rightarrow> (config_error, config_state) result" where
  "build_config_state E env cfg cons =
     (case validate_unix_socket_allowlist_paths env cfg of
        Err (index, e) \<Rightarrow> Err (UnixSocketPath index e)
      | Ok _ \<Rightarrow>
          (let allowed = unwrap_or_default (allowed_domains cfg); denied = unwrap_or_default (denied_domains cfg)
           in case validate_non_global_wildcard_domain_patterns (lit ''network.denied_domains'') denied of
                Err e \<Rightarrow> Err (Constraint e)
              | Ok _ \<Rightarrow>
                  (case compile_denylist_globset E denied of
                     Err e \<Rightarrow> Err (Pattern e)
                   | Ok deny \<Rightarrow>
                       (case compile_allowlist_globset E allowed of
                          Err e \<Rightarrow> Err (Pattern e)
                        | Ok allow \<Rightarrow>
                            if mitm cfg \<and> \<not> mitm_builds E (allow_upstream_proxy cfg) (allow_local_binding cfg) then Err MitmError
                            else Ok \<lparr>config = cfg, allow_set = allow, deny_set = deny,
                                   mitm_state = (if mitm cfg then Some \<lparr>mitm_allow_upstream_proxy = allow_upstream_proxy cfg,
                                     mitm_allow_local_binding = allow_local_binding cfg\<rparr> else None),
                                   constraints = cons, blocked = [], blocked_total = 0\<rparr>))))"

section \<open>What an accepted configuration satisfies\<close>

lemma first_error_Ok [simp]: "first_error cs = Ok () \<longleftrightarrow> (\<forall>c\<in>set cs. c = Ok ())"
  by (induction cs) (auto split: result.splits)

declare first_error.simps [simp del]

abbreviation satisfies :: "net_env \<Rightarrow> network_proxy_settings \<Rightarrow> network_proxy_constraints \<Rightarrow> bool" where
  "satisfies E cfg cons \<equiv> validate_policy_against_constraints E cfg cons = Ok ()"

lemma satisfies_allowed:
  assumes "satisfies E cfg cons" and "managed_allowed_domains cons = Some managed"
  shows "validate_allowed_domains E (unwrap_or_default (allowed_domains cfg)) (unwrap_or_default (denied_domains cfg))
    (allowlist_expansion_enabled cons) managed = Ok ()"
  using assms by (simp add: validate_policy_against_constraints_def Let_def)

lemma satisfies_denied:
  assumes "satisfies E cfg cons" and "managed_denied_domains cons = Some managed"
  shows "validate_denied_domains (unwrap_or_default (denied_domains cfg)) (denylist_expansion_enabled cons) managed = Ok ()"
  using assms by (simp add: validate_policy_against_constraints_def Let_def)

lemma validate_denied_Ok: "validate_denied_domains candidate x managed = Ok () \<Longrightarrow> set (lowered managed) \<subseteq> set (lowered candidate)"
  by (auto simp: validate_denied_domains_def filter_empty_conv Let_def split: option.splits bool.splits if_splits)

text \<open>The mode is checked on its own: changing it leaves the other checks as they are.\<close>

lemma lists_ignore_mode [simp]:
  "allowed_domains (cfg\<lparr>mode := m\<rparr>) = allowed_domains cfg" "denied_domains (cfg\<lparr>mode := m\<rparr>) = denied_domains cfg"
  "allow_unix_sockets (cfg\<lparr>mode := m\<rparr>) = allow_unix_sockets cfg"
  by (simp_all add: allowed_domains_def denied_domains_def domain_entries_def allow_unix_sockets_def)

lemma satisfies_mode:
  assumes "satisfies E cfg cons" and "satisfies E (cfg'\<lparr>mode := m\<rparr>) cons"
  shows "satisfies E (cfg\<lparr>mode := m\<rparr>) cons"
proof -
  have "validate_mode m (max_mode cons) = Ok ()"
    using assms(2) by (simp add: validate_policy_against_constraints_def Let_def)
  with assms(1) show ?thesis by (simp add: validate_policy_against_constraints_def Let_def)
qed

lemma build_config_state_sets:
  assumes "build_config_state E env cfg cons = Ok st"
  shows "compile_globset_with_policy E (unwrap_or_default (allowed_domains cfg)) AllowWildcard = Ok (allow_set st)"
    "compile_globset_with_policy E (unwrap_or_default (denied_domains cfg)) RejectWildcard = Ok (deny_set st)"
    "config st = cfg" "constraints st = cons" "blocked st = []" "blocked_total st = 0"
  using assms
  by (auto simp: build_config_state_def compile_allowlist_globset_def compile_denylist_globset_def Let_def
      split: result.splits if_splits)

text \<open>An allowed entry is covered by a managed one when the list may not grow.\<close>

lemma allowed_entry_managed:
  assumes E: "documented_hosts E" and v: "validate_allowed_domains E cs ds x managed = Ok ()" and x: "x \<noteq> Some True"
    and plain: "list_all plain_entry cs" "list_all plain_entry managed" and c: "c \<in> set cs" "entry_covers c h"
  shows "list_ex (\<lambda>m. entry_covers m h) managed"
proof (cases x)
  case None
  then obtain m where m: "m \<in> set managed" "allows (parse_for_constraints E m) (parse_for_constraints E c)"
    using v c(1) by (auto simp: validate_allowed_domains_def filter_empty_conv list_ex_iff Let_def split: if_splits)
  have pm: "plain_pattern (domain_pattern_parse m)" "pattern_text (domain_pattern_parse m) = m"
    and pc: "plain_pattern (domain_pattern_parse c)" "pattern_text (domain_pattern_parse c) = c"
    using plain m(1) c(1) by (auto simp: list_all_iff plain_entry_def)
  from m(2) allows_inclusion [OF E pm(1) pc(1)] c(2) have "entry_covers m h"
    by (simp add: pm(2) pc(2) entry_covers_def)
  with m(1) show ?thesis by (auto simp: list_ex_iff)
next
  case (Some b)
  with x v c(1) have "to_ascii_lowercase c \<in> set (lowered managed)"
    by (auto simp: validate_allowed_domains_def split: bool.splits if_splits)
  then obtain m where m: "m \<in> set managed" "to_ascii_lowercase c = to_ascii_lowercase m" by auto
  with plain c have "entry_covers m h" using entry_covers_case [of c m h] by (auto simp: list_all_iff)
  with m(1) show ?thesis by (auto simp: list_ex_iff)
qed

lemma managed_lists_kept:
  assumes E: "documented_globs E" "documented_hosts E"
    and sets: "compile_globset_with_policy E (unwrap_or_default (allowed_domains cfg)) AllowWildcard = Ok allow"
      "compile_globset_with_policy E (unwrap_or_default (denied_domains cfg)) RejectWildcard = Ok deny"
    and ok: "satisfies E cfg cons"
    and plain: "list_all plain_entry (unwrap_or_default (allowed_domains cfg))" "list_all plain_entry (unwrap_or_default (denied_domains cfg))"
      "list_all plain_entry (unwrap_or_default (managed_allowed_domains cons))"
      "list_all plain_entry (unwrap_or_default (managed_denied_domains cons))"
  shows "(managed_allowed_domains cons = Some managed \<and> allowlist_expansion_enabled cons \<noteq> Some True
        \<longrightarrow> globset_is_match E allow h \<longrightarrow> list_ex (\<lambda>t. entry_covers t h) managed)
    \<and> (managed_denied_domains cons = Some denied
        \<longrightarrow> list_ex (\<lambda>t. entry_covers t h) denied \<longrightarrow> globset_is_match E deny h)"
proof (intro conjI impI; (elim conjE)?)
  assume m: "managed_allowed_domains cons = Some managed" and x: "allowlist_expansion_enabled cons \<noteq> Some True"
    and h: "globset_is_match E allow h"
  from h obtain c where c: "c \<in> set (unwrap_or_default (allowed_domains cfg))" "entry_covers c h"
    using compiled_entries_match [OF E(1) sets(1) plain(1)] by (auto simp: list_ex_iff)
  have "list_all plain_entry managed" using plain(3) m by (simp add: unwrap_or_default_def)
  from allowed_entry_managed [OF E(2) satisfies_allowed [OF ok m] x plain(1) this c]
  show "list_ex (\<lambda>t. entry_covers t h) managed" .
next
  assume d: "managed_denied_domains cons = Some denied" and h: "list_ex (\<lambda>t. entry_covers t h) denied"
  then obtain m where m: "m \<in> set denied" "entry_covers m h" by (auto simp: list_ex_iff)
  then have "to_ascii_lowercase m \<in> set (lowered (unwrap_or_default (denied_domains cfg)))"
    using validate_denied_Ok [OF satisfies_denied [OF ok d]] by auto
  then obtain c where c: "c \<in> set (unwrap_or_default (denied_domains cfg))" "to_ascii_lowercase c = to_ascii_lowercase m" by auto
  have "plain_entry c" "plain_entry m"
    using plain(2,4) d m(1) c(1) by (auto simp: list_all_iff unwrap_or_default_def)
  with c m have "entry_covers c h" using entry_covers_case [of c m h] by simp
  with c show "globset_is_match E deny h"
    using compiled_entries_match [OF E(1) sets(2) plain(2)] by (auto simp: list_ex_iff)
qed

text \<open>
  A configuration that passes the check keeps to the managed lists.  Let the entries of the lists be plain names with or
  without a wildcard in front.  In the state that is built from such a configuration, every host that the allowed
  patterns match is one that the managed allow list stands for, unless managed settings let the list grow; and
  every host that the managed deny list stands for is matched by the denied patterns.
\<close>

theorem accepted_config_keeps_managed_lists:
  assumes E: "documented_globs E" "documented_hosts E"
    and st: "build_config_state E env cfg cons = Ok st" and ok: "satisfies E cfg cons"
    and plain: "list_all plain_entry (unwrap_or_default (allowed_domains cfg))" "list_all plain_entry (unwrap_or_default (denied_domains cfg))"
      "list_all plain_entry (unwrap_or_default (managed_allowed_domains cons))"
      "list_all plain_entry (unwrap_or_default (managed_denied_domains cons))"
  shows "(managed_allowed_domains cons = Some managed \<and> allowlist_expansion_enabled cons \<noteq> Some True
        \<longrightarrow> globset_is_match E (allow_set st) h \<longrightarrow> list_ex (\<lambda>t. entry_covers t h) managed)
    \<and> (managed_denied_domains cons = Some denied
        \<longrightarrow> list_ex (\<lambda>t. entry_covers t h) denied \<longrightarrow> globset_is_match E (deny_set st) h)"
  using managed_lists_kept [OF E build_config_state_sets(1,2) [OF st] ok plain] .

definition example_env :: host_env where
  "example_env = \<lparr>env_home = None, env_current_dir = Ok [RootDir]\<rparr>"

definition example_config :: network_proxy_settings where
  "example_config =
     upsert_domain_permission (lit ''*.evil.com'') DomainDeny normalize_host
       (upsert_domain_permission (lit ''api.example.com'') DomainAllow normalize_host (settings_default\<lparr>enabled := True\<rparr>))"

definition example_constraints :: network_proxy_constraints where
  "example_constraints =
     constraints_default\<lparr>managed_allowed_domains := Some [lit ''**.example.com''],
       managed_denied_domains := Some [lit ''*.evil.com'']\<rparr>"

definition example_state :: config_state where
  "example_state =
     \<lparr>config = example_config, allow_set = [lit ''api.example.com''], deny_set = [lit ''?*.evil.com''], mitm_state = None,
      constraints = example_constraints, blocked = [], blocked_total = 0\<rparr>"

lemma example_state_built: "build_config_state simple_net_env example_env example_config example_constraints = Ok example_state"
  by code_simp

lemma example_satisfies: "satisfies simple_net_env example_config example_constraints"
  by code_simp

theorem accepted_config_keeps_managed_lists_witness:
  "globset_is_match simple_net_env (allow_set example_state) (lit ''API.example.com'')
   \<and> list_ex (\<lambda>t. entry_covers t (lit ''API.example.com'')) [lit ''**.example.com'']
   \<and> globset_is_match simple_net_env (deny_set example_state) (lit ''www.evil.com'')"
proof -
  have plain: "list_all plain_entry (unwrap_or_default (allowed_domains example_config))"
      "list_all plain_entry (unwrap_or_default (denied_domains example_config))"
      "list_all plain_entry (unwrap_or_default (managed_allowed_domains example_constraints))"
      "list_all plain_entry (unwrap_or_default (managed_denied_domains example_constraints))"
    by code_simp+
  have lists: "managed_allowed_domains example_constraints = Some [lit ''**.example.com'']"
      "managed_denied_domains example_constraints = Some [lit ''*.evil.com'']"
      "allowlist_expansion_enabled example_constraints \<noteq> Some True"
    by (simp_all add: example_constraints_def constraints_default_def)
  have "globset_is_match simple_net_env (allow_set example_state) (lit ''API.example.com'')"
      "list_ex (\<lambda>t. entry_covers t (lit ''www.evil.com'')) [lit ''*.evil.com'']" by code_simp+
  with accepted_config_keeps_managed_lists [OF simple_net_env_documented example_state_built example_satisfies plain] lists
  show ?thesis by blast
qed

end
