(* ===== verification/Net_Runtime.thy ===== *)
theory Net_Runtime
  imports Net_Constraints
begin

text \<open>
  The running network proxy (\<^verbatim>\<open>src/network-proxy/src/runtime.rs\<close>), its decisions on hosts
  (\<^verbatim>\<open>network_policy.rs\<close>) and on the addresses it connects to (\<^verbatim>\<open>connect_policy.rs\<close>).  An operation takes
  the answer of the reloader that it asks first and the state, and returns its result with the state it leaves.
  The lookup of a name, which is \<open>None\<close> when it fails or takes too long, and the decider that a request may be
  referred to are parameters.  Log lines are left out; the audit event of a decision is part of its result.
\<close>

section \<open>Definitions\<close>

datatype host_block_reason = Denied | NotAllowed | NotAllowedLocal

fun reason_str :: "host_block_reason \<Rightarrow> ustr" where
  "reason_str Denied = lit ''denied''"
| "reason_str NotAllowed = lit ''not_allowed''"
| "reason_str NotAllowedLocal = lit ''not_allowed_local''"

datatype host_block_decision = Allowed | Blocked host_block_reason

type_synonym 'a net_result = "(config_error, 'a) result"

text \<open>The answer of \<^verbatim>\<open>ConfigReloader::maybe_reload\<close>.\<close>

type_synonym reload_answer = "config_state option net_result"

type_synonym dns = "ustr \<Rightarrow> 16 word \<Rightarrow> ip_addr list option"

definition MAX_BLOCKED_EVENTS :: nat where "MAX_BLOCKED_EVENTS = 200"

definition keep_blocked :: "config_state \<Rightarrow> config_state \<Rightarrow> config_state" where
  "keep_blocked st new_state = new_state\<lparr>blocked := blocked st, blocked_total := blocked_total st\<rparr>"

definition reload_if_needed :: "reload_answer \<Rightarrow> config_state \<Rightarrow> config_state net_result" where
  "reload_if_needed answer st =
     (case answer of
        Err e \<Rightarrow> Err e
      | Ok None \<Rightarrow> Ok st
      | Ok (Some new_state) \<Rightarrow> Ok (keep_blocked st new_state))"

text \<open>The operations that read the state after the reload.\<close>

definition with_reload :: "reload_answer \<Rightarrow> config_state \<Rightarrow> (config_state \<Rightarrow> 'a net_result \<times> config_state) \<Rightarrow> 'a net_result \<times> config_state" where
  "with_reload answer st k = (case reload_if_needed answer st of Err e \<Rightarrow> (Err e, st) | Ok st \<Rightarrow> k st)"

definition current_cfg :: "reload_answer \<Rightarrow> config_state \<Rightarrow> network_proxy_settings net_result \<times> config_state" where
  "current_cfg answer st = with_reload answer st (\<lambda>st. (Ok (config st), st))"

definition current_patterns :: "reload_answer \<Rightarrow> config_state \<Rightarrow> (ustr list \<times> ustr list) net_result \<times> config_state" where
  "current_patterns answer st = with_reload answer st (\<lambda>st.
     (Ok (unwrap_or_default (allowed_domains (config st)), unwrap_or_default (denied_domains (config st))), st))"

definition method_allowed :: "reload_answer \<Rightarrow> ustr \<Rightarrow> config_state \<Rightarrow> bool net_result \<times> config_state" where
  "method_allowed answer method st = with_reload answer st (\<lambda>st. (Ok (allows_method (mode (config st)) method), st))"

definition state_allow_local_binding :: "reload_answer \<Rightarrow> config_state \<Rightarrow> bool net_result \<times> config_state" where
  "state_allow_local_binding answer st = with_reload answer st (\<lambda>st. (Ok (allow_local_binding (config st)), st))"

definition force_reload :: "config_state net_result \<Rightarrow> config_state \<Rightarrow> unit net_result \<times> config_state" where
  "force_reload answer st =
     (case answer of
        Ok new_state \<Rightarrow> (Ok (), new_state\<lparr>blocked := blocked st\<rparr>)
      | Err e \<Rightarrow> (Err e, st))"

definition replace_config_state :: "reload_answer \<Rightarrow> config_state \<Rightarrow> config_state \<Rightarrow> unit net_result \<times> config_state" where
  "replace_config_state answer new_state st = with_reload answer st (\<lambda>st. (Ok (), keep_blocked st new_state))"

subsection \<open>Hosts\<close>

definition globset_matches_host_or_unscoped :: "net_env \<Rightarrow> globset \<Rightarrow> ustr \<Rightarrow> bool" where
  "globset_matches_host_or_unscoped E gs host \<longleftrightarrow>
     globset_is_match E gs host
     \<or> (case unscoped_ip_literal host of Some ip \<Rightarrow> globset_is_match E gs ip | None \<Rightarrow> False)"

definition is_explicit_local_allowlisted :: "ustr list \<Rightarrow> ustr \<Rightarrow> bool" where
  "is_explicit_local_allowlisted allowed host =
     (let unscoped_host = unscoped_ip_literal host
      in list_ex (\<lambda>pattern.
           let pattern = trim pattern
           in if pattern = lit ''*'' \<or> starts_with pattern (lit ''*.'') \<or> starts_with pattern (lit ''**.'') then False
              else if 42 \<in> set pattern \<or> 63 \<in> set pattern then False
              else let normalized_pattern = normalize_host pattern
                   in normalized_pattern = host
                      \<or> (case unscoped_host of Some ip \<Rightarrow> normalized_pattern = ip | None \<Rightarrow> False)) allowed)"

definition host_resolves_to_non_public_ip :: "dns \<Rightarrow> ustr \<Rightarrow> 16 word \<Rightarrow> bool" where
  "host_resolves_to_non_public_ip dns host port =
     (case parse_ip host of
        Some ip \<Rightarrow> is_non_public_ip ip
      | None \<Rightarrow> (case dns host port of None \<Rightarrow> True | Some addrs \<Rightarrow> list_ex is_non_public_ip addrs))"

text \<open>Whether the host is written as an address of the local machine or network.\<close>

definition local_literal :: "ustr \<Rightarrow> bool" where
  "local_literal host =
     (let host_no_scope = (case unscoped_ip_literal host of Some ip \<Rightarrow> ip | None \<Rightarrow> host)
      in if is_loopback_host host then True
         else case parse_ip host_no_scope of Some ip \<Rightarrow> is_non_public_ip ip | None \<Rightarrow> False)"

text \<open>The decision on a host in a state that is up to date.\<close>

definition host_decision :: "net_env \<Rightarrow> dns \<Rightarrow> ustr \<Rightarrow> 16 word \<Rightarrow> config_state \<Rightarrow> host_block_decision" where
  "host_decision E dns host port st =
     (case host_parse host of
        Err _ \<Rightarrow> Blocked NotAllowed
      | Ok host \<Rightarrow>
          (let allowed = allowed_domains (config st);
               allowed_domains_empty = (allowed = None);
               allowed = unwrap_or_default allowed
           in if globset_matches_host_or_unscoped E (deny_set st) host then Blocked Denied
              else let is_allowlisted = globset_matches_host_or_unscoped E (allow_set st) host
                   in if \<not> allow_local_binding (config st) \<and>
                         (if local_literal host then \<not> is_explicit_local_allowlisted allowed host
                          else host_resolves_to_non_public_ip dns host port)
                      then Blocked NotAllowedLocal
                      else if allowed_domains_empty \<or> \<not> is_allowlisted then Blocked NotAllowed
                      else Allowed))"

definition host_blocked ::
  "net_env \<Rightarrow> dns \<Rightarrow> reload_answer \<Rightarrow> ustr \<Rightarrow> 16 word \<Rightarrow> config_state \<Rightarrow> host_block_decision net_result \<times> config_state" where
  "host_blocked E dns answer host port st = with_reload answer st (\<lambda>st. (Ok (host_decision E dns host port st), st))"

subsection \<open>Blocked requests\<close>

definition saturating_inc :: "64 word \<Rightarrow> 64 word" where
  "saturating_inc n = (if n = - 1 then n else n + 1)"

fun pop_excess :: "'a list \<Rightarrow> 'a list" where
  "pop_excess [] = []"
| "pop_excess (x # xs) = (if MAX_BLOCKED_EVENTS < length (x # xs) then pop_excess xs else x # xs)"

definition push_blocked :: "blocked_request \<Rightarrow> config_state \<Rightarrow> config_state" where
  "push_blocked entry st =
     st\<lparr>blocked := pop_excess (blocked st @ [entry]), blocked_total := saturating_inc (blocked_total st)\<rparr>"

definition record_blocked :: "reload_answer \<Rightarrow> blocked_request \<Rightarrow> config_state \<Rightarrow> unit net_result \<times> config_state" where
  "record_blocked answer entry st = with_reload answer st (\<lambda>st. (Ok (), push_blocked entry st))"

definition blocked_snapshot :: "reload_answer \<Rightarrow> config_state \<Rightarrow> blocked_request list net_result \<times> config_state" where
  "blocked_snapshot answer st = with_reload answer st (\<lambda>st. (Ok (blocked st), st))"

definition drain_blocked :: "reload_answer \<Rightarrow> config_state \<Rightarrow> blocked_request list net_result \<times> config_state" where
  "drain_blocked answer st = with_reload answer st (\<lambda>st. (Ok (blocked st), st\<lparr>blocked := []\<rparr>))"

subsection \<open>Unix sockets\<close>

fun socket_path_matches :: "host_env \<Rightarrow> (path \<Rightarrow> path option) \<Rightarrow> path \<Rightarrow> path option \<Rightarrow> ustr list \<Rightarrow> bool" where
  "socket_path_matches env canonicalize requested_abs requested_canonical [] = False"
| "socket_path_matches env canonicalize requested_abs requested_canonical (entry # entries) =
     (case validated_unix_socket_path_parse env entry of
        Ok (Native allowed_path) \<Rightarrow>
          if allowed_path = requested_abs then True
          else if requested_canonical \<noteq> None \<and> canonicalize allowed_path = requested_canonical then True
          else socket_path_matches env canonicalize requested_abs requested_canonical entries
      | _ \<Rightarrow> socket_path_matches env canonicalize requested_abs requested_canonical entries)"

text \<open>The platform is a parameter: the permissions are supported on macOS only.\<close>

definition is_unix_socket_allowed ::
  "bool \<Rightarrow> host_env \<Rightarrow> (path \<Rightarrow> path option) \<Rightarrow> reload_answer \<Rightarrow> ustr \<Rightarrow> config_state \<Rightarrow> bool net_result \<times> config_state" where
  "is_unix_socket_allowed supported env canonicalize answer p st = with_reload answer st (\<lambda>st.
     (Ok (if \<not> supported then False
          else if \<not> is_absolute (components p) then False
          else if dangerously_allow_all_unix_sockets (config st) then True
          else case from_absolute_path (env_home env) (env_current_dir env) p of
                 Err _ \<Rightarrow> False
               | Ok requested_abs \<Rightarrow>
                   socket_path_matches env canonicalize requested_abs (canonicalize requested_abs)
                     (allow_unix_sockets (config st))), st))"

subsection \<open>Updates\<close>

datatype domain_list_kind = AllowList | DenyList

fun list_name :: "domain_list_kind \<Rightarrow> ustr" where
  "list_name AllowList = lit ''allowlist''"
| "list_name DenyList = lit ''denylist''"

fun constraint_field :: "domain_list_kind \<Rightarrow> ustr" where
  "constraint_field AllowList = lit ''network.allowed_domains''"
| "constraint_field DenyList = lit ''network.denied_domains''"

fun list_permission :: "domain_list_kind \<Rightarrow> network_domain_permission" where
  "list_permission AllowList = DomainAllow"
| "list_permission DenyList = DomainDeny"

fun list_entries :: "domain_list_kind \<Rightarrow> network_proxy_settings \<Rightarrow> ustr list" where
  "list_entries AllowList s = unwrap_or_default (allowed_domains s)"
| "list_entries DenyList s = unwrap_or_default (denied_domains s)"

fun opposite_entries :: "domain_list_kind \<Rightarrow> network_proxy_settings \<Rightarrow> ustr list" where
  "opposite_entries AllowList s = unwrap_or_default (denied_domains s)"
| "opposite_entries DenyList s = unwrap_or_default (allowed_domains s)"

text \<open>The part of an update before the write lock, on a snapshot of the state: the check of the new mode; and the new state for a host.\<close>

definition check_mode :: "net_env \<Rightarrow> network_mode \<Rightarrow> config_state \<Rightarrow> unit net_result" where
  "check_mode E m st =
     (case validate_policy_against_constraints E ((config st)\<lparr>mode := m\<rparr>) (constraints st) of
        Err e \<Rightarrow> Err (Context (lit ''network.mode constrained by managed config'') (Constraint e))
      | Ok _ \<Rightarrow> Ok ())"

text \<open>\<open>Ok None\<close>: the host is in the list already.\<close>

definition updated_state :: "net_env \<Rightarrow> host_env \<Rightarrow> ustr \<Rightarrow> domain_list_kind \<Rightarrow> config_state \<Rightarrow> config_state option net_result" where
  "updated_state E env host target st =
     (let target_contains = list_ex (\<lambda>entry. normalize_host entry = host) (list_entries target (config st));
          opposite_contains = list_ex (\<lambda>entry. normalize_host entry = host) (opposite_entries target (config st))
      in if target_contains \<and> \<not> opposite_contains then Ok None
         else let candidate = upsert_domain_permission host (list_permission target) normalize_host (config st)
              in case validate_policy_against_constraints E candidate (constraints st) of
                   Err e \<Rightarrow> Err (Context (constraint_field target @ lit '' constrained by managed config'') (Constraint e))
                 | Ok _ \<Rightarrow>
                     (case build_config_state E env candidate (constraints st) of
                        Err e \<Rightarrow> Err (Context (lit ''failed to compile updated network '' @ list_name target) e)
                      | Ok new_state \<Rightarrow> Ok (Some (keep_blocked st new_state))))"

text \<open>The updates as one task runs them when no other changes the state: the loop ends in its first round.\<close>

definition set_network_mode :: "net_env \<Rightarrow> reload_answer \<Rightarrow> network_mode \<Rightarrow> config_state \<Rightarrow> unit net_result \<times> config_state" where
  "set_network_mode E answer m st = with_reload answer st (\<lambda>st.
     case check_mode E m st of
       Err e \<Rightarrow> (Err e, st)
     | Ok _ \<Rightarrow> (Ok (), st\<lparr>config := (config st)\<lparr>mode := m\<rparr>\<rparr>))"

definition update_domain_list ::
  "net_env \<Rightarrow> host_env \<Rightarrow> reload_answer \<Rightarrow> ustr \<Rightarrow> domain_list_kind \<Rightarrow> config_state \<Rightarrow> unit net_result \<times> config_state" where
  "update_domain_list E env answer host target st =
     (case host_parse host of
        Err e \<Rightarrow> (Err (Context (lit ''invalid network host'') (Pattern e)), st)
      | Ok host \<Rightarrow> with_reload answer st (\<lambda>st.
          case updated_state E env host target st of
            Err e \<Rightarrow> (Err e, st)
          | Ok None \<Rightarrow> (Ok (), st)
          | Ok (Some new_state) \<Rightarrow> (Ok (), new_state)))"

definition add_allowed_domain :: "net_env \<Rightarrow> host_env \<Rightarrow> reload_answer \<Rightarrow> ustr \<Rightarrow> config_state \<Rightarrow> unit net_result \<times> config_state" where
  "add_allowed_domain E env answer host = update_domain_list E env answer host AllowList"

definition add_denied_domain :: "net_env \<Rightarrow> host_env \<Rightarrow> reload_answer \<Rightarrow> ustr \<Rightarrow> config_state \<Rightarrow> unit net_result \<times> config_state" where
  "add_denied_domain E env answer host = update_domain_list E env answer host DenyList"

subsection \<open>Requests\<close>

datatype network_protocol = Http | HttpsConnect | Socks5Tcp | Socks5Udp

fun as_policy_protocol :: "network_protocol \<Rightarrow> ustr" where
  "as_policy_protocol Http = lit ''http''"
| "as_policy_protocol HttpsConnect = lit ''https_connect''"
| "as_policy_protocol Socks5Tcp = lit ''socks5_tcp''"
| "as_policy_protocol Socks5Udp = lit ''socks5_udp''"

datatype network_policy_decision = PolicyDeny | PolicyAsk

fun policy_decision_str :: "network_policy_decision \<Rightarrow> ustr" where
  "policy_decision_str PolicyDeny = lit ''deny''"
| "policy_decision_str PolicyAsk = lit ''ask''"

datatype network_decision_source = BaselinePolicy | ModeGuard | ProxyState | Decider

record network_policy_request =
  npr_protocol :: network_protocol
  npr_host :: ustr
  npr_port :: "16 word"
  npr_client_addr :: "ustr option"
  npr_method :: "ustr option"
  npr_command :: "ustr option"
  npr_exec_policy_hint :: "ustr option"

datatype network_decision =
    NetAllow
  | NetDeny ustr network_decision_source network_policy_decision

definition deny_with_source :: "ustr \<Rightarrow> network_decision_source \<Rightarrow> network_decision" where
  "deny_with_source reason source = NetDeny (if reason = [] then lit ''policy_denied'' else reason) source PolicyDeny"

definition ask_with_source :: "ustr \<Rightarrow> network_decision_source \<Rightarrow> network_decision" where
  "ask_with_source reason source = NetDeny (if reason = [] then lit ''policy_denied'' else reason) source PolicyAsk"

fun map_decider_decision :: "network_decision \<Rightarrow> network_decision" where
  "map_decider_decision NetAllow = NetAllow"
| "map_decider_decision (NetDeny reason _ decision) = NetDeny reason Decider decision"

text \<open>What the audit event of a decision says of it; the rest of the event is copied from the request.\<close>

record policy_audit_event =
  audit_decision :: ustr
  audit_source :: network_decision_source
  audit_reason :: ustr
  audit_override :: bool

fun audit_event :: "network_decision \<Rightarrow> bool \<Rightarrow> policy_audit_event" where
  "audit_event NetAllow policy_override =
     \<lparr>audit_decision = lit ''allow'', audit_source = (if policy_override then Decider else BaselinePolicy),
      audit_reason = (if policy_override then reason_str NotAllowed else lit ''allow''), audit_override = policy_override\<rparr>"
| "audit_event (NetDeny reason source decision) policy_override =
     \<lparr>audit_decision = policy_decision_str decision, audit_source = source, audit_reason = reason, audit_override = policy_override\<rparr>"

definition evaluate_host_policy ::
  "net_env \<Rightarrow> dns \<Rightarrow> reload_answer \<Rightarrow> (network_policy_request \<Rightarrow> network_decision) option \<Rightarrow> network_policy_request
     \<Rightarrow> config_state \<Rightarrow> (network_decision \<times> policy_audit_event) net_result \<times> config_state" where
  "evaluate_host_policy E dns answer decider request st =
     (case host_blocked E dns answer (npr_host request) (npr_port request) st of
        (Err e, st) \<Rightarrow> (Err e, st)
      | (Ok decision, st) \<Rightarrow>
          (let (decision, policy_override) =
             (case decision of
                Allowed \<Rightarrow> (NetAllow, False)
              | Blocked NotAllowed \<Rightarrow>
                  (case decider of
                     Some decide \<Rightarrow>
                       (let decider_decision = map_decider_decision (decide request)
                        in (decider_decision, decider_decision = NetAllow))
                   | None \<Rightarrow> (deny_with_source (reason_str NotAllowed) BaselinePolicy, False))
              | Blocked reason \<Rightarrow> (deny_with_source (reason_str reason) BaselinePolicy, False))
           in (Ok (decision, audit_event decision policy_override), st)))"

subsection \<open>Connections\<close>

datatype target_policy = ConfigPolicy bool | StatePolicy

fun target_allow_local_binding :: "reload_answer \<Rightarrow> target_policy \<Rightarrow> config_state \<Rightarrow> bool net_result \<times> config_state" where
  "target_allow_local_binding answer (ConfigPolicy b) st = (Ok b, st)"
| "target_allow_local_binding answer StatePolicy st =
     (case state_allow_local_binding answer st of
        (Err e, st) \<Rightarrow> (Err (Context (lit ''read network proxy config'') e), st)
      | (Ok b, st) \<Rightarrow> (Ok b, st))"

text \<open>Whether the connector opens a connection to the address.\<close>

definition connects :: "reload_answer \<Rightarrow> target_policy \<Rightarrow> ip_addr \<Rightarrow> config_state \<Rightarrow> bool net_result \<times> config_state" where
  "connects answer policy ip st =
     (case target_allow_local_binding answer policy st of
        (Err e, st) \<Rightarrow> (Err e, st)
      | (Ok allow_local, st) \<Rightarrow> (Ok (allow_local \<or> \<not> is_non_public_ip ip), st))"

section \<open>Decisions\<close>

lemma with_reload_Ok:
  "reload_if_needed answer st = Ok st' \<Longrightarrow> with_reload answer st k = k st'"
  by (simp add: with_reload_def)

lemmas reading = host_blocked_def current_cfg_def method_allowed_def state_allow_local_binding_def with_reload_Ok

text \<open>What the local network check lets through.\<close>

definition local_check :: "dns \<Rightarrow> ustr \<Rightarrow> 16 word \<Rightarrow> config_state \<Rightarrow> bool" where
  "local_check dns host port st \<longleftrightarrow>
     allow_local_binding (config st)
     \<or> (if local_literal host then is_explicit_local_allowlisted (unwrap_or_default (allowed_domains (config st))) host
        else \<not> host_resolves_to_non_public_ip dns host port)"

lemma host_decision_cases:
  assumes "host_parse host = Ok h"
  shows "host_decision E dns host port st =
    (if globset_matches_host_or_unscoped E (deny_set st) h then Blocked Denied
     else if \<not> local_check dns h port st then Blocked NotAllowedLocal
     else if allowed_domains (config st) = None \<or> \<not> globset_matches_host_or_unscoped E (allow_set st) h then Blocked NotAllowed
     else Allowed)"
  using assms by (auto simp: host_decision_def local_check_def Let_def)

lemma map_decider_allow [simp]: "map_decider_decision d = NetAllow \<longleftrightarrow> d = NetAllow"
  by (cases d) simp_all

text \<open>The condition under which a request is let through.\<close>

definition permitted :: "net_env \<Rightarrow> dns \<Rightarrow> (network_policy_request \<Rightarrow> network_decision) option \<Rightarrow> network_policy_request \<Rightarrow> config_state \<Rightarrow> bool" where
  "permitted E dns decider request st \<longleftrightarrow>
     (let decider_allows = (\<exists>decide. decider = Some decide \<and> decide request = NetAllow)
      in case host_parse (npr_host request) of
           Err _ \<Rightarrow> decider_allows
         | Ok h \<Rightarrow>
             \<not> globset_matches_host_or_unscoped E (deny_set st) h
             \<and> local_check dns h (npr_port request) st
             \<and> (allowed_domains (config st) \<noteq> None \<and> globset_matches_host_or_unscoped E (allow_set st) h
                \<or> decider_allows))"

lemma evaluate_permitted:
  assumes "reload_if_needed answer st = Ok st'"
  shows "(\<exists>event. fst (evaluate_host_policy E dns answer decider request st) = Ok (NetAllow, event))
    \<longleftrightarrow> permitted E dns decider request st'"
proof (cases "host_parse (npr_host request)")
  case (Err e)
  then show ?thesis using assms
    by (auto simp: evaluate_host_policy_def reading host_decision_def deny_with_source_def permitted_def split: option.splits)
next
  case (Ok h)
  then show ?thesis using assms
    by (auto simp: evaluate_host_policy_def reading host_decision_cases deny_with_source_def permitted_def Let_def split: option.splits)
qed



text \<open>The source that the audit event names: the decider exactly when the allow list does not let the request through.\<close>

lemma audit_names_the_decider:
  assumes "evaluate_host_policy E dns answer decider request st = (Ok (NetAllow, event), st')"
  shows "audit_override event \<longleftrightarrow> host_decision E dns (npr_host request) (npr_port request) st' = Blocked NotAllowed"
    and "audit_override event \<longleftrightarrow> audit_source event = Decider"
  using assms
  by (auto simp: evaluate_host_policy_def host_blocked_def with_reload_def deny_with_source_def Let_def
      split: result.splits host_block_decision.splits host_block_reason.splits option.splits prod.splits)

text \<open>
  An address of the local machine or network is never connected to while local binding is off: not for a name
  that resolves to it after the decision, and not for a literal that the allow list names, which the decision allows.
\<close>

lemma local_address_never_connected:
  assumes "reload_if_needed answer st = Ok st'" and "\<not> allow_local_binding (config st')" and "is_non_public_ip ip"
  shows "connects answer StatePolicy ip st = (Ok False, st')"
  using assms by (simp add: connects_def reading)

lemma allowlisted_local_literal_is_allowed_not_connected:
  assumes "host_parse host = Ok h" and "parse_ip h = Some ip" and "is_non_public_ip ip" and "\<not> allow_local_binding (config st)"
    and "is_explicit_local_allowlisted (unwrap_or_default (allowed_domains (config st))) h" and "37 \<notin> set h"
    and "globset_is_match E (allow_set st) h" and "\<not> globset_is_match E (deny_set st) h" and "allowed_domains (config st) \<noteq> None"
  shows "host_decision E dns host port st = Allowed \<and> fst (connects (Ok None) StatePolicy ip st) = Ok False"
proof -
  have "unscoped_ip_literal h = None" using assms(6) by (simp add: unscoped_ip_literal_def split_once_def)
  then have "local_literal h" "\<not> globset_matches_host_or_unscoped E (deny_set st) h"
    "globset_matches_host_or_unscoped E (allow_set st) h"
    using assms by (simp_all add: local_literal_def globset_matches_host_or_unscoped_def)
  then show ?thesis
    using assms local_address_never_connected [of "Ok None" st st ip]
    by (simp add: host_decision_cases local_check_def reload_if_needed_def)
qed

section \<open>Blocked requests\<close>

lemma pop_excess_drop: "pop_excess xs = drop (length xs - MAX_BLOCKED_EVENTS) xs"
  by (induction xs) (auto simp: Suc_diff_le not_less)

definition buffer_ok :: "config_state \<Rightarrow> bool" where
  "buffer_ok st \<longleftrightarrow> length (blocked st) \<le> MAX_BLOCKED_EVENTS \<and> length (blocked st) \<le> unat (blocked_total st)"

lemma saturating_inc_unat: "unat (saturating_inc n) = min (unat n + 1) (2 ^ 64 - 1)"
proof -
  have m: "unat (- 1 :: 64 word) = 2 ^ 64 - 1" by (simp add: unat_eq_nat_uint uint_word_ariths)
  have less: "unat n < 2 ^ 64" using unsigned_less [of n, where 'a = nat] by simp
  show ?thesis
  proof (cases "n = - 1")
    case True
    then show ?thesis using m by (simp add: saturating_inc_def)
  next
    case False
    then have "unat n \<noteq> 2 ^ 64 - 1" using m by (metis word_unat_eq_iff)
    with less have "unat n + 1 < 2 ^ 64" by simp
    then show ?thesis using False by (simp add: saturating_inc_def unat_word_ariths(1))
  qed
qed

lemma push_blocked_buffer: "buffer_ok st \<Longrightarrow> buffer_ok (push_blocked entry st)"
  by (auto simp: buffer_ok_def push_blocked_def pop_excess_drop saturating_inc_unat MAX_BLOCKED_EVENTS_def)

text \<open>The last entries are kept, in the order they came in.\<close>

lemma push_blocked_last:
  "blocked (push_blocked entry st) = drop (Suc (length (blocked st)) - MAX_BLOCKED_EVENTS) (blocked st @ [entry])"
  "last (blocked (push_blocked entry st)) = entry"
  by (simp_all add: push_blocked_def pop_excess_drop MAX_BLOCKED_EVENTS_def)

lemma keep_blocked_buffer: "buffer_ok st \<Longrightarrow> buffer_ok (keep_blocked st new_state)"
  by (simp add: buffer_ok_def keep_blocked_def)

text \<open>A forced reload keeps the entries but not their count: the total may be less than the number of entries.\<close>

lemma force_reload_forgets_total:
  assumes "build_config_state E env cfg cons = Ok new_state" and "blocked st \<noteq> []"
  shows "snd (force_reload (Ok new_state) st) = new_state\<lparr>blocked := blocked st\<rparr>
    \<and> \<not> buffer_ok (snd (force_reload (Ok new_state) st))"
  using assms build_config_state_sets(6) [OF assms(1)] by (simp add: force_reload_def buffer_ok_def)

end
