(* ===== verification/Net_Concurrency.thy ===== *)
theory Net_Concurrency
  imports Net_Runtime
begin

text \<open>
  Tasks that use the state of the network proxy at the same time (\<^verbatim>\<open>NetworkProxyState\<close> of
  \<^verbatim>\<open>src/network-proxy/src/runtime.rs\<close>).  One move of a task is what it does under one lock of the state, so that the
  other tasks can move between its read of the state and its write.  The states that the reloader may load are the
  parameter \<open>R\<close>.
\<close>

section \<open>Definitions\<close>

datatype proxy_op =
    SetMode network_mode
  | UpdateList ustr domain_list_kind
  | Record blocked_request
  | Drain
  | Replace config_state
  | ForceReload

text \<open>
  Where a task is: before the question to the reloader, with a loaded state before the read of the old one and
  after it, past the reload, past the checks of an update, done.
\<close>

datatype proxy_task =
    Start proxy_op
  | Reloading config_state proxy_op
  | Installing config_state proxy_op
  | Ready proxy_op
  | ModeChecked network_mode network_proxy_constraints
  | ListPrepared ustr domain_list_kind network_proxy_settings network_proxy_constraints config_state
  | Done "unit net_result"

record proxy =
  px_state :: config_state
  px_tasks :: "proxy_task list"

definition move :: "nat \<Rightarrow> proxy_task \<Rightarrow> config_state \<Rightarrow> proxy \<Rightarrow> proxy" where
  "move i t st s = s\<lparr>px_state := st, px_tasks := (px_tasks s)[i := t]\<rparr>"

abbreviation at :: "proxy \<Rightarrow> nat \<Rightarrow> proxy_task \<Rightarrow> bool" where
  "at s i t \<equiv> i < length (px_tasks s) \<and> px_tasks s ! i = t"

inductive proxy_step :: "net_env \<Rightarrow> host_env \<Rightarrow> (config_state \<Rightarrow> bool) \<Rightarrow> proxy \<Rightarrow> proxy \<Rightarrow> bool" for E env R where
  reload_not_needed:
    "at s i (Start op) \<Longrightarrow> op \<noteq> ForceReload \<Longrightarrow> proxy_step E env R s (move i (Ready op) (px_state s) s)"
| reload_fails:
    "at s i (Start op) \<Longrightarrow> proxy_step E env R s (move i (Done (Err e)) (px_state s) s)"
| reload_loads:
    "at s i (Start op) \<Longrightarrow> op \<noteq> ForceReload \<Longrightarrow> R new_state \<Longrightarrow>
     proxy_step E env R s (move i (Reloading new_state op) (px_state s) s)"
| reload_reads:
    "at s i (Reloading new_state op) \<Longrightarrow>
     proxy_step E env R s (move i (Installing (keep_blocked (px_state s) new_state) op) (px_state s) s)"
| reload_writes:
    "at s i (Installing new_state op) \<Longrightarrow> proxy_step E env R s (move i (Ready op) new_state s)"
| force_writes:
    "at s i (Start ForceReload) \<Longrightarrow> R new_state \<Longrightarrow>
     proxy_step E env R s (move i (Done (Ok ())) (new_state\<lparr>blocked := blocked (px_state s)\<rparr>) s)"
| replace_writes:
    "at s i (Ready (Replace new_state)) \<Longrightarrow>
     proxy_step E env R s (move i (Done (Ok ())) (keep_blocked (px_state s) new_state) s)"
| record_writes:
    "at s i (Ready (Record entry)) \<Longrightarrow>
     proxy_step E env R s (move i (Done (Ok ())) (push_blocked entry (px_state s)) s)"
| drain_writes:
    "at s i (Ready Drain) \<Longrightarrow>
     proxy_step E env R s (move i (Done (Ok ())) ((px_state s)\<lparr>blocked := []\<rparr>) s)"
| mode_rejected:
    "at s i (Ready (SetMode m)) \<Longrightarrow> check_mode E m (px_state s) = Err e \<Longrightarrow>
     proxy_step E env R s (move i (Done (Err e)) (px_state s) s)"
| mode_reads:
    "at s i (Ready (SetMode m)) \<Longrightarrow> check_mode E m (px_state s) = Ok () \<Longrightarrow>
     proxy_step E env R s (move i (ModeChecked m (constraints (px_state s))) (px_state s) s)"
| mode_retries:
    "at s i (ModeChecked m cons) \<Longrightarrow> constraints (px_state s) \<noteq> cons \<Longrightarrow>
     proxy_step E env R s (move i (Start (SetMode m)) (px_state s) s)"
| mode_writes:
    "at s i (ModeChecked m cons) \<Longrightarrow> constraints (px_state s) = cons \<Longrightarrow>
     proxy_step E env R s (move i (Done (Ok ())) ((px_state s)\<lparr>config := (config (px_state s))\<lparr>mode := m\<rparr>\<rparr>) s)"
| list_rejected:
    "at s i (Ready (UpdateList host target)) \<Longrightarrow> updated_state E env host target (px_state s) = Err e \<Longrightarrow>
     proxy_step E env R s (move i (Done (Err e)) (px_state s) s)"
| list_unchanged:
    "at s i (Ready (UpdateList host target)) \<Longrightarrow> updated_state E env host target (px_state s) = Ok None \<Longrightarrow>
     proxy_step E env R s (move i (Done (Ok ())) (px_state s) s)"
| list_reads:
    "at s i (Ready (UpdateList host target)) \<Longrightarrow> updated_state E env host target (px_state s) = Ok (Some new_state) \<Longrightarrow>
     proxy_step E env R s
       (move i (ListPrepared host target (config (px_state s)) (constraints (px_state s)) new_state) (px_state s) s)"
| list_retries:
    "at s i (ListPrepared host target cfg cons new_state) \<Longrightarrow>
     constraints (px_state s) \<noteq> cons \<or> config (px_state s) \<noteq> cfg \<Longrightarrow>
     proxy_step E env R s (move i (Start (UpdateList host target)) (px_state s) s)"
| list_writes:
    "at s i (ListPrepared host target cfg cons new_state) \<Longrightarrow>
     constraints (px_state s) = cons \<Longrightarrow> config (px_state s) = cfg \<Longrightarrow>
     proxy_step E env R s (move i (Done (Ok ())) new_state s)"

abbreviation proxy_run :: "net_env \<Rightarrow> host_env \<Rightarrow> (config_state \<Rightarrow> bool) \<Rightarrow> proxy \<Rightarrow> proxy \<Rightarrow> bool" where
  "proxy_run E env R \<equiv> (proxy_step E env R)\<^sup>*\<^sup>*"

definition start_proxy :: "config_state \<Rightarrow> proxy_op list \<Rightarrow> proxy" where
  "start_proxy st ops = \<lparr>px_state = st, px_tasks = map Start ops\<rparr>"

section \<open>The state keeps to its constraints\<close>

text \<open>The configuration passes the check, and the compiled lists are those of the configuration.\<close>

definition consistent :: "net_env \<Rightarrow> config_state \<Rightarrow> bool" where
  "consistent E st \<longleftrightarrow>
     satisfies E (config st) (constraints st)
     \<and> compile_globset_with_policy E (unwrap_or_default (allowed_domains (config st))) AllowWildcard = Ok (allow_set st)
     \<and> compile_globset_with_policy E (unwrap_or_default (denied_domains (config st))) RejectWildcard = Ok (deny_set st)"

lemma consistent_blocked [simp]:
  "consistent E (st\<lparr>blocked := b\<rparr>) = consistent E st" "consistent E (st\<lparr>blocked_total := n\<rparr>) = consistent E st"
  "consistent E (keep_blocked st' st) = consistent E st" "consistent E (push_blocked entry st) = consistent E st"
  by (simp_all add: consistent_def keep_blocked_def push_blocked_def)

lemma build_config_state_consistent:
  "build_config_state E env cfg cons = Ok st \<Longrightarrow> satisfies E cfg cons \<Longrightarrow> consistent E st"
  using build_config_state_sets [of E env cfg cons st] by (simp add: consistent_def)

text \<open>The parts of an update of a list.\<close>

lemma updated_state_Some:
  assumes "updated_state E env host target st = Ok (Some new_state)"
  shows "consistent E new_state" and "constraints new_state = constraints st" and "blocked new_state = blocked st"
    and "config new_state = upsert_domain_permission host (list_permission target) normalize_host (config st)"
proof -
  let ?c = "upsert_domain_permission host (list_permission target) normalize_host (config st)"
  obtain n where n: "satisfies E ?c (constraints st)" "build_config_state E env ?c (constraints st) = Ok n"
      "new_state = keep_blocked st n"
    using assms by (auto simp: updated_state_def Let_def split: if_splits result.splits)
  note b = build_config_state_sets [OF n(2)] build_config_state_consistent [OF n(2,1)]
  show "consistent E new_state" "constraints new_state = constraints st" "blocked new_state = blocked st"
    "config new_state = ?c" using b n(3) by (simp_all add: keep_blocked_def)
qed

fun task_ok :: "net_env \<Rightarrow> proxy_task \<Rightarrow> bool" where
  "task_ok E (Start op) \<longleftrightarrow> (\<forall>st. op = Replace st \<longrightarrow> consistent E st)"
| "task_ok E (Reloading st op) \<longleftrightarrow> consistent E st \<and> (\<forall>st. op = Replace st \<longrightarrow> consistent E st)"
| "task_ok E (Installing st op) \<longleftrightarrow>
     consistent E st \<and> length (blocked st) \<le> MAX_BLOCKED_EVENTS \<and> (\<forall>st. op = Replace st \<longrightarrow> consistent E st)"
| "task_ok E (Ready op) \<longleftrightarrow> (\<forall>st. op = Replace st \<longrightarrow> consistent E st)"
| "task_ok E (ModeChecked m cons) \<longleftrightarrow> (\<exists>cfg. satisfies E (cfg\<lparr>mode := m\<rparr>) cons)"
| "task_ok E (ListPrepared host target cfg cons st) \<longleftrightarrow>
     consistent E st \<and> length (blocked st) \<le> MAX_BLOCKED_EVENTS \<and> constraints st = cons
     \<and> config st = upsert_domain_permission host (list_permission target) normalize_host cfg"
| "task_ok E (Done r) \<longleftrightarrow> True"

definition proxy_ok :: "net_env \<Rightarrow> proxy \<Rightarrow> bool" where
  "proxy_ok E s \<longleftrightarrow>
     consistent E (px_state s) \<and> length (blocked (px_state s)) \<le> MAX_BLOCKED_EVENTS \<and> list_all (task_ok E) (px_tasks s)"

lemma proxy_ok_move:
  assumes "proxy_ok E s" and "task_ok E t" and "consistent E st" and "length (blocked st) \<le> MAX_BLOCKED_EVENTS"
  shows "proxy_ok E (move i t st s)"
  using assms set_update_subset_insert [of "px_tasks s" i t] by (auto simp: proxy_ok_def move_def list_all_iff)

lemma proxy_ok_task: "proxy_ok E s \<Longrightarrow> at s i t \<Longrightarrow> task_ok E t"
  by (auto simp: proxy_ok_def list_all_length)

lemma proxy_ok_state: "proxy_ok E s \<Longrightarrow> consistent E (px_state s) \<and> length (blocked (px_state s)) \<le> MAX_BLOCKED_EVENTS"
  by (simp add: proxy_ok_def)

lemma consistent_mode:
  assumes "consistent E st" and "satisfies E (cfg\<lparr>mode := m\<rparr>) (constraints st)"
  shows "consistent E (st\<lparr>config := (config st)\<lparr>mode := m\<rparr>\<rparr>)"
  using assms satisfies_mode [of E "config st" "constraints st" m cfg] by (simp add: consistent_def)

lemma proxy_ok_step:
  assumes "proxy_step E env R s s'" and s: "proxy_ok E s" and R: "\<forall>st. R st \<longrightarrow> consistent E st"
  shows "proxy_ok E s'"
  using assms(1)
proof cases
  case (mode_reads i m)
  then have "satisfies E ((config (px_state s))\<lparr>mode := m\<rparr>) (constraints (px_state s))"
    by (simp add: check_mode_def split: result.splits)
  then have "task_ok E (ModeChecked m (constraints (px_state s)))" by auto
  then show ?thesis using mode_reads(1) proxy_ok_state [OF s] by (simp add: proxy_ok_move s)
next
  case (mode_writes i m cons)
  then obtain cfg where "satisfies E (cfg\<lparr>mode := m\<rparr>) (constraints (px_state s))"
    using proxy_ok_task [OF s mode_writes(2)] by auto
  from consistent_mode [OF _ this] show ?thesis using mode_writes(1) proxy_ok_state [OF s] by (simp add: proxy_ok_move s)
next
  case (list_reads i host target new_state)
  from updated_state_Some [OF list_reads(3)] show ?thesis
    using list_reads(1) proxy_ok_state [OF s] by (simp add: proxy_ok_move s)
next
  case (record_writes i entry)
  have "length (blocked (push_blocked entry (px_state s))) \<le> MAX_BLOCKED_EVENTS"
    by (simp add: push_blocked_def pop_excess_drop)
  then show ?thesis using record_writes(1) proxy_ok_state [OF s] by (simp add: proxy_ok_move s)
qed (use s R proxy_ok_state [OF s] in \<open>auto dest!: proxy_ok_task [OF s] intro!: proxy_ok_move simp: keep_blocked_def consistent_def\<close>)

lemma proxy_ok_run:
  assumes "proxy_run E env R s s'" and "proxy_ok E s" and "\<forall>st. R st \<longrightarrow> consistent E st"
  shows "proxy_ok E s'"
  using assms(1) by (induction rule: rtranclp_induct) (use assms(2,3) proxy_ok_step in blast)+

lemma proxy_ok_start:
  assumes "consistent E st" and "length (blocked st) \<le> MAX_BLOCKED_EVENTS" and "\<forall>new. Replace new \<in> set ops \<longrightarrow> consistent E new"
  shows "proxy_ok E (start_proxy st ops)"
  using assms by (auto simp: proxy_ok_def start_proxy_def list_all_iff)

text \<open>The names that a host is matched by: the host itself and the address of a scoped literal.\<close>

definition host_names :: "ustr \<Rightarrow> ustr list" where
  "host_names h = h # (case unscoped_ip_literal h of Some ip \<Rightarrow> [ip] | None \<Rightarrow> [])"

definition names_covered :: "ustr list \<Rightarrow> ustr \<Rightarrow> bool" where
  "names_covered entries h \<longleftrightarrow> list_ex (\<lambda>n. list_ex (\<lambda>t. entry_covers t n) entries) (host_names h)"

lemma matches_names: "globset_matches_host_or_unscoped E gs h \<longleftrightarrow> list_ex (globset_is_match E gs) (host_names h)"
  by (auto simp: globset_matches_host_or_unscoped_def host_names_def split: option.splits)

definition plain_lists :: "config_state \<Rightarrow> bool" where
  "plain_lists st \<longleftrightarrow>
     list_all plain_entry (unwrap_or_default (allowed_domains (config st)))
     \<and> list_all plain_entry (unwrap_or_default (denied_domains (config st)))
     \<and> list_all plain_entry (unwrap_or_default (managed_allowed_domains (constraints st)))
     \<and> list_all plain_entry (unwrap_or_default (managed_denied_domains (constraints st)))"

lemma consistent_allowed_is_managed:
  assumes E: "documented_globs E" "documented_hosts E" and st: "consistent E st" "plain_lists st"
    and d: "host_decision E dns host port st = Allowed"
  shows "\<exists>h. host_parse host = Ok h
    \<and> (\<forall>managed. managed_allowed_domains (constraints st) = Some managed \<and> allowlist_expansion_enabled (constraints st) \<noteq> Some True
        \<longrightarrow> names_covered managed h)
    \<and> (\<forall>denied. managed_denied_domains (constraints st) = Some denied \<longrightarrow> \<not> names_covered denied h)"
proof -
  obtain h where h: "host_parse host = Ok h" using d by (auto simp: host_decision_def split: result.splits)
  have m: "list_ex (globset_is_match E (allow_set st)) (host_names h)" "\<not> list_ex (globset_is_match E (deny_set st)) (host_names h)"
    using d host_decision_cases [OF h, of E dns port st] by (auto simp: matches_names split: if_splits)
  have managed: "(managed_allowed_domains (constraints st) = Some managed \<and> allowlist_expansion_enabled (constraints st) \<noteq> Some True
        \<longrightarrow> globset_is_match E (allow_set st) n \<longrightarrow> list_ex (\<lambda>t. entry_covers t n) managed)
    \<and> (managed_denied_domains (constraints st) = Some denied
        \<longrightarrow> list_ex (\<lambda>t. entry_covers t n) denied \<longrightarrow> globset_is_match E (deny_set st) n)" for managed denied n
    using E st by (intro managed_lists_kept [where cfg = "config st"]) (simp_all add: consistent_def plain_lists_def)
  have "names_covered l h" if "managed_allowed_domains (constraints st) = Some l" "allowlist_expansion_enabled (constraints st) \<noteq> Some True" for l
    using m(1) managed that unfolding names_covered_def list_ex_iff by blast
  moreover have "\<not> names_covered l h" if "managed_denied_domains (constraints st) = Some l" for l
    using m(2) managed that unfolding names_covered_def list_ex_iff by blast
  ultimately show ?thesis using h by blast
qed

text \<open>When the allow list must be the managed one, only the managed entries need to be plain.\<close>

lemma fixed_allow_list:
  assumes E: "documented_globs E" "documented_hosts E" and st: "consistent E st"
    and m: "managed_allowed_domains (constraints st) = Some managed" "allowlist_expansion_enabled (constraints st) = Some False"
    and plain: "list_all plain_entry managed" and d: "host_decision E dns host port st = Allowed"
  shows "\<exists>h. host_parse host = Ok h \<and> names_covered managed h"
proof -
  let ?a = "unwrap_or_default (allowed_domains (config st))"
  obtain h where h: "host_parse host = Ok h" using d by (auto simp: host_decision_def split: result.splits)
  obtain n where n: "n \<in> set (host_names h)" "globset_is_match E (allow_set st) n"
    using d host_decision_cases [OF h, of E dns port st] by (auto simp: matches_names list_ex_iff split: if_splits)
  have c: "satisfies E (config st) (constraints st)" "compile_globset_with_policy E ?a AllowWildcard = Ok (allow_set st)"
    using st by (simp_all add: consistent_def)
  note v = satisfies_allowed [OF c(1) m(1)]
  have "to_ascii_lowercase ` set ?a \<subseteq> to_ascii_lowercase ` set managed"
    using v m(2) by (auto simp: validate_allowed_domains_def split: if_splits)
  then have p: "list_all plain_entry ?a" using plain plain_entry_case unfolding list_all_iff by blast
  then obtain e where e: "e \<in> set ?a" "entry_covers e n"
    using compiled_entries_match [OF E(1) c(2) p] n(2) by (auto simp: list_ex_iff)
  have "list_ex (\<lambda>t. entry_covers t n) managed"
    using allowed_entry_managed [OF E(2) v _ p plain e] m(2) by simp
  then show ?thesis using h n(1) unfolding names_covered_def by (auto simp: list_ex_iff)
qed

text \<open>At every point of every run the configuration passes the check against the constraints in force.\<close>

lemma run_keeps_constraints:
  assumes R: "\<forall>new. R new \<longrightarrow> consistent E new"
    and st: "consistent E st" "length (blocked st) \<le> MAX_BLOCKED_EVENTS" "\<forall>new. Replace new \<in> set ops \<longrightarrow> consistent E new"
    and run: "proxy_run E env R (start_proxy st ops) s"
  shows "consistent E (px_state s)" and "length (blocked (px_state s)) \<le> MAX_BLOCKED_EVENTS"
  using proxy_ok_run [OF run proxy_ok_start [OF st] R] by (simp_all add: proxy_ok_def)

section \<open>Updates of the configuration are atomic\<close>

type_synonym config_view = "network_proxy_settings \<times> network_proxy_constraints"

abbreviation view :: "proxy \<Rightarrow> config_view" where
  "view s \<equiv> (config (px_state s), constraints (px_state s))"

text \<open>
  What an operation does to configuration and constraints when it takes effect at once: a change of the mode and an
  update of a list act on the configuration as it is at that moment and pass the check of its constraints; a host
  that is on its list and not on the other leaves them as they are.
\<close>

definition listed :: "ustr \<Rightarrow> domain_list_kind \<Rightarrow> network_proxy_settings \<Rightarrow> bool" where
  "listed host target cfg \<longleftrightarrow>
     host \<in> normalize_host ` set (list_entries target cfg) \<and> host \<notin> normalize_host ` set (opposite_entries target cfg)"

fun takes_effect :: "net_env \<Rightarrow> (config_state \<Rightarrow> bool) \<Rightarrow> proxy_op \<Rightarrow> config_view \<Rightarrow> config_view \<Rightarrow> bool" where
  "takes_effect E R (SetMode m) (cfg, cons) v \<longleftrightarrow> satisfies E (cfg\<lparr>mode := m\<rparr>) cons \<and> v = (cfg\<lparr>mode := m\<rparr>, cons)"
| "takes_effect E R (UpdateList host target) (cfg, cons) v \<longleftrightarrow>
     (if listed host target cfg then v = (cfg, cons)
      else let cfg' = upsert_domain_permission host (list_permission target) normalize_host cfg
           in satisfies E cfg' cons \<and> v = (cfg', cons))"
| "takes_effect E R (Replace new) (cfg, cons) v \<longleftrightarrow> v = (config new, constraints new)"
| "takes_effect E R ForceReload (cfg, cons) v \<longleftrightarrow> (\<exists>new. R new \<and> v = (config new, constraints new))"
| "takes_effect E R (Record entry) (cfg, cons) v \<longleftrightarrow> v = (cfg, cons)"
| "takes_effect E R Drain (cfg, cons) v \<longleftrightarrow> v = (cfg, cons)"

text \<open>
  A history: the reloads before an operation and the operations, by the number of the task, one after the other.
\<close>

datatype history_event = Reloaded | Applied nat

inductive history ::
  "net_env \<Rightarrow> (config_state \<Rightarrow> bool) \<Rightarrow> proxy_op list \<Rightarrow> config_view \<Rightarrow> history_event list \<Rightarrow> config_view \<Rightarrow> bool"
  for E R ops v where
  history_start: "history E R ops v [] v"
| history_reload:
    "history E R ops v events w \<Longrightarrow> R new \<Longrightarrow> history E R ops v (events @ [Reloaded]) (config new, constraints new)"
| history_apply:
    "history E R ops v events w \<Longrightarrow> i < length ops \<Longrightarrow> takes_effect E R (ops ! i) w w'
     \<Longrightarrow> history E R ops v (events @ [Applied i]) w'"

definition applied_once :: "proxy_task list \<Rightarrow> history_event list \<Rightarrow> bool" where
  "applied_once ts events \<longleftrightarrow>
     (\<forall>i < length ts. count_list events (Applied i) = (if ts ! i = Done (Ok ()) then 1 else 0))"

text \<open>The operation that a task runs is the one submitted, and a loaded state is one that the reloader loads.\<close>

fun runs :: "(config_state \<Rightarrow> bool) \<Rightarrow> proxy_op \<Rightarrow> proxy_task \<Rightarrow> bool" where
  "runs R op (Start op') \<longleftrightarrow> op = op'"
| "runs R op (Reloading st op') \<longleftrightarrow> R st \<and> op = op'"
| "runs R op (Installing st op') \<longleftrightarrow> (\<exists>new. R new \<and> config st = config new \<and> constraints st = constraints new) \<and> op = op'"
| "runs R op (Ready op') \<longleftrightarrow> op = op'"
| "runs R op (ModeChecked m cons) \<longleftrightarrow> op = SetMode m"
| "runs R op (ListPrepared host target cfg cons st) \<longleftrightarrow> op = UpdateList host target \<and> \<not> listed host target cfg"
| "runs R op (Done r) \<longleftrightarrow> True"

lemma listed_iff:
  "listed host target cfg \<longleftrightarrow>
     list_ex (\<lambda>entry. normalize_host entry = host) (list_entries target cfg)
     \<and> \<not> list_ex (\<lambda>entry. normalize_host entry = host) (opposite_entries target cfg)"
  unfolding listed_def list_ex_iff image_iff by metis

lemma updated_state_listed:
  "updated_state E env host target st = Ok None \<Longrightarrow> listed host target (config st)"
  "updated_state E env host target st = Ok (Some new_state) \<Longrightarrow> \<not> listed host target (config st)"
  by (auto simp: updated_state_def listed_iff Let_def split: if_splits result.splits)

lemma move_view [simp]: "view (move i t st s) = (config st, constraints st)"
  by (simp add: move_def)

lemma move_tasks [simp]: "px_tasks (move i t st s) = (px_tasks s)[i := t]"
  by (simp add: move_def)

lemma runs_at: "list_all2 (runs R) ops (px_tasks s) \<Longrightarrow> at s i t \<Longrightarrow> i < length ops \<and> runs R (ops ! i) t"
  by (auto simp: list_all2_conv_all_nth)

lemma runs_move:
  assumes "list_all2 (runs R) ops (px_tasks s)" and "runs R (ops ! i) t"
  shows "list_all2 (runs R) ops (px_tasks (move i t st s))"
  using assms by (cases "i < length (px_tasks s)") (auto simp: list_all2_conv_all_nth nth_list_update)

lemma runs_step:
  assumes "proxy_step E env R s s'" and f: "list_all2 (runs R) ops (px_tasks s)"
  shows "list_all2 (runs R) ops (px_tasks s')"
  using assms(1)
  by cases (auto dest!: runs_at [OF f] updated_state_listed intro!: runs_move [OF f] simp del: move_tasks simp: keep_blocked_def)

text \<open>What a move adds to the history.\<close>

lemma applied_once_other:
  assumes "applied_once ts events" and "i < length ts" and "ts ! i \<noteq> Done (Ok ())" and "t \<noteq> Done (Ok ())"
  shows "applied_once (ts[i := t]) events" and "applied_once (ts[i := t]) (events @ [Reloaded])"
  using assms by (auto simp: applied_once_def nth_list_update)

lemma applied_once_done:
  assumes "applied_once ts events" and "i < length ts" and "ts ! i \<noteq> Done (Ok ())"
  shows "applied_once (ts[i := Done (Ok ())]) (events @ [Applied i])"
  using assms by (auto simp: applied_once_def nth_list_update)

definition move_kind :: "net_env \<Rightarrow> (config_state \<Rightarrow> bool) \<Rightarrow> proxy_op list \<Rightarrow> proxy \<Rightarrow> nat \<Rightarrow> proxy_task \<Rightarrow> config_state \<Rightarrow> bool" where
  "move_kind E R ops s i t st \<longleftrightarrow>
     (if t = Done (Ok ()) then takes_effect E R (ops ! i) (view s) (config st, constraints st)
      else (config st, constraints st) = view s \<or> (\<exists>new. R new \<and> (config st, constraints st) = (config new, constraints new)))"

lemma history_move:
  assumes h: "history E R ops v events (view s)" "applied_once (px_tasks s) events" and l: "length ops = length (px_tasks s)"
    and i: "i < length (px_tasks s)" "px_tasks s ! i \<noteq> Done (Ok ())" and k: "move_kind E R ops s i t st"
  shows "\<exists>events'. history E R ops v events' (view (move i t st s)) \<and> applied_once (px_tasks (move i t st s)) events'"
proof (cases "t = Done (Ok ())")
  case True
  then have "takes_effect E R (ops ! i) (view s) (config st, constraints st)" using k by (simp add: move_kind_def)
  with history_apply [OF h(1)] i(1) l have "history E R ops v (events @ [Applied i]) (config st, constraints st)" by simp
  then show ?thesis using True applied_once_done [OF h(2) i] by auto
next
  case False
  then consider "(config st, constraints st) = view s" | new where "R new" "(config st, constraints st) = (config new, constraints new)"
    using k by (auto simp: move_kind_def)
  then show ?thesis
  proof cases
    case 1
    then show ?thesis using h(1) applied_once_other(1) [OF h(2) i False] by auto
  next
    case 2
    from history_reload [OF h(1) 2(1)] have "history E R ops v (events @ [Reloaded]) (config st, constraints st)"
      by (simp add: 2(2))
    then show ?thesis using applied_once_other(2) [OF h(2) i False] by auto
  qed
qed

lemma moveI:
  assumes "list_all2 (runs R) ops (px_tasks s)" and "s' = move i t st s" and "at s i u" and "u \<noteq> Done (Ok ())"
    and "runs R (ops ! i) u \<Longrightarrow> move_kind E R ops s i t st"
  shows "\<exists>i t st. s' = move i t st s \<and> i < length (px_tasks s) \<and> px_tasks s ! i \<noteq> Done (Ok ()) \<and> move_kind E R ops s i t st"
  using assms runs_at [OF assms(1,3)] by blast

lemma step_is_move:
  assumes "proxy_step E env R s s'" and ok: "proxy_ok E s" and f: "list_all2 (runs R) ops (px_tasks s)"
  shows "\<exists>i t st. s' = move i t st s \<and> i < length (px_tasks s) \<and> px_tasks s ! i \<noteq> Done (Ok ()) \<and> move_kind E R ops s i t st"
  using assms(1)
proof cases
  case (mode_writes i m cons)
  then obtain cfg where "satisfies E (cfg\<lparr>mode := m\<rparr>) (constraints (px_state s))"
    using proxy_ok_task [OF ok mode_writes(2)] by auto
  then have "satisfies E ((config (px_state s))\<lparr>mode := m\<rparr>) (constraints (px_state s))"
    using proxy_ok_state [OF ok] satisfies_mode by (auto simp: consistent_def)
  then have "move_kind E R ops s i (Done (Ok ())) ((px_state s)\<lparr>config := (config (px_state s))\<lparr>mode := m\<rparr>\<rparr>)"
    using runs_at [OF f mode_writes(2)] by (simp add: move_kind_def)
  with moveI [OF f mode_writes(1,2)] show ?thesis by blast
next
  case (list_writes i host target cfg cons new_state)
  then have "consistent E new_state" "constraints new_state = constraints (px_state s)"
      "config new_state = upsert_domain_permission host (list_permission target) normalize_host (config (px_state s))"
    using proxy_ok_task [OF ok list_writes(2)] by auto
  then have "move_kind E R ops s i (Done (Ok ())) new_state"
    using runs_at [OF f list_writes(2)] list_writes(3,4) by (simp add: move_kind_def consistent_def)
  with moveI [OF f list_writes(1,2)] show ?thesis by blast
next
  case (list_unchanged i host target)
  have "ops ! i = UpdateList host target" using runs_at [OF f list_unchanged(2)] by auto
  then have "move_kind E R ops s i (Done (Ok ())) (px_state s)"
    using updated_state_listed(1) [OF list_unchanged(3)] by (simp add: move_kind_def)
  with moveI [OF f list_unchanged(1,2)] show ?thesis by blast
next
  case (reload_writes i new_state op)
  then have "move_kind E R ops s i (Ready op) new_state" using runs_at [OF f reload_writes(2)] by (auto simp: move_kind_def)
  with moveI [OF f reload_writes(1,2)] show ?thesis by blast
next
  case (force_writes i new_state)
  then have "move_kind E R ops s i (Done (Ok ())) (new_state\<lparr>blocked := blocked (px_state s)\<rparr>)"
    using runs_at [OF f force_writes(2)] by (auto simp: move_kind_def)
  with moveI [OF f force_writes(1,2)] show ?thesis by blast
qed (erule moveI [OF f], assumption, simp, simp add: move_kind_def keep_blocked_def push_blocked_def)+

lemma runs_run:
  assumes "proxy_run E env R (start_proxy st ops) s"
  shows "list_all2 (runs R) ops (px_tasks s)"
  using assms
proof (induction rule: rtranclp_induct)
  case base
  show ?case by (simp add: start_proxy_def list_all2_conv_all_nth)
next
  case (step s s')
  from runs_step [OF step.hyps(2) step.IH] show ?case .
qed

lemma run_has_history:
  assumes R: "\<forall>new. R new \<longrightarrow> consistent E new"
    and st: "consistent E st" "length (blocked st) \<le> MAX_BLOCKED_EVENTS" "\<forall>new. Replace new \<in> set ops \<longrightarrow> consistent E new"
    and run: "proxy_run E env R (start_proxy st ops) s"
  shows "\<exists>events. history E R ops (config st, constraints st) events (view s) \<and> applied_once (px_tasks s) events"
  using run
proof (induction rule: rtranclp_induct)
  case base
  have "applied_once (map Start ops) []" by (simp add: applied_once_def)
  then show ?case using history_start [of E R ops "(config st, constraints st)"] by (auto simp: start_proxy_def)
next
  case (step s s')
  have f: "list_all2 (runs R) ops (px_tasks s)" using step.hyps(1) by (rule runs_run)
  obtain i t n where m: "s' = move i t n s" "i < length (px_tasks s)" "px_tasks s ! i \<noteq> Done (Ok ())" "move_kind E R ops s i t n"
    using step_is_move [OF step.hyps(2) proxy_ok_run [OF step.hyps(1) proxy_ok_start [OF st] R] f] by blast
  obtain events where "history E R ops (config st, constraints st) events (view s)" "applied_once (px_tasks s) events"
    using step.IH by blast
  from history_move [OF this list_all2_lengthD [OF f] m(2-4)] show ?case unfolding m(1) .
qed

text \<open>
  C11: Operations on the proxy's configuration do not overwrite each other.  However the reads and writes of the tasks
  interleave, configuration and constraints at every moment are the result of a sequence of atomic steps: reloads,
  and every operation that has returned success exactly once, acting on the configuration in force when its turn
  comes and passing the check of the constraints in force then.  An operation that failed or has not returned is
  not among the steps.
\<close>

theorem config_updates_are_atomic:
  assumes R: "\<forall>new. R new \<longrightarrow> consistent E new"
    and st: "consistent E st" "length (blocked st) \<le> MAX_BLOCKED_EVENTS" "\<forall>new. Replace new \<in> set ops \<longrightarrow> consistent E new"
    and run: "proxy_run E env R (start_proxy st ops) s"
  shows "\<exists>events. history E R ops (config st, constraints st) events (view s)
    \<and> (\<forall>i < length ops. count_list events (Applied i) = (if px_tasks s ! i = Done (Ok ()) then 1 else 0))"
  using run_has_history [OF assms] list_all2_lengthD [OF runs_run [OF run]] by (simp add: applied_once_def)

text \<open>The constraints are those of the state that was loaded last.\<close>

lemma history_constraints:
  assumes "history E R ops v events w" and "P (snd v)" and "\<forall>new. R new \<or> Replace new \<in> set ops \<longrightarrow> P (constraints new)"
  shows "P (snd w)"
  using assms(1)
proof induction
  case (history_apply events w i w')
  obtain c k where w: "w = (c, k)" by (cases w)
  have "ops ! i \<in> set ops" using history_apply.hyps(2) by simp
  with history_apply assms(3) show ?case unfolding w
    by (cases "ops ! i") (auto simp: Let_def split: if_splits)
qed (use assms(2,3) in auto)

section \<open>A task on its own\<close>

text \<open>A task that runs alone, without a reload, ends with the outcome and the state of the operation as a function.\<close>

lemma update_alone:
  assumes "host_parse host = Ok h"
  shows "\<exists>r st'. update_domain_list E env (Ok None) host target st = (r, st')
    \<and> proxy_run E env R (start_proxy st [UpdateList h target]) \<lparr>px_state = st', px_tasks = [Done r]\<rparr>"
proof -
  let ?s = "\<lambda>st t. \<lparr>px_state = st, px_tasks = [t]\<rparr>" and ?op = "UpdateList h target"
  have 1: "proxy_step E env R (?s st (Start ?op)) (?s st (Ready ?op))"
    using reload_not_needed [where s = "?s st (Start ?op)" and i = 0 and op = ?op] by (simp add: move_def)
  have 2: "proxy_run E env R (?s st (Ready ?op)) (?s st' (Done r))"
    if u: "update_domain_list E env (Ok None) host target st = (r, st')" for r st'
  proof (cases "updated_state E env h target st")
    case (Err e)
    then have "proxy_step E env R (?s st (Ready ?op)) (?s st (Done (Err e)))"
      using list_rejected [where s = "?s st (Ready ?op)" and i = 0 and host = h and target = target] by (simp add: move_def)
    then show ?thesis using u assms Err by (auto simp: update_domain_list_def with_reload_def reload_if_needed_def)
  next
    case (Ok new)
    show ?thesis
    proof (cases new)
      case None
      then have "proxy_step E env R (?s st (Ready ?op)) (?s st (Done (result.Ok ())))"
        using Ok list_unchanged [where s = "?s st (Ready ?op)" and i = 0 and host = h and target = target] by (simp add: move_def)
      then show ?thesis using u assms Ok None by (auto simp: update_domain_list_def with_reload_def reload_if_needed_def)
    next
      case (Some n)
      let ?p = "ListPrepared h target (config st) (constraints st) n"
      have "proxy_step E env R (?s st (Ready ?op)) (?s st ?p)"
        using Ok Some list_reads [where s = "?s st (Ready ?op)" and i = 0 and host = h and target = target] by (simp add: move_def)
      moreover have "proxy_step E env R (?s st ?p) (?s n (Done (result.Ok ())))"
        using list_writes [where s = "?s st ?p" and i = 0 and host = h and target = target and cfg = "config st" and
            cons = "constraints st" and new_state = n] by (simp add: move_def)
      ultimately have "proxy_run E env R (?s st (Ready ?op)) (?s n (Done (result.Ok ())))" by (meson r_into_rtranclp rtranclp_trans)
      then show ?thesis using u assms Ok Some by (auto simp: update_domain_list_def with_reload_def reload_if_needed_def)
    qed
  qed
  have "start_proxy st [?op] = ?s st (Start ?op)" by (simp add: start_proxy_def)
  then show ?thesis using converse_rtranclp_into_rtranclp [of "proxy_step E env R", OF 1 2]
    by (cases "update_domain_list E env (Ok None) host target st") auto
qed

section \<open>A run in which a blocked request is lost\<close>

text \<open>
  One task adds a host to the allow list and another records a blocked request between the read and the write of
  the first, which puts back the entries it has read.
\<close>

definition example_request :: blocked_request where
  "example_request =
     \<lparr>req_host = lit ''www.evil.com'', req_reason = reason_str Denied, req_client = None, req_method = None, req_mode = None,
      req_protocol = lit ''http'', req_decision = None, req_source = None, req_port = Some 80, req_timestamp = 0\<rparr>"

definition example_updated :: config_state where
  "example_updated =
     example_state\<lparr>config := upsert_domain_permission (lit ''web.example.com'') DomainAllow normalize_host example_config,
       allow_set := [lit ''api.example.com'', lit ''web.example.com'']\<rparr>"

definition example_ops :: "proxy_op list" where
  "example_ops = [UpdateList (lit ''web.example.com'') AllowList, Record example_request]"

definition example_final :: proxy where
  "example_final = \<lparr>px_state = example_updated, px_tasks = [Done (Ok ()), Done (Ok ())]\<rparr>"

lemma example_consistent: "consistent simple_net_env example_state"
  using build_config_state_consistent [OF example_state_built example_satisfies] .

lemma recorded_request_is_lost:
  "proxy_run simple_net_env example_env R (start_proxy example_state example_ops) example_final"
proof -
  let ?step = "proxy_step simple_net_env example_env R"
  let ?a = "UpdateList (lit ''web.example.com'') AllowList" and ?b = "Record example_request"
  let ?p = "ListPrepared (lit ''web.example.com'') AllowList (config example_state) (constraints example_state) example_updated"
  let ?s = "\<lambda>st t u. \<lparr>px_state = st, px_tasks = [t, u]\<rparr>"
  have u: "updated_state simple_net_env example_env (lit ''web.example.com'') AllowList example_state = Ok (Some example_updated)"
    by code_simp
  have 1: "?step (?s example_state (Start ?a) (Start ?b)) (?s example_state (Ready ?a) (Start ?b))"
    using reload_not_needed [where s = "?s example_state (Start ?a) (Start ?b)" and i = 0 and op = ?a] by (simp add: move_def)
  have 2: "?step (?s example_state (Ready ?a) (Start ?b)) (?s example_state ?p (Start ?b))"
    using list_reads [where s = "?s example_state (Ready ?a) (Start ?b)" and i = 0 and host = "lit ''web.example.com''" and
        target = AllowList and new_state = example_updated and E = simple_net_env and env = example_env] u
    by (simp add: move_def)
  have 3: "?step (?s example_state ?p (Start ?b)) (?s example_state ?p (Ready ?b))"
    using reload_not_needed [where s = "?s example_state ?p (Start ?b)" and i = 1 and op = ?b] by (simp add: move_def)
  have 4: "?step (?s example_state ?p (Ready ?b)) (?s (push_blocked example_request example_state) ?p (Done (Ok ())))"
    using record_writes [where s = "?s example_state ?p (Ready ?b)" and i = 1 and entry = example_request] by (simp add: move_def)
  have 5: "?step (?s (push_blocked example_request example_state) ?p (Done (Ok ()))) example_final"
    using list_writes [where s = "?s (push_blocked example_request example_state) ?p (Done (Ok ()))" and i = 0 and
        host = "lit ''web.example.com''" and target = AllowList and cfg = "config example_state" and
        cons = "constraints example_state" and new_state = example_updated]
    by (simp add: move_def example_final_def push_blocked_def)
  from 1 2 3 4 5 have "proxy_run simple_net_env example_env R (?s example_state (Start ?a) (Start ?b)) example_final"
    by (meson rtranclp.rtrancl_refl converse_rtranclp_into_rtranclp)
  then show ?thesis by (simp add: start_proxy_def example_ops_def)
qed

lemma lost_request_facts: "blocked (px_state example_final) = []" "Drain \<notin> set example_ops" "Record example_request \<in> set example_ops"
  by (simp_all add: example_final_def example_updated_def example_state_def example_ops_def)

lemma example_start:
  "length (blocked example_state) \<le> MAX_BLOCKED_EVENTS" "\<forall>new. Replace new \<in> set example_ops \<longrightarrow> consistent simple_net_env new"
  by (simp_all add: example_state_def example_ops_def)

theorem config_updates_are_atomic_witness:
  "\<exists>events. history simple_net_env (\<lambda>new. new = example_state) example_ops (config example_state, constraints example_state)
       events (config example_updated, constraints example_updated)
     \<and> count_list events (Applied 0) = 1 \<and> count_list events (Applied 1) = 1"
proof -
  have "\<forall>new. new = example_state \<longrightarrow> consistent simple_net_env new" using example_consistent by simp
  from config_updates_are_atomic [OF this example_consistent example_start recorded_request_is_lost]
  obtain events where "history simple_net_env (\<lambda>new. new = example_state) example_ops
      (config example_state, constraints example_state) events (view example_final)"
    and "\<forall>i < length example_ops. count_list events (Applied i) = (if px_tasks example_final ! i = Done (Ok ()) then 1 else 0)"
    by blast
  moreover have "length example_ops = 2" by (simp add: example_ops_def)
  ultimately show ?thesis by (intro exI [of _ events]) (simp add: example_final_def)
qed

end
