(* ===== verification/Net_Loading.thy ===== *)
theory Net_Loading
  imports Net_Concurrency Policy_Loading
begin

text \<open>
  Loading the state of the network proxy from the configuration layers and the execution policy
  (\<^verbatim>\<open>src/core/src/network_proxy_loader.rs\<close>, the network part of \<^verbatim>\<open>src/config/src/permissions_toml.rs\<close>).  The
  network tables of a layer are read by \<^verbatim>\<open>serde\<close>, which is the parameter \<open>tables\<close>; the layers themselves are the
  stack of \<open>Config_Layers\<close>, the rules files those of \<open>Policy_Loading\<close>.  Maps are lists of entries in key order.
\<close>

section \<open>Definitions\<close>

subsection \<open>Network tables\<close>

datatype network_domain_permission_toml = TomlAllow | TomlDeny

type_synonym domain_permissions_toml = "(ustr \<times> network_domain_permission_toml) list"

definition toml_allowed_domains :: "domain_permissions_toml \<Rightarrow> ustr list option" where
  "toml_allowed_domains entries =
     (let allowed = map fst (filter (\<lambda>(_, permission). permission = TomlAllow) entries)
      in if allowed = [] then None else Some allowed)"

definition toml_denied_domains :: "domain_permissions_toml \<Rightarrow> ustr list option" where
  "toml_denied_domains entries =
     (let denied = map fst (filter (\<lambda>(_, permission). permission = TomlDeny) entries)
      in if denied = [] then None else Some denied)"

definition toml_allow_unix_sockets :: "unix_socket_permissions \<Rightarrow> ustr list" where
  "toml_allow_unix_sockets entries = map fst (filter (\<lambda>(_, permission). permission = SocketAllow) entries)"

record network_toml =
  nt_enabled :: "bool option"
  nt_proxy_url :: "ustr option"
  nt_enable_socks5 :: "bool option"
  nt_socks_url :: "ustr option"
  nt_enable_socks5_udp :: "bool option"
  nt_allow_upstream_proxy :: "bool option"
  nt_dangerously_allow_non_loopback_proxy :: "bool option"
  nt_dangerously_allow_all_unix_sockets :: "bool option"
  nt_mode :: "network_mode option"
  nt_domains :: "domain_permissions_toml option"
  nt_unix_sockets :: "unix_socket_permissions option"
  nt_allow_local_binding :: "bool option"

fun proxy_permission :: "network_domain_permission_toml \<Rightarrow> network_domain_permission" where
  "proxy_permission TomlAllow = DomainAllow"
| "proxy_permission TomlDeny = DomainDeny"

definition overlay_network_domain_permissions ::
  "network_proxy_settings \<Rightarrow> domain_permissions_toml \<Rightarrow> network_proxy_settings" where
  "overlay_network_domain_permissions cfg entries =
     foldl (\<lambda>cfg (pattern, permission). upsert_domain_permission pattern (proxy_permission permission) normalize_host cfg) cfg entries"

text \<open>\<^verbatim>\<open>if let Some(v) = value { field = v }\<close>.\<close>

definition set_if :: "'a option \<Rightarrow> 'a \<Rightarrow> 'a" where
  "set_if v old = (case v of Some v \<Rightarrow> v | None \<Rightarrow> old)"

definition apply_to_network_proxy_config :: "network_toml \<Rightarrow> network_proxy_settings \<Rightarrow> network_proxy_settings" where
  "apply_to_network_proxy_config t cfg =
     (let cfg = cfg\<lparr>enabled := set_if (nt_enabled t) (enabled cfg),
            proxy_url := set_if (nt_proxy_url t) (proxy_url cfg),
            enable_socks5 := set_if (nt_enable_socks5 t) (enable_socks5 cfg),
            socks_url := set_if (nt_socks_url t) (socks_url cfg),
            enable_socks5_udp := set_if (nt_enable_socks5_udp t) (enable_socks5_udp cfg),
            allow_upstream_proxy := set_if (nt_allow_upstream_proxy t) (allow_upstream_proxy cfg),
            dangerously_allow_non_loopback_proxy :=
              set_if (nt_dangerously_allow_non_loopback_proxy t) (dangerously_allow_non_loopback_proxy cfg),
            dangerously_allow_all_unix_sockets :=
              set_if (nt_dangerously_allow_all_unix_sockets t) (dangerously_allow_all_unix_sockets cfg),
            mode := set_if (nt_mode t) (mode cfg)\<rparr>;
          cfg = (case nt_domains t of Some d \<Rightarrow> overlay_network_domain_permissions cfg d | None \<Rightarrow> cfg);
          cfg = (case nt_unix_sockets t of
                   Some sockets \<Rightarrow>
                     (let entries = foldl (\<lambda>entries (path, permission). tbl_insert path permission entries)
                            (unwrap_or_default (unix_sockets cfg)) sockets
                      in cfg\<lparr>unix_sockets := (if entries = [] then None else Some entries)\<rparr>)
                 | None \<Rightarrow> cfg)
      in cfg\<lparr>allow_local_binding := set_if (nt_allow_local_binding t) (allow_local_binding cfg)\<rparr>)"

subsection \<open>Layers\<close>

text \<open>The network tables of a layer: the selected profile and the network part of the profiles.\<close>

record network_tables =
  default_permissions :: "ustr option"
  permission_profiles :: "(ustr \<times> network_toml option) list option"

datatype load_error =
    TablesError ustr
  | PermissionsTableMissing
  | UndefinedProfile ustr
  | ExecPolicyFailed exec_policy_error
  | ConstraintsViolated network_proxy_constraint_error
  | StateFailed config_error

definition resolve_permission_profile ::
  "(ustr \<times> network_toml option) list \<Rightarrow> ustr \<Rightarrow> (load_error, network_toml option) result" where
  "resolve_permission_profile profiles name =
     (case map_of profiles name of Some network \<Rightarrow> Ok network | None \<Rightarrow> Err (UndefinedProfile name))"

definition selected_network_from_tables :: "network_tables \<Rightarrow> (load_error, network_toml option) result" where
  "selected_network_from_tables parsed =
     (case default_permissions parsed of
        None \<Rightarrow> Ok None
      | Some name \<Rightarrow>
          (case permission_profiles parsed of
             None \<Rightarrow> Err PermissionsTableMissing
           | Some profiles \<Rightarrow> resolve_permission_profile profiles name))"

type_synonym table_reader = "toml \<Rightarrow> (ustr, network_tables) result"

text \<open>\<^verbatim>\<open>network_tables_from_toml\<close> and \<^verbatim>\<open>selected_network_from_tables\<close> in a row.\<close>

definition layer_network :: "table_reader \<Rightarrow> config_layer_entry \<Rightarrow> (load_error, network_toml option) result" where
  "layer_network tables layer =
     (case tables (layer_config layer) of
        Err e \<Rightarrow> Err (TablesError e)
      | Ok parsed \<Rightarrow> selected_network_from_tables parsed)"

definition apply_network_constraints :: "network_toml \<Rightarrow> network_proxy_constraints \<Rightarrow> network_proxy_constraints" where
  "apply_network_constraints t cons =
     (let cons = cons\<lparr>max_enabled := (if nt_enabled t = None then max_enabled cons else nt_enabled t),
            max_mode := (if nt_mode t = None then max_mode cons else nt_mode t),
            max_allow_upstream_proxy := (if nt_allow_upstream_proxy t = None then max_allow_upstream_proxy cons else nt_allow_upstream_proxy t),
            max_allow_non_loopback_proxy := (if nt_dangerously_allow_non_loopback_proxy t = None
              then max_allow_non_loopback_proxy cons else nt_dangerously_allow_non_loopback_proxy t),
            max_allow_all_unix_sockets := (if nt_dangerously_allow_all_unix_sockets t = None
              then max_allow_all_unix_sockets cons else nt_dangerously_allow_all_unix_sockets t)\<rparr>;
          cons = (case nt_domains t of
                    Some entries \<Rightarrow>
                      (let cfg = settings_default;
                           cfg = (case managed_allowed_domains cons of Some l \<Rightarrow> set_allowed_domains l cfg | None \<Rightarrow> cfg);
                           cfg = (case managed_denied_domains cons of Some l \<Rightarrow> set_denied_domains l cfg | None \<Rightarrow> cfg);
                           cfg = overlay_network_domain_permissions cfg entries
                       in cons\<lparr>managed_allowed_domains := allowed_domains cfg, managed_denied_domains := denied_domains cfg\<rparr>)
                  | None \<Rightarrow> cons);
          cons = (case nt_unix_sockets t of
                    Some sockets \<Rightarrow> cons\<lparr>managed_unix_sockets := Some (toml_allow_unix_sockets sockets)\<rparr>
                  | None \<Rightarrow> cons)
      in cons\<lparr>max_allow_local_binding := (if nt_allow_local_binding t = None then max_allow_local_binding cons else nt_allow_local_binding t)\<rparr>)"

fun is_user_controlled_layer :: "config_layer_source \<Rightarrow> bool" where
  "is_user_controlled_layer (User _) = True"
| "is_user_controlled_layer (Project _) = True"
| "is_user_controlled_layer SessionFlags = True"
| "is_user_controlled_layer _ = False"

fun constraints_loop ::
  "table_reader \<Rightarrow> config_layer_entry list \<Rightarrow> network_proxy_constraints \<Rightarrow> (load_error, network_proxy_constraints) result" where
  "constraints_loop tables [] cons = Ok cons"
| "constraints_loop tables (layer # layers) cons =
     (if is_user_controlled_layer (layer_name layer) then constraints_loop tables layers cons
      else case layer_network tables layer of
             Err e \<Rightarrow> Err e
           | Ok None \<Rightarrow> constraints_loop tables layers cons
           | Ok (Some network) \<Rightarrow> constraints_loop tables layers (apply_network_constraints network cons))"

definition network_constraints_from_trusted_layers ::
  "table_reader \<Rightarrow> ('r, 't) config_layer_stack \<Rightarrow> (load_error, network_proxy_constraints) result" where
  "network_constraints_from_trusted_layers tables layers =
     constraints_loop tables (get_layers LowestPrecedenceFirst False layers) constraints_default"

fun config_loop ::
  "table_reader \<Rightarrow> config_layer_entry list \<Rightarrow> network_proxy_settings \<Rightarrow> (load_error, network_proxy_settings) result" where
  "config_loop tables [] cfg = Ok cfg"
| "config_loop tables (layer # layers) cfg =
     (case layer_network tables layer of
        Err e \<Rightarrow> Err e
      | Ok None \<Rightarrow> config_loop tables layers cfg
      | Ok (Some network) \<Rightarrow> config_loop tables layers (apply_to_network_proxy_config network cfg))"

subsection \<open>Rules of the execution policy\<close>

definition upsert_network_domain ::
  "network_domain_permission \<Rightarrow> network_proxy_settings \<Rightarrow> ustr \<Rightarrow> network_proxy_settings" where
  "upsert_network_domain permission cfg host = upsert_domain_permission host permission normalize_host cfg"

definition apply_exec_policy_network_rules :: "policy \<Rightarrow> network_proxy_settings \<Rightarrow> network_proxy_settings" where
  "apply_exec_policy_network_rules exec_policy cfg =
     (let (allowed, denied) = compiled_network_domains exec_policy
      in foldl (upsert_network_domain DomainDeny) (foldl (upsert_network_domain DomainAllow) cfg allowed) denied)"

definition config_from_layers ::
  "table_reader \<Rightarrow> policy \<Rightarrow> ('r, 't) config_layer_stack \<Rightarrow> (load_error, network_proxy_settings) result" where
  "config_from_layers tables exec_policy layers =
     (case config_loop tables (get_layers LowestPrecedenceFirst False layers) settings_default of
        Err e \<Rightarrow> Err e
      | Ok cfg \<Rightarrow> Ok (apply_exec_policy_network_rules exec_policy cfg))"

definition enforce_trusted_constraints ::
  "net_env \<Rightarrow> table_reader \<Rightarrow> ('r, 't) config_layer_stack \<Rightarrow> network_proxy_settings
     \<Rightarrow> (load_error, network_proxy_constraints) result" where
  "enforce_trusted_constraints E tables layers cfg =
     (case network_constraints_from_trusted_layers tables layers of
        Err e \<Rightarrow> Err e
      | Ok cons \<Rightarrow>
          (case validate_policy_against_constraints E cfg cons of
             Err e \<Rightarrow> Err (ConstraintsViolated e)
           | Ok _ \<Rightarrow> Ok cons))"

subsection \<open>The loader and the reloader\<close>

text \<open>What the files and the environment hold: the interpreter, the word splitter, the home directory and the disk.\<close>

record load_env =
  le_starlark :: "ustr \<Rightarrow> ustr \<Rightarrow> star_program"
  le_shlex :: "ustr \<Rightarrow> ustr list option"
  le_host :: host_env
  le_disk :: disk
  le_tables :: table_reader
  le_mtime :: "path \<Rightarrow> nat option"

definition build_network_state ::
  "net_env \<Rightarrow> load_env \<Rightarrow> 't exec_config_stack \<Rightarrow> (load_error, config_state) result" where
  "build_network_state E le layers =
     (case load_exec_policy_with_warning (le_starlark le) (le_shlex le) (le_host le) (le_disk le) layers of
        Err e \<Rightarrow> Err (ExecPolicyFailed e)
      | Ok (exec_policy, _) \<Rightarrow>
          (case config_from_layers (le_tables le) exec_policy layers of
             Err e \<Rightarrow> Err e
           | Ok cfg \<Rightarrow>
               (case enforce_trusted_constraints E (le_tables le) layers cfg of
                  Err e \<Rightarrow> Err e
                | Ok cons \<Rightarrow>
                    (case build_config_state E (le_host le) cfg cons of
                       Err e \<Rightarrow> Err (StateFailed e)
                     | Ok st \<Rightarrow> Ok st))))"

type_synonym layer_mtime = "path \<times> nat option"

definition layer_file :: "config_layer_source \<Rightarrow> path option" where
  "layer_file name =
     (case name of
        System file \<Rightarrow> Some file
      | User file \<Rightarrow> Some file
      | Project dot_agere_folder \<Rightarrow> Some (path_join dot_agere_folder [Normal (lit ''config.toml'')])
      | LegacyManagedConfigTomlFromFile file \<Rightarrow> Some file
      | _ \<Rightarrow> None)"

definition collect_layer_mtimes :: "(path \<Rightarrow> nat option) \<Rightarrow> ('r, 't) config_layer_stack \<Rightarrow> layer_mtime list" where
  "collect_layer_mtimes mtime layers =
     map (\<lambda>path. (path, mtime path))
       (List.map_filter (\<lambda>layer. layer_file (layer_name layer)) (get_layers LowestPrecedenceFirst False layers))"

definition build_config_state_with_mtimes ::
  "net_env \<Rightarrow> load_env \<Rightarrow> 't exec_config_stack \<Rightarrow> (load_error, config_state \<times> layer_mtime list) result" where
  "build_config_state_with_mtimes E le layers =
     (case build_network_state E le layers of
        Err e \<Rightarrow> Err e
      | Ok st \<Rightarrow> Ok (st, collect_layer_mtimes (le_mtime le) layers))"

definition needs_reload :: "(path \<Rightarrow> nat option) \<Rightarrow> layer_mtime list \<Rightarrow> bool" where
  "needs_reload mtime layer_mtimes =
     list_ex (\<lambda>(path, old).
       case (mtime path, old) of
         (Some new_mtime, Some old_mtime) \<Rightarrow> old_mtime < new_mtime
       | (Some _, None) \<Rightarrow> True
       | (None, Some _) \<Rightarrow> True
       | (None, None) \<Rightarrow> False) layer_mtimes"

definition maybe_reload ::
  "net_env \<Rightarrow> load_env \<Rightarrow> 't exec_config_stack \<Rightarrow> layer_mtime list
     \<Rightarrow> (load_error, config_state option) result \<times> layer_mtime list" where
  "maybe_reload E le layers layer_mtimes =
     (if \<not> needs_reload (le_mtime le) layer_mtimes then (Ok None, layer_mtimes)
      else case build_config_state_with_mtimes E le layers of
             Err e \<Rightarrow> (Err e, layer_mtimes)
           | Ok (st, layer_mtimes) \<Rightarrow> (Ok (Some st), layer_mtimes))"

section \<open>Constraints come from trusted layers\<close>

text \<open>Layers that the user controls do not matter for the constraints, whatever they hold.\<close>

lemma constraints_loop_filter:
  "constraints_loop tables layers cons =
   constraints_loop tables (filter (\<lambda>layer. \<not> is_user_controlled_layer (layer_name layer)) layers) cons"
  by (induction layers arbitrary: cons) (auto split: result.splits option.splits)

text \<open>Every state that is loaded keeps to its constraints.\<close>

lemma built_network_state:
  assumes "build_network_state E le layers = Ok st"
  shows "consistent E st" and "network_constraints_from_trusted_layers (le_tables le) layers = Ok (constraints st)"
    and "blocked st = []"
proof -
  obtain cfg cons where c: "enforce_trusted_constraints E (le_tables le) layers cfg = Ok cons"
      "build_config_state E (le_host le) cfg cons = Ok st"
    using assms by (auto simp: build_network_state_def split: result.splits prod.splits)
  then have "satisfies E cfg cons" "network_constraints_from_trusted_layers (le_tables le) layers = Ok cons"
    by (auto simp: enforce_trusted_constraints_def split: result.splits)
  then show "consistent E st" "network_constraints_from_trusted_layers (le_tables le) layers = Ok (constraints st)" "blocked st = []"
    using build_config_state_consistent [OF c(2)] build_config_state_sets [OF c(2)] by simp_all
qed

section \<open>Rules of the execution policy reach the proxy\<close>

lemma upsert_network_domain_lists:
  "p \<in> set (unwrap_or_default (allowed_domains (upsert_network_domain q cfg host)))
     \<longleftrightarrow> (if normalize_host p = normalize_host host then p = host \<and> q = DomainAllow
        else p \<in> set (unwrap_or_default (allowed_domains cfg)))"
  "p \<in> set (unwrap_or_default (denied_domains (upsert_network_domain q cfg host)))
     \<longleftrightarrow> (if normalize_host p = normalize_host host then p = host \<and> q = DomainDeny
        else p \<in> set (unwrap_or_default (denied_domains cfg)))"
  unfolding upsert_network_domain_def by (rule upsert_domain_permission_lists)+

text \<open>Hosts that are their own normal form.\<close>

definition normal_host :: "ustr \<Rightarrow> bool" where
  "normal_host h \<longleftrightarrow> simple_name h \<and> to_ascii_lowercase h = h"

lemma normal_host_normalize: "normal_host h \<Longrightarrow> normalize_host h = h"
  by (simp add: normal_host_def normalize_host_simple)

lemma upsert_normal_hosts:
  assumes "\<forall>g\<in>set hs. normalize_host g = h \<longrightarrow> g = h" and "normal_host h"
  shows "h \<in> set (unwrap_or_default (allowed_domains (foldl (upsert_network_domain q) cfg hs)))
      \<longleftrightarrow> (if h \<in> set hs then q = DomainAllow else h \<in> set (unwrap_or_default (allowed_domains cfg)))"
    "h \<in> set (unwrap_or_default (denied_domains (foldl (upsert_network_domain q) cfg hs)))
      \<longleftrightarrow> (if h \<in> set hs then q = DomainDeny else h \<in> set (unwrap_or_default (denied_domains cfg)))"
  using assms(1) by (induction hs rule: rev_induct) (auto simp: upsert_network_domain_lists normal_host_normalize assms(2))

lemma compiled_hosts:
  assumes "compiled_network_domains p = (allowed, denied)"
  shows "h \<in> set allowed \<longleftrightarrow> last_verdict (network_rules p) h = Some Allow"
    "h \<in> set denied \<longleftrightarrow> last_verdict (network_rules p) h = Some Forbidden"
  using compile_network_rules [of "network_rules p" allowed denied] assms by (simp_all add: compiled_network_domains_def)

lemma last_verdict_host: "last_verdict rules h = Some d \<Longrightarrow> h \<in> net_host ` set rules"
  by (auto simp: last_verdict_def Let_def filter_empty_conv split: if_splits)

definition written_normally :: "policy \<Rightarrow> ustr \<Rightarrow> bool" where
  "written_normally p h \<longleftrightarrow> (\<forall>r\<in>set (network_rules p). normalize_host (net_host r) = h \<longrightarrow> net_host r = h)"

lemma policy_hosts_listed:
  assumes h: "normal_host h" "written_normally p h"
  shows "last_verdict (network_rules p) h = Some Forbidden
      \<Longrightarrow> h \<in> set (unwrap_or_default (denied_domains (apply_exec_policy_network_rules p cfg)))"
    "last_verdict (network_rules p) h = Some Allow
      \<Longrightarrow> h \<in> set (unwrap_or_default (allowed_domains (apply_exec_policy_network_rules p cfg)))"
proof -
  obtain allowed denied where c: "compiled_network_domains p = (allowed, denied)" by (cases "compiled_network_domains p")
  have "g = h" if "last_verdict (network_rules p) g = Some d" "normalize_host g = h" for g d
    using h(2) last_verdict_host [OF that(1)] that(2) by (auto simp: written_normally_def)
  then have "\<forall>g\<in>set allowed. normalize_host g = h \<longrightarrow> g = h" "\<forall>g\<in>set denied. normalize_host g = h \<longrightarrow> g = h"
    using compiled_hosts [OF c] by blast+
  note l = upsert_normal_hosts [OF this(1) h(1)] upsert_normal_hosts [OF this(2) h(1)]
  show "h \<in> set (unwrap_or_default (denied_domains (apply_exec_policy_network_rules p cfg)))"
    if "last_verdict (network_rules p) h = Some Forbidden"
    using l(4) compiled_hosts(2) [OF c, of h] that by (simp add: apply_exec_policy_network_rules_def c)
  show "h \<in> set (unwrap_or_default (allowed_domains (apply_exec_policy_network_rules p cfg)))"
    if "last_verdict (network_rules p) h = Some Allow"
    using l(1,3) compiled_hosts [OF c, of h] that by (simp add: apply_exec_policy_network_rules_def c)
qed

lemma listed_host_matches:
  assumes "documented_globs E" and "compile_globset_with_policy E ps g = Ok gs" and "h \<in> set ps" and "normal_host h"
  shows "globset_is_match E gs h"
proof -
  have s: "simple_name h" "to_ascii_lowercase h = h" using assms(4) by (simp_all add: normal_host_def)
  have "h \<noteq> [42]" using simple_name_absent(2) [OF s(1)] by auto
  then have "normalize_pattern h = h"
    using s by (simp add: normalize_pattern_def simple_name_trimmed strip_prefix_def simple_name_not_wild normalize_host_simple)
  then have "h \<in> set (expand_domain_pattern (normalize_pattern h))"
    using s simple_name_ends [OF s(1)]
    by (simp add: expand_domain_pattern_def domain_pattern_parse_def simple_name_trimmed strip_prefix_def simple_name_not_wild)
  then have "h \<in> set gs" using compile_globset_set [OF assms(2)] assms(3) by auto
  moreover have "glob_is_match E h h"
    using assms(1) s(1) by (simp add: documented_globs_def simple_name_def eq_ignore_ascii_case_def)
  ultimately show ?thesis by (auto simp: globset_is_match_def list_ex_iff)
qed

text \<open>
  C18: The network rules of the execution policy decide at the proxy.  Take the policy that loading the rules files
  gives (the empty one when a file does not parse) and the state that is loaded from the layers with it.  A request
  for a host, however it is spelled, whose normal form is a name of letters, digits, dots, hyphens and underscores in
  lower case, is denied when the last rule for that name other than a prompt forbids it, whatever the network tables of
  the layers say; and the name is on the compiled allow list when that rule allows it.  Rules for other hosts may be
  of any form; no rule may hold another spelling of the same name.
\<close>

theorem network_rules_decide_at_proxy:
  assumes E: "documented_globs E"
    and p: "load_exec_policy_with_warning (le_starlark le) (le_shlex le) (le_host le) (le_disk le) layers = Ok (p, w)"
    and st: "build_network_state E le layers = Ok st"
    and h: "host_parse raw = Ok h" "normal_host h" "written_normally p h"
  shows "(last_verdict (network_rules p) h = Some Forbidden \<longrightarrow> host_decision E dns raw port st = Blocked Denied)
    \<and> (last_verdict (network_rules p) h = Some Allow \<longrightarrow> globset_matches_host_or_unscoped E (allow_set st) h)"
proof -
  obtain cfg cons where b: "build_config_state E (le_host le) (apply_exec_policy_network_rules p cfg) cons = Ok st"
    using st p by (auto simp: build_network_state_def config_from_layers_def split: result.splits)
  note sets = build_config_state_sets [OF b] and listed = policy_hosts_listed [OF h(2,3), where cfg = cfg]
  have "globset_is_match E (deny_set st) h" if "last_verdict (network_rules p) h = Some Forbidden"
    using listed_host_matches [OF E sets(2) listed(1) [OF that] h(2)] .
  moreover have "globset_is_match E (allow_set st) h" if "last_verdict (network_rules p) h = Some Allow"
    using listed_host_matches [OF E sets(1) listed(2) [OF that] h(2)] .
  ultimately show ?thesis
    using h(1) by (auto simp: host_decision_def globset_matches_host_or_unscoped_def)
qed

text \<open>A rules file that does not parse takes all network rules with it, also those that forbid a host.\<close>

lemma unparsable_rules_drop_network_rules:
  assumes "load_exec_policy (le_starlark le) (le_shlex le) (le_host le) (le_disk le) layers = Err (ParsePolicy f e)"
    and "config_loop (le_tables le) (get_layers LowestPrecedenceFirst False layers) settings_default = Ok cfg"
    and "build_network_state E le layers = Ok st"
  shows "config st = cfg"
  using assms
  by (auto simp: build_network_state_def load_exec_policy_with_warning_def config_from_layers_def
      apply_exec_policy_network_rules_def compiled_network_domains_def policy_empty_def
      dest: build_config_state_sets(3) split: result.splits)

section \<open>A running proxy opens no more than managed settings allow\<close>

text \<open>The states that are loaded from the given files and layers, as they may be at one time or another.\<close>

type_synonym 't world = "(load_env \<times> 't exec_config_stack) set"

definition loaded :: "net_env \<Rightarrow> 't world \<Rightarrow> config_state \<Rightarrow> bool" where
  "loaded E W st \<longleftrightarrow> (\<exists>(le, layers)\<in>W. build_network_state E le layers = Ok st)"

lemma loaded_consistent: "loaded E W st \<Longrightarrow> consistent E st"
  using built_network_state(1) by (auto simp: loaded_def)

text \<open>
  The constraints that an administrator has set: the network tables of the layers from device management and from the
  files of the system, and of no other layer, one on top of the other.
\<close>

fun set_by_administrator :: "config_layer_source \<Rightarrow> bool" where
  "set_by_administrator (Mdm domain key) \<longleftrightarrow> True"
| "set_by_administrator (System file) \<longleftrightarrow> True"
| "set_by_administrator (LegacyManagedConfigTomlFromFile file) \<longleftrightarrow> True"
| "set_by_administrator LegacyManagedConfigTomlFromMdm \<longleftrightarrow> True"
| "set_by_administrator (User file) \<longleftrightarrow> False"
| "set_by_administrator (Project folder) \<longleftrightarrow> False"
| "set_by_administrator SessionFlags \<longleftrightarrow> False"

definition administrator_constraints :: "table_reader \<Rightarrow> ('r, 't) config_layer_stack \<Rightarrow> network_proxy_constraints \<Rightarrow> bool" where
  "administrator_constraints tables layers cons \<longleftrightarrow>
     (\<exists>networks.
        map (layer_network tables)
          (filter (\<lambda>layer. set_by_administrator (layer_name layer)) (get_layers LowestPrecedenceFirst False layers))
        = map Ok networks
      \<and> cons = fold apply_network_constraints (List.map_filter (\<lambda>n. n) networks) constraints_default)"

lemma administrator_sources: "set_by_administrator source \<longleftrightarrow> \<not> is_user_controlled_layer source"
  by (cases source) simp_all

lemma constraints_loop_fold:
  assumes "constraints_loop tables layers cons = Ok cons'"
  shows "\<exists>networks.
    map (layer_network tables) (filter (\<lambda>layer. set_by_administrator (layer_name layer)) layers) = map Ok networks
    \<and> cons' = fold apply_network_constraints (List.map_filter (\<lambda>n. n) networks) cons"
  using assms
proof (induction layers arbitrary: cons)
  case Nil
  then show ?case by simp
next
  case (Cons layer layers)
  show ?case
  proof (cases "set_by_administrator (layer_name layer)")
    case True
    then obtain network where n: "layer_network tables layer = Ok network"
        "constraints_loop tables layers (case network of None \<Rightarrow> cons | Some t \<Rightarrow> apply_network_constraints t cons) = Ok cons'"
      using Cons.prems by (auto simp: administrator_sources split: result.splits option.splits)
    from Cons.IH [OF n(2)] obtain networks where
      "map (layer_network tables) (filter (\<lambda>layer. set_by_administrator (layer_name layer)) layers) = map Ok networks"
      "cons' = fold apply_network_constraints (List.map_filter (\<lambda>n. n) networks)
         (case network of None \<Rightarrow> cons | Some t \<Rightarrow> apply_network_constraints t cons)" by blast
    then show ?thesis using True n(1) by (intro exI [of _ "network # networks"]) (simp split: option.splits)
  next
    case False
    then have "constraints_loop tables layers cons = Ok cons'" using Cons.prems by (simp add: administrator_sources)
    from Cons.IH [OF this] show ?thesis using False by simp
  qed
qed

lemma administrator_no_expansion:
  assumes "administrator_constraints tables layers cons"
  shows "allowlist_expansion_enabled cons = None"
proof -
  have "allowlist_expansion_enabled (fold apply_network_constraints ts c) = allowlist_expansion_enabled c" for ts c
    by (induction ts arbitrary: c) (simp_all add: apply_network_constraints_def Let_def split: option.splits)
  then show ?thesis using assms by (auto simp: administrator_constraints_def constraints_default_def)
qed

lemma loaded_constraints:
  assumes "loaded E W st"
  shows "\<exists>(le, layers)\<in>W. administrator_constraints (le_tables le) layers (constraints st)"
proof -
  obtain le layers where w: "(le, layers) \<in> W" "build_network_state E le layers = Ok st" using assms by (auto simp: loaded_def)
  from constraints_loop_fold [OF built_network_state(2) [OF w(2), unfolded network_constraints_from_trusted_layers_def]]
  have "administrator_constraints (le_tables le) layers (constraints st)" by (simp add: administrator_constraints_def)
  then show ?thesis using w(1) by blast
qed

text \<open>
  C4: Whatever mode changes, list updates, recordings and reloads use the proxy at the same time, the proxy opens no
  more than an administrator allows.  The files and layers may change between the loads, within \<open>W\<close>.  At every
  point of every run the constraints in force are those of the administrator's layers alone (device management
  and the files of the system; never those of the user, of a project or of the session) as they were at one of the
  loads, and the configuration passes the check against them.  With plain entries in all four lists, a host that the
  lists allow at that point is covered by the administrator's allow list, if there is one, and is not covered by the
  administrator's deny list.  A request that the decider lets through is not within the statement, nor is a state put in
  place by \<^verbatim>\<open>replace_config_state\<close>.
\<close>

theorem allowed_hosts_are_managed:
  assumes E: "documented_globs E" "documented_hosts E" and st: "loaded E W st" and ops: "\<forall>new. Replace new \<notin> set ops"
    and run: "proxy_run E env (loaded E W) (start_proxy st ops) s"
  shows "\<exists>(le, layers)\<in>W. \<exists>cons. administrator_constraints (le_tables le) layers cons \<and> constraints (px_state s) = cons
      \<and> satisfies E (config (px_state s)) cons
      \<and> (plain_lists (px_state s) \<and> host_decision E dns host port (px_state s) = Allowed \<longrightarrow>
          (\<exists>h. host_parse host = Ok h
            \<and> (\<forall>managed. managed_allowed_domains cons = Some managed \<longrightarrow> names_covered managed h)
            \<and> (\<forall>denied. managed_denied_domains cons = Some denied \<longrightarrow> \<not> names_covered denied h)))"
proof -
  have R: "\<forall>new. loaded E W new \<longrightarrow> consistent E new" by (simp add: loaded_consistent)
  have "length (blocked st) \<le> MAX_BLOCKED_EVENTS" using st built_network_state(3) by (fastforce simp: loaded_def)
  note start = loaded_consistent [OF st] this
  have rep: "\<forall>new. Replace new \<in> set ops \<longrightarrow> consistent E new" using ops by simp
  note ok = run_keeps_constraints [OF R start rep run]
  obtain events where h: "history E (loaded E W) ops (config st, constraints st) events (view s)"
    using run_has_history [OF R start rep run] by blast
  have "\<exists>(le, layers)\<in>W. administrator_constraints (le_tables le) layers (snd (view s))"
    using h by (rule history_constraints) (use loaded_constraints [OF st] loaded_constraints ops in auto)
  then obtain le layers where w: "(le, layers) \<in> W" "administrator_constraints (le_tables le) layers (constraints (px_state s))"
    by auto
  have "satisfies E (config (px_state s)) (constraints (px_state s))" using ok(1) by (simp add: consistent_def)
  then show ?thesis
    using w administrator_no_expansion [OF w(2)] consistent_allowed_is_managed [OF E ok(1), of dns host port]
    by (intro bexI [OF _ w(1)]) auto
qed

subsection \<open>An example\<close>

text \<open>A system layer that allows and denies domains, and managed rules that forbid one more host.\<close>

definition example_network :: network_toml where
  "example_network =
     \<lparr>nt_enabled = Some True, nt_proxy_url = None, nt_enable_socks5 = None, nt_socks_url = None, nt_enable_socks5_udp = None,
      nt_allow_upstream_proxy = None, nt_dangerously_allow_non_loopback_proxy = None, nt_dangerously_allow_all_unix_sockets = None,
      nt_mode = None, nt_domains = Some [(lit ''**.example.com'', TomlAllow), (lit ''*.evil.com'', TomlDeny)],
      nt_unix_sockets = None, nt_allow_local_binding = None\<rparr>"

definition example_tables :: table_reader where
  "example_tables v =
     Ok \<lparr>default_permissions = (if v = TBool True then Some (lit ''workspace'') else None),
         permission_profiles = Some [(lit ''workspace'', Some example_network)]\<rparr>"

definition example_rule :: network_rule where
  "example_rule =
     \<lparr>net_host = lit ''tracker.example.com'', net_protocol = Https, net_decision = Forbidden, net_justification = None\<rparr>"

definition example_stack :: "unit exec_config_stack" where
  "example_stack =
     \<lparr>stack_layers = [layer_new (\<lambda>_. []) (System [RootDir, Normal (lit ''etc''), Normal (lit ''config.toml'')]) (TBool True)],
      user_layer_index = None, requirements = \<lparr>req_exec_policy = Some (policy_empty\<lparr>network_rules := [example_rule]\<rparr>)\<rparr>,
      requirements_toml = (), ignore_user_and_project_exec_policy_rules = False\<rparr>"

definition example_load :: load_env where
  "example_load =
     \<lparr>le_starlark = \<lambda>_ _. SyntaxError [], le_shlex = \<lambda>_. None, le_host = example_env, le_disk = [], le_tables = example_tables,
      le_mtime = \<lambda>_. None\<rparr>"

definition loaded_config :: network_proxy_settings where
  "loaded_config =
     settings_default\<lparr>enabled := True,
       domains := Some [\<lparr>entry_pattern = lit ''**.example.com'', entry_permission = DomainAllow\<rparr>,
         \<lparr>entry_pattern = lit ''*.evil.com'', entry_permission = DomainDeny\<rparr>,
         \<lparr>entry_pattern = lit ''tracker.example.com'', entry_permission = DomainDeny\<rparr>]\<rparr>"

definition loaded_state :: config_state where
  "loaded_state =
     \<lparr>config = loaded_config, allow_set = [lit ''example.com'', lit ''?*.example.com''],
      deny_set = [lit ''?*.evil.com'', lit ''tracker.example.com''], mitm_state = None,
      constraints = constraints_default\<lparr>max_enabled := Some True, managed_allowed_domains := Some [lit ''**.example.com''],
        managed_denied_domains := Some [lit ''*.evil.com'']\<rparr>, blocked = [], blocked_total = 0\<rparr>"

lemma loaded_state_built: "build_network_state simple_net_env example_load example_stack = Ok loaded_state"
  by code_simp

lemma example_policy_loaded:
  "load_exec_policy_with_warning (le_starlark example_load) (le_shlex example_load) (le_host example_load) (le_disk example_load)
     example_stack = Ok (policy_empty\<lparr>network_rules := [example_rule]\<rparr>, None)"
  by code_simp

theorem network_rules_decide_at_proxy_witness:
  "host_decision simple_net_env (\<lambda>_ _. None) (lit ''Tracker.Example.com:443'') 443 loaded_state = Blocked Denied"
proof -
  have "normal_host (lit ''tracker.example.com'')"
    "written_normally (policy_empty\<lparr>network_rules := [example_rule]\<rparr>) (lit ''tracker.example.com'')"
    "host_parse (lit ''Tracker.Example.com:443'') = Ok (lit ''tracker.example.com'')"
    "last_verdict (network_rules (policy_empty\<lparr>network_rules := [example_rule]\<rparr>)) (lit ''tracker.example.com'') = Some Forbidden"
    by code_simp+
  with network_rules_decide_at_proxy [OF simple_net_env_documented(1) example_policy_loaded loaded_state_built]
  show ?thesis by blast
qed

definition updated_loaded_state :: config_state where
  "updated_loaded_state =
     loaded_state\<lparr>config := upsert_domain_permission (lit ''web.example.com'') DomainAllow normalize_host loaded_config,
       allow_set := [lit ''example.com'', lit ''?*.example.com'', lit ''web.example.com'']\<rparr>"

theorem allowed_hosts_are_managed_witness:
  "host_decision simple_net_env (\<lambda>_ _. Some [V4 0x5DB8D822]) (lit ''web.example.com'') 443 updated_loaded_state = Allowed
   \<and> satisfies simple_net_env (config updated_loaded_state) (constraints updated_loaded_state)
   \<and> names_covered [lit ''**.example.com''] (lit ''web.example.com'')"
proof -
  let ?d = "\<lambda>_ _. Some [V4 0x5DB8D822]" and ?h = "lit ''web.example.com''"
  let ?s = "\<lparr>px_state = updated_loaded_state, px_tasks = [Done (Ok ())]\<rparr>"
  have l: "loaded simple_net_env {(example_load, example_stack)} loaded_state" by (simp add: loaded_def loaded_state_built)
  have h: "host_parse ?h = Ok ?h" by code_simp
  have u: "update_domain_list simple_net_env example_env (Ok None) ?h AllowList loaded_state = (Ok (), updated_loaded_state)"
    by code_simp
  have run: "proxy_run simple_net_env example_env (loaded simple_net_env {(example_load, example_stack)})
      (start_proxy loaded_state [UpdateList ?h AllowList]) ?s"
    using update_alone [OF h, of simple_net_env example_env AllowList loaded_state] u by auto
  have d: "host_decision simple_net_env ?d ?h 443 updated_loaded_state = Allowed" "plain_lists updated_loaded_state"
    "managed_allowed_domains (constraints updated_loaded_state) = Some [lit ''**.example.com'']"
    by code_simp+
  have "\<forall>new. Replace new \<notin> set [UpdateList ?h AllowList]" by simp
  from allowed_hosts_are_managed [OF simple_net_env_documented l this run, of ?d ?h 443] d h
  show ?thesis by (auto simp del: lit_def)
qed

end
