(* ===== verification/Net_Spec.thy ===== *)
theory Net_Spec
  imports Net_Loading
begin

text \<open>
  The network proxy of a session (\<^verbatim>\<open>src/core/src/config/network_proxy_spec.rs\<close>): the requirements of an
  administrator laid over the configuration, the constraints they become, the network rules of the execution policy
  on top, and the decider that the proxy is started with.  Of a permission profile only matters whether it is a
  managed one.
\<close>

section \<open>Definitions\<close>

record network_constraints =
  nc_enabled :: "bool option"
  nc_http_port :: "16 word option"
  nc_socks_port :: "16 word option"
  nc_allow_upstream_proxy :: "bool option"
  nc_dangerously_allow_non_loopback_proxy :: "bool option"
  nc_dangerously_allow_all_unix_sockets :: "bool option"
  nc_domains :: "domain_permissions_toml option"
  nc_managed_allowed_domains_only :: "bool option"
  nc_unix_sockets :: "unix_socket_permissions option"
  nc_allow_local_binding :: "bool option"

record network_proxy_spec =
  base_config :: network_proxy_settings
  spec_requirements :: "network_constraints option"
  spec_config :: network_proxy_settings
  spec_constraints :: network_proxy_constraints
  hard_deny_allowlist_misses :: bool

definition managed_allowed_domains_only :: "network_constraints \<Rightarrow> bool" where
  "managed_allowed_domains_only reqs = (nc_managed_allowed_domains_only reqs = Some True)"

fun merge_domain_lists :: "ustr list \<Rightarrow> ustr list \<Rightarrow> ustr list" where
  "merge_domain_lists managed [] = managed"
| "merge_domain_lists managed (entry # user_entries) =
     merge_domain_lists
       (if list_ex (\<lambda>managed_entry. eq_ignore_ascii_case managed_entry entry) managed then managed else managed @ [entry]) user_entries"

definition local_url :: "16 word \<Rightarrow> ustr" where
  "local_url port = lit ''http://127.0.0.1:'' @ to_decimal (unat port)"

text \<open>The two lists: the list that the configuration gets, and the constraint.\<close>

definition require_allowed ::
  "network_constraints \<Rightarrow> bool \<Rightarrow> bool \<Rightarrow> network_proxy_settings \<times> network_proxy_constraints
     \<Rightarrow> network_proxy_settings \<times> network_proxy_constraints" where
  "require_allowed reqs expansion hard_deny = (\<lambda>(cfg, cons).
     (let allowed = (case nc_domains reqs of None \<Rightarrow> None | Some d \<Rightarrow> toml_allowed_domains d);
          managed = (if hard_deny then Some (unwrap_or_default allowed) else allowed)
      in case managed of
           None \<Rightarrow> (cfg, cons)
         | Some managed \<Rightarrow>
             (set_allowed_domains (if expansion then merge_domain_lists managed (unwrap_or_default (allowed_domains cfg)) else managed) cfg,
              cons\<lparr>managed_allowed_domains := Some managed, allowlist_expansion_enabled := Some expansion\<rparr>)))"

definition require_denied ::
  "network_constraints \<Rightarrow> bool \<Rightarrow> network_proxy_settings \<times> network_proxy_constraints
     \<Rightarrow> network_proxy_settings \<times> network_proxy_constraints" where
  "require_denied reqs expansion = (\<lambda>(cfg, cons).
     (case (case nc_domains reqs of None \<Rightarrow> None | Some d \<Rightarrow> toml_denied_domains d) of
        None \<Rightarrow> (cfg, cons)
      | Some managed \<Rightarrow>
          (set_denied_domains (if expansion then merge_domain_lists managed (unwrap_or_default (denied_domains cfg)) else managed) cfg,
           cons\<lparr>managed_denied_domains := Some managed, denylist_expansion_enabled := Some expansion\<rparr>)))"

definition apply_requirements ::
  "network_proxy_settings \<Rightarrow> network_constraints \<Rightarrow> bool \<Rightarrow> bool \<Rightarrow> network_proxy_settings \<times> network_proxy_constraints" where
  "apply_requirements cfg reqs managed_profile hard_deny =
     (let cons = constraints_default;
          allowlist_expansion = managed_profile \<and> \<not> hard_deny;
          denylist_expansion = managed_profile;
          cfg = cfg\<lparr>enabled := set_if (nc_enabled reqs) (enabled cfg)\<rparr>;
          cons = cons\<lparr>max_enabled := nc_enabled reqs\<rparr>;
          cfg = cfg\<lparr>proxy_url := set_if (map_option local_url (nc_http_port reqs)) (proxy_url cfg),
                  socks_url := set_if (map_option local_url (nc_socks_port reqs)) (socks_url cfg),
                  allow_upstream_proxy := set_if (nc_allow_upstream_proxy reqs) (allow_upstream_proxy cfg),
                  dangerously_allow_non_loopback_proxy :=
                    set_if (nc_dangerously_allow_non_loopback_proxy reqs) (dangerously_allow_non_loopback_proxy cfg),
                  dangerously_allow_all_unix_sockets :=
                    set_if (nc_dangerously_allow_all_unix_sockets reqs) (dangerously_allow_all_unix_sockets cfg)\<rparr>;
          cons = cons\<lparr>max_allow_upstream_proxy := nc_allow_upstream_proxy reqs,
                   max_allow_non_loopback_proxy := nc_dangerously_allow_non_loopback_proxy reqs,
                   max_allow_all_unix_sockets := nc_dangerously_allow_all_unix_sockets reqs\<rparr>;
          (cfg, cons) = require_allowed reqs allowlist_expansion hard_deny (cfg, cons);
          (cfg, cons) = require_denied reqs denylist_expansion (cfg, cons);
          (cfg, cons) = (case nc_unix_sockets reqs of
                           None \<Rightarrow> (cfg, cons)
                         | Some sockets \<Rightarrow>
                             (set_allow_unix_sockets (toml_allow_unix_sockets sockets) cfg,
                              cons\<lparr>managed_unix_sockets := Some (toml_allow_unix_sockets sockets)\<rparr>))
      in (cfg\<lparr>allow_local_binding := set_if (nc_allow_local_binding reqs) (allow_local_binding cfg)\<rparr>,
          cons\<lparr>max_allow_local_binding := nc_allow_local_binding reqs\<rparr>))"

definition from_config_and_constraints ::
  "net_env \<Rightarrow> network_proxy_settings \<Rightarrow> network_constraints option \<Rightarrow> bool
     \<Rightarrow> (network_proxy_constraint_error, network_proxy_spec) result" where
  "from_config_and_constraints E cfg reqs managed_profile =
     (let hard_deny = (case reqs of Some reqs \<Rightarrow> managed_allowed_domains_only reqs | None \<Rightarrow> False);
          (cfg', cons) = (case reqs of
                            Some reqs \<Rightarrow> apply_requirements cfg reqs managed_profile hard_deny
                          | None \<Rightarrow> (cfg, constraints_default))
      in case validate_policy_against_constraints E cfg' cons of
           Err e \<Rightarrow> Err e
         | Ok _ \<Rightarrow> Ok \<lparr>base_config = cfg, spec_requirements = reqs, spec_config = cfg', spec_constraints = cons,
                      hard_deny_allowlist_misses = hard_deny\<rparr>)"

definition recompute_for_permission_profile ::
  "net_env \<Rightarrow> bool \<Rightarrow> network_proxy_spec \<Rightarrow> (network_proxy_constraint_error, network_proxy_spec) result" where
  "recompute_for_permission_profile E managed_profile spec =
     from_config_and_constraints E (base_config spec) (spec_requirements spec) managed_profile"

fun upsert_network_domains :: "network_domain_permission \<Rightarrow> ustr list \<Rightarrow> ustr list \<Rightarrow> network_proxy_settings \<Rightarrow> network_proxy_settings" where
  "upsert_network_domains permission incoming [] cfg = cfg"
| "upsert_network_domains permission incoming (host # hosts) cfg =
     (if host \<in> set incoming then upsert_network_domains permission incoming hosts cfg
      else upsert_network_domains permission (host # incoming) hosts
             (upsert_domain_permission host permission normalize_host cfg))"

definition with_exec_policy_network_rules ::
  "net_env \<Rightarrow> policy \<Rightarrow> network_proxy_spec \<Rightarrow> (network_proxy_constraint_error, network_proxy_spec) result" where
  "with_exec_policy_network_rules E exec_policy spec =
     (let (allowed, denied) = compiled_network_domains exec_policy;
          cfg = upsert_network_domains DomainDeny [] denied (upsert_network_domains DomainAllow [] allowed (spec_config spec))
      in case validate_policy_against_constraints E cfg (spec_constraints spec) of
           Err e \<Rightarrow> Err e
         | Ok _ \<Rightarrow> Ok (spec\<lparr>spec_config := cfg\<rparr>))"

definition build_config_state_for_spec :: "net_env \<Rightarrow> host_env \<Rightarrow> network_proxy_spec \<Rightarrow> (config_error, config_state) result" where
  "build_config_state_for_spec E env spec = build_config_state E env (spec_config spec) (spec_constraints spec)"

text \<open>The decider that \<^verbatim>\<open>start_proxy\<close> installs.\<close>

definition started_decider ::
  "network_proxy_spec \<Rightarrow> bool \<Rightarrow> bool \<Rightarrow> (network_policy_request \<Rightarrow> network_decision) option
     \<Rightarrow> (network_policy_request \<Rightarrow> network_decision) option" where
  "started_decider spec enable_network_approval_flow managed_profile policy_decider =
     (if enable_network_approval_flow \<and> \<not> hard_deny_allowlist_misses spec
      then case policy_decider of
             Some d \<Rightarrow> Some d
           | None \<Rightarrow> if managed_profile then Some (\<lambda>_. ask_with_source (lit ''not_allowed'') Decider) else None
      else None)"

section \<open>Only managed domains\<close>

text \<open>The domains that the requirements allow.\<close>

definition required_domains :: "network_constraints \<Rightarrow> ustr list" where
  "required_domains reqs = unwrap_or_default (case nc_domains reqs of None \<Rightarrow> None | Some d \<Rightarrow> toml_allowed_domains d)"

lemma managed_only_constraints:
  assumes "apply_requirements cfg reqs managed_profile True = (cfg', cons)"
  shows "managed_allowed_domains cons = Some (required_domains reqs)" "allowlist_expansion_enabled cons = Some False"
  using assms
  by (auto simp: apply_requirements_def require_allowed_def require_denied_def required_domains_def Let_def
      split: option.splits prod.splits)

lemma spec_facts:
  assumes "from_config_and_constraints E cfg (Some reqs) managed_profile = Ok spec" and "managed_allowed_domains_only reqs"
  shows "satisfies E (spec_config spec) (spec_constraints spec)" "hard_deny_allowlist_misses spec"
    "managed_allowed_domains (spec_constraints spec) = Some (required_domains reqs)"
    "allowlist_expansion_enabled (spec_constraints spec) = Some False"
  using assms managed_only_constraints [of cfg reqs managed_profile]
  by (auto simp: from_config_and_constraints_def Let_def split: result.splits prod.splits)

lemma exec_rules_facts:
  assumes "with_exec_policy_network_rules E p spec = Ok spec'"
  shows "satisfies E (spec_config spec') (spec_constraints spec')" "spec_constraints spec' = spec_constraints spec"
    "hard_deny_allowlist_misses spec' = hard_deny_allowlist_misses spec"
  using assms by (auto simp: with_exec_policy_network_rules_def Let_def split: result.splits prod.splits)

lemma permitted_without_decider:
  "permitted E dns None request st \<longleftrightarrow> host_decision E dns (npr_host request) (npr_port request) st = Allowed"
proof (cases "host_parse (npr_host request)")
  case (Err e)
  then show ?thesis by (simp add: permitted_def host_decision_def)
next
  case (Ok h)
  then show ?thesis by (auto simp: permitted_def host_decision_cases [OF Ok])
qed

text \<open>
  C12: When the requirements say that only managed domains are allowed, nothing else is.  Take the proxy of a session, with
  the network rules of the execution policy applied or not, and a decider handed to it; the required domains are plain
  entries, and the lists of the user and the rules are of any form.
  A request that is let through is for a host that the required domains cover: neither the configuration of
  the user, nor a rule, nor the decider opens another host.
\<close>

theorem managed_domains_only:
  assumes E: "documented_globs E" "documented_hosts E" and only: "managed_allowed_domains_only reqs"
    and spec: "from_config_and_constraints E cfg (Some reqs) managed_profile = Ok spec"
    and spec': "spec' = spec \<or> with_exec_policy_network_rules E p spec = Ok spec'"
    and st: "build_config_state_for_spec E env spec' = Ok st"
    and plain: "list_all plain_entry (required_domains reqs)"
    and allow: "fst (evaluate_host_policy E dns (Ok None) (started_decider spec' flow profile decider) request st) = Ok (NetAllow, event)"
  shows "\<exists>h. host_parse (npr_host request) = Ok h \<and> names_covered (required_domains reqs) h"
proof -
  note f = spec_facts [OF spec only]
  have ok: "satisfies E (spec_config spec') (spec_constraints spec')" "spec_constraints spec' = spec_constraints spec"
      "hard_deny_allowlist_misses spec'"
    using spec' f exec_rules_facts [of E p spec spec'] by auto
  then have "started_decider spec' flow profile decider = None" by (simp add: started_decider_def)
  moreover have "reload_if_needed (Ok None) st = Ok st" by (simp add: reload_if_needed_def)
  ultimately have "permitted E dns None request st" using evaluate_permitted [of "Ok None" st st E dns None request] allow by auto
  then have d: "host_decision E dns (npr_host request) (npr_port request) st = Allowed" by (simp add: permitted_without_decider)
  have b: "build_config_state E env (spec_config spec') (spec_constraints spec') = Ok st"
    using st by (simp add: build_config_state_for_spec_def)
  have "constraints st = spec_constraints spec" using build_config_state_sets(4) [OF b] ok(2) by simp
  then show ?thesis using fixed_allow_list [OF E build_config_state_consistent [OF b ok(1)] _ _ plain d] f(3,4) by simp
qed

section \<open>Requirements can be met\<close>

text \<open>The patterns with an entry that allows them and with one that denies them.\<close>

definition allow_entries :: "network_proxy_settings \<Rightarrow> ustr set" where
  "allow_entries cfg = {p. DomainAllow \<in> entry_permissions (unwrap_or_default (domains cfg)) p}"

definition deny_entries :: "network_proxy_settings \<Rightarrow> ustr set" where
  "deny_entries cfg = {p. DomainDeny \<in> entry_permissions (unwrap_or_default (domains cfg)) p}"

lemma lists_of_entries:
  "set (unwrap_or_default (allowed_domains cfg)) = allow_entries cfg - deny_entries cfg"
  "set (unwrap_or_default (denied_domains cfg)) = deny_entries cfg"
  by (auto simp: listed_domains allow_entries_def deny_entries_def)

lemma entries_set:
  "allow_entries (set_allowed_domains ps cfg) = set ps" "deny_entries (set_allowed_domains ps cfg) = deny_entries cfg"
  "allow_entries (set_denied_domains ps cfg) = allow_entries cfg" "deny_entries (set_denied_domains ps cfg) = set ps"
  by (auto simp: allow_entries_def deny_entries_def set_allowed_domains_def set_denied_domains_def set_domain_entries_permissions)

lemma merge_domain_lists_set:
  "set managed \<subseteq> set (merge_domain_lists managed user)" "set (merge_domain_lists managed user) \<subseteq> set managed \<union> set user"
  by (induction managed user rule: merge_domain_lists.induct) auto

lemma set_lists_rest:
  "set_domain_entries ps q cfg = cfg\<lparr>domains := domains (set_domain_entries ps q cfg)\<rparr>"
  "set_unix_socket_entries qs r cfg = cfg\<lparr>unix_sockets := unix_sockets (set_unix_socket_entries qs r cfg)\<rparr>"
  by (simp_all add: set_domain_entries_def set_unix_socket_entries_def Let_def)

lemma lists_kept:
  "\<exists>l. cfg = cfg\<lparr>domains := l\<rparr>" "\<exists>l. set_domain_entries ps q cfg = cfg\<lparr>domains := l\<rparr>"
  by (rule exI [of _ "domains cfg"], simp, rule exI, rule set_lists_rest(1))

lemma managed_lists_unset:
  "\<exists>l b. cons = cons\<lparr>managed_allowed_domains := l, allowlist_expansion_enabled := b\<rparr>"
  "\<exists>l b. cons = cons\<lparr>managed_denied_domains := l, denylist_expansion_enabled := b\<rparr>"
  by (rule exI [of _ "managed_allowed_domains cons"], rule exI [of _ "allowlist_expansion_enabled cons"], simp,
    rule exI [of _ "managed_denied_domains cons"], rule exI [of _ "denylist_expansion_enabled cons"], simp)

lemma entries_cong: "domains cfg' = domains cfg \<Longrightarrow> allow_entries cfg' = allow_entries cfg \<and> deny_entries cfg' = deny_entries cfg"
  by (simp add: allow_entries_def deny_entries_def)

lemma required_sockets_allowed: "set (allow_unix_sockets (set_allow_unix_sockets ps cfg)) \<subseteq> set ps"
proof -
  have "set (foldl (\<lambda>entries path. tbl_insert path SocketAllow entries) es ps) \<subseteq> set es \<union> {(p, SocketAllow) | p. p \<in> set ps}" for es ps
  proof (induction ps arbitrary: es)
    case (Cons p ps)
    then show ?case using set_tbl_insert [of p SocketAllow es] by fastforce
  qed simp
  from this [of "filter (\<lambda>(_, existing). existing \<noteq> SocketAllow) (unwrap_or_default (unix_sockets cfg))" ps]
  show ?thesis
    by (auto simp: allow_unix_sockets_def set_allow_unix_sockets_def set_unix_socket_entries_def unwrap_or_default_def Let_def
        split: option.splits if_splits)
qed

text \<open>The steps of \<open>apply_requirements\<close> after the switches, on a configuration and its constraints.\<close>

definition required_denials :: "network_constraints \<Rightarrow> ustr list option" where
  "required_denials reqs = (case nc_domains reqs of None \<Rightarrow> None | Some d \<Rightarrow> toml_denied_domains d)"

lemma require_allowed_lists:
  assumes "require_allowed reqs x hard (cfg, cons) = (cfg', cons')"
  shows "deny_entries cfg' = deny_entries cfg" "\<exists>l. cfg' = cfg\<lparr>domains := l\<rparr>"
    "\<exists>l b. cons' = cons\<lparr>managed_allowed_domains := l, allowlist_expansion_enabled := b\<rparr>"
    "managed_allowed_domains cons = None \<Longrightarrow> managed_allowed_domains cons' = Some managed \<Longrightarrow>
       set managed = set (required_domains reqs) \<and> allowlist_expansion_enabled cons' = Some x
       \<and> set managed \<subseteq> allow_entries cfg' \<and> (x \<or> allow_entries cfg' = set managed)"
  using assms lists_kept(1) [of cfg] lists_kept(2) [of _ DomainAllow cfg] managed_lists_unset(1) [of cons]
  by (auto dest: merge_domain_lists_set(1) [THEN subsetD] simp: require_allowed_def required_domains_def entries_set Let_def unwrap_or_default_def simp flip: set_allowed_domains_def
      split: option.splits if_splits)

lemma require_denied_lists:
  assumes "require_denied reqs x (cfg, cons) = (cfg', cons')"
  shows "allow_entries cfg' = allow_entries cfg" "\<exists>l. cfg' = cfg\<lparr>domains := l\<rparr>"
    "\<exists>l b. cons' = cons\<lparr>managed_denied_domains := l, denylist_expansion_enabled := b\<rparr>"
    "deny_entries cfg' \<subseteq> deny_entries cfg \<union> set (unwrap_or_default (required_denials reqs))"
    "managed_denied_domains cons = None \<Longrightarrow> managed_denied_domains cons' = Some managed \<Longrightarrow>
       required_denials reqs = Some managed \<and> denylist_expansion_enabled cons' = Some x
       \<and> set managed \<subseteq> deny_entries cfg' \<and> (x \<or> deny_entries cfg' = set managed)"
  using assms lists_kept(1) [of cfg] lists_kept(2) [of _ DomainDeny cfg] managed_lists_unset(2) [of cons] lists_of_entries(2) [of cfg]
  by (auto intro: merge_domain_lists_set(1) [THEN subsetD] dest!: merge_domain_lists_set(2) [THEN subsetD] simp: require_denied_def required_denials_def entries_set Let_def unwrap_or_default_def simp flip: set_denied_domains_def
      split: option.splits if_splits)

text \<open>Patterns that are in lower case and not the global wildcard.\<close>

definition scoped_pattern :: "ustr \<Rightarrow> bool" where
  "scoped_pattern p \<longleftrightarrow> to_ascii_lowercase p = p \<and> \<not> is_global_wildcard_domain_pattern p"

lemma scoped_no_wildcard: "\<forall>p\<in>set ps. scoped_pattern p \<Longrightarrow> validate_non_global_wildcard_domain_patterns f ps = Ok ()"
proof -
  assume "\<forall>p\<in>set ps. scoped_pattern p"
  then have "List.find is_global_wildcard_domain_pattern ps = None" by (auto simp: find_None_iff scoped_pattern_def)
  then show ?thesis by (simp add: validate_non_global_wildcard_domain_patterns_def)
qed

lemma scoped_lowered: "\<forall>p\<in>set ps. scoped_pattern p \<Longrightarrow> set (lowered ps) = set ps"
  by (force simp: scoped_pattern_def)

lemma allowed_check_met:
  assumes "set managed \<subseteq> A" and "x \<or> A = set managed" and "set cs = A - D" "set ds = D"
    and "\<forall>p\<in>set managed \<union> D. scoped_pattern p"
  shows "validate_allowed_domains E cs ds (Some x) managed = Ok ()"
proof (cases x)
  case True
  have "to_ascii_lowercase m \<in> set (lowered cs) \<union> set (lowered ds)" if "m \<in> set managed" for m
    using that assms(1,3,4) by (cases "m \<in> D") auto
  then show ?thesis using True by (auto simp: validate_allowed_domains_def filter_empty_conv Let_def)
next
  case False
  then have cs: "set cs = set managed - D" using assms by simp
  have "set (lowered cs) = set cs" "set (lowered managed) = set managed" "set (lowered ds) = set ds"
    using assms(4,5) cs by (intro scoped_lowered; auto)+
  then have "set (lowered cs) = set (lowered managed) - set (lowered ds)" using cs assms(4) by simp
  then show ?thesis using False unfolding validate_allowed_domains_def by (simp only: option.case bool.case if_True simp_thms)
qed

lemma denied_check_met:
  assumes "set managed \<subseteq> set ds" and "x \<or> set ds = set managed"
  shows "validate_denied_domains ds (Some x) managed = Ok ()"
proof -
  have "to_ascii_lowercase ` set managed \<subseteq> to_ascii_lowercase ` set ds" using assms(1) by blast
  then show ?thesis using assms(2) by (cases x) (auto simp: validate_denied_domains_def filter_empty_conv Let_def)
qed

text \<open>The switches of the requirements, in the configuration and in the constraints.\<close>

definition switched_config :: "network_constraints \<Rightarrow> network_proxy_settings \<Rightarrow> network_proxy_settings" where
  "switched_config reqs cfg =
     cfg\<lparr>enabled := set_if (nc_enabled reqs) (enabled cfg),
       proxy_url := set_if (map_option local_url (nc_http_port reqs)) (proxy_url cfg),
       socks_url := set_if (map_option local_url (nc_socks_port reqs)) (socks_url cfg),
       allow_upstream_proxy := set_if (nc_allow_upstream_proxy reqs) (allow_upstream_proxy cfg),
       dangerously_allow_non_loopback_proxy := set_if (nc_dangerously_allow_non_loopback_proxy reqs) (dangerously_allow_non_loopback_proxy cfg),
       dangerously_allow_all_unix_sockets := set_if (nc_dangerously_allow_all_unix_sockets reqs) (dangerously_allow_all_unix_sockets cfg)\<rparr>"

definition switched_constraints :: "network_constraints \<Rightarrow> network_proxy_constraints" where
  "switched_constraints reqs =
     constraints_default\<lparr>max_enabled := nc_enabled reqs, max_allow_upstream_proxy := nc_allow_upstream_proxy reqs,
       max_allow_non_loopback_proxy := nc_dangerously_allow_non_loopback_proxy reqs,
       max_allow_all_unix_sockets := nc_dangerously_allow_all_unix_sockets reqs\<rparr>"

definition required_sockets ::
  "network_constraints \<Rightarrow> network_proxy_settings \<times> network_proxy_constraints \<Rightarrow> network_proxy_settings \<times> network_proxy_constraints" where
  "required_sockets reqs = (\<lambda>(cfg, cons).
     case nc_unix_sockets reqs of
       None \<Rightarrow> (cfg, cons)
     | Some sockets \<Rightarrow>
         (set_allow_unix_sockets (toml_allow_unix_sockets sockets) cfg, cons\<lparr>managed_unix_sockets := Some (toml_allow_unix_sockets sockets)\<rparr>))"

lemma apply_requirements_steps:
  "apply_requirements cfg reqs managed_profile hard =
     (case required_sockets reqs (require_denied reqs managed_profile
        (require_allowed reqs (managed_profile \<and> \<not> hard) hard (switched_config reqs cfg, switched_constraints reqs))) of
        (cfg, cons) \<Rightarrow> (cfg\<lparr>allow_local_binding := set_if (nc_allow_local_binding reqs) (allow_local_binding cfg)\<rparr>,
          cons\<lparr>max_allow_local_binding := nc_allow_local_binding reqs\<rparr>))"
  by (simp add: apply_requirements_def required_sockets_def switched_config_def switched_constraints_def Let_def split: option.splits prod.splits)

lemma satisfiesI:
  assumes "\<forall>p\<in>set (unwrap_or_default (denied_domains cfg)). scoped_pattern p"
    and "max_enabled cons = Some False \<Longrightarrow> \<not> enabled cfg" and "max_mode cons = None"
    and "max_allow_upstream_proxy cons = Some False \<Longrightarrow> \<not> allow_upstream_proxy cfg"
    and "max_allow_non_loopback_proxy cons = Some False \<Longrightarrow> \<not> dangerously_allow_non_loopback_proxy cfg"
    and "max_allow_all_unix_sockets cons = Some False \<longrightarrow> \<not> dangerously_allow_all_unix_sockets cfg"
    and "max_allow_all_unix_sockets cons = None \<and> managed_unix_sockets cons \<noteq> None \<longrightarrow> \<not> dangerously_allow_all_unix_sockets cfg"
    and "max_allow_local_binding cons = Some False \<Longrightarrow> \<not> allow_local_binding cfg"
    and "\<And>l. managed_allowed_domains cons = Some l \<Longrightarrow> (\<forall>p\<in>set l. scoped_pattern p)
      \<and> validate_allowed_domains E (unwrap_or_default (allowed_domains cfg)) (unwrap_or_default (denied_domains cfg)) (allowlist_expansion_enabled cons) l = Ok ()"
    and "\<And>l. managed_denied_domains cons = Some l \<Longrightarrow> (\<forall>p\<in>set l. scoped_pattern p)
      \<and> validate_denied_domains (unwrap_or_default (denied_domains cfg)) (denylist_expansion_enabled cons) l = Ok ()"
    and "\<And>l. managed_unix_sockets cons = Some l \<Longrightarrow> set (allow_unix_sockets cfg) \<subseteq> set l"
  shows "satisfies E cfg cons"
proof -
  have "validate_switch f (dangerously_allow_all_unix_sockets cfg)
      (case max_allow_all_unix_sockets cons of Some b \<Rightarrow> b | None \<Rightarrow> managed_unix_sockets cons = None) = Ok ()" for f
    using assms(6,7) by (cases "dangerously_allow_all_unix_sockets cfg") (auto simp: validate_switch_def split: option.splits)
  moreover have "(case managed_unix_sockets cons of Some l \<Rightarrow> validate_unix_sockets (allow_unix_sockets cfg) l | None \<Rightarrow> Ok ()) = Ok ()"
    using assms(11) by (auto simp: validate_unix_sockets_def filter_empty_conv Let_def split: option.splits)
  moreover have "(case managed_allowed_domains cons of None \<Rightarrow> Ok () | Some l \<Rightarrow>
      first_error [validate_non_global_wildcard_domain_patterns f l,
        validate_allowed_domains E (unwrap_or_default (allowed_domains cfg)) (unwrap_or_default (denied_domains cfg)) (allowlist_expansion_enabled cons) l]) = Ok ()" for f
    using assms(9) by (auto simp: scoped_no_wildcard split: option.splits)
  moreover have "(case managed_denied_domains cons of None \<Rightarrow> Ok () | Some l \<Rightarrow>
      first_error [validate_non_global_wildcard_domain_patterns f l,
        validate_denied_domains (unwrap_or_default (denied_domains cfg)) (denylist_expansion_enabled cons) l]) = Ok ()" for f
    using assms(10) by (auto simp: scoped_no_wildcard split: option.splits)
  moreover have "validate_switch f b (x \<noteq> Some False) = Ok ()" if "x = Some False \<Longrightarrow> \<not> b" for f b x
    using that by (auto simp: validate_switch_def)
  ultimately show ?thesis
    using assms(2,4,5,8) by (simp add: validate_policy_against_constraints_def scoped_no_wildcard [OF assms(1)] validate_mode_def assms(3) Let_def del: lit_def)
qed

lemma required_sockets_lists:
  assumes "required_sockets reqs (cfg, cons) = (cfg', cons')"
  shows "\<exists>l. cfg' = cfg\<lparr>unix_sockets := l\<rparr>"
    "managed_unix_sockets cons = None \<Longrightarrow> cons' = cons\<lparr>managed_unix_sockets := map_option toml_allow_unix_sockets (nc_unix_sockets reqs)\<rparr>"
    "nc_unix_sockets reqs = Some l \<Longrightarrow> set (allow_unix_sockets cfg') \<subseteq> set (toml_allow_unix_sockets l)"
proof -
  show "\<exists>l. cfg' = cfg\<lparr>unix_sockets := l\<rparr>"
  proof (cases "nc_unix_sockets reqs")
    case None
    then have "cfg' = cfg\<lparr>unix_sockets := unix_sockets cfg\<rparr>" using assms by (simp add: required_sockets_def)
    then show ?thesis by blast
  next
    case (Some l)
    then show ?thesis using assms set_lists_rest(2) [of "toml_allow_unix_sockets l" SocketAllow cfg]
      by (auto simp: required_sockets_def set_allow_unix_sockets_def)
  qed
qed (use assms required_sockets_allowed in \<open>auto simp: required_sockets_def split: option.splits\<close>)

lemma required_lists:
  assumes step: "require_denied reqs profile (require_allowed reqs (profile \<and> \<not> hard) hard (switched_config reqs cfg, switched_constraints reqs)) = (cfg', cons')"
    and scoped: "\<forall>p\<in>set (required_domains reqs @ unwrap_or_default (required_denials reqs) @ unwrap_or_default (denied_domains cfg)). scoped_pattern p"
  obtains dl al x nl y where "cfg' = (switched_config reqs cfg)\<lparr>domains := dl\<rparr>"
    and "cons' = (switched_constraints reqs)\<lparr>managed_allowed_domains := al, allowlist_expansion_enabled := x,
      managed_denied_domains := nl, denylist_expansion_enabled := y\<rparr>"
    and "\<forall>p\<in>deny_entries cfg'. scoped_pattern p"
    and "\<forall>l. al = Some l \<longrightarrow> set l = set (required_domains reqs) \<and> x = Some (profile \<and> \<not> hard)
      \<and> set l \<subseteq> allow_entries cfg' \<and> ((profile \<and> \<not> hard) \<or> allow_entries cfg' = set l)"
    and "\<forall>l. nl = Some l \<longrightarrow> required_denials reqs = Some l \<and> y = Some profile
      \<and> set l \<subseteq> deny_entries cfg' \<and> (profile \<or> deny_entries cfg' = set l)"
proof -
  obtain cfg2 cons2 where a: "require_allowed reqs (profile \<and> \<not> hard) hard (switched_config reqs cfg, switched_constraints reqs) = (cfg2, cons2)"
    by fastforce
  then have d: "require_denied reqs profile (cfg2, cons2) = (cfg', cons')" using step by simp
  obtain dl al x where cfg2: "cfg2 = (switched_config reqs cfg)\<lparr>domains := dl\<rparr>"
      and cons2: "cons2 = (switched_constraints reqs)\<lparr>managed_allowed_domains := al, allowlist_expansion_enabled := x\<rparr>"
    using require_allowed_lists(2,3) [OF a] by blast
  obtain dl' nl y where cfg': "cfg' = cfg2\<lparr>domains := dl'\<rparr>" and cons': "cons' = cons2\<lparr>managed_denied_domains := nl, denylist_expansion_enabled := y\<rparr>"
    using require_denied_lists(2,3) [OF d] by blast
  show ?thesis
  proof (rule that [where dl = dl' and al = al and x = x and nl = nl and y = y])
    have "deny_entries (switched_config reqs cfg) = deny_entries cfg" by (simp add: switched_config_def deny_entries_def)
    then show "\<forall>p\<in>deny_entries cfg'. scoped_pattern p"
      using require_denied_lists(4) [OF d] require_allowed_lists(1) [OF a] scoped by (auto simp: lists_of_entries)
    show "\<forall>l. al = Some l \<longrightarrow> set l = set (required_domains reqs) \<and> x = Some (profile \<and> \<not> hard)
        \<and> set l \<subseteq> allow_entries cfg' \<and> ((profile \<and> \<not> hard) \<or> allow_entries cfg' = set l)"
      using require_allowed_lists(4) [OF a] require_denied_lists(1) [OF d]
      by (fastforce simp: cons2 switched_constraints_def constraints_default_def)
    show "\<forall>l. nl = Some l \<longrightarrow> required_denials reqs = Some l \<and> y = Some profile
        \<and> set l \<subseteq> deny_entries cfg' \<and> (profile \<or> deny_entries cfg' = set l)"
      using require_denied_lists(5) [OF d] by (auto simp: cons' cons2 switched_constraints_def constraints_default_def)
  qed (simp_all add: cfg' cfg2 cons' cons2)
qed

text \<open>The two lists pass their checks in every configuration with these entries.\<close>

lemma required_lists_met:
  assumes scoped: "\<forall>p\<in>set (required_domains reqs @ unwrap_or_default (required_denials reqs) @ unwrap_or_default (denied_domains cfg)). scoped_pattern p"
    and ds: "\<forall>p\<in>deny_entries cfg'. scoped_pattern p"
  shows "set l = set (required_domains reqs) \<and> x = Some b \<and> set l \<subseteq> allow_entries cfg' \<and> (b \<or> allow_entries cfg' = set l) \<Longrightarrow>
      (\<forall>p\<in>set l. scoped_pattern p) \<and> validate_allowed_domains E (unwrap_or_default (allowed_domains cfg')) (unwrap_or_default (denied_domains cfg')) x l = Ok ()"
    and "required_denials reqs = Some l \<and> y = Some b' \<and> set l \<subseteq> deny_entries cfg' \<and> (b' \<or> deny_entries cfg' = set l) \<Longrightarrow>
      (\<forall>p\<in>set l. scoped_pattern p) \<and> validate_denied_domains (unwrap_or_default (denied_domains cfg')) y l = Ok ()"
proof -
  assume a: "set l = set (required_domains reqs) \<and> x = Some b \<and> set l \<subseteq> allow_entries cfg' \<and> (b \<or> allow_entries cfg' = set l)"
  then have l: "\<forall>p\<in>set l \<union> deny_entries cfg'. scoped_pattern p" and x: "x = Some b" using ds scoped by auto
  show "(\<forall>p\<in>set l. scoped_pattern p) \<and> validate_allowed_domains E (unwrap_or_default (allowed_domains cfg')) (unwrap_or_default (denied_domains cfg')) x l = Ok ()"
    unfolding x using a l by (intro conjI allowed_check_met [OF _ _ lists_of_entries l]) blast+
next
  assume d: "required_denials reqs = Some l \<and> y = Some b' \<and> set l \<subseteq> deny_entries cfg' \<and> (b' \<or> deny_entries cfg' = set l)"
  then have "\<forall>p\<in>set l. scoped_pattern p" and y: "y = Some b'" using scoped by (auto simp: unwrap_or_default_def)
  then show "(\<forall>p\<in>set l. scoped_pattern p) \<and> validate_denied_domains (unwrap_or_default (denied_domains cfg')) y l = Ok ()"
    unfolding y using d by (intro conjI denied_check_met) (simp_all only: lists_of_entries)
qed


subsection \<open>An example\<close>

text \<open>
  Requirements that allow one domain only and let one socket be used, a user who allows another domain, and a rule of the
  execution policy that denies a host of the allowed one.
\<close>

definition example_requirements :: network_constraints where
  "example_requirements =
     \<lparr>nc_enabled = Some True, nc_http_port = None, nc_socks_port = None, nc_allow_upstream_proxy = Some False,
      nc_dangerously_allow_non_loopback_proxy = None, nc_dangerously_allow_all_unix_sockets = None,
      nc_domains = Some [(lit ''**.example.com'', TomlAllow), (lit ''*.evil.com'', TomlDeny)],
      nc_managed_allowed_domains_only = Some True, nc_unix_sockets = Some [], nc_allow_local_binding = Some False\<rparr>"

definition user_config :: network_proxy_settings where
  "user_config =
     settings_default\<lparr>domains := Some [\<lparr>entry_pattern = lit ''other.com'', entry_permission = DomainAllow\<rparr>,
                                \<lparr>entry_pattern = lit ''ads.example.com'', entry_permission = DomainDeny\<rparr>]\<rparr>"

definition example_spec :: network_proxy_spec where
  "example_spec =
     (let (cfg, cons) = apply_requirements user_config example_requirements True True
      in \<lparr>base_config = user_config, spec_requirements = Some example_requirements, spec_config = cfg, spec_constraints = cons,
          hard_deny_allowlist_misses = True\<rparr>)"

definition ruled_spec :: network_proxy_spec where
  "ruled_spec =
     example_spec\<lparr>spec_config := upsert_domain_permission (lit ''tracker.example.com'') DomainDeny normalize_host (spec_config example_spec)\<rparr>"

definition ruled_state :: config_state where
  "ruled_state =
     \<lparr>config = spec_config ruled_spec, allow_set = [lit ''example.com'', lit ''?*.example.com''],
      deny_set = [lit ''?*.evil.com'', lit ''ads.example.com'', lit ''tracker.example.com''], mitm_state = None,
      constraints = spec_constraints ruled_spec, blocked = [], blocked_total = 0\<rparr>"

definition web_request :: network_policy_request where
  "web_request =
     \<lparr>npr_protocol = HttpsConnect, npr_host = lit ''Web.Example.com:443'', npr_port = 443, npr_client_addr = None,
      npr_method = None, npr_command = None, npr_exec_policy_hint = None\<rparr>"


theorem managed_domains_only_witness:
  "(\<exists>h. host_parse (npr_host web_request) = Ok h \<and> names_covered (required_domains example_requirements) h)
   \<and> \<not> names_covered (required_domains example_requirements) (lit ''other.com'')"
proof -
  let ?d = "\<lambda>_ _. Some [V4 0x5DB8D822]" and ?p = "policy_empty\<lparr>network_rules := [example_rule]\<rparr>"
  have only: "managed_allowed_domains_only example_requirements" by code_simp
  have spec: "from_config_and_constraints simple_net_env user_config (Some example_requirements) True = Ok example_spec" by code_simp
  have ruled: "with_exec_policy_network_rules simple_net_env ?p example_spec = Ok ruled_spec" by code_simp
  have st: "build_config_state_for_spec simple_net_env example_env ruled_spec = Ok ruled_state" by code_simp
  have plain: "list_all plain_entry (required_domains example_requirements)" by code_simp
  have "reload_if_needed (Ok None) ruled_state = Ok ruled_state" by (simp add: reload_if_needed_def)
  moreover have "host_decision simple_net_env ?d (npr_host web_request) (npr_port web_request) ruled_state = Allowed" by code_simp
  moreover have "started_decider ruled_spec True True None = None" by code_simp
  ultimately obtain event where
    "fst (evaluate_host_policy simple_net_env ?d (Ok None) (started_decider ruled_spec True True None) web_request ruled_state) = Ok (NetAllow, event)"
    using evaluate_permitted [of "Ok None" ruled_state ruled_state simple_net_env ?d None web_request] permitted_without_decider by metis
  from managed_domains_only [OF simple_net_env_documented only spec disjI2 [OF ruled] st plain this]
  have "\<exists>h. host_parse (npr_host web_request) = Ok h \<and> names_covered (required_domains example_requirements) h" .
  moreover have "\<not> names_covered (required_domains example_requirements) (lit ''other.com'')" by code_simp
  ultimately show ?thesis by blast
qed

end
