(* ===== verification/Net_Handlers.thy ===== *)
theory Net_Handlers
  imports Net_Runtime
begin

text \<open>
  The request handlers of the network proxy: HTTP and \<^verbatim>\<open>CONNECT\<close> (\<^verbatim>\<open>src/network-proxy/src/http_proxy.rs\<close>),
  requests inside an intercepted tunnel (\<^verbatim>\<open>mitm.rs\<close>) and SOCKS5 (\<^verbatim>\<open>socks5.rs\<close>).  A handler asks the state of the proxy
  several times, and other tasks may change it in between: \<open>snap k\<close> is what the \<open>k\<close>-th question finds after its reload.
  The result of a handler is its answer and the blocked requests that it records.  The parsed parts of a
  request, which the HTTP library supplies, are a record; audit events and log lines are left out.
\<close>

section \<open>Definitions\<close>

type_synonym snapshots = "nat \<Rightarrow> config_state net_result"

type_synonym decider = "(network_policy_request \<Rightarrow> network_decision) option"

text \<open>Status and text; the refusal of a reason as text or as JSON for a host.\<close>

datatype http_response =
    TextResponse nat ustr
  | BlockedText ustr
  | JsonBlocked ustr ustr

text \<open>
  The target of a request: its host and the port that applies, the port that is written, whether the port is the default
  one of the protocol.
\<close>

record authority =
  auth_host :: ustr
  auth_port :: "16 word"
  auth_written_port :: "16 word option"
  auth_has_default_port :: bool

text \<open>The header \<^verbatim>\<open>x-unix-socket\<close> is \<open>Some None\<close> when it is no text; the header \<^verbatim>\<open>Host\<close> is an error when it does not parse.\<close>

record http_request =
  hr_method :: ustr
  hr_client :: "ustr option"
  hr_unix_socket :: "ustr option option"
  hr_authority :: "authority option"
  hr_has_scheme :: bool
  hr_host_header :: "(unit, (ustr \<times> 16 word option) option) result"

fun source_str :: "network_decision_source \<Rightarrow> ustr" where
  "source_str BaselinePolicy = lit ''baseline_policy''"
| "source_str ModeGuard = lit ''mode_guard''"
| "source_str ProxyState = lit ''proxy_state''"
| "source_str Decider = lit ''decider''"

definition blocked_message :: "ustr \<Rightarrow> ustr" where
  "blocked_message reason =
     (if reason = lit ''not_allowed'' then lit ''Domain not in allowlist.''
      else if reason = lit ''not_allowed_local'' then lit ''Network access policy blocks local/private network addresses.''
      else if reason = lit ''denied'' then lit ''Domain denied by network access policy.''
      else if reason = lit ''method_not_allowed'' then lit ''Method not allowed in limited mode.''
      else if reason = lit ''mitm_required'' then lit ''MITM required for limited HTTPS.''
      else if reason = lit ''proxy_disabled'' then lit ''network proxy is disabled''
      else lit ''Request blocked by network policy.'')"

text \<open>The entry that a handler records for a refused request.\<close>

definition blocked_entry ::
  "64 word \<Rightarrow> ustr \<Rightarrow> 16 word \<Rightarrow> ustr \<Rightarrow> ustr option \<Rightarrow> ustr option \<Rightarrow> network_mode option \<Rightarrow> ustr
     \<Rightarrow> (network_policy_decision \<times> network_decision_source) option \<Rightarrow> blocked_request" where
  "blocked_entry now host port reason client method m protocol details =
     \<lparr>req_host = host, req_reason = reason, req_client = client, req_method = method, req_mode = m, req_protocol = protocol,
      req_decision = map_option (\<lambda>(decision, _). policy_decision_str decision) details,
      req_source = map_option (\<lambda>(_, source). source_str source) details, req_port = Some port, req_timestamp = now\<rparr>"

definition evaluate_at ::
  "net_env \<Rightarrow> dns \<Rightarrow> decider \<Rightarrow> network_policy_request \<Rightarrow> config_state net_result \<Rightarrow> network_decision net_result" where
  "evaluate_at E dns decider request s =
     (case s of
        Err e \<Rightarrow> Err e
      | Ok st \<Rightarrow>
          (case fst (evaluate_host_policy E dns (Ok None) decider request st) of
             Err e \<Rightarrow> Err e
           | Ok (decision, _) \<Rightarrow> Ok decision))"

definition policy_request ::
  "network_protocol \<Rightarrow> ustr \<Rightarrow> 16 word \<Rightarrow> ustr option \<Rightarrow> ustr option \<Rightarrow> network_policy_request" where
  "policy_request protocol host port client method =
     \<lparr>npr_protocol = protocol, npr_host = host, npr_port = port, npr_client_addr = client, npr_method = method,
      npr_command = None, npr_exec_policy_hint = None\<rparr>"

definition proxy_disabled_response ::
  "64 word \<Rightarrow> ustr \<Rightarrow> 16 word \<Rightarrow> ustr option \<Rightarrow> ustr option \<Rightarrow> network_protocol \<Rightarrow> http_response \<times> blocked_request list" where
  "proxy_disabled_response now host port client method protocol =
     (TextResponse 503 (blocked_message (lit ''proxy_disabled'')),
      [blocked_entry now host port (lit ''proxy_disabled'') client method None (as_policy_protocol protocol)
         (Some (PolicyDeny, ProxyState))])"

subsection \<open>CONNECT\<close>

record tunnel =
  tn_target :: authority
  tn_mode :: network_mode
  tn_mitm :: "mitm_upstream_config option"

definition http_connect_accept ::
  "net_env \<Rightarrow> dns \<Rightarrow> 64 word \<Rightarrow> snapshots \<Rightarrow> decider \<Rightarrow> http_request \<Rightarrow> (http_response, tunnel) result \<times> blocked_request list" where
  "http_connect_accept E dns now snap decider req =
     (case hr_authority req of
        None \<Rightarrow> (Err (TextResponse 400 (lit ''missing authority'')), [])
      | Some authority \<Rightarrow>
          (let host = normalize_host (auth_host authority); port = auth_port authority; client = hr_client req;
               method = Some (lit ''CONNECT'')
           in if host = [] then (Err (TextResponse 400 (lit ''invalid host'')), [])
              else case snap 0 of
                Err _ \<Rightarrow> (Err (TextResponse 500 (lit ''error'')), [])
              | Ok st \<Rightarrow>
                  if \<not> enabled (config st)
                  then (let (response, entries) = proxy_disabled_response now host port client method HttpsConnect in (Err response, entries))
                  else case evaluate_at E dns decider (policy_request HttpsConnect host port client method) (snap 1) of
                    Err _ \<Rightarrow> (Err (TextResponse 500 (lit ''error'')), [])
                  | Ok (NetDeny reason source decision) \<Rightarrow>
                      (Err (BlockedText reason),
                       [blocked_entry now host port reason client method None (lit ''http-connect'') (Some (decision, source))])
                  | Ok NetAllow \<Rightarrow>
                      (case snap 2 of
                         Err _ \<Rightarrow> (Err (TextResponse 500 (lit ''error'')), [])
                       | Ok st2 \<Rightarrow>
                           (case snap 3 of
                              Err _ \<Rightarrow> (Err (TextResponse 500 (lit ''error'')), [])
                            | Ok st3 \<Rightarrow>
                                if mode (config st2) = Limited \<and> mitm_state st3 = None
                                then (Err (BlockedText (lit ''mitm_required'')),
                                      [blocked_entry now host port (lit ''mitm_required'') client method (Some Limited)
                                         (lit ''http-connect'') (Some (PolicyDeny, ModeGuard))])
                                else (Ok \<lparr>tn_target = authority, tn_mode = mode (config st2), tn_mitm = mitm_state st3\<rparr>, [])))))"

text \<open>What is done with an accepted tunnel: interception, or bytes passed on with or without a proxy further up.\<close>

datatype tunnel_action = Intercept ustr "16 word" network_mode | PassThrough bool

definition http_connect_proxy :: "config_state net_result \<Rightarrow> tunnel \<Rightarrow> tunnel_action" where
  "http_connect_proxy s t =
     (if tn_mode t = Limited \<and> tn_mitm t \<noteq> None
      then Intercept (normalize_host (auth_host (tn_target t))) (auth_port (tn_target t)) (tn_mode t)
      else PassThrough (case s of Ok st \<Rightarrow> allow_upstream_proxy (config st) | Err _ \<Rightarrow> False))"

subsection \<open>Requests in an intercepted tunnel\<close>

text \<open>\<open>None\<close> lets the request through; the host is the one of its header or of its target.\<close>

definition mitm_blocking_response ::
  "net_env \<Rightarrow> dns \<Rightarrow> 64 word \<Rightarrow> config_state net_result \<Rightarrow> ustr \<Rightarrow> 16 word \<Rightarrow> network_mode \<Rightarrow> ustr \<Rightarrow> ustr option \<Rightarrow> ustr option
     \<Rightarrow> http_response option net_result \<times> blocked_request list" where
  "mitm_blocking_response E dns now s target_host target_port m method client request_host =
     (if method = lit ''CONNECT'' then (Ok (Some (TextResponse 405 (lit ''CONNECT not supported inside MITM''))), [])
      else if (case request_host of
                 Some h \<Rightarrow> (let normalized = normalize_host h in normalized \<noteq> [] \<and> normalized \<noteq> target_host)
               | None \<Rightarrow> False)
      then (Ok (Some (TextResponse 400 (lit ''host mismatch''))), [])
      else case s of
        Err e \<Rightarrow> (Err e, [])
      | Ok st \<Rightarrow>
          if host_decision E dns target_host target_port st = Blocked NotAllowedLocal
          then (Ok (Some (BlockedText (reason_str NotAllowedLocal))),
                [blocked_entry now target_host target_port (reason_str NotAllowedLocal) client (Some method) (Some m) (lit ''https'') None])
          else if \<not> allows_method m method
          then (Ok (Some (BlockedText (lit ''method_not_allowed''))),
                [blocked_entry now target_host target_port (lit ''method_not_allowed'') client (Some method) (Some m) (lit ''https'') None])
          else (Ok None, []))"

subsection \<open>Plain HTTP\<close>

definition validate_absolute_form_host_header :: "http_request \<Rightarrow> authority \<Rightarrow> (ustr, unit) result" where
  "validate_absolute_form_host_header req authority =
     (if \<not> hr_has_scheme req then Ok ()
      else case hr_host_header req of
        Err _ \<Rightarrow> Err (lit ''invalid Host header'')
      | Ok None \<Rightarrow> Ok ()
      | Ok (Some (host, port)) \<Rightarrow>
          if host \<noteq> auth_host authority then Err (lit ''Host header does not match request target'')
          else case port of
            Some port \<Rightarrow>
              if Some port \<noteq> auth_written_port authority then Err (lit ''Host header does not match request target'') else Ok ()
          | None \<Rightarrow>
              if \<not> auth_has_default_port authority then Err (lit ''Host header does not match request target'') else Ok ())"

datatype plain_action =
    Respond http_response
  | ForwardUnix ustr
  | Forward authority bool

definition unix_socket_proxy ::
  "bool \<Rightarrow> host_env \<Rightarrow> (path \<Rightarrow> path option) \<Rightarrow> 64 word \<Rightarrow> snapshots \<Rightarrow> bool \<Rightarrow> ustr \<Rightarrow> http_request \<Rightarrow> plain_action \<times> blocked_request list" where
  "unix_socket_proxy supported env canonicalize now snap method_ok socket_path req =
     (case snap 1 of
        Err _ \<Rightarrow> (Respond (TextResponse 500 (lit ''error'')), [])
      | Ok st \<Rightarrow>
          if \<not> enabled (config st)
          then (let (response, entries) = proxy_disabled_response now socket_path 0 (hr_client req) (Some (hr_method req)) Http
                in (Respond response, entries))
          else if \<not> method_ok then (Respond (JsonBlocked (lit ''unix-socket'') (lit ''method_not_allowed'')), [])
          else if \<not> supported then (Respond (TextResponse 501 (lit ''unix sockets unsupported'')), [])
          else case snap 2 of
            Err _ \<Rightarrow> (Respond (TextResponse 500 (lit ''error'')), [])
          | Ok st2 \<Rightarrow>
              (case fst (is_unix_socket_allowed supported env canonicalize (Ok None) socket_path st2) of
                 Err _ \<Rightarrow> (Respond (TextResponse 500 (lit ''error'')), [])
               | Ok b \<Rightarrow>
                   if b then (ForwardUnix socket_path, [])
                   else (Respond (JsonBlocked (lit ''unix-socket'') (lit ''not_allowed'')), [])))"

definition http_plain_proxy ::
  "net_env \<Rightarrow> dns \<Rightarrow> bool \<Rightarrow> host_env \<Rightarrow> (path \<Rightarrow> path option) \<Rightarrow> 64 word \<Rightarrow> snapshots \<Rightarrow> decider \<Rightarrow> http_request
     \<Rightarrow> plain_action \<times> blocked_request list" where
  "http_plain_proxy E dns supported env canonicalize now snap decider req =
     (case snap 0 of
        Err _ \<Rightarrow> (Respond (TextResponse 500 (lit ''error'')), [])
      | Ok st0 \<Rightarrow>
          (let method_ok = allows_method (mode (config st0)) (hr_method req); client = hr_client req; method = Some (hr_method req)
           in case hr_unix_socket req of
                Some None \<Rightarrow> (Respond (TextResponse 400 (lit ''invalid x-unix-socket header'')), [])
              | Some (Some socket_path) \<Rightarrow> unix_socket_proxy supported env canonicalize now snap method_ok socket_path req
              | None \<Rightarrow>
                  (case hr_authority req of
                     None \<Rightarrow> (Respond (TextResponse 400 (lit ''missing host'')), [])
                   | Some authority \<Rightarrow>
                       (let host = normalize_host (auth_host authority); port = auth_port authority
                        in case validate_absolute_form_host_header req authority of
                             Err reason \<Rightarrow> (Respond (TextResponse 400 reason), [])
                           | Ok _ \<Rightarrow>
                               (case snap 1 of
                                  Err _ \<Rightarrow> (Respond (TextResponse 500 (lit ''error'')), [])
                                | Ok st1 \<Rightarrow>
                                    if \<not> enabled (config st1)
                                    then (let (response, entries) = proxy_disabled_response now host port client method Http
                                          in (Respond response, entries))
                                    else case evaluate_at E dns decider (policy_request Http host port client method) (snap 2) of
                                      Err _ \<Rightarrow> (Respond (TextResponse 500 (lit ''error'')), [])
                                    | Ok (NetDeny reason source decision) \<Rightarrow>
                                        (Respond (JsonBlocked host reason),
                                         [blocked_entry now host port reason client method None (lit ''http'') (Some (decision, source))])
                                    | Ok NetAllow \<Rightarrow>
                                        if \<not> method_ok
                                        then (Respond (JsonBlocked host (lit ''method_not_allowed'')),
                                              [blocked_entry now host port (lit ''method_not_allowed'') client method (Some Limited)
                                                 (lit ''http'') (Some (PolicyDeny, ModeGuard))])
                                        else case snap 3 of
                                          Err _ \<Rightarrow> (Respond (TextResponse 500 (lit ''error'')), [])
                                        | Ok st3 \<Rightarrow> (Forward authority (allow_upstream_proxy (config st3)), []))))))"

subsection \<open>SOCKS5\<close>

datatype socks_error = InvalidSocksHost | SocksProxyError | PolicyDenied ustr

text \<open>
  The checks of \<^verbatim>\<open>handle_socks5_tcp\<close> and \<^verbatim>\<open>inspect_socks5_udp\<close>, which are the same but for the protocol; \<open>Ok\<close> hands the
  request to the connector or relays the packet.
\<close>

definition socks5_checks ::
  "net_env \<Rightarrow> dns \<Rightarrow> 64 word \<Rightarrow> snapshots \<Rightarrow> decider \<Rightarrow> network_protocol \<Rightarrow> ustr \<Rightarrow> ustr \<Rightarrow> 16 word \<Rightarrow> ustr option
     \<Rightarrow> (socks_error, unit) result \<times> blocked_request list" where
  "socks5_checks E dns now snap decider protocol protocol_name raw_host port client =
     (let host = normalize_host raw_host
      in if host = [] then (Err InvalidSocksHost, [])
         else case snap 0 of
           Err _ \<Rightarrow> (Err SocksProxyError, [])
         | Ok st0 \<Rightarrow>
             if \<not> enabled (config st0)
             then (Err (PolicyDenied (blocked_message (lit ''proxy_disabled''))),
                   [blocked_entry now host port (lit ''proxy_disabled'') client None None protocol_name (Some (PolicyDeny, ProxyState))])
             else case snap 1 of
               Err _ \<Rightarrow> (Err SocksProxyError, [])
             | Ok st1 \<Rightarrow>
                 (case mode (config st1) of
                    Limited \<Rightarrow>
                      (Err (PolicyDenied (blocked_message (lit ''method_not_allowed''))),
                       [blocked_entry now host port (lit ''method_not_allowed'') client None (Some Limited) protocol_name
                          (Some (PolicyDeny, ModeGuard))])
                  | Full \<Rightarrow>
                      (case evaluate_at E dns decider (policy_request protocol host port client None) (snap 2) of
                         Err _ \<Rightarrow> (Err SocksProxyError, [])
                       | Ok (NetDeny reason source decision) \<Rightarrow>
                           (Err (PolicyDenied (blocked_message reason)),
                            [blocked_entry now host port reason client None None protocol_name (Some (decision, source))])
                       | Ok NetAllow \<Rightarrow> (Ok (), []))))"

definition handle_socks5_tcp ::
  "net_env \<Rightarrow> dns \<Rightarrow> 64 word \<Rightarrow> snapshots \<Rightarrow> decider \<Rightarrow> ustr \<Rightarrow> 16 word \<Rightarrow> ustr option
     \<Rightarrow> (socks_error, unit) result \<times> blocked_request list" where
  "handle_socks5_tcp E dns now snap decider raw_host port client =
     socks5_checks E dns now snap decider Socks5Tcp (lit ''socks5'') raw_host port client"

definition inspect_socks5_udp ::
  "net_env \<Rightarrow> dns \<Rightarrow> 64 word \<Rightarrow> snapshots \<Rightarrow> decider \<Rightarrow> ustr \<Rightarrow> 16 word \<Rightarrow> ustr option
     \<Rightarrow> (socks_error, unit) result \<times> blocked_request list" where
  "inspect_socks5_udp E dns now snap decider raw_host port client =
     socks5_checks E dns now snap decider Socks5Udp (lit ''socks5-udp'') raw_host port client"

section \<open>What the handlers let through\<close>

lemma evaluate_at_allow: "evaluate_at E dns decider request s = Ok NetAllow \<longleftrightarrow> (\<exists>st. s = Ok st \<and> permitted E dns decider request st)"
proof (cases s)
  case (Ok st)
  have "reload_if_needed (Ok None) st = Ok st" by (simp add: reload_if_needed_def)
  from evaluate_permitted [OF this, of E dns decider request] Ok show ?thesis
    by (auto simp: evaluate_at_def split: result.splits)
qed (simp add: evaluate_at_def)

text \<open>A request passes the checks that all protocols share.\<close>

definition vetted ::
  "net_env \<Rightarrow> dns \<Rightarrow> decider \<Rightarrow> network_policy_request \<Rightarrow> config_state net_result \<Rightarrow> config_state net_result \<Rightarrow> bool" where
  "vetted E dns decider request s s' \<longleftrightarrow>
     (\<exists>st st'. s = Ok st \<and> enabled (config st) \<and> s' = Ok st' \<and> permitted E dns decider request st')"

lemma connect_accepts:
  assumes "fst (http_connect_accept E dns now snap decider req) = Ok t"
  shows "vetted E dns decider (policy_request HttpsConnect (normalize_host (auth_host (tn_target t))) (auth_port (tn_target t))
      (hr_client req) (Some (lit ''CONNECT''))) (snap 0) (snap 1)
    \<and> hr_authority req = Some (tn_target t)
    \<and> (\<exists>st. snap 2 = Ok st \<and> tn_mode t = mode (config st)) \<and> (tn_mode t = Limited \<longrightarrow> tn_mitm t \<noteq> None)"
  using assms
  by (auto simp: http_connect_accept_def vetted_def evaluate_at_allow proxy_disabled_response_def Let_def simp del: lit_def
      split: option.splits if_splits result.splits network_decision.splits)

lemma plain_forwards:
  assumes "fst (http_plain_proxy E dns supported env canonicalize now snap decider req) = Forward a upstream"
  shows "vetted E dns decider (policy_request Http (normalize_host (auth_host a)) (auth_port a) (hr_client req) (Some (hr_method req)))
      (snap 1) (snap 2)
    \<and> hr_authority req = Some a \<and> (\<exists>st. snap 0 = Ok st \<and> allows_method (mode (config st)) (hr_method req))"
  using assms
  by (auto simp: http_plain_proxy_def unix_socket_proxy_def vetted_def evaluate_at_allow proxy_disabled_response_def Let_def simp del: lit_def
      split: option.splits if_splits result.splits network_decision.splits)

lemma socks5_accepts:
  assumes "fst (socks5_checks E dns now snap decider protocol protocol_name host port client) = Ok ()"
  shows "vetted E dns decider (policy_request protocol (normalize_host host) port client None) (snap 0) (snap 2)
    \<and> (\<exists>st. snap 1 = Ok st \<and> mode (config st) = Full)"
  using assms
  by (auto simp: socks5_checks_def vetted_def evaluate_at_allow Let_def simp del: lit_def
      split: option.splits if_splits result.splits network_decision.splits network_mode.splits)

lemma unix_forwards:
  assumes "fst (http_plain_proxy E dns supported env canonicalize now snap decider req) = ForwardUnix socket_path"
  shows "hr_unix_socket req = Some (Some socket_path) \<and> supported
    \<and> (\<exists>st0. snap 0 = Ok st0 \<and> allows_method (mode (config st0)) (hr_method req))
    \<and> (\<exists>st1. snap 1 = Ok st1 \<and> enabled (config st1))
    \<and> (\<exists>st2. snap 2 = Ok st2 \<and> fst (is_unix_socket_allowed True env canonicalize (Ok None) socket_path st2) = Ok True)"
  using assms
  by (auto simp: http_plain_proxy_def unix_socket_proxy_def proxy_disabled_response_def Let_def simp del: lit_def
      split: option.splits if_splits result.splits network_decision.splits)

lemma limited_method: "allows_method m method \<Longrightarrow> m = Limited \<Longrightarrow> method \<in> {lit ''GET'', lit ''HEAD'', lit ''OPTIONS''}"
  by (simp add: allows_method_def del: lit_def)

lemma socket_allowed_facts:
  assumes "fst (is_unix_socket_allowed True env canonicalize (Ok None) p st) = Ok True"
  shows "is_absolute (components p) \<and> (dangerously_allow_all_unix_sockets (config st)
    \<or> (\<exists>requested. from_absolute_path (env_home env) (env_current_dir env) p = Ok requested
        \<and> socket_path_matches env canonicalize requested (canonicalize requested) (allow_unix_sockets (config st))))"
  using assms by (auto simp: is_unix_socket_allowed_def with_reload_def reload_if_needed_def split: if_splits result.splits)

text \<open>
  In limited mode an accepted tunnel is intercepted; a request inside it is passed on with a method of the mode and a
  target that is not found local, and nothing else is checked again.
\<close>

lemma limited_tunnel_intercepted:
  assumes "fst (http_connect_accept E dns now snap decider req) = Ok t" and "snap 2 = Ok st" and "mode (config st) = Limited"
  shows "http_connect_proxy s t = Intercept (normalize_host (auth_host (tn_target t))) (auth_port (tn_target t)) Limited"
  using connect_accepts [OF assms(1)] assms(2,3) by (auto simp: http_connect_proxy_def simp del: lit_def)

lemma intercepted_request:
  assumes "fst (mitm_blocking_response E dns now s host port m method client request_host) = Ok None"
  shows "allows_method m method \<and> (\<exists>st. s = Ok st \<and> host_decision E dns host port st \<noteq> Blocked NotAllowedLocal)"
  using assms by (auto simp: mitm_blocking_response_def Let_def simp del: lit_def split: if_splits option.splits result.splits)

text \<open>
  C7: What the HTTP and SOCKS5 handlers let through has passed the checks, whatever happens to the settings between
  their questions to the state.  A tunnel is accepted, a plain request forwarded and a SOCKS5 connection or packet
  passed on only if the proxy was found enabled and the request's host permitted: allowed by the lists, or let through by the
  decider where the lists leave it the choice.  A request to a Unix socket is forwarded only if the proxy was found
  enabled, the platform supports it, and the path is absolute and on the list of allowed sockets, unless all are allowed.
  In limited mode plain requests and requests to a Unix socket have one of the methods GET, HEAD and OPTIONS; SOCKS5 is
  passed on only in full mode.  What happens inside an accepted tunnel is not within the statement.
\<close>

theorem let_through_requests_were_vetted:
  "(fst (http_connect_accept E dns now snap decider req) = Ok t \<longrightarrow>
      hr_authority req = Some (tn_target t)
      \<and> vetted E dns decider (policy_request HttpsConnect (normalize_host (auth_host (tn_target t))) (auth_port (tn_target t))
        (hr_client req) (Some (lit ''CONNECT''))) (snap 0) (snap 1))
   \<and> (fst (http_plain_proxy E dns supported env canonicalize now snap decider req) = Forward a upstream \<longrightarrow>
      hr_authority req = Some a
      \<and> vetted E dns decider (policy_request Http (normalize_host (auth_host a)) (auth_port a) (hr_client req) (Some (hr_method req)))
        (snap 1) (snap 2)
      \<and> (\<exists>st. snap 0 = Ok st
           \<and> (mode (config st) = Limited \<longrightarrow> hr_method req \<in> {lit ''GET'', lit ''HEAD'', lit ''OPTIONS''})))
   \<and> (fst (http_plain_proxy E dns supported env canonicalize now snap decider req) = ForwardUnix socket_path \<longrightarrow>
      hr_unix_socket req = Some (Some socket_path) \<and> supported
      \<and> (\<exists>st. snap 0 = Ok st
           \<and> (mode (config st) = Limited \<longrightarrow> hr_method req \<in> {lit ''GET'', lit ''HEAD'', lit ''OPTIONS''}))
      \<and> (\<exists>st. snap 1 = Ok st \<and> enabled (config st))
      \<and> (\<exists>st. snap 2 = Ok st \<and> is_absolute (components socket_path)
           \<and> (dangerously_allow_all_unix_sockets (config st)
              \<or> (\<exists>requested. from_absolute_path (env_home env) (env_current_dir env) socket_path = Ok requested
                   \<and> socket_path_matches env canonicalize requested (canonicalize requested) (allow_unix_sockets (config st))))))
   \<and> (fst (handle_socks5_tcp E dns now snap decider host port client) = Ok () \<longrightarrow>
      vetted E dns decider (policy_request Socks5Tcp (normalize_host host) port client None) (snap 0) (snap 2)
      \<and> (\<exists>st. snap 1 = Ok st \<and> mode (config st) = Full))
   \<and> (fst (inspect_socks5_udp E dns now snap decider host port client) = Ok () \<longrightarrow>
      vetted E dns decider (policy_request Socks5Udp (normalize_host host) port client None) (snap 0) (snap 2)
      \<and> (\<exists>st. snap 1 = Ok st \<and> mode (config st) = Full))" (is "?connect \<and> ?plain \<and> ?unix \<and> ?tcp \<and> ?udp")
proof (intro conjI)
  show ?connect using connect_accepts [of E dns now snap decider req t] by blast
  show ?plain using plain_forwards [of E dns supported env canonicalize now snap decider req a upstream] limited_method by blast
  show ?unix
    using unix_forwards [of E dns supported env canonicalize now snap decider req socket_path] limited_method socket_allowed_facts by blast
  show ?tcp unfolding handle_socks5_tcp_def using socks5_accepts by blast
  show ?udp unfolding inspect_socks5_udp_def using socks5_accepts by blast
qed

definition limited_state :: config_state where
  "limited_state = example_state\<lparr>config := example_config\<lparr>mode := Limited\<rparr>\<rparr>"

definition plain_request :: http_request where
  "plain_request =
     \<lparr>hr_method = lit ''GET'', hr_client = None, hr_unix_socket = None,
      hr_authority = Some \<lparr>auth_host = lit ''API.example.com'', auth_port = 80, auth_written_port = None, auth_has_default_port = True\<rparr>,
      hr_has_scheme = False, hr_host_header = Ok None\<rparr>"

theorem let_through_requests_were_vetted_witness:
  "\<exists>a upstream. fst (http_plain_proxy simple_net_env (\<lambda>_ _. Some [V4 0x5DB8D822]) True example_env Some 0 (\<lambda>_. Ok limited_state) None
       plain_request) = Forward a upstream
     \<and> vetted simple_net_env (\<lambda>_ _. Some [V4 0x5DB8D822]) None
         (policy_request Http (normalize_host (auth_host a)) (auth_port a) None (Some (lit ''GET''))) (Ok limited_state) (Ok limited_state)"
proof -
  let ?d = "\<lambda>_ _. Some [V4 0x5DB8D822]"
    and ?a = "\<lparr>auth_host = lit ''API.example.com'', auth_port = 80, auth_written_port = None, auth_has_default_port = True\<rparr>"
  obtain upstream where f:
    "fst (http_plain_proxy simple_net_env ?d True example_env Some 0 (\<lambda>_. Ok limited_state) None plain_request) = Forward ?a upstream"
  proof -
    have "fst (http_plain_proxy simple_net_env ?d True example_env Some 0 (\<lambda>_. Ok limited_state) None plain_request)
        = Forward ?a (allow_upstream_proxy (config limited_state))" by code_simp
    with that show thesis by blast
  qed
  have "hr_client plain_request = None" "hr_method plain_request = lit ''GET''" by (simp_all add: plain_request_def)
  with let_through_requests_were_vetted [of simple_net_env ?d 0 "\<lambda>_. Ok limited_state" None plain_request] f
  show ?thesis by metis
qed

text \<open>A request that is refused for a reason of policy is recorded once with that reason; one that is let through is not.\<close>

lemma connect_records:
  "fst (http_connect_accept E dns now snap decider req) = Err (BlockedText reason) \<Longrightarrow>
     \<exists>e. snd (http_connect_accept E dns now snap decider req) = [e] \<and> req_reason e = reason"
  "fst (http_connect_accept E dns now snap decider req) = Ok t \<Longrightarrow> snd (http_connect_accept E dns now snap decider req) = []"
  by (auto simp: http_connect_accept_def proxy_disabled_response_def blocked_entry_def Let_def simp del: lit_def
      split: option.splits if_splits result.splits network_decision.splits)

lemma plain_records:
  "fst (http_plain_proxy E dns supported env canonicalize now snap decider req) = Respond (JsonBlocked host reason) \<Longrightarrow>
     hr_unix_socket req = None \<Longrightarrow>
     \<exists>e. snd (http_plain_proxy E dns supported env canonicalize now snap decider req) = [e] \<and> req_reason e = reason \<and> req_host e = host"
  "fst (http_plain_proxy E dns supported env canonicalize now snap decider req) = Forward a upstream \<Longrightarrow>
     snd (http_plain_proxy E dns supported env canonicalize now snap decider req) = []"
  by (auto simp: http_plain_proxy_def unix_socket_proxy_def proxy_disabled_response_def blocked_entry_def Let_def simp del: lit_def
      split: option.splits if_splits result.splits network_decision.splits)

text \<open>A request for a Unix socket is not recorded when the method or the socket is not allowed.\<close>

lemma unix_socket_refusal_not_recorded:
  "fst (unix_socket_proxy supported env canonicalize now snap method_ok socket_path req) = Respond (JsonBlocked host reason) \<Longrightarrow>
     snd (unix_socket_proxy supported env canonicalize now snap method_ok socket_path req) = []"
  by (auto simp: unix_socket_proxy_def proxy_disabled_response_def Let_def simp del: lit_def split: option.splits if_splits result.splits)

end
