(* ===== verification/Spec2Isabelle.thy ===== *)
theory Spec2Isabelle
  imports Patch_Roundtrip Apply_Invocation Policy_Amend Assistant_Stream Policy_Updates
    Context_History Net_Spec Net_Handlers
begin

text \<open>
  \<^bold>\<open>Verification of the patch engine, the execution policy, the network proxy's decisions, the stream parsers, the
  configuration layers and the conversation history of the agent.\<close>

  The program is a coding agent for the terminal.  A model proposes commands and patches; the program decides
  which commands may run and which hosts they may reach, applies patches to the files of the user, shows the streamed
  answer of the model, and keeps the conversation that is sent to the model next.  The theories model the parts of it that
  compute: text, decisions, state and file contents.  They are definitions of HOL that follow the Rust
  functions of the same names, and they can be evaluated.

  \<^bold>\<open>Conventions.\<close>
  A \<^verbatim>\<open>str\<close> is the list of its Unicode scalar values (\<open>ustr\<close>); lengths and offsets in bytes go through the UTF-8
  length of theory \<open>Utf8\<close>.  \<^verbatim>\<open>Result\<close> is \<open>result\<close>; code that can panic returns \<open>'e fault\<close>, so that a panic is a value
  and its absence a theorem.  A trait is a record of operations.  Machine integers are natural or
  integer numbers with saturation, wrap-around or the overflow panic written out where the code can reach the
  bounds (\<open>Text_Truncation\<close>, \<open>Context_History\<close>); bytes are 8-bit words, ports 16-bit, IPv4 and IPv6 addresses 32- and 128-bit
  words.  The target is not Windows.  A definition that is one loop, branch or constant of a function is part of the
  lines of that function.
  Third-party code is a parameter: the shell grammar, the PowerShell parser, the Starlark
  interpreter, \<^verbatim>\<open>shlex\<close>, the line diff, JSON and XML readers and writers, image decoding, and the
  fingerprint of configuration values, glob and URL matching, the lookup of names and the TOML reader of network tables.
  What is assumed of such code is a named hypothesis: \<open>documented_grammar\<close> (a node's text is part of the script),
  \<open>documented_globs\<close> and \<open>documented_hosts\<close> (what plain names and the two wildcard forms match), \<open>json_safe\<close> (a string prints as
  one line); witnesses instantiate each of them.

  \<^bold>\<open>Patches\<close> (\<^verbatim>\<open>src/apply-patch/src\<close>).
  \<^item> \<open>Patch_Parser\<close> is \<^verbatim>\<open>parser.rs\<close>: text to hunks in strict, lenient and streaming mode.  It never panics, and its
    hunks are well-formed.  \<open>Patch_Roundtrip\<close> prints hunks by the documented grammar and shows that parsing gives them back.
  \<^item> \<open>Seek_Sequence\<close> is \<^verbatim>\<open>seek_sequence.rs\<close>, the search for the lines of a chunk: it is complete for its range and prefers
    exact matches.  \<open>Replacements\<close> is the text part of \<^verbatim>\<open>lib.rs\<close>: from chunks to replacements to the new
    contents.  Regions lie in the file, the code from the back equals a one-pass splice, and an edit
    script is carried out.
  \<^item> \<open>File_System\<close> is the trait \<^verbatim>\<open>ExecutorFileSystem\<close> (\<^verbatim>\<open>src/file-system/src/lib.rs\<close>), its contract, the locale \<open>executor_fs\<close>,
    and the local implementation (\<^verbatim>\<open>src/exec-server/src/local_file_system.rs\<close>), which fulfils it.  \<open>Paths\<close> is \<^verbatim>\<open>std::path\<close> as far as it is
    used and \<^verbatim>\<open>src/utils/fs/src/absolute_path\<close>.
  \<^item> \<open>Apply_Patch\<close> is the rest of \<^verbatim>\<open>lib.rs\<close>, proved in the locale for any file system: a run refines the effect of the hunks on
    a map from paths to contents and changes no other file.  \<open>Apply_Invocation\<close> is \<^verbatim>\<open>invocation.rs\<close>: what is shown for approval is what
    is applied.

  \<^bold>\<open>Execution policy\<close> (\<^verbatim>\<open>src/execpolicy/src\<close>, \<^verbatim>\<open>src/shell-command/src\<close>, \<^verbatim>\<open>src/core/src/exec_policy.rs\<close>).
  \<^item> \<open>Exec_Rule\<close> and \<open>Exec_Policy\<close> are \<^verbatim>\<open>decision.rs\<close>, \<^verbatim>\<open>rule.rs\<close>, \<^verbatim>\<open>executable_name.rs\<close> and \<^verbatim>\<open>policy.rs\<close>, with the locale \<open>command_rule\<close>:
    the strictest of the rules whose pattern the command starts with decides, the index by program loses no match, and
    overlays never weaken.
  \<^item> \<open>Policy_Builder\<close> is \<^verbatim>\<open>parser.rs\<close>, which accepts a rules file only if its examples hold, and \<open>Policy_Amend\<close> is \<^verbatim>\<open>amend.rs\<close>,
    which adds a rule once.
  \<^item> \<open>Shell_Parse\<close> reads shell invocations and scripts of plain commands (\<^verbatim>\<open>bash.rs\<close>, \<^verbatim>\<open>shell_detect.rs\<close>, \<^verbatim>\<open>powershell.rs\<close>);
    \<open>Command_Safety\<close> is the lists of safe and dangerous commands, which are disjoint.
  \<^item> \<open>Exec_Approval\<close> is the decision on a request: it follows the verdict of the policy, never skips a dangerous
    command, and an accepted amendment approves the same request.
  \<^item> \<open>Requirements_Policy\<close> is \<^verbatim>\<open>src/config/src/requirements_exec_policy.rs\<close>; \<open>Policy_Loading\<close> loads the rules files of the configuration
    layers; \<open>Policy_Updates\<close> is the manager with its semaphore, as the step relation \<open>update_step\<close> over any number of
    tasks.  The updates are serialised, they finish, none is lost, and managed rules stay in force; the two
    invariants are interpretations of the locale \<open>update_invariant\<close>.

  \<^bold>\<open>Configuration\<close> (\<^verbatim>\<open>src/config/src\<close>).
  \<open>Config_Toml\<close> is the merging of values, key aliases and overrides; \<open>Config_Layers\<close> is the stack of layers of \<^verbatim>\<open>state.rs\<close>.  The effective
  configuration has at each path the value of the highest layer that sets or hides it, origins name that
  layer, and replacing the user layer keeps the order.

  \<^bold>\<open>Network proxy\<close> (\<^verbatim>\<open>src/network-proxy/src\<close>, \<^verbatim>\<open>src/core/src/network_proxy_loader.rs\<close>, \<^verbatim>\<open>src/core/src/config/network_proxy_spec.rs\<close>).
  \<^item> \<open>Net_Address\<close> and \<open>Net_Domain\<close> are \<^verbatim>\<open>policy.rs\<close>: addresses that are not public, which are exactly those of the listed blocks, the
    normal forms of hosts, domain patterns and their compiled lists, and the comparison of patterns, which is inclusion of
    the hosts they cover.
  \<^item> \<open>Net_Config\<close> is \<^verbatim>\<open>config.rs\<close>: settings, the addresses to listen on, which are kept to the machine, and Unix sockets.
    \<open>Net_Constraints\<close> is \<^verbatim>\<open>state.rs\<close>: the check of settings against managed constraints, and the state that is built from them.
  \<^item> \<open>Net_Runtime\<close> is \<^verbatim>\<open>runtime.rs\<close>, \<^verbatim>\<open>network_policy.rs\<close> and \<^verbatim>\<open>connect_policy.rs\<close>: the decision on a host and a request, which is
    allowed under exactly one condition, the updates of mode and lists, and the buffer of blocked requests.  \<open>Net_Concurrency\<close>
    has the locks of the same operations as the step relation \<open>proxy_step\<close>: every run amounts to a sequence of atomic
    steps in which each successful operation occurs once (\<open>history\<close>).
  \<^item> \<open>Net_Handlers\<close> is \<^verbatim>\<open>http_proxy.rs\<close>, \<^verbatim>\<open>mitm.rs\<close> and \<^verbatim>\<open>socks5.rs\<close> up to the point where a request is forwarded or refused; each question
    to the state may meet another state.  What is let through was found enabled and permitted.
  \<^item> \<open>Net_Loading\<close> loads settings from all layers and constraints from those of an administrator, and puts the network rules of the
    execution policy on top; the constraints hold at every point of every run.  \<open>Net_Spec\<close> lays the requirements of an
    administrator over the settings of a session: the result passes their check, and managed domains can be made
    the only ones.

  \<^bold>\<open>Streams\<close> (\<^verbatim>\<open>src/utils/common/src/stream_parser\<close>).
  \<open>Stream_Text\<close> has the contract \<open>stream_text_parser\<close>: the result does not depend on where the text is cut.  \<open>Inline_Tags\<close> (hidden
  tags and citations) and \<open>Tagged_Lines\<close> (proposed plans) fulfil it; \<open>Assistant_Stream\<close> chains them and feeds them from bytes
  over \<open>Utf8\<close>.

  \<^bold>\<open>Conversation\<close> (\<^verbatim>\<open>src/utils/common/src/string.rs\<close>, \<^verbatim>\<open>src/utils/output-truncation/src/lib.rs\<close>, \<^verbatim>\<open>src/core/src/context_manager\<close>).
  \<^item> \<open>Text_Truncation\<close> truncates texts and tool output.  It shows exactly when the subtraction in \<^verbatim>\<open>truncate_middle_chars\<close> underflows,
    and bounds what is kept when it wraps around.
  \<^item> \<open>Context_Items\<close> has the items of \<^verbatim>\<open>src/protocol/src/models.rs\<close> and recognises injected context: what the program renders is
    recognised and is no turn of the user.
  \<^item> \<open>Context_Normalize\<close> is \<^verbatim>\<open>normalize.rs\<close>; \<open>Context_History\<close> is \<^verbatim>\<open>history.rs\<close> with the token counts of \<^verbatim>\<open>src/protocol/src/protocol.rs\<close>.  What
    is sent has calls and outputs paired, removals keep the pairs, rolling back drops whole turns, and
    the version tells whether the history was rewritten (\<open>history_step\<close>).

  \<^bold>\<open>Bounds and fuel.\<close>
  Every loop is a total function.  One takes fuel, \<open>inline_loop\<close> of \<open>Inline_Tags\<close>: one more than the number of pending
  characters is enough, because each round consumes a character or stops
  (\<open>inline_push_str_terminates\<close>).  The truncation theorems assume texts shorter than \<open>2 ^ 63\<close> bytes, which is
  what an allocation can hold; \<open>version_marks_rewrites\<close> assumes that the 64-bit version has not saturated.  The retry loops of
  the network proxy are steps of \<open>proxy_step\<close>, so that a task may go round any number of times.

  \<^bold>\<open>Not modelled.\<close>
  \<^item> The terminal interface, the application server, model and tool protocols, process execution,
    databases, session files, telemetry, login and key stores: input and output around services, processes and
    third-party libraries.  Of the network proxy: its listeners and server tasks, connections to other hosts, TLS and
    certificates, the rewriting of headers, log lines, and starting and stopping it.
  \<^item> Of the modelled crates: the executables that wrap them, the tree-sitter query of \<^verbatim>\<open>invocation.rs\<close>, Windows paths
    and command lists, symbolic links, time stamps and copying in the file system, failures of file locks, source
    locations of policy errors and the display of policy errors, \<^verbatim>\<open>find_uuids\<close> (a regular expression), the cache of image
    estimates, the bodies of context fragments, and the conversion of items to turn items.
  \<^item> Computations not reached yet: the legacy execution policy (\<^verbatim>\<open>src/execpolicy-legacy\<close>), the summaries of shell
    commands (\<^verbatim>\<open>parse_command.rs\<close>), and templates and caches in \<^verbatim>\<open>src/utils\<close>.
\<close>

end
